(* ===== verification/Prelude.thy ===== *)
theory Prelude
  imports Main "HOL-Library.Char_ord" "HOL-Library.List_Lexorder"
begin

section \<open>Prelude\<close>

text \<open>
  What every component of the development shares.

  Go values and how they are written here:
  \<^item> a Go \<open>string\<close> and a \<open>[]byte\<close> are a \<^typ>\<open>string\<close>: a list of 8-bit characters. With
    \<open>Char_ord\<close> and \<open>List_Lexorder\<close> the order on \<^typ>\<open>string\<close> is the bytewise lexicographic
    order of Go, so \<open>sort\<close> is \<open>sort.Strings\<close>;
  \<^item> a \<open>time.Time\<close> is an \<^typ>\<open>int\<close>, the nanoseconds since Go's zero time, and a
    \<open>time.Duration\<close> is an \<^typ>\<open>int\<close> of nanoseconds. Go keeps a duration in 64 bits: a product of
    durations wraps around (\<open>wrap64\<close>) and the difference of two times saturates (\<open>time_sub\<close>);
  \<^item> an \<open>error\<close> result is the left of a sum and a panic is \<open>None\<close>;
  \<^item> a Go map is a partial function.
\<close>

type_synonym instant = int
type_synonym duration = int

subsection \<open>64-bit arithmetic\<close>

definition max_int64 :: int where
  "max_int64 = 2 ^ 63 - 1"

definition min_int64 :: int where
  "min_int64 = - (2 ^ 63)"

definition wrap64 :: "int \<Rightarrow> int" where
  "wrap64 x = (x + 2 ^ 63) mod 2 ^ 64 - 2 ^ 63"

text \<open>\<open>Time.Sub\<close>: the difference of two times, saturated to what a duration can hold.\<close>

definition time_sub :: "instant \<Rightarrow> instant \<Rightarrow> duration" where
  "time_sub t u = max min_int64 (min max_int64 (t - u))"

named_theorems int64_simps \<open>64-bit arithmetic within its range is plain arithmetic\<close>

lemma wrap64_id [int64_simps]: "min_int64 \<le> x \<Longrightarrow> x \<le> max_int64 \<Longrightarrow> wrap64 x = x"
  by (simp add: wrap64_def min_int64_def max_int64_def)

lemma time_sub_id [int64_simps]:
  "min_int64 \<le> t - u \<Longrightarrow> t - u \<le> max_int64 \<Longrightarrow> time_sub t u = t - u"
  by (simp add: time_sub_def)

lemma wrap64_range: "min_int64 \<le> wrap64 x \<and> wrap64 x \<le> max_int64"
proof -
  have "0 \<le> (x + 2 ^ 63) mod (2 ^ 64 :: int)" "(x + 2 ^ 63) mod (2 ^ 64 :: int) < 2 ^ 64"
    by simp_all
  then show ?thesis
    by (simp add: wrap64_def min_int64_def max_int64_def)
qed

lemma time_sub_range: "min_int64 \<le> time_sub t u \<and> time_sub t u \<le> max_int64"
  by (auto simp: time_sub_def min_int64_def max_int64_def)

lemma time_sub_nonneg: "u \<le> t \<Longrightarrow> 0 \<le> time_sub t u"
  by (simp add: time_sub_def min_int64_def max_int64_def)

lemma time_sub_mono: "t \<le> t' \<Longrightarrow> time_sub t u \<le> time_sub t' u"
  by (auto simp: time_sub_def)

subsection \<open>Division\<close>

text \<open>Go's integer division truncates towards zero; \<open>Duration.Milliseconds\<close> is one.\<close>

definition go_div :: "int \<Rightarrow> int \<Rightarrow> int" where
  "go_div a b = (if (a < 0) = (b < 0) then \<bar>a\<bar> div \<bar>b\<bar> else - (\<bar>a\<bar> div \<bar>b\<bar>))"

definition millisecond :: duration where
  "millisecond = 1000000"

lemma go_div_nonneg: "0 \<le> a \<Longrightarrow> 0 < b \<Longrightarrow> go_div a b = a div b"
  by (simp add: go_div_def)

lemma go_div_mono: "0 < b \<Longrightarrow> a \<le> a' \<Longrightarrow> go_div a b \<le> go_div a' b"
proof -
  assume b: "0 < b" and a: "a \<le> a'"
  consider "0 \<le> a" | "a < 0" "0 \<le> a'" | "a' < 0" by linarith
  then show ?thesis
  proof cases
    case 1
    then show ?thesis using a b by (simp add: go_div_def zdiv_mono1)
  next
    case 2
    then have "0 \<le> \<bar>a\<bar> div \<bar>b\<bar>" "0 \<le> \<bar>a'\<bar> div \<bar>b\<bar>" using b by (simp_all add: pos_imp_zdiv_nonneg_iff)
    then show ?thesis using 2 b by (simp add: go_div_def)
  next
    case 3
    then show ?thesis using a b by (simp add: go_div_def zdiv_mono1)
  qed
qed

subsection \<open>Lists\<close>

lemma concat_map_if: "concat (map (\<lambda>x. if P x then [f x] else []) xs) = map f (filter P xs)"
  by (induction xs) simp_all

end
