(* ===== verification/RateLimit.thy ===== *)
theory RateLimit
  imports Prelude
begin

section \<open>Rate limits\<close>

text \<open>
  The package \<open>utils/ratelimit\<close>: a bucket per limit, kept as the time it would be full again;
  a limiter that lets an event through only when every bucket has room; and a keyed limiter that
  keeps one set of buckets per key and forgets the keys whose room fully came back.

  A call that changes a bucket returns the new bucket. The mutex of the code makes every call
  atomic, so a run of a limiter is a sequence of calls.
\<close>

subsection \<open>Limits and buckets\<close>

record limit =
  count :: int
  per :: duration

definition valid_limit :: "limit \<Rightarrow> bool" where
  "valid_limit l = (count l > 0 \<and> per l > 0)"

record bucket =
  b_interval :: duration
  b_per :: duration
  full_at :: instant
  latest :: instant

text \<open>Both operands are positive, so Go's truncating division is \<open>div\<close>.\<close>

definition new_bucket :: "limit \<Rightarrow> bucket" where
  "new_bucket l = \<lparr>b_interval = per l div count l, b_per = per l, full_at = 0, latest = 0\<rparr>"

definition bucket_at :: "bucket \<Rightarrow> instant \<Rightarrow> bucket \<times> instant" where
  "bucket_at b now = (if now < latest b then (b, latest b) else (b\<lparr>latest := now\<rparr>, now))"

definition after :: "bucket \<Rightarrow> instant \<Rightarrow> int \<Rightarrow> instant" where
  "after b now n =
     (let start = (if full_at b < now then now else full_at b)
      in start + wrap64 (n * b_interval b))"

definition wait :: "bucket \<Rightarrow> instant \<Rightarrow> int \<Rightarrow> duration" where
  "wait b now n = max 0 (wrap64 (time_sub (after b now n) now - b_per b))"

definition full :: "bucket \<Rightarrow> instant \<Rightarrow> bool" where
  "full b now = (\<not> full_at b > now)"

subsection \<open>The limiter\<close>

text \<open>The first loop of \<open>allow\<close>: the longest wait over the buckets.\<close>

fun longest_wait :: "bucket list \<Rightarrow> instant \<Rightarrow> int \<Rightarrow> duration \<Rightarrow> bucket list \<times> duration" where
  "longest_wait [] now n retry_after = ([], retry_after)"
| "longest_wait (b # bs) now n retry_after =
     (let (b', at) = bucket_at b now;
          (bs', r) = longest_wait bs now n (max retry_after (wait b' at n))
      in (b' # bs', r))"

text \<open>The second loop: every bucket takes the events.\<close>

definition take_events :: "instant \<Rightarrow> int \<Rightarrow> bucket \<Rightarrow> bucket" where
  "take_events now n b = (let (b', at) = bucket_at b now in b'\<lparr>full_at := after b' at n\<rparr>)"

definition allow :: "bucket list \<Rightarrow> instant \<Rightarrow> int \<Rightarrow> bucket list \<times> bool \<times> duration" where
  "allow bs now n =
     (let (bs', retry_after) = longest_wait bs now n 0
      in if retry_after > 0 then (bs', False, retry_after)
         else (map (take_events now n) bs', True, 0))"

text \<open>A limiter is its buckets; \<open>New\<close> panics on a limit that allows nothing.\<close>

type_synonym limiter = "bucket list"

definition new_limiter :: "limit list \<Rightarrow> limiter option" where
  "new_limiter limits = (if list_all valid_limit limits then Some (map new_bucket limits) else None)"

definition allow_n :: "limiter \<Rightarrow> instant \<Rightarrow> int \<Rightarrow> limiter \<times> bool \<times> duration" where
  "allow_n l now n = allow l now n"

definition allow_one :: "limiter \<Rightarrow> instant \<Rightarrow> limiter \<times> bool \<times> duration" where
  "allow_one l now = allow_n l now 1"

definition record_bucket :: "instant \<Rightarrow> bucket \<Rightarrow> bucket" where
  "record_bucket now b =
     (let (b', at) = bucket_at b now;
          b'' = b'\<lparr>full_at := after b' at 1\<rparr>;
          limit = at + b_per b''
      in if full_at b'' > limit then b''\<lparr>full_at := limit\<rparr> else b'')"

definition record_event :: "limiter \<Rightarrow> instant \<Rightarrow> limiter" where
  "record_event l now = map (record_bucket now) l"

subsection \<open>The keyed limiter\<close>

record keyed =
  k_limits :: "limit list"
  sweep_every :: duration
  subjects :: "string \<Rightarrow> bucket list option"
  last_sweep :: instant

definition longest_per :: "limit list \<Rightarrow> duration" where
  "longest_per limits = fold (\<lambda>l m. max m (per l)) limits 0"

definition new_keyed :: "limit list \<Rightarrow> keyed option" where
  "new_keyed limits =
     (if list_all valid_limit limits
      then Some \<lparr>k_limits = limits, sweep_every = longest_per limits,
                 subjects = (\<lambda>_. None), last_sweep = 0\<rparr>
      else None)"

definition sweep :: "keyed \<Rightarrow> instant \<Rightarrow> keyed \<times> bool" where
  "sweep k now =
     (if time_sub now (last_sweep k) < sweep_every k then (k, False)
      else (k\<lparr>last_sweep := now,
              subjects := (\<lambda>key. case subjects k key of None \<Rightarrow> None
                 | Some bs \<Rightarrow> if list_all (\<lambda>b. full b now) bs then None else Some bs)\<rparr>, True))"

definition keyed_allow :: "keyed \<Rightarrow> string \<Rightarrow> instant \<Rightarrow> keyed \<times> bool \<times> duration \<times> bool" where
  "keyed_allow k key now =
     (let (k1, swept) = sweep k now;
          bs = (case subjects k1 key of Some bs \<Rightarrow> bs | None \<Rightarrow> map new_bucket (k_limits k1));
          (bs', allowed, retry_after) = allow bs now 1
      in (k1\<lparr>subjects := (subjects k1)(key \<mapsto> bs')\<rparr>, allowed, retry_after, swept))"

definition keyed_len :: "keyed \<Rightarrow> nat" where
  "keyed_len k = card (dom (subjects k))"

subsection \<open>Buckets within their range\<close>

text \<open>
  A bucket never owes more than its period ahead of the latest time it saw. Periods up to
  \<open>2 ^ 60\<close> ns (36 years) and takes up to that much room keep every product and difference within
  64 bits, so the arithmetic of the code is the plain one.
\<close>

definition max_span :: duration where
  "max_span = 2 ^ 60"

definition bucket_ok :: "bucket \<Rightarrow> bool" where
  "bucket_ok b \<longleftrightarrow> 0 \<le> b_interval b \<and> b_interval b \<le> b_per b \<and> 0 < b_per b \<and> b_per b \<le> max_span
     \<and> full_at b \<le> latest b + b_per b"

definition fits :: "bucket \<Rightarrow> int \<Rightarrow> bool" where
  "fits b n \<longleftrightarrow> 0 \<le> n \<and> n * b_interval b \<le> max_span"

lemma fits_one [simp]: "bucket_ok b \<Longrightarrow> fits b 1"
  by (simp add: bucket_ok_def fits_def)

lemma bucket_okI:
  "0 \<le> i \<Longrightarrow> i \<le> p \<Longrightarrow> 0 < p \<Longrightarrow> p \<le> max_span \<Longrightarrow> f \<le> a + p \<Longrightarrow>
    bucket_ok \<lparr>b_interval = i, b_per = p, full_at = f, latest = a\<rparr>"
  by (simp add: bucket_ok_def)

lemma new_bucket_ok: "valid_limit l \<Longrightarrow> per l \<le> max_span \<Longrightarrow> bucket_ok (new_bucket l)"
  using zdiv_mono2[of "per l" 1 "count l"]
  by (simp add: bucket_ok_def new_bucket_def valid_limit_def pos_imp_zdiv_nonneg_iff)

lemma bucket_at_eq: "bucket_at b now = (b\<lparr>latest := max (latest b) now\<rparr>, max (latest b) now)"
  by (auto simp: bucket_at_def max_def)

lemma after_eq: "fits b n \<Longrightarrow> 0 \<le> b_interval b \<Longrightarrow> after b now n = max (full_at b) now + n * b_interval b"
proof -
  assume a: "fits b n" "0 \<le> b_interval b"
  then have "0 \<le> n * b_interval b" by (simp add: fits_def)
  moreover have "n * b_interval b \<le> 2 ^ 60" using a by (simp add: fits_def max_span_def)
  ultimately have "wrap64 (n * b_interval b) = n * b_interval b"
    by (intro wrap64_id) (simp_all add: min_int64_def max_int64_def)
  then show ?thesis by (simp add: after_def max_def)
qed

lemma wait_eq:
  assumes ok: "bucket_ok b" and n: "fits b n" and at: "latest b \<le> now"
  shows "wait b now n = max 0 (max (full_at b) now + n * b_interval b - now - b_per b)"
proof -
  have a: "after b now n = max (full_at b) now + n * b_interval b"
    using ok n by (intro after_eq) (simp_all add: bucket_ok_def)
  have r: "0 \<le> n * b_interval b" "n * b_interval b \<le> 2 ^ 60" "full_at b \<le> now + 2 ^ 60"
       "0 < b_per b" "b_per b \<le> 2 ^ 60"
    using ok n at by (simp_all add: bucket_ok_def fits_def max_span_def)
  then have s: "time_sub (after b now n) now = max (full_at b) now + n * b_interval b - now"
    unfolding a by (intro time_sub_id) (simp_all add: min_int64_def max_int64_def max_def)
  have "wrap64 (max (full_at b) now + n * b_interval b - now - b_per b)
      = max (full_at b) now + n * b_interval b - now - b_per b"
    using r by (intro wrap64_id) (simp_all add: min_int64_def max_int64_def max_def)
  then show ?thesis by (simp add: wait_def s)
qed

text \<open>A bucket has room for \<open>n\<close> events exactly when they push it at most its period ahead.\<close>

definition has_room :: "instant \<Rightarrow> int \<Rightarrow> bucket \<Rightarrow> bool" where
  "has_room now n b \<longleftrightarrow>
     max (full_at b) (max (latest b) now) + n * b_interval b \<le> max (latest b) now + b_per b"

definition bucket_wait :: "instant \<Rightarrow> int \<Rightarrow> bucket \<Rightarrow> duration" where
  "bucket_wait now n b =
     max 0 (max (full_at b) (max (latest b) now) + n * b_interval b - max (latest b) now - b_per b)"

lemma bucket_wait_0: "bucket_wait now n b \<le> 0 \<longleftrightarrow> has_room now n b"
  by (auto simp: bucket_wait_def has_room_def)

definition seen :: "instant \<Rightarrow> bucket \<Rightarrow> bucket" where
  "seen now b = b\<lparr>latest := max (latest b) now\<rparr>"

lemma seen_simps [simp]:
  "b_interval (seen now b) = b_interval b" "b_per (seen now b) = b_per b"
  "full_at (seen now b) = full_at b" "latest (seen now b) = max (latest b) now"
  by (simp_all add: seen_def)

lemma seen_ok [intro]: "bucket_ok b \<Longrightarrow> bucket_ok (seen now b)"
  by (auto simp: bucket_ok_def)

lemma longest_wait_eq:
  assumes "list_all bucket_ok bs" "list_all (\<lambda>b. fits b n) bs"
  shows "longest_wait bs now n r = (map (seen now) bs, fold (\<lambda>b m. max m (bucket_wait now n b)) bs r)"
  using assms
proof (induction bs arbitrary: r)
  case (Cons b bs)
  have "wait (seen now b) (max (latest b) now) n = bucket_wait now n b"
    using Cons.prems wait_eq[of "seen now b" n "max (latest b) now"]
    by (auto simp: bucket_wait_def fits_def)
  then show ?case using Cons by (simp add: bucket_at_eq seen_def)
qed simp

lemma fold_max_le: "fold (\<lambda>b m. max m (f b)) bs (r::int) \<le> x \<longleftrightarrow> r \<le> x \<and> (\<forall>b\<in>set bs. f b \<le> x)"
  by (induction bs arbitrary: r) auto

lemma take_events_eq:
  "bucket_ok b \<Longrightarrow> fits b n \<Longrightarrow>
    take_events now n b = (seen now b)\<lparr>full_at := max (full_at b) (max (latest b) now) + n * b_interval b\<rparr>"
  using after_eq[of "seen now b" n "max (latest b) now"]
  by (simp add: take_events_def bucket_at_eq bucket_ok_def fits_def seen_def)

lemma take_events_seen: "take_events now n (seen now b) = take_events now n b"
  by (simp add: take_events_def bucket_at_eq seen_def)

definition longest_wait_of :: "limiter \<Rightarrow> instant \<Rightarrow> int \<Rightarrow> duration" where
  "longest_wait_of bs now n = fold (\<lambda>b m. max m (bucket_wait now n b)) bs 0"

lemma longest_wait_of_pos: "0 < longest_wait_of bs now n \<longleftrightarrow> \<not> list_all (has_room now n) bs"
  using fold_max_le[of "bucket_wait now n" bs 0 0]
  by (auto simp: longest_wait_of_def bucket_wait_0 list_all_iff not_le[symmetric])

text \<open>What a call decides and leaves, without the two loops.\<close>

lemma allow_eq:
  assumes "list_all bucket_ok bs" "list_all (\<lambda>b. fits b n) bs"
  shows "allow bs now n =
    (if list_all (has_room now n) bs then (map (take_events now n) bs, True, 0)
     else (map (seen now) bs, False, longest_wait_of bs now n))"
  using longest_wait_of_pos[of bs now n]
  by (simp add: allow_def longest_wait_eq[OF assms] longest_wait_of_def[symmetric] take_events_seen
      comp_def cong: map_cong)

lemma take_events_ok:
  assumes "bucket_ok b" "fits b n" "has_room now n b"
  shows "bucket_ok (take_events now n b)"
  using assms by (simp add: take_events_eq bucket_ok_def has_room_def)

lemma record_bucket_eq:
  assumes "bucket_ok b"
  shows "record_bucket now b = (seen now b)\<lparr>full_at :=
    min (max (full_at b) (max (latest b) now) + b_interval b) (max (latest b) now + b_per b)\<rparr>"
proof -
  have "after (seen now b) (max (latest b) now) 1 = max (full_at b) (max (latest b) now) + b_interval b"
    using assms after_eq[of "seen now b" 1 "max (latest b) now"]
    by (simp add: bucket_ok_def fits_def)
  then show ?thesis
    by (simp add: record_bucket_def bucket_at_eq seen_def min_def)
qed

lemma record_bucket_ok: "bucket_ok b \<Longrightarrow> bucket_ok (record_bucket now b)"
  by (simp add: record_bucket_eq bucket_ok_def)

lemma allow_ok:
  assumes "list_all bucket_ok bs" "list_all (\<lambda>b. fits b n) bs"
  shows "list_all bucket_ok (fst (allow bs now n))"
  using assms by (auto simp: allow_eq list_all_iff take_events_ok)

subsection \<open>The interface of a refilling limit\<close>

text \<open>
  What a client of a limiter relies on: a level that every operation only raises, by an interval
  per event it lets through, and that stays within a cap of the clock. Whatever the clock does,
  the events let through within a window are then bounded.
\<close>

locale refilling =
  fixes step :: "'s \<Rightarrow> 'op \<Rightarrow> 's" and taken :: "'s \<Rightarrow> 'op \<Rightarrow> int" and op_time :: "'op \<Rightarrow> instant"
    and good :: "'s \<Rightarrow> bool" and op_ok :: "'op \<Rightarrow> bool"
    and level :: "'s \<Rightarrow> instant" and clock :: "'s \<Rightarrow> instant"
    and interval :: duration and cap :: duration
  assumes good_step: "good s \<Longrightarrow> op_ok x \<Longrightarrow> good (step s x)"
    and level_step: "good s \<Longrightarrow> op_ok x \<Longrightarrow>
      level s \<le> level (step s x) \<and>
      (0 < taken s x \<longrightarrow> max (level s) (op_time x) + taken s x * interval \<le> level (step s x))"
    and taken_nonneg: "good s \<Longrightarrow> op_ok x \<Longrightarrow> 0 \<le> taken s x"
    and clock_step: "good s \<Longrightarrow> op_ok x \<Longrightarrow> clock (step s x) = max (clock s) (op_time x)"
    and level_cap: "good s \<Longrightarrow> level s \<le> clock s + cap"
begin

fun run :: "'s \<Rightarrow> 'op list \<Rightarrow> 's" where
  "run s [] = s"
| "run s (x # xs) = run (step s x) xs"

fun total :: "'s \<Rightarrow> 'op list \<Rightarrow> int" where
  "total s [] = 0"
| "total s (x # xs) = taken s x + total (step s x) xs"

lemma run_good: "good s \<Longrightarrow> list_all op_ok xs \<Longrightarrow> good (run s xs)"
  by (induction xs arbitrary: s) (auto intro: good_step)

lemma run_clock:
  "good s \<Longrightarrow> list_all op_ok xs \<Longrightarrow> clock s \<le> u \<Longrightarrow> \<forall>x\<in>set xs. op_time x \<le> u \<Longrightarrow> clock (run s xs) \<le> u"
  by (induction xs arbitrary: s) (auto simp: good_step clock_step)

lemma run_level:
  assumes "good s" "list_all op_ok xs" "\<forall>x\<in>set xs. t \<le> op_time x"
  shows "max (level s) t + total s xs * interval \<le> max (level (run s xs)) t"
  using assms
proof (induction xs arbitrary: s)
  case (Cons x xs)
  have x: "op_ok x" "t \<le> op_time x" using Cons.prems by simp_all
  have IH: "max (level (step s x)) t + total (step s x) xs * interval \<le> max (level (run s (x # xs))) t"
    using Cons.IH[of "step s x"] Cons.prems by (simp add: good_step)
  have push: "max (level s) t + taken s x * interval \<le> max (level (step s x)) t"
    using level_step[OF Cons.prems(1) x(1)] taken_nonneg[OF Cons.prems(1) x(1)] x(2)
    by (cases "taken s x = 0") auto
  show ?case using IH push by (simp add: distrib_right)
qed simp

theorem window:
  assumes "good s" "list_all op_ok xs" "clock s \<le> t + w" "0 \<le> w + cap"
    and "\<forall>x\<in>set xs. t \<le> op_time x \<and> op_time x \<le> t + w"
  shows "total s xs * interval \<le> w + cap"
proof -
  have "clock (run s xs) \<le> t + w" using assms by (intro run_clock) auto
  moreover have "level (run s xs) \<le> clock (run s xs) + cap" using assms by (intro level_cap run_good)
  moreover have "max (level s) t + total s xs * interval \<le> max (level (run s xs)) t"
    using assms by (intro run_level) auto
  ultimately show ?thesis using assms(4) by linarith
qed

end

subsection \<open>A limiter's calls, as one sequence\<close>

datatype call = Allow (call_time: instant) | AllowN (call_time: instant) (events: int) | Record (call_time: instant)

fun run_call :: "limiter \<Rightarrow> call \<Rightarrow> limiter" where
  "run_call l (Allow now) = fst (allow_one l now)"
| "run_call l (AllowN now n) = fst (allow_n l now n)"
| "run_call l (Record now) = record_event l now"

text \<open>How many events a call let through; a recorded event is not let through by the limiter.\<close>

fun let_through :: "limiter \<Rightarrow> call \<Rightarrow> int" where
  "let_through l (Allow now) = (if fst (snd (allow_one l now)) then 1 else 0)"
| "let_through l (AllowN now n) = (if fst (snd (allow_n l now n)) then n else 0)"
| "let_through l (Record now) = 0"

fun run_calls :: "limiter \<Rightarrow> call list \<Rightarrow> limiter \<times> int" where
  "run_calls l [] = (l, 0)"
| "run_calls l (c # cs) = (let (l', k) = run_calls (run_call l c) cs in (l', let_through l c + k))"

fun call_fits :: "limiter \<Rightarrow> call \<Rightarrow> bool" where
  "call_fits l (AllowN now n) = list_all (\<lambda>b. fits b n) l"
| "call_fits l _ = True"

text \<open>The limits of a limiter never change: each bucket keeps its interval and its period.\<close>

definition shape :: "limiter \<Rightarrow> (duration \<times> duration) list" where
  "shape l = map (\<lambda>b. (b_interval b, b_per b)) l"

definition limiter_ok :: "limiter \<Rightarrow> bool" where
  "limiter_ok l = list_all bucket_ok l"

lemma fits_shape: "list_all (\<lambda>b. fits b n) l = list_all (\<lambda>(i, p). 0 \<le> n \<and> n * i \<le> max_span) (shape l)"
  by (auto simp: shape_def list_all_iff fits_def)

lemma call_fits_shape: "shape l = shape l' \<Longrightarrow> call_fits l c = call_fits l' c"
  by (cases c) (simp_all add: fits_shape)

lemma take_events_shape: "bucket_ok b \<Longrightarrow> fits b n \<Longrightarrow>
    b_interval (take_events now n b) = b_interval b \<and> b_per (take_events now n b) = b_per b"
  by (simp add: take_events_eq)

lemma allow_shape:
  assumes "limiter_ok l" "list_all (\<lambda>b. fits b n) l"
  shows "shape (fst (allow l now n)) = shape l \<and> limiter_ok (fst (allow l now n))"
proof -
  have "(b_interval (take_events now n b), b_per (take_events now n b)) = (b_interval b, b_per b)"
    if "b \<in> set l" for b using that assms take_events_shape[of b n now]
    by (simp add: limiter_ok_def list_all_iff)
  then have "shape (map (take_events now n) l) = shape l" "shape (map (seen now) l) = shape l"
    by (simp_all add: shape_def)
  then have "shape (fst (allow l now n)) = shape l"
    by (simp add: allow_eq[OF assms[unfolded limiter_ok_def]])
  then show ?thesis using allow_ok[OF assms[unfolded limiter_ok_def]] by (simp add: limiter_ok_def)
qed

lemma record_shape:
  assumes "limiter_ok l"
  shows "shape (record_event l now) = shape l \<and> limiter_ok (record_event l now)"
proof -
  have "b_interval (record_bucket now b) = b_interval b" "b_per (record_bucket now b) = b_per b"
    if "bucket_ok b" for b using that by (simp_all add: record_bucket_eq)
  then show ?thesis
    using assms by (simp add: limiter_ok_def record_event_def shape_def list_all_iff record_bucket_ok)
qed

lemma fits_all_one: "limiter_ok l \<Longrightarrow> list_all (\<lambda>b. fits b 1) l"
  by (auto simp: limiter_ok_def list_all_iff)

lemma run_call_ok:
  assumes "limiter_ok l" "call_fits l c"
  shows "shape (run_call l c) = shape l \<and> limiter_ok (run_call l c)"
proof (cases c)
  case (Allow now)
  then show ?thesis using allow_shape[OF assms(1) fits_all_one[OF assms(1)]]
    by (simp add: allow_one_def allow_n_def)
next
  case (AllowN now n)
  then show ?thesis using allow_shape[OF assms(1)] assms(2) by (simp add: allow_n_def)
qed (simp add: record_shape assms)

text \<open>Every call raises every bucket by its interval per event it lets through.\<close>

lemma allow_level:
  assumes "limiter_ok l" "list_all (\<lambda>b. fits b n) l" "i < length l"
  shows "full_at (l ! i) \<le> full_at (fst (allow l now n) ! i) \<and>
    (fst (snd (allow l now n)) \<longrightarrow>
      max (full_at (l ! i)) now + n * b_interval (l ! i) \<le> full_at (fst (allow l now n) ! i))"
proof -
  have b: "bucket_ok (l ! i)" "fits (l ! i) n" using assms by (auto simp: limiter_ok_def list_all_length)
  then have "0 \<le> n * b_interval (l ! i)" by (simp add: bucket_ok_def fits_def)
  then show ?thesis
    using assms b by (auto simp: allow_eq limiter_ok_def take_events_eq max_def)
qed

lemma run_call_level:
  assumes "limiter_ok l" "call_fits l c" "i < length l"
  shows "full_at (l ! i) \<le> full_at (run_call l c ! i) \<and>
    (0 < let_through l c \<longrightarrow> max (full_at (l ! i)) (call_time c) + let_through l c * b_interval (l ! i)
       \<le> full_at (run_call l c ! i))"
proof (cases c)
  case (Allow now)
  then show ?thesis using allow_level[OF assms(1) fits_all_one[OF assms(1)] assms(3)]
    by (simp add: allow_one_def allow_n_def)
next
  case (AllowN now n)
  then show ?thesis using allow_level[OF assms(1) _ assms(3)] assms(2) by (simp add: allow_n_def)
next
  case (Record now)
  have "bucket_ok (l ! i)" using assms by (auto simp: limiter_ok_def list_all_length)
  moreover from this have "0 \<le> b_interval (l ! i)" "full_at (l ! i) \<le> latest (l ! i) + b_per (l ! i)"
    by (simp_all add: bucket_ok_def)
  ultimately show ?thesis using Record assms by (auto simp: record_event_def record_bucket_eq max_def)
qed

lemma run_call_latest:
  assumes "limiter_ok l" "call_fits l c" "i < length l"
  shows "latest (run_call l c ! i) = max (latest (l ! i)) (call_time c)"
proof -
  have b: "bucket_ok (l ! i)" using assms by (auto simp: limiter_ok_def list_all_length)
  show ?thesis
  proof (cases c)
    case (Allow now)
    then show ?thesis using assms b fits_all_one[OF assms(1)]
      by (simp add: allow_one_def allow_n_def allow_eq limiter_ok_def take_events_eq)
  next
    case (AllowN now n)
    then show ?thesis using assms b
      by (simp add: allow_n_def allow_eq limiter_ok_def take_events_eq list_all_length)
  qed (use assms b in \<open>simp add: record_event_def record_bucket_eq\<close>)
qed

lemma let_through_nonneg: "call_fits l c \<Longrightarrow> l \<noteq> [] \<Longrightarrow> 0 \<le> let_through l c"
  by (cases c) (auto simp: fits_def neq_Nil_conv)

text \<open>A limiter of shape \<open>sh\<close> refills its bucket \<open>i\<close> by that bucket's interval.\<close>

definition has_shape :: "(duration \<times> duration) list \<Rightarrow> nat \<Rightarrow> limiter \<Rightarrow> bool" where
  "has_shape sh i l \<longleftrightarrow> limiter_ok l \<and> shape l = sh \<and> i < length sh"

definition fits_shape_of :: "(duration \<times> duration) list \<Rightarrow> call \<Rightarrow> bool" where
  "fits_shape_of sh c = (case c of AllowN now n \<Rightarrow> list_all (\<lambda>(i, p). 0 \<le> n \<and> n * i \<le> max_span) sh | _ \<Rightarrow> True)"

lemma call_fits_eq: "call_fits l c = fits_shape_of (shape l) c"
  by (cases c) (simp_all add: fits_shape_of_def fits_shape)

lemma has_shapeD:
  assumes "has_shape sh i l"
  shows "limiter_ok l" "i < length l" "l \<noteq> []" "b_interval (l ! i) = fst (sh ! i)"
    "b_per (l ! i) = snd (sh ! i)" "fits_shape_of sh c = call_fits l c"
  using assms by (auto simp: has_shape_def shape_def call_fits_eq)

interpretation bucket_refill: refilling run_call let_through call_time "has_shape sh i" "fits_shape_of sh"
  "\<lambda>l. full_at (l ! i)" "\<lambda>l. latest (l ! i)" "fst (sh ! i)" "snd (sh ! i)" for sh i
proof unfold_locales
  fix l c assume l: "has_shape sh i l" and c: "fits_shape_of sh c"
  note D = has_shapeD[OF l]
  have cf: "call_fits l c" using c D(6) by simp
  show "has_shape sh i (run_call l c)"
    using l run_call_ok[OF D(1) cf] by (auto simp: has_shape_def)
  show "full_at (l ! i) \<le> full_at (run_call l c ! i) \<and>
      (0 < let_through l c \<longrightarrow>
       max (full_at (l ! i)) (call_time c) + let_through l c * fst (sh ! i) \<le> full_at (run_call l c ! i))"
    using run_call_level[OF D(1) cf D(2)] by (simp add: D(4))
  show "0 \<le> let_through l c" by (rule let_through_nonneg[OF cf D(3)])
  show "latest (run_call l c ! i) = max (latest (l ! i)) (call_time c)"
    by (rule run_call_latest[OF D(1) cf D(2)])
next
  fix l assume l: "has_shape sh i l"
  then have "bucket_ok (l ! i)" using has_shapeD[OF l] by (simp add: limiter_ok_def list_all_length)
  then show "full_at (l ! i) \<le> latest (l ! i) + snd (sh ! i)"
    using has_shapeD[OF l] by (simp add: bucket_ok_def)
qed

lemma run_calls_eq: "run_calls l cs = (bucket_refill.run l cs, bucket_refill.total l cs)"
  by (induction cs arbitrary: l) simp_all

subsection \<open>What a limiter promises\<close>

text \<open>
  C5: whatever the calls and however the clock moves, the events a limiter lets through within a
  window of \<open>w\<close> take, for each of its limits, at most the window and the limit's period of refilling:
  at most the burst plus what refills meanwhile. Recorded events, which cannot be refused, never
  make room.
\<close>

theorem limiter_window:
  assumes "limiter_ok l" "i < length l" "list_all (call_fits l) cs"
    and "\<forall>c\<in>set cs. t \<le> call_time c \<and> call_time c \<le> t + w" "latest (l ! i) \<le> t + w" "0 \<le> w"
  shows "snd (run_calls l cs) * b_interval (l ! i) \<le> w + b_per (l ! i)"
proof -
  have sh: "has_shape (shape l) i l" using assms by (simp add: has_shape_def shape_def)
  have "0 < b_per (l ! i)" using assms by (simp add: limiter_ok_def list_all_length bucket_ok_def)
  then have "bucket_refill.total l cs * fst (shape l ! i) \<le> w + snd (shape l ! i)"
    using assms has_shapeD(5)[OF sh]
    by (intro bucket_refill.window[OF sh]) (simp_all add: call_fits_eq[abs_def])
  then show ?thesis by (simp add: run_calls_eq has_shapeD(4,5)[OF sh])
qed

theorem limiter_window_witness:
  "snd (run_calls [new_bucket \<lparr>count = 2, per = 10\<rparr>] [Allow 100, Record 101, AllowN 103 1, Allow 109])
     * 5 \<le> (9 :: int) + 10"
  using limiter_window [of "[new_bucket \<lparr>count = 2, per = 10\<rparr>]" 0
      "[Allow 100, Record 101, AllowN 103 1, Allow 109]" 100 9]
  by (simp add: limiter_ok_def bucket_ok_def new_bucket_def fits_def max_span_def)

lemma longest_wait_of_le:
  "longest_wait_of l now n \<le> x \<longleftrightarrow> 0 \<le> x \<and> (\<forall>b\<in>set l. bucket_wait now n b \<le> x)"
  by (simp add: longest_wait_of_def fold_max_le)

lemma has_room_later:
  assumes "bucket_ok b" "latest b \<le> now" "now \<le> u"
  shows "has_room u 1 (seen now b) \<longleftrightarrow> bucket_wait now 1 b \<le> u - now"
  using assms by (auto simp: has_room_def bucket_wait_def bucket_ok_def max_def)



lemma burst_from_new:
  assumes l: "valid_limit l" "count l dvd per l" "per l \<le> max_span" "0 \<le> t" and k: "int k \<le> count l"
  shows "run_calls [new_bucket l] (replicate k (Allow t) @ cs) =
    (let (s, m) = run_calls (if k = 0 then [new_bucket l]
        else [\<lparr>b_interval = per l div count l, b_per = per l,
               full_at = t + int k * (per l div count l), latest = t\<rparr>]) cs in (s, int k + m))"
  using k
proof (induction k arbitrary: cs)
  case (Suc k)
  let ?i = "per l div count l"
  let ?b = "\<lparr>b_interval = ?i, b_per = per l, full_at = t + int k * ?i, latest = t\<rparr>"
  define b where "b = (if k = 0 then new_bucket l else ?b)"
  have i: "0 \<le> ?i" "?i \<le> per l" "count l * ?i = per l"
    using l zdiv_mono2[of "per l" 1 "count l"] by (auto simp: valid_limit_def pos_imp_zdiv_nonneg_iff)
  have "int k * ?i \<le> (count l - 1) * ?i" using Suc.prems i(1) by (intro mult_right_mono) auto
  then have ki: "int k * ?i + ?i \<le> per l" "0 \<le> int k * ?i"
    using i by (simp_all add: left_diff_distrib)
  have "bucket_ok ?b"
    by (rule bucket_okI[OF i(1,2) _ l(3)]) (use l(1) i(1) ki in \<open>auto simp: valid_limit_def\<close>)
  then have ok: "limiter_ok [b]" using l new_bucket_ok[of l] by (simp add: b_def limiter_ok_def)
  have room: "list_all (has_room t 1) [b]"
    using ki l by (auto simp: b_def has_room_def new_bucket_def)
  have "take_events t 1 b = \<lparr>b_interval = ?i, b_per = per l, full_at = t + int (Suc k) * ?i, latest = t\<rparr>"
    using ok l ki by (auto simp: limiter_ok_def take_events_eq b_def seen_def new_bucket_def distrib_right)
  then have step: "allow_one [b] t = ([\<lparr>b_interval = ?i, b_per = per l, full_at = t + int (Suc k) * ?i, latest = t\<rparr>], True, 0)"
    using allow_eq[OF ok[unfolded limiter_ok_def] fits_all_one[OF ok], of t] room
    by (simp add: allow_one_def allow_n_def)
  have "run_calls [new_bucket l] (replicate (Suc k) (Allow t) @ cs)
      = run_calls [new_bucket l] (replicate k (Allow t) @ Allow t # cs)"
    by (simp add: replicate_app_Cons_same)
  also have "\<dots> = (let (s, m) = run_calls [b] (Allow t # cs) in (s, int k + m))"
    using Suc.IH[of "Allow t # cs"] Suc.prems by (simp add: b_def cong: if_cong)
  finally show ?case by (simp add: step split_def Let_def)
qed simp

text \<open>
  C38: a fresh limiter lets \<open>Count\<close> events through at once and one more as soon as an interval has
  passed, so \<open>Count + 1\<close> events pass within less than a period whenever \<open>Count\<close> is at least 2: the
  bound within any period is not \<open>Count\<close>, as the comment on \<open>Limit\<close> says, but the one of C1.
\<close>

theorem burst_then_refill:
  assumes "valid_limit l" "count l dvd per l" "per l \<le> max_span" "0 \<le> t"
  shows "snd (run_calls [new_bucket l]
     (replicate (nat (count l)) (Allow t) @ [Allow (t + per l div count l)])) = count l + 1"
proof -
  have c: "0 < count l" "count l * (per l div count l) = per l" "0 \<le> per l div count l" "per l div count l \<le> per l"
    using assms zdiv_mono2[of "per l" 1 "count l"] by (auto simp: valid_limit_def pos_imp_zdiv_nonneg_iff)
  let ?b = "\<lparr>b_interval = per l div count l, b_per = per l, full_at = t + per l, latest = t\<rparr>"
  have ok: "limiter_ok [?b]" using assms c by (simp add: limiter_ok_def bucket_ok_def valid_limit_def)
  have "fst (snd (allow_one [?b] (t + per l div count l)))"
    using allow_eq[OF ok[unfolded limiter_ok_def] fits_all_one[OF ok], of "t + per l div count l"] c
    by (simp add: allow_one_def allow_n_def has_room_def)
  then show ?thesis using burst_from_new[OF assms, of "nat (count l)"] c by (simp add: split_def Let_def)
qed

theorem burst_then_refill_witness:
  "snd (run_calls [new_bucket \<lparr>count = 5, per = 1000000000\<rparr>]
     (replicate 5 (Allow 0) @ [Allow 200000000])) = 6"
  using burst_then_refill [of "\<lparr>count = 5, per = 1000000000\<rparr>" 0]
  by (simp add: valid_limit_def max_span_def)

subsection \<open>Forgetting a key whose room came back\<close>

text \<open>The answers of a keyed limiter, and of one plain limiter per key that forgets nothing.\<close>

fun keyed_run :: "keyed \<Rightarrow> (string \<times> instant) list \<Rightarrow> (bool \<times> duration) list" where
  "keyed_run k [] = []"
| "keyed_run k ((key, now) # rs) =
     (let (k', allowed, r, swept) = keyed_allow k key now in (allowed, r) # keyed_run k' rs)"

fun plain_run :: "(string \<Rightarrow> limiter) \<Rightarrow> (string \<times> instant) list \<Rightarrow> (bool \<times> duration) list" where
  "plain_run f [] = []"
| "plain_run f ((key, now) # rs) =
     (let (l', allowed, r) = allow (f key) now 1 in (allowed, r) # plain_run (f(key := l')) rs)"

text \<open>Two buckets that no call from time \<open>t\<close> on tells apart: full ones are alike.\<close>

definition alike :: "instant \<Rightarrow> bucket \<Rightarrow> bucket \<Rightarrow> bool" where
  "alike t b b' \<longleftrightarrow> bucket_ok b \<and> bucket_ok b' \<and> b_interval b = b_interval b' \<and> b_per b = b_per b'
     \<and> latest b \<le> t \<and> latest b' \<le> t \<and> (full_at b = full_at b' \<or> full_at b \<le> t \<and> full_at b' \<le> t)"

lemma alike_later: "alike t b b' \<Longrightarrow> t \<le> u \<Longrightarrow> alike u b b'"
  by (auto simp: alike_def)

lemma alike_same:
  assumes "alike t b b'" "t \<le> now"
  shows "bucket_wait now n b = bucket_wait now n b'" "has_room now n b = has_room now n b'"
  using assms by (auto simp: alike_def bucket_wait_def has_room_def max_def)

lemma alike_seen: "alike t b b' \<Longrightarrow> t \<le> now \<Longrightarrow> alike now (seen now b) (seen now b')"
  by (auto simp: alike_def)

lemma alike_take:
  assumes "alike t b b'" "t \<le> now" "has_room now 1 b"
  shows "alike now (take_events now 1 b) (take_events now 1 b')"
proof -
  have ok: "bucket_ok b" "bucket_ok b'" using assms(1) by (simp_all add: alike_def)
  have room: "has_room now 1 b'" using alike_same(2)[OF assms(1,2)] assms(3) by simp
  have "bucket_ok (take_events now 1 b)" "bucket_ok (take_events now 1 b')"
    using ok assms(3) room by (simp_all add: take_events_ok)
  then show ?thesis using assms ok by (auto simp: alike_def take_events_eq max_def)
qed

lemma allow_alike:
  assumes rel: "list_all2 (alike t) bs bs'" and t: "t \<le> now"
  shows "snd (allow bs now 1) = snd (allow bs' now 1)"
    "list_all2 (alike now) (fst (allow bs now 1)) (fst (allow bs' now 1))"
proof -
  have ok: "limiter_ok bs" "limiter_ok bs'"
    using rel by (auto simp: limiter_ok_def list_all2_conv_all_nth list_all_length alike_def)
  have room: "list_all (has_room now 1) bs = list_all (has_room now 1) bs'"
    using rel by (induction rule: list_all2_induct) (simp_all add: alike_same(2)[OF _ t])
  have wt: "longest_wait_of bs now 1 = longest_wait_of bs' now 1"
    unfolding longest_wait_of_def using rel
    by (rule list.rel_induct[of "alike t" bs bs' "\<lambda>bs bs'. \<forall>r. fold (\<lambda>b m. max m (bucket_wait now 1 b)) bs r
        = fold (\<lambda>b m. max m (bucket_wait now 1 b)) bs' r", THEN spec])
      (simp_all add: alike_same(1)[OF _ t])
  note eqs = allow_eq[OF ok(1)[unfolded limiter_ok_def] fits_all_one[OF ok(1)], of now]
    allow_eq[OF ok(2)[unfolded limiter_ok_def] fits_all_one[OF ok(2)], of now]
  show "snd (allow bs now 1) = snd (allow bs' now 1)" by (simp add: eqs room wt)
  have "list_all2 (alike now) (map (seen now) bs) (map (seen now) bs')"
    using rel alike_seen[OF _ t] by (simp add: list_all2_conv_all_nth)
  moreover have "list_all2 (alike now) (map (take_events now 1) bs) (map (take_events now 1) bs')"
    if "list_all (has_room now 1) bs"
    using rel that alike_take[OF _ t] by (simp add: list_all2_conv_all_nth list_all_length)
  ultimately show "list_all2 (alike now) (fst (allow bs now 1)) (fst (allow bs' now 1))"
    by (simp add: eqs room)
qed

definition key_buckets :: "keyed \<Rightarrow> string \<Rightarrow> bucket list" where
  "key_buckets k key = (case subjects k key of Some bs \<Rightarrow> bs | None \<Rightarrow> map new_bucket (k_limits k))"

lemma keyed_allow_eq:
  "keyed_allow k key now =
     (let k1 = fst (sweep k now); (bs', allowed, r) = allow (key_buckets k1 key) now 1
      in (k1\<lparr>subjects := (subjects k1)(key \<mapsto> bs')\<rparr>, allowed, r, snd (sweep k now)))"
  by (simp add: keyed_allow_def key_buckets_def split_def Let_def)

lemma key_buckets_upd:
  "key_buckets (k\<lparr>subjects := (subjects k)(key \<mapsto> bs)\<rparr>) key' = (if key' = key then bs else key_buckets k key')"
  by (simp add: key_buckets_def split: option.split)

definition simulates :: "instant \<Rightarrow> keyed \<Rightarrow> (string \<Rightarrow> limiter) \<Rightarrow> bool" where
  "simulates t k f \<longleftrightarrow> 0 \<le> t \<and> (\<forall>l\<in>set (k_limits k). valid_limit l \<and> per l \<le> max_span) \<and>
     (\<forall>key. list_all2 (alike t) (key_buckets k key) (f key) \<and> shape (f key) = shape (map new_bucket (k_limits k)))"

lemma simulates_later: "simulates t k f \<Longrightarrow> t \<le> u \<Longrightarrow> simulates u k f"
  by (auto simp: simulates_def intro: list_all2_mono alike_later)

lemma new_alike_full:
  assumes f: "list_all2 (alike t) bs fs" "list_all (\<lambda>b. full b t) bs" "shape fs = shape (map new_bucket ls)"
    and ls: "\<forall>l\<in>set ls. valid_limit l \<and> per l \<le> max_span" "0 \<le> t"
  shows "list_all2 (alike t) (map new_bucket ls) fs"
proof -
  have len: "length fs = length ls" using arg_cong[OF f(3), of length] by (simp add: shape_def)
  have "alike t (new_bucket (ls ! i)) (fs ! i)" if i: "i < length ls" for i
  proof -
    have "b_interval (fs ! i) = b_interval (new_bucket (ls ! i))" "b_per (fs ! i) = b_per (new_bucket (ls ! i))"
      using arg_cong[OF f(3), of "\<lambda>xs. xs ! i"] i len by (simp_all add: shape_def)
    moreover have "alike t (bs ! i) (fs ! i)" "full (bs ! i) t"
      using f i len by (auto simp: list_all2_conv_all_nth list_all_length)
    moreover have "bucket_ok (new_bucket (ls ! i))" using ls i new_bucket_ok by simp
    ultimately show ?thesis using ls(2) by (auto simp: alike_def full_def new_bucket_def)
  qed
  then show ?thesis using len by (simp add: list_all2_conv_all_nth)
qed

lemma simulates_sweep:
  assumes "simulates t k f"
  shows "simulates t (fst (sweep k t)) f"
proof (cases "time_sub t (last_sweep k) < sweep_every k")
  case True
  then show ?thesis using assms by (simp add: sweep_def)
next
  case False
  let ?k = "fst (sweep k t)"
  have kb: "key_buckets ?k key = (case subjects k key of Some bs \<Rightarrow>
      if list_all (\<lambda>b. full b t) bs then map new_bucket (k_limits k) else bs
    | None \<Rightarrow> map new_bucket (k_limits k))" for key
    using False by (simp add: key_buckets_def sweep_def split: option.split)
  have "list_all2 (alike t) (key_buckets ?k key) (f key)" for key
  proof (cases "subjects k key")
    case None
    then have "key_buckets ?k key = key_buckets k key" by (simp only: kb) (simp add: key_buckets_def)
    then show ?thesis using assms by (simp add: simulates_def)
  next
    case (Some bs)
    then have "key_buckets k key = bs" by (simp add: key_buckets_def)
    then have "list_all2 (alike t) bs (f key)" using assms by (metis simulates_def)
    then show ?thesis using assms Some new_alike_full[of t bs "f key" "k_limits k"]
      by (simp add: simulates_def kb)
  qed
  then show ?thesis using assms False by (simp add: simulates_def sweep_def)
qed

lemma keyed_run_plain:
  assumes "simulates t k f" "sorted_wrt (\<le>) (t # map snd rs)"
  shows "keyed_run k rs = plain_run f rs"
  using assms
proof (induction rs arbitrary: t k f)
  case (Cons x rs)
  obtain key now where x: "x = (key, now)" by (cases x)
  have t: "t \<le> now" using Cons.prems(2) x by simp
  define k1 where "k1 = fst (sweep k now)"
  have s1: "simulates now k1 f"
    unfolding k1_def by (intro simulates_sweep simulates_later[OF Cons.prems(1) t])
  have rel: "list_all2 (alike now) (key_buckets k1 key) (f key)" using s1 by (simp add: simulates_def)
  define bs' where "bs' = fst (allow (key_buckets k1 key) now 1)"
  define l' where "l' = fst (allow (f key) now 1)"
  have sn: "snd (allow (key_buckets k1 key) now 1) = snd (allow (f key) now 1)"
    by (rule allow_alike(1)[OF rel]) simp
  have rel': "list_all2 (alike now) bs' l'" unfolding bs'_def l'_def by (rule allow_alike(2)[OF rel]) simp
  have "limiter_ok (f key)" using rel by (auto simp: limiter_ok_def list_all2_conv_all_nth list_all_length alike_def)
  then have "shape l' = shape (f key)"
    unfolding l'_def using allow_shape fits_all_one by blast
  then have s2: "simulates now (k1\<lparr>subjects := (subjects k1)(key \<mapsto> bs')\<rparr>) (f(key := l'))"
    using s1 rel' by (simp add: simulates_def key_buckets_upd)
  have "keyed_run (k1\<lparr>subjects := (subjects k1)(key \<mapsto> bs')\<rparr>) rs = plain_run (f(key := l')) rs"
    using Cons.prems(2) x by (intro Cons.IH[OF s2]) simp
  then show ?case
    by (simp add: x keyed_allow_eq split_def Let_def k1_def[symmetric] sn bs'_def[symmetric] l'_def[symmetric])
qed simp



end
