(* ===== verification/GoStrings.thy ===== *)
theory GoStrings
  imports Prelude
begin

section \<open>The string functions of Go the code uses\<close>

text \<open>
  \<open>strconv.Itoa\<close> and \<open>strconv.Atoi\<close>, \<open>strings.Split\<close> at one byte and \<open>strings.ReplaceAll\<close>, with the
  round trips the components rely on. \<open>atoi\<close> reads any length of digits: Go refuses a value beyond
  64 bits, and every caller here compares the value with the length of a list in memory and
  refuses both alike.
\<close>

subsection \<open>Decimal numbers\<close>

definition digit_char :: "nat \<Rightarrow> char" where
  "digit_char d = char_of (48 + d)"

definition digit_value :: "char \<Rightarrow> int option" where
  "digit_value c = (let n = of_char c :: nat in if 48 \<le> n \<and> n \<le> 57 then Some (int (n - 48)) else None)"

fun itoa :: "nat \<Rightarrow> string" where
  "itoa n = (if n < 10 then [digit_char n] else itoa (n div 10) @ [digit_char (n mod 10)])"

declare itoa.simps [simp del]

fun digits_from :: "int \<Rightarrow> string \<Rightarrow> int option" where
  "digits_from v [] = Some v"
| "digits_from v (c # cs) = (case digit_value c of None \<Rightarrow> None | Some d \<Rightarrow> digits_from (10 * v + d) cs)"

definition digits :: "string \<Rightarrow> int option" where
  "digits s = (if s = [] then None else digits_from 0 s)"

definition atoi :: "string \<Rightarrow> int option" where
  "atoi s = (case s of [] \<Rightarrow> None
     | c # cs \<Rightarrow> if c = CHR ''-'' then map_option uminus (digits cs)
                else if c = CHR ''+'' then digits cs else digits s)"

lemma digit_value_char [simp]: "d < 10 \<Longrightarrow> digit_value (digit_char d) = Some (int d)"
  by (simp add: digit_value_def digit_char_def)

lemma digit_char_sign [simp]:
  "d < 10 \<Longrightarrow> digit_char d \<noteq> CHR ''-''" "d < 10 \<Longrightarrow> digit_char d \<noteq> CHR ''+''"
  "d < 10 \<Longrightarrow> digit_char d \<noteq> CHR ''~''" "d < 10 \<Longrightarrow> digit_char d \<noteq> CHR ''/''"
  by (auto simp: digit_char_def dest!: arg_cong[where f = "of_char :: char \<Rightarrow> nat"])

lemma digits_from_append:
  "digits_from v (xs @ ys) = (case digits_from v xs of None \<Rightarrow> None | Some w \<Rightarrow> digits_from w ys)"
  by (induction xs arbitrary: v) (auto split: option.split)

lemma digits_from_itoa: "digits_from 0 (itoa n) = Some (int n)"
proof (induction n rule: itoa.induct)
  case (1 n)
  then show ?case
    by (subst itoa.simps) (auto simp: digits_from_append zdiv_int zmod_int)
qed

lemma itoa_Cons: "\<exists>d cs. itoa n = digit_char d # cs \<and> d < 10"
proof (induction n rule: itoa.induct)
  case (1 n)
  then show ?case by (subst (1) itoa.simps) force
qed

lemma itoa_not_Nil [simp]: "itoa n \<noteq> []"
  using itoa_Cons[of n] by auto

lemma atoi_itoa [simp]: "atoi (itoa n) = Some (int n)"
proof -
  obtain d cs where d: "itoa n = digit_char d # cs" "d < 10" using itoa_Cons by blast
  have "digits (itoa n) = Some (int n)" by (simp add: digits_def digits_from_itoa)
  then show ?thesis using d by (simp add: atoi_def)
qed

lemma itoa_digits: "set (itoa n) \<subseteq> digit_char ` {..<10}"
proof (induction n rule: itoa.induct)
  case (1 n)
  then show ?case by (subst itoa.simps) auto
qed

subsection \<open>Splitting and replacing\<close>

fun split_at :: "char \<Rightarrow> string \<Rightarrow> string list" where
  "split_at sep [] = [[]]"
| "split_at sep (c # cs) =
     (if c = sep then [] # split_at sep cs
      else case split_at sep cs of [] \<Rightarrow> [[c]] | t # ts \<Rightarrow> (c # t) # ts)"

definition has_prefix :: "string \<Rightarrow> string \<Rightarrow> bool" where
  "has_prefix s p = (take (length p) s = p)"

text \<open>\<open>strings.ReplaceAll\<close> for a pattern that is not empty: left to right, without overlaps.\<close>

function replace_all :: "string \<Rightarrow> string \<Rightarrow> string \<Rightarrow> string" where
  "replace_all old new s =
     (if s = [] then []
      else if old \<noteq> [] \<and> has_prefix s old then new @ replace_all old new (drop (length old) s)
      else hd s # replace_all old new (tl s))"
  by pat_completeness auto
termination
  by (relation "measure (\<lambda>(old, new, s). length s)") auto

declare replace_all.simps [simp del]

lemma replace_all_Nil [simp]: "replace_all old new [] = []"
  by (simp add: replace_all.simps)

lemma replace_all_char:
  "replace_all [x] new (c # s) = (if c = x then new @ replace_all [x] new s else c # replace_all [x] new s)"
  by (subst replace_all.simps) (auto simp: has_prefix_def)

lemma replace_all_pair:
  "replace_all [x, y] new (c # s) =
    (if c = x \<and> s \<noteq> [] \<and> hd s = y then new @ replace_all [x, y] new (tl s)
     else c # replace_all [x, y] new s)"
  by (subst replace_all.simps) (cases s; auto simp: has_prefix_def)

lemma split_at_not_Nil [simp]: "split_at c s \<noteq> []"
  by (induction s) (auto split: list.split)

lemma split_at_no_sep: "sep \<notin> set s \<Longrightarrow> split_at sep s = [s]"
  by (induction s) auto

lemma split_at_append: "sep \<notin> set s \<Longrightarrow> split_at sep (s @ sep # r) = s # split_at sep r"
  by (induction s) auto

end
