(* ===== verification/JsonPatch.thy ===== *)
theory JsonPatch
  imports GoStrings
begin

section \<open>JSON documents and JSON Patch\<close>

text \<open>
  The package \<open>play/runtime/internal/business/jsonpatch\<close>: RFC 6902 patches made of add, remove and
  replace.

  A document is what the decoder of \<open>encoding/json\<close> reads with \<open>UseNumber\<close>: numbers keep their
  literal text, an object is a finite map. An object is written as its fields in strictly
  increasing key order (\<open>json_ok\<close>), so that equal maps are equal lists, \<open>reflect.DeepEqual\<close> is
  equality and \<open>sortedKeys\<close> is the list of keys. The bytes of a document are what the decoder
  makes of them: nothing, something that is not JSON, or a document.
\<close>

subsection \<open>Documents\<close>

datatype json =
    JNull
  | JBool bool
  | JNum string
  | JStr string
  | JList "json list"
  | JObj "(string \<times> json) list"

datatype raw = Raw_empty | Raw_bad | Raw json

type_synonym fields = "(string \<times> json) list"

definition sorted_keys :: "(string \<times> 'v) list \<Rightarrow> bool" where
  "sorted_keys m = sorted_wrt (<) (map fst m)"

fun json_ok :: "json \<Rightarrow> bool" where
  "json_ok (JList xs) = list_all json_ok xs"
| "json_ok (JObj m) = (sorted_keys m \<and> list_all (\<lambda>(k, v). json_ok v) m)"
| "json_ok _ = True"

fun put_key :: "string \<Rightarrow> 'v \<Rightarrow> (string \<times> 'v) list \<Rightarrow> (string \<times> 'v) list" where
  "put_key k v [] = [(k, v)]"
| "put_key k v ((k', v') # m) =
     (if k < k' then (k, v) # (k', v') # m
      else if k = k' then (k, v) # m
      else (k', v') # put_key k v m)"

definition del_key :: "string \<Rightarrow> (string \<times> 'v) list \<Rightarrow> (string \<times> 'v) list" where
  "del_key k m = filter (\<lambda>(k', v). k' \<noteq> k) m"

subsection \<open>Operations\<close>

text \<open>An operation's kind is a string, as in the code: the decoder reads any. A remove has no value.\<close>

record operation =
  op_kind :: string
  op_path :: string
  op_value :: json

definition op_add :: string where "op_add = ''add''"
definition op_remove :: string where "op_remove = ''remove''"
definition op_replace :: string where "op_replace = ''replace''"

datatype patch_error =
    Invalid_path
  | Remove_whole
  | Unsupported_operation
  | No_value
  | Not_an_operation
  | Decoding

definition marshal_operation :: "operation \<Rightarrow> json" where
  "marshal_operation o' =
     (if op_kind o' = op_remove then JObj [(''op'', JStr (op_kind o')), (''path'', JStr (op_path o'))]
      else JObj [(''op'', JStr (op_kind o')), (''path'', JStr (op_path o')), (''value'', op_value o')])"

text \<open>
  Decoding a string field of a struct: missing or null leaves the empty string, anything but a
  string is an error.
\<close>

definition string_field :: "string \<Rightarrow> fields \<Rightarrow> patch_error + string" where
  "string_field k m = (case map_of m k of
      None \<Rightarrow> Inr [] | Some JNull \<Rightarrow> Inr [] | Some (JStr s) \<Rightarrow> Inr s | Some _ \<Rightarrow> Inl Not_an_operation)"

definition unmarshal_operation :: "json \<Rightarrow> patch_error + operation" where
  "unmarshal_operation d = (case d of
      JObj m \<Rightarrow> (case string_field ''op'' m of Inl e \<Rightarrow> Inl e
        | Inr kind \<Rightarrow> (case string_field ''path'' m of Inl e \<Rightarrow> Inl e
        | Inr path \<Rightarrow>
            if kind = op_remove then Inr \<lparr>op_kind = kind, op_path = path, op_value = JNull\<rparr>
            else (case map_of m ''value'' of None \<Rightarrow> Inl No_value
              | Some v \<Rightarrow> Inr \<lparr>op_kind = kind, op_path = path, op_value = v\<rparr>)))
    | JNull \<Rightarrow> Inl No_value
    | _ \<Rightarrow> Inl Not_an_operation)"

definition parse_document :: "raw \<Rightarrow> patch_error + json" where
  "parse_document r = (case r of Raw d \<Rightarrow> Inr d | _ \<Rightarrow> Inl Decoding)"

subsection \<open>Paths\<close>

definition escape :: "string \<Rightarrow> string" where
  "escape token = replace_all ''/'' ''~1'' (replace_all ''~'' ''~0'' token)"

definition unescape :: "string \<Rightarrow> string" where
  "unescape token = replace_all ''~0'' ''~'' (replace_all ''~1'' ''/'' token)"

definition split_path :: "string \<Rightarrow> patch_error + string list" where
  "split_path path =
     (if path = [] then Inr []
      else if \<not> has_prefix path ''/'' then Inl Invalid_path
      else Inr (map unescape (split_at (CHR ''/'') (tl path))))"

subsection \<open>Diff\<close>

definition child :: "string \<Rightarrow> string \<Rightarrow> string" where
  "child path token = path @ ''/'' @ token"

definition removed_fields :: "string \<Rightarrow> fields \<Rightarrow> fields \<Rightarrow> operation list" where
  "removed_fields path before after =
     [\<lparr>op_kind = op_remove, op_path = child path (escape k), op_value = JNull\<rparr>.
        k \<leftarrow> map fst before, map_of after k = None]"

definition removed_tail :: "string \<Rightarrow> nat \<Rightarrow> nat \<Rightarrow> operation list" where
  "removed_tail path shared len =
     map (\<lambda>i. \<lparr>op_kind = op_remove, op_path = child path (itoa i), op_value = JNull\<rparr>) (rev [shared..<len])"

definition added_tail :: "string \<Rightarrow> nat \<Rightarrow> json list \<Rightarrow> operation list" where
  "added_tail path shared after =
     map (\<lambda>i. \<lparr>op_kind = op_add, op_path = child path (itoa i), op_value = after ! i\<rparr>) [shared..<length after]"

fun diff :: "string \<Rightarrow> json \<Rightarrow> json \<Rightarrow> operation list"
  and diff_fields :: "string \<Rightarrow> fields \<Rightarrow> fields \<Rightarrow> operation list"
  and diff_shared :: "string \<Rightarrow> nat \<Rightarrow> json list \<Rightarrow> json list \<Rightarrow> operation list" where
  "diff path (JObj before) (JObj after) = removed_fields path before after @ diff_fields path before after"
| "diff path (JList before) (JList after) =
     diff_shared path 0 before after
     @ removed_tail path (min (length before) (length after)) (length before)
     @ added_tail path (min (length before) (length after)) after"
| "diff path before after =
     (if before = after then [] else [\<lparr>op_kind = op_replace, op_path = path, op_value = after\<rparr>])"
| "diff_fields path before [] = []"
| "diff_fields path before ((k, v) # after) =
     (case map_of before k of
        None \<Rightarrow> [\<lparr>op_kind = op_add, op_path = child path (escape k), op_value = v\<rparr>]
      | Some old \<Rightarrow> diff (child path (escape k)) old v)
     @ diff_fields path before after"
| "diff_shared path i (x # before) (y # after) =
     diff (child path (itoa i)) x y @ diff_shared path (Suc i) before after"
| "diff_shared path i before after = []"

definition diff_documents :: "json \<Rightarrow> json \<Rightarrow> operation list" where
  "diff_documents before after = diff [] before after"

subsection \<open>Apply\<close>

text \<open>
  \<open>walk\<close> finds the value at the tokens; \<open>set_at\<close> is the \<open>set\<close> of its location, which puts a value in
  its place. The code changes containers in place; a document never shares a subtree with itself,
  so the change is the document with that place replaced.
\<close>

definition index_in :: "string \<Rightarrow> int \<Rightarrow> nat option" where
  "index_in token limit = (case atoi token of None \<Rightarrow> None
     | Some i \<Rightarrow> if i < 0 \<or> i > limit then None else Some (nat i))"

fun walk :: "json \<Rightarrow> string list \<Rightarrow> patch_error + json" where
  "walk d [] = Inr d"
| "walk (JObj m) (t # ts) = (case map_of m t of None \<Rightarrow> Inl Invalid_path | Some c \<Rightarrow> walk c ts)"
| "walk (JList xs) (t # ts) = (case index_in t (int (length xs) - 1) of
     None \<Rightarrow> Inl Invalid_path | Some i \<Rightarrow> walk (xs ! i) ts)"
| "walk d (t # ts) = Inl Invalid_path"

fun set_at :: "json \<Rightarrow> string list \<Rightarrow> json \<Rightarrow> json" where
  "set_at d [] v = v"
| "set_at (JObj m) (t # ts) v = (case map_of m t of None \<Rightarrow> JObj m
     | Some c \<Rightarrow> JObj (put_key t (set_at c ts v) m))"
| "set_at (JList xs) (t # ts) v = (case index_in t (int (length xs) - 1) of
     None \<Rightarrow> JList xs | Some i \<Rightarrow> JList (xs[i := set_at (xs ! i) ts v]))"
| "set_at d (t # ts) v = d"

definition apply_to_list :: "json list \<Rightarrow> string \<Rightarrow> operation \<Rightarrow> patch_error + json list" where
  "apply_to_list xs token o' =
     (if op_kind o' = op_add \<and> token = ''-'' then Inr (xs @ [op_value o'])
      else (case index_in token (if op_kind o' \<noteq> op_add then int (length xs) - 1 else int (length xs)) of
        None \<Rightarrow> Inl Invalid_path
      | Some i \<Rightarrow>
          if op_kind o' = op_add then Inr (take i xs @ op_value o' # drop i xs)
          else if op_kind o' = op_remove then Inr (take i xs @ drop (Suc i) xs)
          else if op_kind o' = op_replace then Inr (xs[i := op_value o'])
          else Inl Unsupported_operation))"

definition apply_to_object :: "fields \<Rightarrow> string \<Rightarrow> operation \<Rightarrow> patch_error + fields" where
  "apply_to_object m key o' =
     (if op_kind o' = op_add then Inr (put_key key (op_value o') m)
      else if map_of m key = None then Inl Invalid_path
      else if op_kind o' = op_remove then Inr (del_key key m)
      else if op_kind o' = op_replace then Inr (put_key key (op_value o') m)
      else Inl Unsupported_operation)"

definition apply_at :: "json \<Rightarrow> string list \<Rightarrow> operation \<Rightarrow> patch_error + json" where
  "apply_at document tokens o' =
     (if tokens = [] then
        (if op_kind o' = op_add \<or> op_kind o' = op_replace then Inr (op_value o') else Inl Remove_whole)
      else (case walk document (butlast tokens) of
        Inl e \<Rightarrow> Inl e
      | Inr (JObj m) \<Rightarrow> (case apply_to_object m (last tokens) o' of Inl e \<Rightarrow> Inl e
          | Inr m' \<Rightarrow> Inr (set_at document (butlast tokens) (JObj m')))
      | Inr (JList xs) \<Rightarrow> (case apply_to_list xs (last tokens) o' of Inl e \<Rightarrow> Inl e
          | Inr xs' \<Rightarrow> Inr (set_at document (butlast tokens) (JList xs')))
      | Inr _ \<Rightarrow> Inl Invalid_path))"

definition apply_operation :: "json \<Rightarrow> operation \<Rightarrow> patch_error + json" where
  "apply_operation document o' =
     (case split_path (op_path o') of Inl e \<Rightarrow> Inl e | Inr tokens \<Rightarrow> apply_at document tokens o')"

fun apply_patch :: "json \<Rightarrow> operation list \<Rightarrow> patch_error + json" where
  "apply_patch document [] = Inr document"
| "apply_patch document (o' # os) =
     (case apply_operation document o' of Inl e \<Rightarrow> Inl e | Inr d \<Rightarrow> apply_patch d os)"

subsection \<open>Objects as sorted fields\<close>

lemma map_of_put_key [simp]: "map_of (put_key k v m) k' = (if k' = k then Some v else map_of m k')"
proof (induction m)
  case (Cons x m)
  then show ?case by (cases x) auto
qed simp

lemma put_key_twice [simp]: "put_key k w (put_key k v m) = put_key k w m"
proof (induction m)
  case (Cons x m)
  then show ?case by (cases x) auto
qed simp

lemma keys_put_key: "fst ` set (put_key k v m) = insert k (fst ` set m)"
proof (induction m)
  case (Cons x m)
  then show ?case by (cases x) auto
qed simp

lemma sorted_keys_Cons:
  "sorted_keys ((k, v) # m) \<longleftrightarrow> (\<forall>k'\<in>fst ` set m. k < k') \<and> sorted_keys m"
  by (auto simp: sorted_keys_def)

lemma sorted_put_key: "sorted_keys m \<Longrightarrow> sorted_keys (put_key k v m)"
proof (induction m)
  case (Cons x m)
  then show ?case by (cases x) (auto simp: sorted_keys_Cons keys_put_key)
qed (simp add: sorted_keys_def)

lemma sorted_filter_keys: "sorted_keys m \<Longrightarrow> sorted_keys (filter P m)"
proof (induction m)
  case (Cons x m)
  then show ?case by (cases x) (auto simp: sorted_keys_Cons)
qed simp

lemma put_key_same: "sorted_keys m \<Longrightarrow> map_of m k = Some v \<Longrightarrow> put_key k v m = m"
proof (induction m)
  case (Cons x m)
  obtain k' v' where x: "x = (k', v')" by (cases x)
  have "k' < k" if "k \<noteq> k'"
    using Cons.prems that x map_of_SomeD[of m k v] by (force simp: sorted_keys_Cons)
  then show ?case using Cons x by (auto simp: sorted_keys_Cons)
qed simp

lemma sorted_keys_ext:
  "sorted_keys m \<Longrightarrow> sorted_keys m' \<Longrightarrow> map_of m = map_of m' \<Longrightarrow> m = m'"
proof (induction m arbitrary: m')
  case Nil
  then show ?case by (cases m') (auto simp: fun_eq_iff split: if_splits)
next
  case (Cons x m)
  obtain k v where x: "x = (k, v)" by (cases x)
  obtain y m'' where m': "m' = y # m''" using Cons.prems(3) x by (cases m') (auto simp: fun_eq_iff split: if_splits)
  obtain k' v' where y: "y = (k', v')" by (cases y)
  have less: "\<forall>j\<in>fst ` set m. k < j" "\<forall>j\<in>fst ` set m''. k' < j"
    using Cons.prems x y m' by (simp_all add: sorted_keys_Cons)
  have dom: "map_of m j = None" if "j \<notin> fst ` set m" for j using that by (simp add: map_of_eq_None_iff)
  have dom'': "map_of m'' j = None" if "j \<notin> fst ` set m''" for j using that by (simp add: map_of_eq_None_iff)
  have keys: "insert k (fst ` set m) = insert k' (fst ` set m'')"
    using arg_cong[OF Cons.prems(3), of dom] x y m' unfolding dom_map_of_conv_image_fst by simp
  have kk: "k = k'"
  proof (rule ccontr)
    assume "k \<noteq> k'"
    then have "k \<in> fst ` set m''" "k' \<in> fst ` set m" using keys by auto
    then show False using less by (meson not_less_iff_gr_or_eq)
  qed
  have vv: "v = v'" using fun_cong[OF Cons.prems(3), of k] x y m' kk by simp
  have "k \<notin> fst ` set m" "k \<notin> fst ` set m''" using less kk by auto
  then have "map_of m j = map_of m'' j" for j
    using fun_cong[OF Cons.prems(3), of j] x y m' kk dom[of k] dom''[of k] by (cases "j = k") simp_all
  then have "m = m''" using Cons.prems x y m' by (intro Cons.IH) (auto simp: sorted_keys_Cons)
  then show ?case using x y m' kk vv by simp
qed

lemma json_ok_fields: "json_ok (JObj m) \<Longrightarrow> map_of m k = Some v \<Longrightarrow> json_ok v"
  by (auto simp: list_all_iff dest: map_of_SomeD)

lemma json_ok_put: "json_ok (JObj m) \<Longrightarrow> json_ok v \<Longrightarrow> json_ok (JObj (put_key k v m))"
proof (induction m)
  case (Cons x m)
  then show ?case
    by (cases x) (auto simp: sorted_keys_Cons keys_put_key)
qed (simp add: sorted_keys_def)

subsection \<open>Tokens and pointers\<close>

text \<open>The pointer of a token list, which \<open>split_path\<close> takes apart again.\<close>

definition pointer :: "string list \<Rightarrow> string" where
  "pointer ts = concat (map (\<lambda>t. ''/'' @ escape t) ts)"

lemma replace_all_char_concat: "replace_all [x] new s = concat (map (\<lambda>c. if c = x then new else [c]) s)"
  by (induction s) (simp_all add: replace_all_char)

definition escape_char :: "char \<Rightarrow> string" where
  "escape_char c = (if c = CHR ''~'' then ''~0'' else if c = CHR ''/'' then ''~1'' else [c])"

lemma escape_eq: "escape t = concat (map escape_char t)"
  unfolding escape_def replace_all_char_concat
  by (induction t) (simp_all add: escape_char_def)

lemma escape_Cons: "escape (c # t) = escape_char c @ escape t"
  by (simp add: escape_eq)

lemma escape_no_slash: "CHR ''/'' \<notin> set (escape t)"
  by (induction t) (auto simp: escape_eq escape_char_def)

lemma unescape_escape [simp]: "unescape (escape t) = t"
proof -
  have "replace_all ''~1'' ''/'' (escape t) = concat (map (\<lambda>c. if c = CHR ''~'' then ''~0'' else [c]) t)"
    by (induction t) (auto simp: escape_Cons escape_char_def replace_all_pair, simp add: escape_eq)
  moreover have "replace_all ''~0'' ''~'' (concat (map (\<lambda>c. if c = CHR ''~'' then ''~0'' else [c]) t)) = t"
    by (induction t) (simp_all add: replace_all_pair)
  ultimately show ?thesis by (simp add: unescape_def)
qed

lemma escape_itoa [simp]: "escape (itoa i) = itoa i"
proof -
  have "escape_char c = [c]" if c: "c \<in> set (itoa i)" for c
  proof -
    obtain d where "d < 10" "c = digit_char d" using c itoa_digits[of i] by blast
    then show ?thesis by (simp add: escape_char_def)
  qed
  then have "concat (map escape_char s) = s" if "set s \<subseteq> set (itoa i)" for s
    using that by (induction s) simp_all
  then show ?thesis by (simp add: escape_eq)
qed

lemma child_pointer: "child (pointer ts) (escape t) = pointer (ts @ [t])"
  by (simp add: child_def pointer_def)

lemma child_pointer_itoa: "child (pointer ts) (itoa i) = pointer (ts @ [itoa i])"
  using child_pointer[of ts "itoa i"] by simp

lemma split_at_pointer:
  "split_at (CHR ''/'') (escape t @ pointer ts) = escape t # map escape ts"
proof (induction ts arbitrary: t)
  case Nil
  then show ?case by (simp add: pointer_def split_at_no_sep escape_no_slash)
next
  case (Cons u ts)
  have "pointer (u # ts) = CHR ''/'' # escape u @ pointer ts" by (simp add: pointer_def)
  then show ?case using Cons by (simp add: split_at_append escape_no_slash)
qed

lemma split_path_pointer [simp]: "split_path (pointer ts) = Inr ts"
proof (cases ts)
  case Nil
  then show ?thesis by (simp add: split_path_def pointer_def)
next
  case (Cons t ts')
  then have "pointer ts = CHR ''/'' # escape t @ pointer ts'" by (simp add: pointer_def)
  then show ?thesis using Cons
    by (simp add: split_path_def has_prefix_def split_at_pointer comp_def)
qed

lemma apply_operation_pointer:
  "op_path o' = pointer ts \<Longrightarrow> apply_operation d o' = apply_at d ts o'"
  by (simp add: apply_operation_def)

subsection \<open>Walking and setting\<close>

lemma index_in_itoa [simp]: "int i \<le> n \<Longrightarrow> index_in (itoa i) n = Some i"
  by (simp add: index_in_def)

lemma index_in_less: "index_in t (int n - 1) = Some i \<Longrightarrow> i < n"
  by (auto simp: index_in_def split: option.splits if_splits)

text \<open>A context: the document, the tokens and what is there. The \<open>ctx\<close> lemmas say how the code's
  walk, set and operations move through it.\<close>

lemma walk_set_at [simp]: "walk d ts = Inr x \<Longrightarrow> walk (set_at d ts v) ts = Inr v"
proof (induction d ts rule: walk.induct)
  case (3 xs t ts)
  then obtain i where i: "index_in t (int (length xs) - 1) = Some i" by (auto split: option.splits)
  then show ?case using 3 index_in_less[OF i] by simp
qed (auto split: option.splits)

lemma set_at_twice [simp]: "walk d ts = Inr x \<Longrightarrow> set_at (set_at d ts v) ts w = set_at d ts w"
proof (induction d ts rule: walk.induct)
  case (3 xs t ts)
  then obtain i where i: "index_in t (int (length xs) - 1) = Some i" by (auto split: option.splits)
  then show ?case using 3 index_in_less[OF i] by simp
qed (auto split: option.splits)

lemma walk_append: "walk d ts = Inr x \<Longrightarrow> walk d (ts @ us) = walk x us"
  by (induction d ts rule: walk.induct) (auto split: option.splits)

lemma set_at_append: "walk d ts = Inr x \<Longrightarrow> set_at d (ts @ us) v = set_at d ts (set_at x us v)"
  by (induction d ts rule: walk.induct) (auto split: option.splits)

lemma ctx_field:
  assumes "walk d ts = Inr (JObj m)" "map_of m k = Some c"
  shows "walk d (ts @ [k]) = Inr c" "set_at d (ts @ [k]) v = set_at d ts (JObj (put_key k v m))"
  using assms by (simp_all add: walk_append[OF assms(1)] set_at_append[OF assms(1)])

lemma ctx_index:
  assumes "walk d ts = Inr (JList xs)" "i < length xs"
  shows "walk d (ts @ [itoa i]) = Inr (xs ! i)"
    "set_at d (ts @ [itoa i]) v = set_at d ts (JList (xs[i := v]))"
  using assms by (simp_all add: walk_append[OF assms(1)] set_at_append[OF assms(1)])

lemma set_at_same: "json_ok d \<Longrightarrow> walk d ts = Inr x \<Longrightarrow> set_at d ts x = d"
proof (induction d ts rule: walk.induct)
  case (2 m t ts)
  then obtain c where c: "map_of m t = Some c" by (auto split: option.splits)
  then show ?case using 2 json_ok_fields[OF _ c] put_key_same[OF _ c] by simp
next
  case (3 xs t ts)
  then obtain i where i: "index_in t (int (length xs) - 1) = Some i" by (auto split: option.splits)
  then have "json_ok (xs ! i)" using 3(2) index_in_less[OF i] by (simp add: list_all_length)
  then show ?case using 3 i by simp
qed simp_all

lemma json_ok_set_at: "json_ok d \<Longrightarrow> json_ok v \<Longrightarrow> json_ok (set_at d ts v)"
proof (induction d ts v rule: set_at.induct)
  case (2 m t ts v)
  show ?case
  proof (cases "map_of m t")
    case (Some c)
    have "json_ok (set_at c ts v)" using 2(1)[OF Some json_ok_fields[OF 2(2) Some] 2(3)] .
    then show ?thesis using json_ok_put[OF 2(2)] Some by simp
  qed (use 2 in simp)
next
  case (3 xs t ts v)
  show ?case
  proof (cases "index_in t (int (length xs) - 1)")
    case (Some i)
    have "json_ok (set_at (xs ! i) ts v)"
      using 3(1)[OF Some] 3(2,3) index_in_less[OF Some] by (simp add: list_all_length)
    moreover have "set (xs[i := set_at (xs ! i) ts v]) \<subseteq> insert (set_at (xs ! i) ts v) (set xs)"
      by (rule set_update_subset_insert)
    ultimately show ?thesis using 3(2) Some by (auto simp: list_all_iff)
  qed (use 3 in simp)
qed simp_all

lemma json_ok_walk: "json_ok d \<Longrightarrow> walk d ts = Inr x \<Longrightarrow> json_ok x"
proof (induction d ts rule: walk.induct)
  case (2 m t ts)
  then obtain c where c: "map_of m t = Some c" by (auto split: option.splits)
  then show ?case using 2 json_ok_fields[OF 2(2) c] by simp
next
  case (3 xs t ts)
  then obtain i where i: "index_in t (int (length xs) - 1) = Some i" by (auto split: option.splits)
  then have "json_ok (xs ! i)" using 3(2) index_in_less[OF i] by (simp add: list_all_length)
  then show ?case using 3 i by simp
qed simp_all

lemma op_kinds [simp]:
  "op_add \<noteq> op_remove" "op_remove \<noteq> op_add" "op_add \<noteq> op_replace" "op_replace \<noteq> op_add"
  "op_remove \<noteq> op_replace" "op_replace \<noteq> op_remove"
  by (simp_all add: op_add_def op_remove_def op_replace_def)

lemma apply_field:
  assumes "walk d ts = Inr (JObj m)" "apply_to_object m k \<lparr>op_kind = kd, op_path = p, op_value = v\<rparr> = Inr m'"
    and "p = pointer (ts @ [k])"
  shows "apply_operation d \<lparr>op_kind = kd, op_path = p, op_value = v\<rparr> = Inr (set_at d ts (JObj m'))"
proof -
  have "op_path \<lparr>op_kind = kd, op_path = p, op_value = v\<rparr> = pointer (ts @ [k])" using assms(3) by simp
  from apply_operation_pointer[OF this] show ?thesis using assms(1,2) by (simp add: apply_at_def)
qed

lemma apply_item:
  assumes "walk d ts = Inr (JList xs)" "apply_to_list xs k \<lparr>op_kind = kd, op_path = p, op_value = v\<rparr> = Inr xs'"
    and "p = pointer (ts @ [k])"
  shows "apply_operation d \<lparr>op_kind = kd, op_path = p, op_value = v\<rparr> = Inr (set_at d ts (JList xs'))"
proof -
  have "op_path \<lparr>op_kind = kd, op_path = p, op_value = v\<rparr> = pointer (ts @ [k])" using assms(3) by simp
  from apply_operation_pointer[OF this] show ?thesis using assms(1,2) by (simp add: apply_at_def)
qed

lemma apply_patch_append:
  "apply_patch d (xs @ ys) = (case apply_patch d xs of Inl e \<Rightarrow> Inl e | Inr d' \<Rightarrow> apply_patch d' ys)"
  by (induction xs arbitrary: d) (auto split: sum.split)

lemma apply_replace:
  assumes "walk d ts = Inr x"
  shows "apply_operation d \<lparr>op_kind = op_replace, op_path = pointer ts, op_value = v\<rparr> = Inr (set_at d ts v)"
proof (cases ts rule: rev_cases)
  case Nil
  then show ?thesis
    by (simp add: apply_operation_pointer apply_at_def)
next
  case (snoc us k)
  have "\<exists>y. walk d us = Inr y \<and> walk y [k] = Inr x"
    using assms unfolding snoc
    by (induction d us rule: walk.induct) (auto split: option.splits)
  then obtain y where y: "walk d us = Inr y" "walk y [k] = Inr x" by blast
  show ?thesis
  proof (cases y)
    case (JObj m)
    then obtain c where "map_of m k = Some c" using y(2) by (auto split: option.splits)
    then show ?thesis using y(1) JObj ctx_field(2)[of d us m k c v]
      by (simp add: snoc apply_field[of d us m k] apply_to_object_def)
  next
    case (JList xs)
    then obtain i where i: "index_in k (int (length xs) - 1) = Some i" using y(2) by (auto split: option.splits)
    then have "set_at d (us @ [k]) v = set_at d us (JList (xs[i := v]))"
      using y(1) JList by (simp add: set_at_append[OF y(1)])
    then show ?thesis using y(1) JList i
      by (simp add: snoc apply_item[of d us xs k] apply_to_list_def)
  qed (use y in simp_all)
qed

subsection \<open>Applying a diff\<close>

text \<open>What the field loops leave: the removed keys dropped, then every field of \<open>after\<close> put.\<close>

lemma apply_removed_fields:
  assumes "walk d ts = Inr (JObj m)" "distinct ks" "\<forall>k\<in>set ks. map_of m k \<noteq> None"
  shows "apply_patch d (map (\<lambda>k. \<lparr>op_kind = op_remove, op_path = child (pointer ts) (escape k), op_value = JNull\<rparr>) ks)
    = Inr (if ks = [] then d else set_at d ts (JObj (filter (\<lambda>(k, v). k \<notin> set ks) m)))"
  using assms
proof (induction ks arbitrary: d m)
  case (Cons k ks)
  let ?d = "set_at d ts (JObj (del_key k m))"
  have step: "apply_operation d \<lparr>op_kind = op_remove, op_path = child (pointer ts) (escape k), op_value = JNull\<rparr> = Inr ?d"
    using Cons.prems by (intro apply_field[OF Cons.prems(1)]) (auto simp: apply_to_object_def child_pointer)
  have w: "walk ?d ts = Inr (JObj (del_key k m))" using Cons.prems(1) by simp
  have "map_of (del_key k m) j = map_of m j" if "j \<noteq> k" for j
    using that by (induction m) (auto simp: del_key_def)
  then have "\<forall>j\<in>set ks. map_of (del_key k m) j \<noteq> None"
    using Cons.prems(2,3) by (metis distinct.simps(2) list.set_intros(2))
  then have "apply_patch ?d (map (\<lambda>k. \<lparr>op_kind = op_remove, op_path = child (pointer ts) (escape k), op_value = JNull\<rparr>) ks)
    = Inr (if ks = [] then ?d else set_at ?d ts (JObj (filter (\<lambda>(k, v). k \<notin> set ks) (del_key k m))))"
    using Cons.prems by (intro Cons.IH[OF w]) auto
  moreover have "filter (\<lambda>(j, v). j \<notin> set ks) (del_key k m) = filter (\<lambda>(j, v). j \<notin> set (k # ks)) m"
    unfolding del_key_def filter_filter by (rule filter_cong) auto
  moreover have "del_key k m = filter (\<lambda>(j, v). j \<notin> set [k]) m"
    unfolding del_key_def by (rule filter_cong) auto
  ultimately show ?case using step Cons.prems(1) by simp
qed simp

lemma apply_removed_tail:
  assumes "walk d ts = Inr (JList xs)" "n \<le> length xs" "json_ok d"
  shows "apply_patch d (removed_tail (pointer ts) n (length xs)) = Inr (set_at d ts (JList (take n xs)))"
  using assms
proof (induction "length xs - n" arbitrary: d xs)
  case 0
  then show ?case by (simp add: removed_tail_def set_at_same)
next
  case (Suc k)
  let ?i = "length xs - 1"
  let ?xs = "take ?i xs"
  let ?d = "set_at d ts (JList ?xs)"
  have le: "n \<le> ?i" "Suc ?i = length xs" using Suc.hyps(2) Suc.prems(2) by auto
  have "[n..<length xs] = [n..<?i] @ [?i]" using le upt_Suc_append[of n ?i] by simp
  then have unfold: "removed_tail (pointer ts) n (length xs)
      = \<lparr>op_kind = op_remove, op_path = child (pointer ts) (itoa ?i), op_value = JNull\<rparr>
        # removed_tail (pointer ts) n (length ?xs)"
    by (simp add: removed_tail_def)
  have step: "apply_operation d \<lparr>op_kind = op_remove, op_path = child (pointer ts) (itoa ?i), op_value = JNull\<rparr> = Inr ?d"
    using le by (intro apply_item[OF Suc.prems(1)]) (simp_all add: apply_to_list_def child_pointer_itoa of_nat_diff)
  have "json_ok (JList ?xs)" using json_ok_walk[OF Suc.prems(3,1)] by (auto simp: list_all_iff dest: in_set_takeD)
  then have "apply_patch ?d (removed_tail (pointer ts) n (length ?xs)) = Inr (set_at ?d ts (JList (take n ?xs)))"
    using Suc le by (intro Suc.hyps(1)) (auto intro: json_ok_set_at)
  then show ?case using unfold step Suc.prems(1) le by (simp add: min_def)
qed

lemma apply_added_tail:
  assumes "walk d ts = Inr (JList (take n ys))" "n \<le> length ys" "json_ok d" "json_ok (JList ys)"
  shows "apply_patch d (added_tail (pointer ts) n ys) = Inr (set_at d ts (JList ys))"
  using assms
proof (induction "length ys - n" arbitrary: d n)
  case 0
  then show ?case by (simp add: added_tail_def set_at_same)
next
  case (Suc k)
  let ?d = "set_at d ts (JList (take (Suc n) ys))"
  have lt: "n < length ys" using Suc.hyps(2) by simp
  then have unfold: "added_tail (pointer ts) n ys
      = \<lparr>op_kind = op_add, op_path = child (pointer ts) (itoa n), op_value = ys ! n\<rparr> # added_tail (pointer ts) (Suc n) ys"
    by (simp add: added_tail_def upt_conv_Cons)
  have not_end: "itoa n \<noteq> ''-''" using itoa_Cons[of n] by (metis digit_char_sign(1) list.inject)
  have step: "apply_operation d \<lparr>op_kind = op_add, op_path = child (pointer ts) (itoa n), op_value = ys ! n\<rparr> = Inr ?d"
    using lt not_end by (intro apply_item[OF Suc.prems(1)])
      (simp_all add: apply_to_list_def child_pointer_itoa take_Suc_conv_app_nth)
  have "json_ok (JList (take (Suc n) ys))" using Suc.prems(4) by (auto simp: list_all_iff dest: in_set_takeD)
  then have "apply_patch ?d (added_tail (pointer ts) (Suc n) ys) = Inr (set_at ?d ts (JList ys))"
    using Suc lt by (intro Suc.hyps(1)) (auto intro: json_ok_set_at)
  then show ?case using unfold step Suc.prems(1) by simp
qed

definition put_fields :: "fields \<Rightarrow> fields \<Rightarrow> fields" where
  "put_fields after m = fold (\<lambda>(k, v) m. put_key k v m) after m"

lemma put_fields_Cons [simp]: "put_fields ((k, v) # after) m = put_fields after (put_key k v m)"
  by (simp add: put_fields_def)

lemma map_of_put_fields:
  "distinct (map fst after) \<Longrightarrow> map_of (put_fields after m) j = (case map_of after j of Some v \<Rightarrow> Some v | None \<Rightarrow> map_of m j)"
proof (induction after arbitrary: m)
  case (Cons x after)
  obtain k v where x: "x = (k, v)" by (cases x)
  then have "map_of after k = None" using Cons.prems by (simp add: map_of_eq_None_iff)
  then show ?case using Cons x by (auto split: option.split)
qed (simp add: put_fields_def)

lemma sorted_put_fields: "sorted_keys m \<Longrightarrow> sorted_keys (put_fields after m)"
proof (induction after arbitrary: m)
  case (Cons x after)
  then show ?case by (cases x) (simp add: sorted_put_key)
qed (simp add: put_fields_def)

lemma sorted_keys_distinct: "sorted_keys m \<Longrightarrow> distinct (map fst m)"
  by (induction m) (auto simp: sorted_keys_def)

lemma put_fields_all:
  assumes "sorted_keys before" "sorted_keys after"
  shows "put_fields after (filter (\<lambda>(k, v). map_of after k \<noteq> None) before) = after"
proof (rule sorted_keys_ext)
  show "sorted_keys (put_fields after (filter (\<lambda>(k, v). map_of after k \<noteq> None) before))"
    using assms by (intro sorted_put_fields sorted_filter_keys)
  have "map_of (filter (\<lambda>(k, v). map_of after k \<noteq> None) before) j = None" if "map_of after j = None" for j
    using that by (induction before) auto
  then show "map_of (put_fields after (filter (\<lambda>(k, v). map_of after k \<noteq> None) before)) = map_of after"
    using assms(2) by (auto simp: fun_eq_iff map_of_put_fields sorted_keys_distinct split: option.split)
qed (rule assms(2))

lemma removed_fields_eq:
  "removed_fields path before after =
    map (\<lambda>k. \<lparr>op_kind = op_remove, op_path = child path (escape k), op_value = JNull\<rparr>)
      (filter (\<lambda>k. map_of after k = None) (map fst before))"
  unfolding removed_fields_def by (rule concat_map_if)

lemma apply_removed:
  assumes w: "walk d ts = Inr (JObj before)" and ok: "json_ok d" "sorted_keys before"
  shows "apply_patch d (removed_fields (pointer ts) before after)
    = Inr (set_at d ts (JObj (filter (\<lambda>(k, v). map_of after k \<noteq> None) before)))"
proof -
  let ?ks = "filter (\<lambda>k. map_of after k = None) (map fst before)"
  have ks: "distinct ?ks" "\<forall>k\<in>set ?ks. map_of before k \<noteq> None"
    using sorted_keys_distinct[OF ok(2)] by (auto simp: map_of_eq_None_iff)
  have "filter (\<lambda>(k, v). k \<notin> set ?ks) before = filter (\<lambda>(k, v). map_of after k \<noteq> None) before"
    by (rule filter_cong) force+
  moreover have "filter (\<lambda>(k, v). map_of after k \<noteq> None) before = before" if "?ks = []"
    using that by (intro filter_True) (force simp: filter_empty_conv)
  ultimately show ?thesis
    using apply_removed_fields[OF w ks] set_at_same[OF ok(1) w]
    by (simp add: removed_fields_eq)
qed

lemma apply_patch_Inr_append:
  "apply_patch d xs = Inr d' \<Longrightarrow> apply_patch d (xs @ ys) = apply_patch d' ys"
  by (simp add: apply_patch_append)

lemma apply_replace1:
  "walk d ts = Inr x \<Longrightarrow>
    apply_patch d [\<lparr>op_kind = op_replace, op_path = pointer ts, op_value = a\<rparr>] = Inr (set_at d ts a)"
  by (simp add: apply_replace)

lemma apply_diff:
  shows "walk d ts = Inr b \<Longrightarrow> json_ok d \<Longrightarrow> json_ok a \<Longrightarrow>
      apply_patch d (diff (pointer ts) b a) = Inr (set_at d ts a)"
    and "walk d ts = Inr (JObj m) \<Longrightarrow> json_ok d \<Longrightarrow> json_ok (JObj after) \<Longrightarrow>
      \<forall>k\<in>fst ` set after. map_of m k = map_of before k \<Longrightarrow>
      apply_patch d (diff_fields (pointer ts) before after) = Inr (set_at d ts (JObj (put_fields after m)))"
    and "walk d ts = Inr (JList (pre @ bs)) \<Longrightarrow> json_ok d \<Longrightarrow> json_ok (JList as) \<Longrightarrow> i = length pre \<Longrightarrow>
      apply_patch d (diff_shared (pointer ts) i bs as)
        = Inr (set_at d ts (JList (pre @ take (length bs) as @ drop (length as) bs)))"
proof (induction "pointer ts" b a and "pointer ts" before after and "pointer ts" i bs as
    arbitrary: d ts and d ts m and d ts pre rule: diff_diff_fields_diff_shared.induct)
  case (1 before after)
  let ?m = "filter (\<lambda>(k, v). map_of after k \<noteq> None) before"
  let ?d = "set_at d ts (JObj ?m)"
  have okb: "json_ok (JObj before)" by (rule json_ok_walk[OF 1(3,2)])
  have m: "json_ok (JObj ?m)" using okb by (auto simp: sorted_filter_keys list_all_iff)
  have d: "walk ?d ts = Inr (JObj ?m)" "json_ok ?d" using 1(2,3) m by (auto intro: json_ok_set_at)
  have "map_of ?m k = map_of before k" if "k \<in> fst ` set after" for k
  proof -
    have "map_of after k \<noteq> None" using that by (simp add: map_of_eq_None_iff)
    then show ?thesis by (induction before) auto
  qed
  then have "apply_patch ?d (diff_fields (pointer ts) before after) = Inr (set_at ?d ts (JObj (put_fields after ?m)))"
    using d 1 by (intro 1(1)) auto
  then show ?case
    using apply_removed[of d ts before after] 1 okb put_fields_all[of before after]
    by (simp add: apply_patch_Inr_append)
next
  case (2 before after)
  let ?n = "min (length before) (length after)"
  let ?xs = "take (length before) after @ drop (length after) before"
  let ?d = "set_at d ts (JList ?xs)"
  have okb: "json_ok (JList before)" by (rule json_ok_walk[OF 2(3,2)])
  have okx: "json_ok (JList ?xs)"
    using okb 2(4) by (auto simp: list_all_iff dest: in_set_takeD in_set_dropD)
  have shared: "apply_patch d (diff_shared (pointer ts) 0 before after) = Inr ?d"
    using 2(1)[of ts d "[]"] 2 by simp
  have d: "walk ?d ts = Inr (JList ?xs)" "json_ok ?d" using 2(2,3) okx by (auto intro: json_ok_set_at)
  have tk: "take ?n ?xs = take ?n after" "length ?xs = length before"
    by (simp_all add: min_def)
  let ?d2 = "set_at d ts (JList (take ?n after))"
  have "apply_patch ?d (removed_tail (pointer ts) ?n (length ?xs)) = Inr (set_at ?d ts (JList (take ?n ?xs)))"
    by (rule apply_removed_tail[OF d(1) _ d(2)]) (simp add: min_def)
  then have removed: "apply_patch ?d (removed_tail (pointer ts) ?n (length before)) = Inr ?d2"
    using tk 2(2) by simp
  have "json_ok (JList (take ?n after))" using 2(4) by (auto simp: list_all_iff dest: in_set_takeD)
  then have d2: "walk ?d2 ts = Inr (JList (take ?n after))" "json_ok ?d2"
    using 2(2,3) by (auto intro: json_ok_set_at)
  have "apply_patch ?d2 (added_tail (pointer ts) ?n after) = Inr (set_at ?d2 ts (JList after))"
    by (rule apply_added_tail[OF d2(1) _ d2(2) 2(4)]) simp
  then show ?case using shared removed 2(2) by (simp add: apply_patch_append)
next
  case (5 before k v after)
  let ?m = "put_key k v m"
  let ?d = "set_at d ts (JObj ?m)"
  have okv: "json_ok v" "json_ok (JObj after)" and new: "k \<notin> fst ` set after"
    using 5(5) by (auto simp: sorted_keys_Cons)
  have okm: "json_ok (JObj m)" by (rule json_ok_walk[OF 5(4,3)])
  have head: "apply_patch d (case map_of before k of
        None \<Rightarrow> [\<lparr>op_kind = op_add, op_path = child (pointer ts) (escape k), op_value = v\<rparr>]
      | Some old \<Rightarrow> diff (child (pointer ts) (escape k)) old v) = Inr ?d"
  proof (cases "map_of before k")
    case None
    have "apply_operation d \<lparr>op_kind = op_add, op_path = child (pointer ts) (escape k), op_value = v\<rparr> = Inr ?d"
      by (rule apply_field[OF 5(3)]) (simp_all add: apply_to_object_def child_pointer)
    then show ?thesis using None by simp
  next
    case (Some old)
    then have old: "map_of m k = Some old" using 5(6) by simp
    have "apply_patch d (diff (pointer (ts @ [k])) old v) = Inr (set_at d (ts @ [k]) v)"
      using ctx_field(1)[OF 5(3) old] 5(4) okv(1) by (intro 5(1)[OF Some]) (simp_all add: child_pointer)
    then show ?thesis using Some ctx_field(2)[OF 5(3) old, of v] by (simp add: child_pointer)
  qed
  have d: "walk ?d ts = Inr (JObj ?m)" "json_ok ?d"
    using 5(3,4) json_ok_put[OF okm okv(1)] by (auto intro: json_ok_set_at)
  have "\<forall>j\<in>fst ` set after. map_of ?m j = map_of before j" using 5(6) new by auto
  then have "apply_patch ?d (diff_fields (pointer ts) before after) = Inr (set_at ?d ts (JObj (put_fields after ?m)))"
    using d okv(2) by (intro 5(2)) auto
  then show ?case using head 5(3) by (simp add: apply_patch_append)
next
  case (6 i x before y after)
  let ?xs = "pre @ y # before"
  let ?d = "set_at d ts (JList ?xs)"
  have oks: "json_ok y" "json_ok (JList after)" using 6(5) by simp_all
  have nth: "(pre @ x # before) ! i = x" "i < length (pre @ x # before)" "(pre @ x # before)[i := y] = ?xs"
    using 6(6) by simp_all
  have "apply_patch d (diff (pointer (ts @ [itoa i])) x y) = Inr (set_at d (ts @ [itoa i]) y)"
    using ctx_index(1)[OF 6(3) nth(2)] nth(1) 6(4) oks(1) by (intro 6(1)) (simp_all add: child_pointer_itoa)
  then have head: "apply_patch d (diff (child (pointer ts) (itoa i)) x y) = Inr ?d"
    using ctx_index(2)[OF 6(3) nth(2), of y] nth(3) by (simp add: child_pointer_itoa)
  have okx: "json_ok (JList ?xs)" using json_ok_walk[OF 6(4,3)] oks(1) by simp
  have d: "walk ?d ts = Inr (JList ((pre @ [y]) @ before))" "json_ok ?d"
    using 6(3,4) okx by (auto intro: json_ok_set_at)
  have "apply_patch ?d (diff_shared (pointer ts) (Suc i) before after)
      = Inr (set_at ?d ts (JList ((pre @ [y]) @ take (length before) after @ drop (length after) before)))"
    using d oks(2) 6(6) by (intro 6(2)) auto
  then show ?case using head 6(3) by (simp add: apply_patch_append)
qed (auto simp: put_fields_def set_at_same simp del: apply_patch.simps(2) intro: apply_replace1)

lemma diff_same:
  shows "json_ok b \<Longrightarrow> b = a \<Longrightarrow> diff path b a = []"
    and "json_ok (JObj after) \<Longrightarrow> \<forall>(k, v)\<in>set after. map_of before k = Some v \<Longrightarrow> diff_fields path before after = []"
    and "list_all json_ok as \<Longrightarrow> bs = as \<Longrightarrow> diff_shared path i bs as = []"
proof (induction path b a and path before after and path i bs as rule: diff_diff_fields_diff_shared.induct)
  case (1 path before after)
  have "map_of after k = Some v" if "(k, v) \<in> set after" for k v
    using that 1(2,3) by (simp add: sorted_keys_distinct)
  then have "diff_fields path before after = []" using 1 by auto
  moreover have "removed_fields path before after = []"
    using 1(3) by (auto simp: removed_fields_eq filter_empty_conv map_of_eq_None_iff)
  ultimately show ?case by simp
next
  case (5 path before k v after)
  then show ?case by (auto simp: sorted_keys_Cons)
qed (auto simp: removed_tail_def added_tail_def)

lemma apply_diff_doc:
  "json_ok before \<Longrightarrow> json_ok after \<Longrightarrow> apply_patch before (diff_documents before after) = Inr after"
  using apply_diff(1)[of before "[]" before after] by (simp add: diff_documents_def pointer_def)

lemma diff_doc_empty:
  "json_ok before \<Longrightarrow> json_ok after \<Longrightarrow> diff_documents before after = [] \<longleftrightarrow> before = after"
  using apply_diff_doc[of before after] diff_same(1)[of before after]
  by (auto simp: diff_documents_def)

subsection \<open>What the package promises\<close>

text \<open>
  C1: applying the difference of two documents to the first gives the second, whatever their shape,
  keys with slashes and tildes included.
\<close>

theorem apply_diff_documents:
  assumes "json_ok before" "json_ok after"
  shows "apply_patch before (diff_documents before after) = Inr after"
  by (rule apply_diff_doc[OF assms])

theorem apply_diff_documents_witness:
  "apply_patch (JObj [(''a/b'', JList [JNum ''1'', JNum ''2'']), (''~'', JNull)])
     (diff_documents (JObj [(''a/b'', JList [JNum ''1'', JNum ''2'']), (''~'', JNull)])
        (JObj [(''a/b'', JList [JNum ''3'']), (''c'', JObj [])]))
   = Inr (JObj [(''a/b'', JList [JNum ''3'']), (''c'', JObj [])])"
  by (rule apply_diff_documents) (simp_all add: sorted_keys_def less_list_code less_char_def)

text \<open>The difference is empty exactly when the documents are equal.\<close>

lemma diff_documents_empty:
  assumes "json_ok before" "json_ok after"
  shows "diff_documents before after = [] \<longleftrightarrow> before = after"
  by (rule diff_doc_empty[OF assms])

text \<open>
  A removal or a replacement that succeeds names a place the document has: a missing field, an
  index out of range and a path through a scalar are refused, never ignored.
\<close>

lemma apply_operation_target:
  assumes "apply_operation d o' = Inr d'" "split_path (op_path o') = Inr ts" "op_kind o' \<noteq> op_add"
  shows "(\<exists>x. walk d ts = Inr x) \<and> (op_kind o' = op_remove \<or> op_kind o' = op_replace)"
proof (cases ts rule: rev_cases)
  case Nil
  then show ?thesis using assms by (simp add: apply_operation_def apply_at_def split: if_splits)
next
  case (snoc us k)
  then obtain y where y: "walk d us = Inr y"
    using assms by (auto simp: apply_operation_def apply_at_def split: sum.splits)
  then have "apply_at d (us @ [k]) o' = Inr d'" using assms snoc by (simp add: apply_operation_def)
  then show ?thesis
    using y assms(3) walk_append[OF y, of "[k]"] snoc
    by (cases y) (auto simp: apply_at_def apply_to_object_def apply_to_list_def
        split: sum.splits if_splits option.splits)
qed

subsection \<open>Patches as they are stored\<close>

definition marshal_patch :: "operation list \<Rightarrow> json" where
  "marshal_patch os = JList (map marshal_operation os)"

fun unmarshal_operations :: "json list \<Rightarrow> patch_error + operation list" where
  "unmarshal_operations [] = Inr []"
| "unmarshal_operations (x # xs) = (case unmarshal_operation x of Inl e \<Rightarrow> Inl e
     | Inr o' \<Rightarrow> (case unmarshal_operations xs of Inl e \<Rightarrow> Inl e | Inr os \<Rightarrow> Inr (o' # os)))"

definition unmarshal_patch :: "json \<Rightarrow> patch_error + operation list" where
  "unmarshal_patch d = (case d of JList xs \<Rightarrow> unmarshal_operations xs | JNull \<Rightarrow> Inr [] | _ \<Rightarrow> Inl Not_an_operation)"

definition op_plain :: "operation \<Rightarrow> bool" where
  "op_plain o' \<longleftrightarrow> (op_kind o' = op_remove \<longrightarrow> op_value o' = JNull)"

lemma unmarshal_marshal_operation: "op_plain o' \<Longrightarrow> unmarshal_operation (marshal_operation o') = Inr o'"
  by (simp add: op_plain_def marshal_operation_def unmarshal_operation_def string_field_def)

lemma unmarshal_marshal_patch: "list_all op_plain os \<Longrightarrow> unmarshal_patch (marshal_patch os) = Inr os"
  by (induction os) (simp_all add: unmarshal_patch_def marshal_patch_def unmarshal_marshal_operation)

lemma diff_plain:
  shows "list_all op_plain (diff path b a)"
    and "list_all op_plain (diff_fields path before after)"
    and "list_all op_plain (diff_shared path i bs as)"
  by (induction path b a and path before after and path i bs as rule: diff_diff_fields_diff_shared.induct)
    (auto simp: op_plain_def removed_fields_eq removed_tail_def added_tail_def list_all_iff split: option.split)

text \<open>
  What the recorder of a history relies on: a difference that applies, tells equal documents
  apart from different ones and survives being stored.
\<close>

locale patch_codec =
  fixes valid :: "'d \<Rightarrow> bool" and difference :: "'d \<Rightarrow> 'd \<Rightarrow> 'p" and nothing :: "'p \<Rightarrow> bool"
    and applied :: "'d \<Rightarrow> 'p \<Rightarrow> 'e + 'd" and store :: "'p \<Rightarrow> 'w" and load :: "'w \<Rightarrow> 'e + 'p"
  assumes applied_difference: "valid a \<Longrightarrow> valid b \<Longrightarrow> applied a (difference a b) = Inr b"
    and nothing_difference: "valid a \<Longrightarrow> valid b \<Longrightarrow> nothing (difference a b) \<longleftrightarrow> a = b"
    and load_store: "load (store (difference a b)) = Inr (difference a b)"
begin

text \<open>The stored differences of a history from its base, and the states read back from them.\<close>

fun stored_deltas :: "'d \<Rightarrow> 'd list \<Rightarrow> 'w list" where
  "stored_deltas base [] = []"
| "stored_deltas base (x # xs) =
     (if nothing (difference base x) then stored_deltas base xs
      else store (difference base x) # stored_deltas x xs)"

fun read_deltas :: "'d \<Rightarrow> 'w list \<Rightarrow> 'e + 'd list" where
  "read_deltas base [] = Inr []"
| "read_deltas base (w # ws) = (case load w of Inl e \<Rightarrow> Inl e
     | Inr p \<Rightarrow> (case applied base p of Inl e \<Rightarrow> Inl e
       | Inr x \<Rightarrow> (case read_deltas x ws of Inl e \<Rightarrow> Inl e | Inr xs \<Rightarrow> Inr (x # xs))))"

fun changes :: "'d \<Rightarrow> 'd list \<Rightarrow> 'd list" where
  "changes base [] = []"
| "changes base (x # xs) = (if base = x then changes base xs else x # changes x xs)"

lemma read_stored_deltas:
  "valid base \<Longrightarrow> list_all valid xs \<Longrightarrow> read_deltas base (stored_deltas base xs) = Inr (changes base xs)"
  by (induction xs arbitrary: base) (auto simp: nothing_difference load_store applied_difference)

lemma changes_last: "xs \<noteq> [] \<Longrightarrow> last (base # changes base xs) = last xs"
proof (induction xs arbitrary: base)
  case (Cons x xs)
  show ?case
  proof (cases "xs = []")
    case False
    then show ?thesis using Cons.IH[OF False, of x] by (auto split: if_splits)
  qed simp
qed simp

end

interpretation json_codec: patch_codec json_ok diff_documents "\<lambda>os. os = []" apply_patch marshal_patch unmarshal_patch
proof unfold_locales
  fix a b :: json
  show "unmarshal_patch (marshal_patch (diff_documents a b)) = Inr (diff_documents a b)"
    by (simp add: diff_documents_def unmarshal_marshal_patch diff_plain)
qed (simp_all add: apply_diff_doc diff_doc_empty)

end
