(* ===== verification/ViewPatch.thy ===== *)
theory ViewPatch
  imports JsonPatch
begin

section \<open>View patches\<close>

text \<open>
  The package \<open>play/runtime/internal/business/viewpatch\<close>: what a participant's view changed since
  the last one their connection received, as an object with only the changed fields, or the whole
  view. The client's side is \<open>merge_fields\<close>: objects merge field by field, anything else replaces.
\<close>

datatype view_error = Previous_not_json | View_not_json

text \<open>
  \<open>None\<close> is the \<open>removed\<close> result. A missing field reads as \<open>nil\<close>, which \<open>DeepEqual\<close> cannot tell
  from a null value. The loops run over Go maps in any order; the changes are a map again.
\<close>

fun view_diff_objects :: "fields \<Rightarrow> fields \<Rightarrow> fields option"
  and view_changes :: "fields \<Rightarrow> fields \<Rightarrow> fields option"
  and view_change :: "json option \<Rightarrow> string \<Rightarrow> json \<Rightarrow> fields option" where
  "view_diff_objects before after =
     (if list_all (\<lambda>(k, _). map_of after k \<noteq> None) before then view_changes before after else None)"
| "view_changes before [] = Some []"
| "view_changes before ((k, v) # after) =
     (case view_change (map_of before k) k v of None \<Rightarrow> None
      | Some c \<Rightarrow> (case view_changes before after of None \<Rightarrow> None | Some cs \<Rightarrow> Some (c @ cs)))"
| "view_change (Some (JObj old)) k (JObj new) =
     (case view_diff_objects old new of None \<Rightarrow> None
      | Some nested \<Rightarrow> Some (if nested \<noteq> [] then [(k, JObj nested)] else []))"
| "view_change old k v = Some (if (case old of None \<Rightarrow> JNull | Some w \<Rightarrow> w) = v then [] else [(k, v)])"

declare view_diff_objects.simps [simp del]

definition view_diff :: "raw \<Rightarrow> raw \<Rightarrow> view_error + raw \<times> bool" where
  "view_diff previous next' =
     (if previous = Raw_empty then Inr (next', True)
      else case previous of
        Raw before \<Rightarrow> (case next' of
          Raw after \<Rightarrow> (case (before, after) of
            (JObj b, JObj a) \<Rightarrow> (case view_diff_objects b a of
               None \<Rightarrow> Inr (next', True) | Some changes \<Rightarrow> Inr (Raw (JObj changes), False))
          | _ \<Rightarrow> Inr (next', True))
        | _ \<Rightarrow> Inl View_not_json)
      | _ \<Rightarrow> Inl Previous_not_json)"

subsection \<open>The client's side\<close>

fun merge_fields :: "fields \<Rightarrow> fields \<Rightarrow> fields"
  and merge_value :: "json option \<Rightarrow> json \<Rightarrow> json" where
  "merge_fields m [] = m"
| "merge_fields m ((k, v) # p) = merge_fields (put_key k (merge_value (map_of m k) v) m) p"
| "merge_value (Some (JObj old)) (JObj new) = JObj (merge_fields old new)"
| "merge_value old v = v"

text \<open>No field that \<open>before\<close> lacks is added with the value null, at any depth both have as objects.\<close>

fun no_new_null :: "fields \<Rightarrow> fields \<Rightarrow> bool" and field_ok :: "json option \<Rightarrow> json \<Rightarrow> bool" where
  "no_new_null before [] = True"
| "no_new_null before ((k, v) # after) = (field_ok (map_of before k) v \<and> no_new_null before after)"
| "field_ok (Some (JObj old)) (JObj new) = no_new_null old new"
| "field_ok None JNull = False"
| "field_ok old v = True"

lemma field_ok_None [simp]: "field_ok None v \<longleftrightarrow> v \<noteq> JNull"
  by (cases v) simp_all

lemma field_ok_null [simp]: "field_ok (Some w) JNull"
  by (cases w) simp_all

text \<open>What the client has at a field once the patch is merged.\<close>

definition merged_field :: "json option \<Rightarrow> fields \<Rightarrow> json option" where
  "merged_field old c = (case c of [] \<Rightarrow> old | (k, v) # _ \<Rightarrow> Some (merge_value old v))"

lemma view_change_key:
  "view_change old k v = Some c \<Longrightarrow> c = [] \<or> (\<exists>w. c = [(k, w)])"
  by (cases "(old, k, v)" rule: view_change.cases) (auto split: option.splits if_splits)

lemma no_new_null_iff: "no_new_null before after \<longleftrightarrow> (\<forall>(k, v)\<in>set after. field_ok (map_of before k) v)"
  by (induction after) auto

lemma merge_changes:
  assumes "view_changes before after = Some cs" "distinct (map fst after)" "sorted_keys m"
    and "\<forall>(k, v)\<in>set after. map_of m k = map_of before k"
  shows "sorted_keys (merge_fields m cs) \<and>
    (\<forall>j. map_of (merge_fields m cs) j = (case map_of after j of None \<Rightarrow> map_of m j
       | Some v \<Rightarrow> merged_field (map_of before j) (the (view_change (map_of before j) j v))))"
  using assms
proof (induction after arbitrary: cs m)
  case (Cons x after)
  obtain k v where x: "x = (k, v)" by (cases x)
  obtain c cs' where c: "view_change (map_of before k) k v = Some c" "view_changes before after = Some cs'" "cs = c @ cs'"
    using Cons.prems(1) x by (auto split: option.splits)
  have k: "map_of after k = None" "map_of m k = map_of before k"
    using Cons.prems(2,4) x by (auto simp: map_of_eq_None_iff)
  let ?m = "merge_fields m c"
  have m: "sorted_keys ?m" "map_of ?m j = (if j = k then merged_field (map_of before k) c else map_of m j)" for j
    using view_change_key[OF c(1)] Cons.prems(3) k(2)
    by (auto simp: sorted_put_key merged_field_def split: list.split)
  have "\<forall>(j, w)\<in>set after. map_of ?m j = map_of before j"
    using Cons.prems(2,4) x m(2) by (auto simp: rev_image_eqI)
  with Cons.IH[OF c(2) _ m(1)] Cons.prems(2) x
  have IH: "sorted_keys (merge_fields ?m cs')" "map_of (merge_fields ?m cs') j = (case map_of after j of None \<Rightarrow> map_of ?m j
       | Some v \<Rightarrow> merged_field (map_of before j) (the (view_change (map_of before j) j v)))" for j
    by auto
  have "merge_fields m cs = merge_fields ?m cs'"
    using view_change_key[OF c(1)] c(3) by auto
  then show ?case using IH k c(1) m(2) x by (auto split: option.split)
qed simp

lemma view_changes_each:
  "view_changes before after = Some cs \<Longrightarrow> (k, v) \<in> set after \<Longrightarrow> \<exists>c. view_change (map_of before k) k v = Some c"
  by (induction after arbitrary: cs) (auto split: option.splits)

lemma merge_view_diff:
  shows "view_diff_objects before after = Some cs \<Longrightarrow> json_ok (JObj before) \<Longrightarrow> json_ok (JObj after) \<Longrightarrow>
      merge_fields before cs = after \<longleftrightarrow> no_new_null before after"
    and "view_changes before after = Some cs \<Longrightarrow> json_ok (JObj before) \<Longrightarrow>
      list_all (\<lambda>(k, v). json_ok v) after \<Longrightarrow>
      \<forall>(k, v)\<in>set after. \<forall>c. view_change (map_of before k) k v = Some c \<longrightarrow>
        (merged_field (map_of before k) c = Some v \<longleftrightarrow> field_ok (map_of before k) v)"
    and "view_change old k v = Some c \<Longrightarrow> (\<forall>w. old = Some w \<longrightarrow> json_ok w) \<Longrightarrow> json_ok v \<Longrightarrow>
      merged_field old c = Some v \<longleftrightarrow> field_ok old v"
proof (induction before after and before after and old k v
    arbitrary: cs and cs and c rule: view_diff_objects_view_changes_view_change.induct)
  case (1 before after)
  have kept: "list_all (\<lambda>(k, _). map_of after k \<noteq> None) before" and ch: "view_changes before after = Some cs"
    using 1(2) by (simp_all add: view_diff_objects.simps split: if_splits)
  have sorted: "sorted_keys before" "sorted_keys after" "list_all (\<lambda>(k, v). json_ok v) after"
    using 1(3,4) by simp_all
  have mof: "map_of after k = Some v" if "(k, v) \<in> set after" for k v
    using that sorted(2) by (simp add: sorted_keys_distinct)
  have each: "\<forall>(k, v)\<in>set after. \<forall>c. view_change (map_of before k) k v = Some c \<longrightarrow>
        (merged_field (map_of before k) c = Some v \<longleftrightarrow> field_ok (map_of before k) v)"
    by (rule 1(1)[OF kept ch 1(3) sorted(3)])
  have merged: "sorted_keys (merge_fields before cs)"
    "map_of (merge_fields before cs) j = (case map_of after j of None \<Rightarrow> map_of before j
       | Some v \<Rightarrow> merged_field (map_of before j) (the (view_change (map_of before j) j v)))" for j
    using merge_changes[OF ch sorted_keys_distinct[OF sorted(2)] sorted(1)] by auto
  have gone: "map_of before j = None" if "map_of after j = None" for j
    using kept that by (auto simp: list_all_iff map_of_eq_None_iff)
  have "merge_fields before cs = after \<longleftrightarrow> (\<forall>j. map_of (merge_fields before cs) j = map_of after j)"
    using sorted_keys_ext[OF merged(1) sorted(2)] by auto
  also have "\<dots> \<longleftrightarrow> (\<forall>(k, v)\<in>set after. merged_field (map_of before k) (the (view_change (map_of before k) k v)) = Some v)"
    using mof gone by (auto simp: merged(2) split: option.split dest: map_of_SomeD)
  also have "\<dots> \<longleftrightarrow> no_new_null before after"
    using each view_changes_each[OF ch] by (fastforce simp: no_new_null_iff)
  finally show ?case .
next
  case (3 before k v after)
  then show ?case
    using json_ok_fields[OF 3(4)] by (auto split: option.splits)
next
  case (4 old k new)
  obtain nested where n: "view_diff_objects old new = Some nested" "c = (if nested \<noteq> [] then [(k, JObj nested)] else [])"
    using 4(2) by (auto split: option.splits)
  then have "merge_fields old nested = new \<longleftrightarrow> no_new_null old new" using 4 by simp
  then show ?case using n(2) by (auto simp: merged_field_def)
qed (auto simp: merged_field_def split: if_splits option.splits)

subsection \<open>What the package promises\<close>

text \<open>
  C12: a patch that is not whole brings the client exactly to the next view, unless some object gained
  a field whose value is null: \<open>DeepEqual\<close> takes the field the previous view lacks for null, so the
  patch leaves the new field out and the client never sees it.
\<close>

theorem view_patch_merges:
  assumes "view_diff (Raw (JObj before)) (Raw (JObj after)) = Inr (Raw (JObj patch), False)"
    and "json_ok (JObj before)" "json_ok (JObj after)"
  shows "merge_fields before patch = after \<longleftrightarrow> no_new_null before after"
  using assms by (intro merge_view_diff) (auto simp: view_diff_def split: option.splits)

theorem view_patch_merges_witness:
  "merge_fields [(''me'', JObj [(''x'', JNum ''1''), (''y'', JNum ''2'')])] [(''me'', JObj [(''y'', JNum ''3'')])]
     = [(''me'', JObj [(''x'', JNum ''1''), (''y'', JNum ''3'')])]
   \<longleftrightarrow> no_new_null [(''me'', JObj [(''x'', JNum ''1''), (''y'', JNum ''2'')])]
        [(''me'', JObj [(''x'', JNum ''1''), (''y'', JNum ''3'')])]"
  by (rule view_patch_merges)
    (simp_all add: view_diff_def view_diff_objects.simps sorted_keys_def less_list_code less_char_def)

text \<open>What a patch can say: no object both views have at the same place lost a key.\<close>

fun keeps_fields :: "fields \<Rightarrow> fields \<Rightarrow> bool" and keeps_field :: "json option \<Rightarrow> json \<Rightarrow> bool" where
  "keeps_fields before [] = True"
| "keeps_fields before ((k, v) # after) = (keeps_field (map_of before k) v \<and> keeps_fields before after)"
| "keeps_field (Some (JObj old)) (JObj new) = (fst ` set old \<subseteq> fst ` set new \<and> keeps_fields old new)"
| "keeps_field old v = True"

lemma view_diff_None:
  shows "view_diff_objects before after = None \<longleftrightarrow> \<not> keeps_field (Some (JObj before)) (JObj after)"
    and "view_changes before after = None \<longleftrightarrow> \<not> keeps_fields before after"
    and "view_change old k v = None \<longleftrightarrow> \<not> keeps_field old v"
proof (induction before after and before after and old k v
    rule: view_diff_objects_view_changes_view_change.induct)
  case (1 before after)
  have "list_all (\<lambda>(k, _). map_of after k \<noteq> None) before \<longleftrightarrow> fst ` set before \<subseteq> fst ` set after"
    by (force simp: list_all_iff map_of_eq_None_iff)
  then show ?case using 1 by (auto simp: view_diff_objects.simps)
qed (auto split: option.splits)

text \<open>
  C35: a view is sent whole exactly when there is no previous one, either is not an object, or a field
  disappeared: some object both views have at the same place lost a key.
\<close>

theorem view_sent_whole:
  "view_diff previous next' = Inr (sent, True) \<longleftrightarrow> sent = next' \<and>
    (previous = Raw_empty \<or>
     (\<exists>before after. previous = Raw before \<and> next' = Raw after \<and>
       \<not> (\<exists>b a. before = JObj b \<and> after = JObj a \<and> keeps_field (Some before) after)))"
proof (cases previous)
  case (Raw before)
  show ?thesis
  proof (cases next')
    case (Raw after)
    have kf: "keeps_field (Some (JObj b)) (JObj a) \<longleftrightarrow> view_diff_objects b a \<noteq> None" for b a
      using view_diff_None(1)[of b a] by argo
    then show ?thesis using \<open>previous = Raw before\<close> \<open>next' = Raw after\<close>
      by (cases before; cases after) (auto simp: view_diff_def kf simp del: keeps_field.simps split: option.split)
  qed (use Raw in \<open>auto simp: view_diff_def\<close>)
qed (auto simp: view_diff_def)

end
