(* ===== verification/BoundaryPlan.thy ===== *)
theory BoundaryPlan
  imports JsonPatch
begin

section \<open>What one boundary of a running game executes\<close>

text \<open>
  The package \<open>play/runtime/internal/business/boundaryplan\<close>: how many of the operations waiting in
  the timeline a boundary takes and the Session time it brings the game to (\<open>plan\<close>), the sandbox
  batch that runs them (\<open>batch\<close>) and where a batch that finished the game stopped (\<open>finished_at\<close>).
  Times are milliseconds and orders are counters from 1; 0 is the order of \<open>update()\<close>. Inputs and
  payloads are JSON texts (\<open>raw\<close>).
\<close>

subsection \<open>Operations\<close>

record game_command =
  gc_name :: string
  gc_payload :: raw

record pending_op =
  po_participant :: string
  po_time :: int
  po_order :: nat
  po_inputs :: raw
  po_command :: "game_command option"
  po_disconnected :: bool
  po_rejoin :: bool

definition runs_alone :: "pending_op \<Rightarrow> bool" where
  "runs_alone o' = (po_command o' \<noteq> None \<or> po_disconnected o' \<or> po_rejoin o')"

record boundary_plan =
  bp_taken :: nat
  bp_time :: int
  bp_update :: bool

text \<open>The sandbox's side of a batch.\<close>

record transition =
  tr_participant :: string
  tr_inputs :: raw
  tr_time :: int

record sandbox_command =
  sc_participant :: string
  sc_name :: string
  sc_payload :: raw

record sandbox_op =
  so_time :: int
  so_transitions :: "transition list"
  so_command :: "sandbox_command option"
  so_update :: bool
  so_disconnected :: string
  so_rejoined :: string

definition no_op :: sandbox_op where
  "no_op = \<lparr>so_time = 0, so_transitions = [], so_command = None, so_update = False,
            so_disconnected = [], so_rejoined = []\<rparr>"

subsection \<open>The plan\<close>

definition plan :: "pending_op list \<Rightarrow> int \<Rightarrow> int \<Rightarrow> bool \<Rightarrow> int \<Rightarrow> boundary_plan" where
  "plan pending now executed_through update limit =
     (let split = (limit > 0 \<and> int (length pending) > limit);
          taken = (if split then nat limit else length pending);
          upd = (update \<and> \<not> split);
          time = max now executed_through
      in if taken > 0 then
           let final = pending ! (taken - 1);
               time = max time (po_time final)
           in \<lparr>bp_taken = taken,
               bp_time = (if (runs_alone final \<and> \<not> upd) \<or> split
                          then max (po_time final) executed_through else time),
               bp_update = upd\<rparr>
         else \<lparr>bp_taken = taken, bp_time = time, bp_update = upd\<rparr>)"

subsection \<open>The batch\<close>

definition alone_op :: "pending_op \<Rightarrow> sandbox_op" where
  "alone_op o' =
     (let alone = no_op\<lparr>so_time := po_time o'\<rparr>
      in case po_command o' of
           Some c \<Rightarrow> alone\<lparr>so_command := Some \<lparr>sc_participant = po_participant o', sc_name = gc_name c, sc_payload = gc_payload c\<rparr>\<rparr>
         | None \<Rightarrow> if po_rejoin o' then alone\<lparr>so_rejoined := po_participant o'\<rparr>
                   else alone\<lparr>so_disconnected := po_participant o'\<rparr>)"

definition transition_of :: "pending_op \<Rightarrow> transition" where
  "transition_of o' = \<lparr>tr_participant = po_participant o', tr_inputs = po_inputs o', tr_time = po_time o'\<rparr>"

text \<open>The first loop: one more operation joins the batch and the orders.\<close>

definition add_to_batch :: "pending_op \<Rightarrow> sandbox_op list \<times> nat list \<Rightarrow> sandbox_op list \<times> nat list" where
  "add_to_batch o' b =
     (let (ops, orders) = b in
      if runs_alone o' then (ops @ [alone_op o'], orders @ [po_order o'])
      else if ops \<noteq> [] \<and> so_transitions (last ops) \<noteq> []
        then (butlast ops @ [(last ops)\<lparr>so_transitions := so_transitions (last ops) @ [transition_of o']\<rparr>],
              butlast orders @ [po_order o'])
      else (ops @ [no_op\<lparr>so_transitions := [transition_of o']\<rparr>], orders @ [po_order o']))"

text \<open>
  The last loop: the time each call runs at, never before \<open>at\<close>. Indexing the transitions of a call
  that has none panics: \<open>None\<close>.
\<close>

definition own_time :: "int \<Rightarrow> bool \<Rightarrow> sandbox_op \<Rightarrow> int option" where
  "own_time planned followed o' =
     (if so_command o' \<noteq> None \<or> so_update o' \<or> so_disconnected o' \<noteq> [] \<or> so_rejoined o' \<noteq> []
      then Some (so_time o')
      else if followed then
        (if so_transitions o' = [] then None else Some (tr_time (last (so_transitions o'))))
      else Some planned)"

fun settle_times :: "int \<Rightarrow> int \<Rightarrow> sandbox_op list \<Rightarrow> sandbox_op list option" where
  "settle_times planned at [] = Some []"
| "settle_times planned at (o' # os) =
     (case own_time planned (os \<noteq> []) o' of None \<Rightarrow> None
      | Some t \<Rightarrow> (case settle_times planned (max t at) os of None \<Rightarrow> None
          | Some os' \<Rightarrow> Some (o'\<lparr>so_time := max t at\<rparr> # os')))"

definition batch :: "pending_op list \<Rightarrow> boundary_plan \<Rightarrow> int \<Rightarrow> (sandbox_op list \<times> nat list) option" where
  "batch taken planned executed_through =
     (let (ops, orders) = fold add_to_batch taken ([], []);
          (ops, orders) = (if bp_update planned
            then (ops @ [no_op\<lparr>so_time := bp_time planned, so_update := True\<rparr>], orders @ [0])
            else (ops, orders))
      in case settle_times (bp_time planned) executed_through ops of
           None \<Rightarrow> None | Some ops \<Rightarrow> Some (ops, orders))"

subsection \<open>Where a game finished\<close>

definition finished_at :: "pending_op list \<Rightarrow> sandbox_op list \<Rightarrow> nat list \<Rightarrow> int \<Rightarrow> (nat \<times> int) option" where
  "finished_at taken ops orders index =
     (if index < 0 \<or> index \<ge> int (length ops) then None
      else let through = orders ! nat index;
               executed = (if through \<noteq> 0 then length (takeWhile (\<lambda>o'. po_order o' \<le> through) taken)
                           else length taken)
           in Some (executed, so_time (ops ! nat index)))"

subsection \<open>What a batch calls\<close>

text \<open>The calls of the game, as an operation of the timeline asks for them and as a batch makes them.\<close>

datatype game_call =
    Call_transition transition
  | Call_command sandbox_command
  | Call_rejoined string
  | Call_disconnected string
  | Call_update

definition call_of :: "pending_op \<Rightarrow> game_call" where
  "call_of o' = (case po_command o' of
      Some c \<Rightarrow> Call_command \<lparr>sc_participant = po_participant o', sc_name = gc_name c, sc_payload = gc_payload c\<rparr>
    | None \<Rightarrow> if po_rejoin o' then Call_rejoined (po_participant o')
              else if po_disconnected o' then Call_disconnected (po_participant o')
              else Call_transition (transition_of o'))"

definition calls_of :: "sandbox_op \<Rightarrow> game_call list" where
  "calls_of o' =
     map Call_transition (so_transitions o')
     @ (case so_command o' of None \<Rightarrow> [] | Some c \<Rightarrow> [Call_command c])
     @ (if so_rejoined o' \<noteq> [] then [Call_rejoined (so_rejoined o')] else [])
     @ (if so_disconnected o' \<noteq> [] then [Call_disconnected (so_disconnected o')] else [])
     @ (if so_update o' then [Call_update] else [])"

definition named :: "pending_op \<Rightarrow> bool" where
  "named o' \<longleftrightarrow> po_participant o' \<noteq> []"

lemma calls_of_time [simp]: "calls_of (o'\<lparr>so_time := t\<rparr>) = calls_of o'"
  by (simp add: calls_of_def)

text \<open>
  The loop's invariant: the calls of the batch are those of the operations taken so far, in order;
  every entry is one call that runs alone, at its operation's time, or a run of transitions that is
  not empty; and the order of an entry is that of the last operation it runs.
\<close>

definition alone_entry :: "sandbox_op \<Rightarrow> bool" where
  "alone_entry o' \<longleftrightarrow> so_command o' \<noteq> None \<or> so_disconnected o' \<noteq> [] \<or> so_rejoined o' \<noteq> []"

definition entry_ok :: "pending_op list \<Rightarrow> sandbox_op \<Rightarrow> bool" where
  "entry_ok past o' \<longleftrightarrow> \<not> so_update o' \<and> (so_transitions o' = [] \<longleftrightarrow> alone_entry o') \<and>
     (alone_entry o' \<longrightarrow> (\<exists>p\<in>set past. so_time o' = po_time p))"

definition order_ok :: "pending_op list \<Rightarrow> sandbox_op list \<Rightarrow> nat list \<Rightarrow> nat \<Rightarrow> bool" where
  "order_ok past ops orders i \<longleftrightarrow>
     (let n = length (concat (map calls_of (take (Suc i) ops)))
      in 0 < n \<and> n \<le> length past \<and> orders ! i = po_order (past ! (n - 1)))"

definition batch_inv :: "pending_op list \<Rightarrow> sandbox_op list \<times> nat list \<Rightarrow> bool" where
  "batch_inv past b \<longleftrightarrow> (case b of (ops, orders) \<Rightarrow>
     length orders = length ops \<and> concat (map calls_of ops) = map call_of past \<and>
     (\<forall>o'\<in>set ops. entry_ok past o') \<and>
     (\<forall>i<length ops. order_ok past ops orders i) \<and>
     (ops \<noteq> [] \<and> alone_entry (last ops) \<longrightarrow> past \<noteq> [] \<and> runs_alone (last past) \<and> so_time (last ops) = po_time (last past)))"

lemma entry_ok_mono: "entry_ok past o' \<Longrightarrow> entry_ok (past @ [p]) o'"
  by (auto simp: entry_ok_def)

lemma calls_of_alone:
  assumes "runs_alone o'" "named o'"
  shows "calls_of (alone_op o') = [call_of o']" "so_transitions (alone_op o') = []" "so_time (alone_op o') = po_time o'"
    "\<not> so_update (alone_op o')" "alone_entry (alone_op o')"
  using assms
  by (auto simp: calls_of_def alone_op_def call_of_def no_op_def runs_alone_def named_def alone_entry_def Let_def
      split: option.split if_splits)

lemma order_ok_keep:
  assumes "order_ok past ops orders i" "take (Suc i) ops' = take (Suc i) ops" "orders' ! i = orders ! i"
  shows "order_ok (past @ [o']) ops' orders' i"
proof -
  define n where "n = length (concat (map calls_of (take (Suc i) ops)))"
  have n: "0 < n" "n \<le> length past" "orders ! i = po_order (past ! (n - 1))"
    using assms(1) unfolding order_ok_def Let_def n_def by blast+
  then have "(past @ [o']) ! (n - 1) = past ! (n - 1)" by (simp add: nth_append)
  then show ?thesis using n assms(2,3) unfolding order_ok_def Let_def by (simp add: n_def[symmetric])
qed

lemma order_ok_append:
  assumes "length orders = length ops" "concat (map calls_of ops) = map call_of past" "calls_of e = [call_of o']"
    "\<forall>i<length ops. order_ok past ops orders i" "i < Suc (length ops)"
  shows "order_ok (past @ [o']) (ops @ [e]) (orders @ [po_order o']) i"
proof (cases "i < length ops")
  case True
  then have "order_ok past ops orders i" using assms(4) by simp
  then show ?thesis by (rule order_ok_keep) (use True assms(1) in \<open>simp_all add: nth_append\<close>)
next
  case False
  then have "i = length ops" using assms(5) by simp
  then show ?thesis using assms(1-3) by (simp add: order_ok_def nth_append)
qed

lemma order_ok_merge:
  assumes "length orders = Suc (length ops)" "concat (map calls_of ops) @ calls_of e = map call_of past"
    "calls_of e' = calls_of e @ [call_of o']"
    "\<forall>i<Suc (length ops). order_ok past (ops @ [e]) orders i" "i < Suc (length ops)"
  shows "order_ok (past @ [o']) (ops @ [e']) (butlast orders @ [po_order o']) i"
proof (cases "i < length ops")
  case True
  then have "order_ok past (ops @ [e]) orders i" using assms(4) by simp
  then show ?thesis by (rule order_ok_keep) (use True assms(1) in \<open>simp_all add: nth_append nth_butlast\<close>)
next
  case False
  then have "i = length ops" using assms(5) by simp
  moreover have "length (concat (map calls_of ops)) + length (calls_of e) = length past"
    using arg_cong[OF assms(2), of length] by simp
  ultimately show ?thesis using assms(1,3) by (simp add: order_ok_def nth_append)
qed

lemma add_to_batch_inv:
  assumes inv: "batch_inv past b" and n: "named o'"
  shows "batch_inv (past @ [o']) (add_to_batch o' b)"
proof -
  obtain ops orders where b: "b = (ops, orders)" by (cases b)
  have I: "length orders = length ops" "concat (map calls_of ops) = map call_of past"
    "\<forall>e\<in>set ops. entry_ok past e" "\<forall>i<length ops. order_ok past ops orders i"
    using inv by (simp_all add: batch_inv_def b)
  show ?thesis
  proof (cases "runs_alone o'")
    case True
    note A = calls_of_alone[OF True n]
    have "entry_ok (past @ [o']) (alone_op o')" using A by (auto simp: entry_ok_def)
    then show ?thesis
      using I True A order_ok_append[OF I(1,2) A(1) I(4)]
      by (auto simp: batch_inv_def add_to_batch_def b entry_ok_mono)
  next
    case False
    then have call: "call_of o' = Call_transition (transition_of o')"
      by (auto simp: call_of_def runs_alone_def)
    show ?thesis
    proof (cases "ops \<noteq> [] \<and> so_transitions (last ops) \<noteq> []")
      case True
      then obtain pre l where ops: "ops = pre @ [l]" "so_transitions l \<noteq> []" by (metis append_butlast_last_id)
      let ?l = "l\<lparr>so_transitions := so_transitions l @ [transition_of o']\<rparr>"
      have l: "\<not> alone_entry l" "\<not> so_update l" using I(3) ops by (auto simp: entry_ok_def)
      then have calls: "calls_of ?l = calls_of l @ [call_of o']"
        using call by (simp add: calls_of_def alone_entry_def)
      have alone: "\<not> alone_entry ?l" using l by (simp add: alone_entry_def)
      have "order_ok (past @ [o']) (pre @ [?l]) (butlast orders @ [po_order o']) i" if "i < Suc (length pre)" for i
        using I ops by (intro order_ok_merge[OF _ _ calls _ that]) simp_all
      then show ?thesis using I False ops l calls alone
        by (auto simp: batch_inv_def add_to_batch_def b entry_ok_mono, simp add: entry_ok_def)
    next
      case no_run: False
      let ?e = "no_op\<lparr>so_transitions := [transition_of o']\<rparr>"
      have e: "calls_of ?e = [call_of o']" "\<not> alone_entry ?e" "entry_ok (past @ [o']) ?e"
        by (simp_all add: calls_of_def no_op_def call alone_entry_def entry_ok_def)
      then show ?thesis using I False no_run order_ok_append[OF I(1,2) e(1) I(4)]
        by (auto simp: batch_inv_def add_to_batch_def b entry_ok_mono)
    qed
  qed
qed

lemma batch_inv_fold:
  "batch_inv past b \<Longrightarrow> list_all named os \<Longrightarrow> batch_inv (past @ os) (fold add_to_batch os b)"
proof (induction os arbitrary: past b)
  case (Cons o' os)
  then show ?case using add_to_batch_inv[of past b o'] by fastforce
qed simp

lemma batch_inv_all: "list_all named os \<Longrightarrow> batch_inv os (fold add_to_batch os ([], []))"
  using batch_inv_fold[of "[]" "([], [])" os] by (simp add: batch_inv_def)


subsection \<open>Settling the times\<close>

lemma settle_Cons:
  "settle_times planned at (o' # os) = Some r \<longleftrightarrow>
   (\<exists>t os'. own_time planned (os \<noteq> []) o' = Some t \<and> settle_times planned (max t at) os = Some os'
      \<and> r = o'\<lparr>so_time := max t at\<rparr> # os')"
  by (simp split: option.split) blast

declare settle_times.simps(2) [simp del]

lemma settle_facts:
  "settle_times planned at os = Some os' \<Longrightarrow>
   length os' = length os \<and> map calls_of os' = map calls_of os \<and> map so_update os' = map so_update os
   \<and> sorted (at # map so_time os')"
proof (induction os arbitrary: at os')
  case (Cons o' os)
  then obtain t r where r: "settle_times planned (max t at) os = Some r" "os' = o'\<lparr>so_time := max t at\<rparr> # r"
    by (auto simp: settle_Cons)
  then show ?case using Cons.IH[OF r(1)] by auto
qed simp

definition timed :: "sandbox_op \<Rightarrow> bool" where
  "timed o' \<longleftrightarrow> so_update o' \<or> alone_entry o' \<or> so_transitions o' \<noteq> []"

lemma own_time_timed: "timed o' \<Longrightarrow> \<exists>t. own_time planned followed o' = Some t"
  by (auto simp: timed_def own_time_def alone_entry_def)

lemma settle_total: "list_all timed os \<Longrightarrow> \<exists>os'. settle_times planned at os = Some os'"
proof (induction os arbitrary: at)
  case (Cons o' os)
  obtain t where t: "own_time planned (os \<noteq> []) o' = Some t" using own_time_timed[of o'] Cons.prems by auto
  obtain os' where "settle_times planned (max t at) os = Some os'" using Cons by fastforce
  then show ?case using t by (auto simp: settle_Cons)
qed simp

lemma settle_last:
  assumes "settle_times planned at (os @ [e]) = Some os'" "own_time planned False e = Some final" "max final at = B"
    "\<forall>o'\<in>set os. \<exists>t\<le>B. own_time planned True o' = Some t"
  shows "so_time (last os') = B \<and> (\<forall>o'\<in>set os'. so_time o' \<le> B)"
  using assms
proof (induction os arbitrary: at os')
  case (Cons o' os)
  then obtain t where t: "own_time planned True o' = Some t" "t \<le> B" by auto
  then obtain os'' where s: "settle_times planned (max t at) (os @ [e]) = Some os''" "os' = o'\<lparr>so_time := max t at\<rparr> # os''"
    using Cons.prems(1) by (auto simp: settle_Cons)
  have "os'' \<noteq> []" using settle_facts[OF s(1)] by auto
  then show ?case using Cons.IH[OF s(1)] Cons.prems t s(2) by simp
qed (auto simp: settle_Cons)

lemma batch_ops:
  assumes "list_all named taken"
  obtains ops orders where "fold add_to_batch taken ([], []) = (ops, orders)"
    "length orders = length ops" "concat (map calls_of ops) = map call_of taken"
    "\<And>e. e \<in> set ops \<Longrightarrow> entry_ok taken e" "\<And>i. i < length ops \<Longrightarrow> order_ok taken ops orders i"
    "ops \<noteq> [] \<Longrightarrow> alone_entry (last ops) \<Longrightarrow> taken \<noteq> [] \<and> runs_alone (last taken) \<and> so_time (last ops) = po_time (last taken)"
    "list_all timed ops"
proof -
  obtain ops orders where b: "fold add_to_batch taken ([], []) = (ops, orders)" by (cases "fold add_to_batch taken ([], [])")
  have I: "length orders = length ops" "concat (map calls_of ops) = map call_of taken"
    "\<forall>e\<in>set ops. entry_ok taken e" "\<forall>i<length ops. order_ok taken ops orders i"
    "ops \<noteq> [] \<and> alone_entry (last ops) \<longrightarrow> taken \<noteq> [] \<and> runs_alone (last taken) \<and> so_time (last ops) = po_time (last taken)"
    using batch_inv_all[OF assms] by (simp_all add: batch_inv_def b)
  have "list_all timed ops" using I(3) by (fastforce simp: list_all_iff entry_ok_def timed_def)
  then show ?thesis using I by (intro that[OF b]) auto
qed

lemma entry_times:
  assumes "concat (map calls_of ops) = map call_of taken" "entry_ok taken e" "e \<in> set ops"
    "\<forall>p\<in>set taken. po_time p \<le> B"
  shows "\<exists>t\<le>B. own_time planned True e = Some t"
proof (cases "alone_entry e")
  case True
  then show ?thesis using assms(2,4) by (auto simp: entry_ok_def own_time_def alone_entry_def)
next
  case False
  then have e: "\<not> so_update e" "so_transitions e \<noteq> []" using assms(2) by (auto simp: entry_ok_def)
  let ?t = "last (so_transitions e)"
  have "Call_transition ?t \<in> set (calls_of e)" using e(2) by (simp add: calls_of_def)
  then have "Call_transition ?t \<in> set (map call_of taken)" using assms(1,3) by (metis (mono_tags, lifting) UN_I set_concat image_eqI list.set_map)
  then obtain p where p: "p \<in> set taken" "call_of p = Call_transition ?t" by auto
  then have "?t = transition_of p" by (auto simp: call_of_def split: option.splits if_splits)
  then have "tr_time ?t = po_time p" by (simp add: transition_of_def)
  then show ?thesis using p(1) assms(4) e False by (auto simp: own_time_def alone_entry_def)
qed

lemma batch_cases:
  assumes "list_all named taken"
  obtains ops orders ops' where "fold add_to_batch taken ([], []) = (ops, orders)"
    "settle_times (bp_time p) et (if bp_update p then ops @ [no_op\<lparr>so_time := bp_time p, so_update := True\<rparr>] else ops) = Some ops'"
    "batch taken p et = Some (ops', if bp_update p then orders @ [0] else orders)"
proof -
  obtain ops orders where b: "fold add_to_batch taken ([], []) = (ops, orders)" "list_all timed ops"
    using batch_ops[OF assms] by metis
  let ?all = "if bp_update p then ops @ [no_op\<lparr>so_time := bp_time p, so_update := True\<rparr>] else ops"
  have "list_all timed ?all" using b(2) by (simp add: timed_def)
  then obtain ops' where s: "settle_times (bp_time p) et ?all = Some ops'" using settle_total by blast
  then show ?thesis by (intro that[OF b(1) s]) (auto simp: batch_def b(1))
qed

lemma calls_of_update: "calls_of (no_op\<lparr>so_time := t, so_update := True\<rparr>) = [Call_update]"
  by (simp add: calls_of_def no_op_def)


subsection \<open>Properties\<close>

lemma batch_of_timeline:
  assumes "list_all named taken"
  shows "\<exists>ops orders. batch taken p executed_through = Some (ops, orders)
    \<and> length orders = length ops
    \<and> concat (map calls_of ops) = map call_of taken @ (if bp_update p then [Call_update] else [])
    \<and> sorted (executed_through # map so_time ops)"
proof -
  obtain ops orders where O: "fold add_to_batch taken ([], []) = (ops, orders)" "length orders = length ops"
    "concat (map calls_of ops) = map call_of taken" by (rule batch_ops[OF assms])
  obtain ops' where S: "settle_times (bp_time p) executed_through (if bp_update p then ops @ [no_op\<lparr>so_time := bp_time p, so_update := True\<rparr>] else ops) = Some ops'"
    and B: "batch taken p executed_through = Some (ops', if bp_update p then orders @ [0] else orders)"
    using O(1) by (rule_tac batch_cases[OF assms, of p executed_through]) auto
  note F = settle_facts[OF S]
  have "concat (map calls_of ops') = concat (map calls_of (if bp_update p then ops @ [no_op\<lparr>so_time := bp_time p, so_update := True\<rparr>] else ops))"
    using F by metis
  then have "concat (map calls_of ops') = map call_of taken @ (if bp_update p then [Call_update] else [])"
    using O(3) by (simp add: calls_of_update)
  moreover have "length (if bp_update p then orders @ [0] else orders) = length ops'" using F O(2) by simp
  ultimately show ?thesis using F B by blast
qed

text \<open>
  C3: a batch runs the boundary's operations: it is always built (the panicking index is never
  reached), its calls are those of the operations taken, each exactly once and in the timeline's
  order, then \<open>update()\<close> when the boundary ends with it; and the calls run at times that never go
  back, none before the time the game is confirmed through.
\<close>

theorem batch_runs_timeline:
  assumes "list_all named taken"
  shows "\<exists>ops orders. batch taken p executed_through = Some (ops, orders)
    \<and> length orders = length ops
    \<and> concat (map calls_of ops) = map call_of taken @ (if bp_update p then [Call_update] else [])
    \<and> sorted (executed_through # map so_time ops)"
  by (rule batch_of_timeline[OF assms])

definition sample_timeline :: "pending_op list" where
  "sample_timeline =
     [\<lparr>po_participant = ''a'', po_time = 5, po_order = 1, po_inputs = Raw (JNum ''1''), po_command = None, po_disconnected = False, po_rejoin = False\<rparr>,
      \<lparr>po_participant = ''b'', po_time = 6, po_order = 2, po_inputs = Raw (JNum ''2''), po_command = None, po_disconnected = False, po_rejoin = False\<rparr>,
      \<lparr>po_participant = ''a'', po_time = 7, po_order = 3, po_inputs = Raw_empty, po_command = Some \<lparr>gc_name = ''buy'', gc_payload = Raw (JObj [])\<rparr>, po_disconnected = False, po_rejoin = False\<rparr>]"

lemma sample_timeline_named: "list_all named sample_timeline"
  by (simp add: sample_timeline_def named_def)

theorem batch_runs_timeline_witness:
  "\<exists>ops orders. batch sample_timeline \<lparr>bp_taken = 3, bp_time = 10, bp_update = True\<rparr> 4 = Some (ops, orders)
    \<and> length orders = length ops
    \<and> concat (map calls_of ops) = map call_of sample_timeline @ [Call_update]
    \<and> sorted (4 # map so_time ops)"
  using batch_runs_timeline[OF sample_timeline_named, of "\<lparr>bp_taken = 3, bp_time = 10, bp_update = True\<rparr>" 4] by simp

text \<open>
  C28: a plan's bounds: a boundary takes no more than the limit (when there is one) nor than there is,
  always some when there are some, never goes back behind the confirmed time, reaches every operation
  it takes, and leaves operations only without \<open>update()\<close> and ending at its last one, so no operation
  left waiting is before its end.
\<close>

theorem plan_boundary:
  assumes "sorted (map po_time pending)" "0 \<le> limit" "executed_through \<le> now"
  shows "let p = plan pending now executed_through update limit in
    bp_taken p \<le> length pending \<and> (0 < limit \<longrightarrow> int (bp_taken p) \<le> limit)
    \<and> (pending \<noteq> [] \<longrightarrow> 0 < bp_taken p) \<and> executed_through \<le> bp_time p
    \<and> (\<forall>o' \<in> set (take (bp_taken p) pending). po_time o' \<le> bp_time p)
    \<and> (bp_taken p < length pending \<longrightarrow> \<not> bp_update p
        \<and> bp_time p = max executed_through (po_time (pending ! (bp_taken p - 1)))
        \<and> (\<forall>o' \<in> set (drop (bp_taken p) pending). executed_through \<le> po_time o' \<longrightarrow> bp_time p \<le> po_time o'))
    \<and> (update \<and> bp_taken p = length pending \<longrightarrow> bp_update p \<and> now \<le> bp_time p)"
proof -
  define p where "p = plan pending now executed_through update limit"
  have t: "bp_taken p \<le> length pending" "0 < limit \<longrightarrow> int (bp_taken p) \<le> limit" "pending \<noteq> [] \<longrightarrow> 0 < bp_taken p"
    "executed_through \<le> bp_time p"
    using assms(2) by (auto simp: p_def plan_def Let_def)
  have fin: "0 < bp_taken p \<longrightarrow> po_time (pending ! (bp_taken p - 1)) \<le> bp_time p" by (auto simp: p_def plan_def Let_def)
  have le: "po_time (pending ! i) \<le> po_time (pending ! j)" if "i \<le> j" "j < length pending" for i j
    using sorted_nth_mono[OF assms(1), of i j] that by simp
  have taken: "\<forall>o' \<in> set (take (bp_taken p) pending). po_time o' \<le> bp_time p"
  proof
    fix o' assume "o' \<in> set (take (bp_taken p) pending)"
    then obtain i where i: "i < bp_taken p" "i < length pending" "o' = pending ! i" by (auto simp: in_set_conv_nth)
    then have "po_time o' \<le> po_time (pending ! (bp_taken p - 1))" using le[of i "bp_taken p - 1"] t(1) by simp
    then show "po_time o' \<le> bp_time p" using fin i(1) by linarith
  qed
  have split: "\<not> bp_update p \<and> bp_time p = max executed_through (po_time (pending ! (bp_taken p - 1)))"
    if "bp_taken p < length pending"
    using that assms(2) by (auto simp: p_def plan_def Let_def max.commute split: if_splits)
  have left: "bp_time p \<le> po_time o'"
    if "bp_taken p < length pending" "o' \<in> set (drop (bp_taken p) pending)" "executed_through \<le> po_time o'" for o'
  proof -
    have "\<exists>i < length pending - bp_taken p. o' = pending ! (bp_taken p + i)"
      using that(2) by (auto simp: in_set_conv_nth)
    then obtain i where i: "i < length pending - bp_taken p" "o' = pending ! (bp_taken p + i)" by blast
    then have "po_time (pending ! (bp_taken p - 1)) \<le> po_time o'" using le[of "bp_taken p - 1" "bp_taken p + i"] by simp
    then show ?thesis using split[OF that(1)] that(3) by simp
  qed
  have upd: "update \<and> bp_taken p = length pending \<longrightarrow> bp_update p \<and> now \<le> bp_time p"
    using assms(2) by (auto simp: p_def plan_def Let_def split: if_splits)
  show ?thesis unfolding p_def[symmetric] Let_def using t taken split left upd by blast
qed

theorem plan_boundary_witness:
  "let p = plan sample_timeline 9 4 True 2 in bp_taken p = 2 \<and> bp_time p = 6 \<and> \<not> bp_update p
     \<and> bp_time p = max 4 (po_time (sample_timeline ! (bp_taken p - 1)))"
  using plan_boundary[of sample_timeline 2 4 9 True] by (simp add: sample_timeline_def plan_def Let_def eval_nat_numeral)

text \<open>
  C30: a batch ends where its boundary does: for a timeline in order of time, no call of the batch
  runs after the boundary's time and the last one runs exactly at it.
\<close>

theorem batch_ends_at_plan:
  assumes "sorted (map po_time pending)" "list_all named pending" "0 \<le> limit"
    and "p = plan pending now executed_through update limit"
    and "batch (take (bp_taken p) pending) p executed_through = Some (ops, orders)" "ops \<noteq> []"
  shows "so_time (last ops) = bp_time p \<and> (\<forall>e \<in> set ops. so_time e \<le> bp_time p)"
proof -
  let ?taken = "take (bp_taken p) pending"
  have n: "list_all named ?taken" using assms(2) by (metis append_take_drop_id list_all_append)
  obtain ops0 orders0 where O: "fold add_to_batch ?taken ([], []) = (ops0, orders0)" "length orders0 = length ops0"
    "concat (map calls_of ops0) = map call_of ?taken"
    "\<And>e. e \<in> set ops0 \<Longrightarrow> entry_ok ?taken e"
    "ops0 \<noteq> [] \<Longrightarrow> alone_entry (last ops0) \<Longrightarrow> ?taken \<noteq> [] \<and> runs_alone (last ?taken) \<and> so_time (last ops0) = po_time (last ?taken)"
    by (rule batch_ops[OF n]) metis
  let ?all = "if bp_update p then ops0 @ [no_op\<lparr>so_time := bp_time p, so_update := True\<rparr>] else ops0"
  have S: "settle_times (bp_time p) executed_through ?all = Some ops"
    using O(1) assms(5) by (rule_tac batch_cases[OF n, of p executed_through]) auto
  have et: "executed_through \<le> bp_time p" using assms(4) by (auto simp: plan_def Let_def)
  have final: "0 < bp_taken p \<longrightarrow> po_time (pending ! (bp_taken p - 1)) \<le> bp_time p" "bp_taken p \<le> length pending"
    using assms(4) assms(3) by (auto simp: plan_def Let_def)
  have times: "\<forall>q\<in>set ?taken. po_time q \<le> bp_time p"
  proof
    fix q assume "q \<in> set ?taken"
    then obtain i where i: "i < bp_taken p" "i < length pending" "q = pending ! i" by (auto simp: in_set_conv_nth)
    then have "po_time q \<le> po_time (pending ! (bp_taken p - 1))"
      using sorted_nth_mono[OF assms(1), of i "bp_taken p - 1"] final(2) by simp
    then show "po_time q \<le> bp_time p" using final i(1) by linarith
  qed
  have own: "\<exists>t\<le>bp_time p. own_time planned True e = Some t" if "e \<in> set ops0" for e planned
    using entry_times[OF O(3) O(4)[OF that] that times] by (simp add: own_time_def)
  show ?thesis
  proof (cases "bp_update p")
    case True
    then have "settle_times (bp_time p) executed_through (ops0 @ [no_op\<lparr>so_time := bp_time p, so_update := True\<rparr>]) = Some ops"
      using S by simp
    then show ?thesis by (rule settle_last[where final = "bp_time p"]) (use own et in \<open>auto simp: own_time_def\<close>)
  next
    case False
    then have ne: "ops0 \<noteq> []" using S assms(6) settle_facts[OF S] by auto
    then obtain pre e where pe: "ops0 = pre @ [e]" by (metis append_butlast_last_id)
    show ?thesis
    proof (cases "alone_entry e")
      case a: False
      have "\<not> so_update e" using O(4)[of e] pe by (auto simp: entry_ok_def)
      then have o: "own_time (bp_time p) False e = Some (bp_time p)" using a by (auto simp: own_time_def alone_entry_def)
      show ?thesis by (rule settle_last[OF _ o]) (use S False pe own et in auto)
    next
      case True
      then have l: "?taken \<noteq> []" "runs_alone (last ?taken)" "so_time e = po_time (last ?taken)" using O(5) pe by auto
      then have lt: "last ?taken = pending ! (bp_taken p - 1)" using final(2) by (simp add: last_conv_nth min_def)
      have o: "own_time (bp_time p) False e = Some (so_time e)" using True by (auto simp: own_time_def alone_entry_def)
      have "bp_time p = max (so_time e) executed_through"
        using assms(4) False l lt by (auto simp: plan_def Let_def split: if_splits)
      then have B: "max (so_time e) executed_through = bp_time p" by simp
      show ?thesis by (rule settle_last[OF _ o B]) (use S False pe own in auto)
    qed
  qed
qed

theorem batch_ends_at_plan_witness:
  "\<exists>ops orders. batch sample_timeline (plan sample_timeline 9 4 True 0) 4 = Some (ops, orders) \<and> so_time (last ops) = 9"
proof -
  let ?p = "plan sample_timeline 9 4 True 0"
  have p: "take (bp_taken ?p) sample_timeline = sample_timeline" "bp_time ?p = 9"
    by (simp_all add: plan_def sample_timeline_def Let_def)
  have "sorted (map po_time sample_timeline)" by (simp add: sample_timeline_def)
  moreover have "list_all named sample_timeline" by (rule sample_timeline_named)
  moreover obtain ops orders where b: "batch sample_timeline ?p 4 = Some (ops, orders)" "ops \<noteq> []"
    by (simp add: batch_def plan_def sample_timeline_def Let_def add_to_batch_def runs_alone_def alone_op_def no_op_def
        own_time_def transition_of_def settle_Cons split: option.split)
  ultimately show ?thesis
    using batch_ends_at_plan[of sample_timeline 0 ?p 9 4 True ops orders] p by simp
qed

text \<open>
  C13: a game that finished in the middle of a batch: \<open>finished_at\<close> an entry of the batch counts the
  operations of the timeline that were run by the calls through that entry, no more and no fewer, and
  answers the entry's own time; an index outside the batch is refused.
\<close>

theorem finished_at_executed:
  assumes "list_all named taken" "sorted_wrt (<) (map po_order taken)" "\<forall>o'\<in>set taken. 0 < po_order o'"
    and "batch taken p executed_through = Some (ops, orders)"
  shows "if 0 \<le> index \<and> index < int (length ops)
    then \<exists>executed \<le> length taken. finished_at taken ops orders index = Some (executed, so_time (ops ! nat index))
      \<and> concat (map calls_of (take (Suc (nat index)) ops))
        = map call_of (take executed taken) @ (if so_update (ops ! nat index) then [Call_update] else [])
    else finished_at taken ops orders index = None"
proof (cases "0 \<le> index \<and> index < int (length ops)")
  case True
  define i where "i = nat index"
  have i: "i < length ops" "index = int i" using True unfolding i_def by linarith+
  obtain ops0 orders0 where O: "fold add_to_batch taken ([], []) = (ops0, orders0)" "length orders0 = length ops0"
    "concat (map calls_of ops0) = map call_of taken"
    "\<And>e. e \<in> set ops0 \<Longrightarrow> entry_ok taken e" "\<And>i. i < length ops0 \<Longrightarrow> order_ok taken ops0 orders0 i"
    by (rule batch_ops[OF assms(1)]) metis
  let ?u = "no_op\<lparr>so_time := bp_time p, so_update := True\<rparr>"
  let ?all = "if bp_update p then ops0 @ [?u] else ops0"
  have S: "settle_times (bp_time p) executed_through ?all = Some ops"
    and R: "orders = (if bp_update p then orders0 @ [0] else orders0)"
    using O(1) assms(4) by (rule_tac batch_cases[OF assms(1), of p executed_through], auto)+
  note F = settle_facts[OF S]
  have calls: "concat (map calls_of (take k ops)) = concat (map calls_of (take k ?all))" for k
    using F by (metis take_map)
  have upd: "so_update (ops ! i) = so_update (?all ! i)" using F i(1) by (metis nth_map)
  show ?thesis
  proof (cases "i < length ops0")
    case before: True
    define n where "n = length (concat (map calls_of (take (Suc i) ops0)))"
    have n: "0 < n" "n \<le> length taken" "orders0 ! i = po_order (taken ! (n - 1))"
      using O(5)[OF before] unfolding order_ok_def Let_def n_def by blast+
    have t: "take (Suc i) ?all = take (Suc i) ops0" "?all ! i = ops0 ! i" "orders ! i = orders0 ! i"
      using before O(2) by (simp_all add: R nth_append)
    have "takeWhile (\<lambda>o'. po_order o' \<le> orders ! i) taken = take n taken"
    proof -
      have lt: "po_order (taken ! a) < po_order (taken ! b)" if "a < b" "b < length taken" for a b
        using sorted_wrt_nth_less[OF assms(2), of a b] that by simp
      have "\<And>a. a < n \<Longrightarrow> po_order (taken ! a) \<le> po_order (taken ! (n - 1))"
      proof -
        fix a assume "a < n"
        then have "a = n - 1 \<or> a < n - 1 \<and> n - 1 < length taken" using n(2) by arith
        then show "po_order (taken ! a) \<le> po_order (taken ! (n - 1))" using lt[of a "n - 1"] by fastforce
      qed
      moreover have "\<not> po_order (taken ! n) \<le> po_order (taken ! (n - 1))" if "n < length taken"
        using lt[of "n - 1" n] n(1) that by simp
      ultimately show ?thesis using n(2,3) t(3)
        by (intro takeWhile_eq_take_P_nth) auto
    qed
    moreover have "orders ! i \<noteq> 0" using n(1-3) assms(3) t(3) by (metis Suc_diff_1 Suc_le_lessD not_gr_zero nth_mem)
    ultimately have fin: "finished_at taken ops orders index = Some (n, so_time (ops ! i))"
      using i n(2) by (simp add: finished_at_def Let_def)
    have "concat (map calls_of (take (Suc i) ops0)) = take n (concat (map calls_of ops0))"
      by (subst append_take_drop_id[of "Suc i" ops0, symmetric], subst map_append, subst concat_append) (simp add: n_def)
    then have "concat (map calls_of (take (Suc i) ops)) = map call_of (take n taken)"
      using calls[of "Suc i"] t(1) O(3) by (simp add: take_map)
    moreover have "\<not> so_update (ops ! i)" using upd t(2) O(4)[of "ops0 ! i"] before by (simp add: entry_ok_def)
    ultimately show ?thesis using fin n(2) i True by auto
  next
    case False
    then have l: "i = length ops0" "bp_update p" using i(1) F by (auto split: if_splits)
    then have "orders ! i = 0" using R O(2) by (simp add: nth_append)
    then have fin: "finished_at taken ops orders index = Some (length taken, so_time (ops ! i))"
      using i by (simp add: finished_at_def Let_def)
    have "concat (map calls_of (take (Suc i) ops)) = map call_of taken @ [Call_update]"
      using calls[of "Suc i"] l O(3) by (simp add: calls_of_update)
    moreover have "so_update (ops ! i)" using upd l by simp
    ultimately show ?thesis using fin i True by auto
  qed
next
  case False
  then show ?thesis by (auto simp: finished_at_def)
qed

theorem finished_at_executed_witness:
  "\<exists>ops orders. batch sample_timeline (plan sample_timeline 9 4 True 0) 4 = Some (ops, orders)
    \<and> finished_at sample_timeline ops orders 0 = Some (2, so_time (ops ! 0))
    \<and> concat (map calls_of (take 1 ops)) = map call_of (take 2 sample_timeline)"
proof -
  let ?p = "plan sample_timeline 9 4 True 0"
  obtain ops orders where b: "batch sample_timeline ?p 4 = Some (ops, orders)" "length ops = 3"
    "\<not> so_update (ops ! 0)" "finished_at sample_timeline ops orders 0 = Some (2, so_time (ops ! 0))"
    by (simp add: batch_def plan_def sample_timeline_def Let_def add_to_batch_def runs_alone_def alone_op_def no_op_def
        own_time_def transition_of_def settle_Cons finished_at_def split: option.split)
  have "sorted_wrt (<) (map po_order sample_timeline)" "\<forall>o'\<in>set sample_timeline. 0 < po_order o'"
    by (simp_all add: sample_timeline_def)
  then have "concat (map calls_of (take 1 ops)) = map call_of (take 2 sample_timeline)"
    using finished_at_executed[OF sample_timeline_named _ _ b(1), of 0] b(2-4) by simp
  then show ?thesis using b by blast
qed

end
