(* ===== verification/GoJson.thy ===== *)
theory GoJson
  imports JsonPatch
begin

section \<open>Decoding JSON into Go values\<close>

text \<open>
  What \<open>encoding/json\<close> does with the fields of a struct: writing integers and string lists, and
  reading them. A field that is missing or null keeps its zero value, a value of another kind is
  an error (the argument \<open>e\<close>), and an integer must fit its field. Field names are matched as written
  (the decoder also matches them without regard to case). A list that is \<open>nil\<close> is \<open>None\<close>.
\<close>

definition int_text :: "int \<Rightarrow> string" where
  "int_text i = (if i < 0 then CHR ''-'' # itoa (nat (- i)) else itoa (nat i))"

definition strings_json :: "string list option \<Rightarrow> json" where
  "strings_json ps = (case ps of None \<Rightarrow> JNull | Some xs \<Rightarrow> JList (map JStr xs))"

definition int_of_field :: "'e \<Rightarrow> int \<Rightarrow> int \<Rightarrow> string \<Rightarrow> fields \<Rightarrow> 'e + int" where
  "int_of_field e lo hi k m = (case map_of m k of
      None \<Rightarrow> Inr 0 | Some JNull \<Rightarrow> Inr 0
    | Some (JNum s) \<Rightarrow> (case atoi s of None \<Rightarrow> Inl e
        | Some i \<Rightarrow> if lo \<le> i \<and> i \<le> hi then Inr i else Inl e)
    | Some _ \<Rightarrow> Inl e)"

definition int64_of_field :: "'e \<Rightarrow> string \<Rightarrow> fields \<Rightarrow> 'e + int" where
  "int64_of_field e = int_of_field e min_int64 max_int64"

definition uint64_of_field :: "'e \<Rightarrow> string \<Rightarrow> fields \<Rightarrow> 'e + int" where
  "uint64_of_field e = int_of_field e 0 (2 ^ 64 - 1)"

definition str_of_field :: "'e \<Rightarrow> string \<Rightarrow> fields \<Rightarrow> 'e + string" where
  "str_of_field e k m = (case map_of m k of None \<Rightarrow> Inr [] | Some JNull \<Rightarrow> Inr []
     | Some (JStr s) \<Rightarrow> Inr s | Some _ \<Rightarrow> Inl e)"

definition bool_of_field :: "'e \<Rightarrow> string \<Rightarrow> fields \<Rightarrow> 'e + bool" where
  "bool_of_field e k m = (case map_of m k of None \<Rightarrow> Inr False | Some JNull \<Rightarrow> Inr False
     | Some (JBool b) \<Rightarrow> Inr b | Some _ \<Rightarrow> Inl e)"

fun strings_of :: "'e \<Rightarrow> json list \<Rightarrow> 'e + string list" where
  "strings_of e [] = Inr []"
| "strings_of e (x # xs) = (case (case x of JStr s \<Rightarrow> Inr s | JNull \<Rightarrow> Inr [] | _ \<Rightarrow> Inl e) of
     Inl e' \<Rightarrow> Inl e' | Inr s \<Rightarrow> (case strings_of e xs of Inl e' \<Rightarrow> Inl e' | Inr ss \<Rightarrow> Inr (s # ss)))"

definition strings_of_field :: "'e \<Rightarrow> string \<Rightarrow> fields \<Rightarrow> 'e + string list option" where
  "strings_of_field e k m = (case map_of m k of None \<Rightarrow> Inr None | Some JNull \<Rightarrow> Inr None
     | Some (JList xs) \<Rightarrow> (case strings_of e xs of Inl e' \<Rightarrow> Inl e' | Inr ss \<Rightarrow> Inr (Some ss))
     | Some _ \<Rightarrow> Inl e)"

definition raw_of_field :: "string \<Rightarrow> fields \<Rightarrow> raw" where
  "raw_of_field k m = (case map_of m k of None \<Rightarrow> Raw_empty | Some j \<Rightarrow> Raw j)"

lemma atoi_int_text [simp]: "atoi (int_text i) = Some i"
proof (cases "i < 0")
  case True
  have "digits (itoa (nat (- i))) = Some (- i)" using True by (simp add: digits_def digits_from_itoa)
  then show ?thesis using True by (simp add: int_text_def atoi_def)
qed (simp add: int_text_def)

definition fits64 :: "int \<Rightarrow> bool" where
  "fits64 i \<longleftrightarrow> min_int64 \<le> i \<and> i \<le> max_int64"

lemma int64_of_text: "map_of m k = Some (JNum (int_text i)) \<Longrightarrow> fits64 i \<Longrightarrow> int64_of_field e k m = Inr i"
  by (simp add: int64_of_field_def int_of_field_def fits64_def)

lemma uint64_of_text: "map_of m k = Some (JNum (itoa n)) \<Longrightarrow> n < 2 ^ 64 \<Longrightarrow> uint64_of_field e k m = Inr (int n)"
  by (simp add: uint64_of_field_def int_of_field_def)

lemma strings_of_map: "strings_of e (map JStr xs) = Inr xs"
  by (induction xs) simp_all

lemma strings_of_json: "map_of m k = Some (strings_json ps) \<Longrightarrow> strings_of_field e k m = Inr ps"
  by (cases ps) (simp_all add: strings_of_field_def strings_json_def strings_of_map)

end
