(* ===== verification/ReplayChunk.thy ===== *)
theory ReplayChunk
  imports GoJson "HOL-Library.Product_Lexorder"
begin

section \<open>Replay chunks\<close>

text \<open>
  The packages \<open>play/runtime/replay\<close> and
  \<open>play/runtime/workflows/replayrecording/internal/chunk\<close>: what a running game offers of a committed
  boundary, a chunk and its records, its checked and compressed form, and the builder that appends
  records and state deltas. A raw JSON text is what the decoder makes of it (\<open>raw\<close>), \<open>Raw_empty\<close>
  being no text at all; how many bytes it has is a parameter \<open>bytes\<close>. Texts are valid UTF-8.
  A participants list that is \<open>nil\<close> (everyone) is \<open>None\<close>.
\<close>

subsection \<open>Captures\<close>

record command_response =
  cr_participant :: string
  cr_time :: int
  cr_order :: nat
  cr_response :: raw

record game_error =
  ge_participant :: string
  ge_time :: int
  ge_order :: nat
  ge_error :: raw

record game_event =
  gv_participants :: "string list option"
  gv_time :: int
  gv_order :: nat
  gv_event :: raw

record capture =
  ca_session :: string
  ca_game_version :: string
  ca_time :: int
  ca_revision :: int
  ca_state :: raw
  ca_participants :: "string list option"
  ca_responses :: "command_response list"
  ca_errors :: "game_error list"
  ca_events :: "game_event list"

subsection \<open>Chunks\<close>

definition state_delta :: string where "state_delta = ''STATE_DELTA''"
definition event_record :: string where "event_record = ''EVENT''"
definition command_response_record :: string where "command_response_record = ''COMMAND_RESPONSE''"
definition error_record :: string where "error_record = ''ERROR''"

lemmas record_types = state_delta_def event_record_def command_response_record_def error_record_def

record chunk_record =
  re_type :: string
  re_time :: int
  re_order :: nat
  re_participants :: "string list option"
  re_value :: raw

record chunk =
  ch_session :: string
  ch_game_version :: string
  ch_recording :: string
  ch_index :: int
  ch_final :: bool
  ch_from :: int
  ch_through :: int
  ch_participants :: "string list option"
  ch_base :: raw
  ch_records :: "chunk_record list"

datatype chunk_error =
    No_base
  | Not_exactly_one string nat
  | Delta_participants
  | Unknown_record_type string
  | Not_encodable
  | Decompressing
  | Not_a_document
  | Wrong_version int
  | Captured_state
  | Captured_not_json string

definition format_version :: int where
  "format_version = 1"

definition participants_len :: "string list option \<Rightarrow> nat" where
  "participants_len ps = (case ps of None \<Rightarrow> 0 | Some xs \<Rightarrow> length xs)"

definition validate_record :: "chunk_record \<Rightarrow> chunk_error option" where
  "validate_record r =
     (if re_type r = command_response_record \<or> re_type r = error_record then
        (if participants_len (re_participants r) \<noteq> 1
         then Some (Not_exactly_one (re_type r) (participants_len (re_participants r))) else None)
      else if re_type r = state_delta then
        (if participants_len (re_participants r) \<noteq> 0 then Some Delta_participants else None)
      else if re_type r = event_record then None
      else Some (Unknown_record_type (re_type r)))"

fun validate_records :: "chunk_record list \<Rightarrow> chunk_error option" where
  "validate_records [] = None"
| "validate_records (r # rs) = (case validate_record r of Some e \<Rightarrow> Some e | None \<Rightarrow> validate_records rs)"

definition validate_chunk :: "chunk \<Rightarrow> chunk_error option" where
  "validate_chunk c = (if ch_base c = Raw_empty then Some No_base else validate_records (ch_records c))"

subsection \<open>The stored form\<close>

text \<open>
  \<open>json.Marshal\<close> of the stored document: a field of raw JSON is written as its value, nothing as null,
  and a text that is not JSON is an error.
\<close>

definition raw_json :: "raw \<Rightarrow> chunk_error + json" where
  "raw_json r = (case r of Raw_empty \<Rightarrow> Inr JNull | Raw_bad \<Rightarrow> Inl Not_encodable | Raw j \<Rightarrow> Inr j)"

definition record_json :: "chunk_record \<Rightarrow> chunk_error + json" where
  "record_json r = (case raw_json (re_value r) of Inl e \<Rightarrow> Inl e
     | Inr v \<Rightarrow> Inr (JObj [(''type'', JStr (re_type r)), (''session_time_ms'', JNum (int_text (re_time r))),
         (''timeline_order'', JNum (itoa (re_order r))), (''participants'', strings_json (re_participants r)),
         (''value'', v)]))"

fun records_json :: "chunk_record list \<Rightarrow> chunk_error + json list" where
  "records_json [] = Inr []"
| "records_json (r # rs) = (case record_json r of Inl e \<Rightarrow> Inl e
     | Inr j \<Rightarrow> (case records_json rs of Inl e \<Rightarrow> Inl e | Inr js \<Rightarrow> Inr (j # js)))"

definition document_json :: "chunk \<Rightarrow> chunk_error + json" where
  "document_json c = (case raw_json (ch_base c) of Inl e \<Rightarrow> Inl e
     | Inr base \<Rightarrow> (case records_json (ch_records c) of Inl e \<Rightarrow> Inl e
     | Inr rs \<Rightarrow> Inr (JObj [(''format_version'', JNum (int_text format_version)),
         (''session_uuid'', JStr (ch_session c)), (''game_version_uuid'', JStr (ch_game_version c)),
         (''recording_uuid'', JStr (ch_recording c)), (''index'', JNum (int_text (ch_index c))),
         (''final'', JBool (ch_final c)), (''from_session_time_ms'', JNum (int_text (ch_from c))),
         (''through_session_time_ms'', JNum (int_text (ch_through c))),
         (''participants'', strings_json (ch_participants c)), (''base_state'', base),
         (''records'', JList rs)])))"

definition encode_chunk :: "(json \<Rightarrow> 'z) \<Rightarrow> chunk \<Rightarrow> chunk_error + 'z" where
  "encode_chunk compress c = (case validate_chunk c of Some e \<Rightarrow> Inl e
     | None \<Rightarrow> (case document_json c of Inl e \<Rightarrow> Inl e | Inr j \<Rightarrow> Inr (compress j)))"

definition zero_record :: chunk_record where
  "zero_record = \<lparr>re_type = [], re_time = 0, re_order = 0, re_participants = None, re_value = Raw_empty\<rparr>"

definition record_of :: "json \<Rightarrow> chunk_error + chunk_record" where
  "record_of j = (case j of JNull \<Rightarrow> Inr zero_record
    | JObj m \<Rightarrow> (case str_of_field Not_a_document ''type'' m of Inl e \<Rightarrow> Inl e
        | Inr ty \<Rightarrow> (case int64_of_field Not_a_document ''session_time_ms'' m of Inl e \<Rightarrow> Inl e
        | Inr t \<Rightarrow> (case uint64_of_field Not_a_document ''timeline_order'' m of Inl e \<Rightarrow> Inl e
        | Inr ord \<Rightarrow> (case strings_of_field Not_a_document ''participants'' m of Inl e \<Rightarrow> Inl e
        | Inr ps \<Rightarrow> Inr \<lparr>re_type = ty, re_time = t, re_order = nat ord, re_participants = ps,
                      re_value = raw_of_field ''value'' m\<rparr>))))
    | _ \<Rightarrow> Inl Not_a_document)"

fun records_of :: "json list \<Rightarrow> chunk_error + chunk_record list" where
  "records_of [] = Inr []"
| "records_of (x # xs) = (case record_of x of Inl e \<Rightarrow> Inl e
     | Inr r \<Rightarrow> (case records_of xs of Inl e \<Rightarrow> Inl e | Inr rs \<Rightarrow> Inr (r # rs)))"

definition records_of_field :: "string \<Rightarrow> fields \<Rightarrow> chunk_error + chunk_record list" where
  "records_of_field k m = (case map_of m k of None \<Rightarrow> Inr [] | Some JNull \<Rightarrow> Inr []
     | Some (JList xs) \<Rightarrow> records_of xs | Some _ \<Rightarrow> Inl Not_a_document)"

definition document_of :: "fields \<Rightarrow> chunk_error + int \<times> chunk" where
  "document_of m =
     (case int64_of_field Not_a_document ''format_version'' m of Inl e \<Rightarrow> Inl e
      | Inr v \<Rightarrow> (case str_of_field Not_a_document ''session_uuid'' m of Inl e \<Rightarrow> Inl e
      | Inr s \<Rightarrow> (case str_of_field Not_a_document ''game_version_uuid'' m of Inl e \<Rightarrow> Inl e
      | Inr g \<Rightarrow> (case str_of_field Not_a_document ''recording_uuid'' m of Inl e \<Rightarrow> Inl e
      | Inr r \<Rightarrow> (case int64_of_field Not_a_document ''index'' m of Inl e \<Rightarrow> Inl e
      | Inr i \<Rightarrow> (case bool_of_field Not_a_document ''final'' m of Inl e \<Rightarrow> Inl e
      | Inr f \<Rightarrow> (case int64_of_field Not_a_document ''from_session_time_ms'' m of Inl e \<Rightarrow> Inl e
      | Inr from \<Rightarrow> (case int64_of_field Not_a_document ''through_session_time_ms'' m of Inl e \<Rightarrow> Inl e
      | Inr through \<Rightarrow> (case strings_of_field Not_a_document ''participants'' m of Inl e \<Rightarrow> Inl e
      | Inr ps \<Rightarrow> (case records_of_field ''records'' m of Inl e \<Rightarrow> Inl e
      | Inr rs \<Rightarrow> Inr (v, \<lparr>ch_session = s, ch_game_version = g, ch_recording = r, ch_index = i, ch_final = f,
                        ch_from = from, ch_through = through, ch_participants = ps,
                        ch_base = raw_of_field ''base_state'' m, ch_records = rs\<rparr>)))))))))))"

definition decode_chunk :: "('z \<Rightarrow> raw option) \<Rightarrow> 'z \<Rightarrow> chunk_error + chunk" where
  "decode_chunk decompress stored = (case decompress stored of None \<Rightarrow> Inl Decompressing
     | Some (Raw j) \<Rightarrow>
        (case (case j of JObj m \<Rightarrow> document_of m | JNull \<Rightarrow> document_of [] | _ \<Rightarrow> Inl Not_a_document) of
           Inl e \<Rightarrow> Inl e
         | Inr (v, c) \<Rightarrow> if v \<noteq> format_version then Inl (Wrong_version v) else Inr c)
     | Some _ \<Rightarrow> Inl Not_a_document)"

subsection \<open>The builder\<close>

record header =
  he_session :: string
  he_game_version :: string
  he_recording :: string
  he_participants :: "string list option"

record parsed_state =
  st_raw :: raw
  st_tree :: json

definition parse_state :: "raw \<Rightarrow> chunk_error + parsed_state" where
  "parse_state r = (case parse_document r of Inl e \<Rightarrow> Inl Captured_state | Inr t \<Rightarrow> Inr \<lparr>st_raw = r, st_tree = t\<rparr>)"

record builder =
  bu_chunk :: chunk
  bu_last :: json
  bu_size :: nat
  bu_next_order :: nat

definition open_chunk :: "(raw \<Rightarrow> nat) \<Rightarrow> header \<Rightarrow> int \<Rightarrow> nat \<Rightarrow> int \<Rightarrow> parsed_state \<Rightarrow> builder" where
  "open_chunk bytes h index first_order time base =
     \<lparr>bu_chunk = \<lparr>ch_session = he_session h, ch_game_version = he_game_version h, ch_recording = he_recording h,
         ch_index = index, ch_final = False, ch_from = time, ch_through = 0, ch_participants = he_participants h,
         ch_base = st_raw base, ch_records = []\<rparr>,
      bu_last = st_tree base, bu_size = bytes (st_raw base), bu_next_order = first_order\<rparr>"

fun append_records :: "(raw \<Rightarrow> nat) \<Rightarrow> chunk_record list \<Rightarrow> builder \<Rightarrow> builder" where
  "append_records bytes [] b = b"
| "append_records bytes (r # rs) b =
     append_records bytes rs
       (b\<lparr>bu_next_order := bu_next_order b + 1, bu_size := bu_size b + bytes (re_value r),
          bu_chunk := (bu_chunk b)\<lparr>ch_records := ch_records (bu_chunk b) @ [r\<lparr>re_order := bu_next_order b\<rparr>]\<rparr>\<rparr>)"

definition append_state :: "(raw \<Rightarrow> nat) \<Rightarrow> int \<Rightarrow> parsed_state \<Rightarrow> builder \<Rightarrow> builder" where
  "append_state bytes time state b =
     (let operations = diff_documents (bu_last b) (st_tree state) in
      if operations = [] then b
      else append_records bytes
             [\<lparr>re_type = state_delta, re_time = time, re_order = 0, re_participants = None,
               re_value = Raw (marshal_patch operations)\<rparr>] (b\<lparr>bu_last := st_tree state\<rparr>))"

definition seal_chunk :: "int \<Rightarrow> bool \<Rightarrow> builder \<Rightarrow> chunk" where
  "seal_chunk through final b = (bu_chunk b)\<lparr>ch_through := through, ch_final := final\<rparr>"

subsection \<open>Transients\<close>

definition run_order :: "nat \<Rightarrow> nat" where
  "run_order ord = (if ord = 0 then 2 ^ 64 - 1 else ord)"

definition placed_responses :: "command_response list \<Rightarrow> (chunk_record \<times> nat) list" where
  "placed_responses = map (\<lambda>r. (\<lparr>re_type = command_response_record, re_time = cr_time r, re_order = 0,
     re_participants = Some [cr_participant r], re_value = cr_response r\<rparr>, cr_order r))"

definition placed_errors :: "game_error list \<Rightarrow> (chunk_record \<times> nat) list" where
  "placed_errors = map (\<lambda>r. (\<lparr>re_type = error_record, re_time = ge_time r, re_order = 0,
     re_participants = Some [ge_participant r], re_value = ge_error r\<rparr>, ge_order r))"

definition placed_events :: "game_event list \<Rightarrow> (chunk_record \<times> nat) list" where
  "placed_events = map (\<lambda>r. (\<lparr>re_type = event_record, re_time = gv_time r, re_order = 0,
     re_participants = gv_participants r, re_value = gv_event r\<rparr>, gv_order r))"

definition place_key :: "chunk_record \<times> nat \<Rightarrow> int \<times> nat" where
  "place_key p = (re_time (fst p), run_order (snd p))"

definition placed :: "capture \<Rightarrow> (chunk_record \<times> nat) list" where
  "placed c = sort_key place_key
     (placed_responses (ca_responses c) @ placed_errors (ca_errors c) @ placed_events (ca_events c))"

definition valid_json :: "raw \<Rightarrow> bool" where
  "valid_json r = (case r of Raw j \<Rightarrow> True | _ \<Rightarrow> False)"

fun check_transients :: "(chunk_record \<times> nat) list \<Rightarrow> chunk_error + chunk_record list" where
  "check_transients [] = Inr []"
| "check_transients ((r, ord) # ps) =
     (if \<not> valid_json (re_value r) then Inl (Captured_not_json (re_type r))
      else case check_transients ps of Inl e \<Rightarrow> Inl e | Inr rs \<Rightarrow> Inr (r # rs))"

definition transients :: "capture \<Rightarrow> chunk_error + chunk_record list" where
  "transients c = check_transients (placed c)"


subsection \<open>Reading what was stored\<close>

lemma raw_of_json: "raw_json r = Inr v \<Longrightarrow> r \<noteq> Raw_empty \<Longrightarrow> map_of m k = Some v \<Longrightarrow> raw_of_field k m = r"
  by (cases r) (simp_all add: raw_json_def raw_of_field_def)

definition record_fits :: "chunk_record \<Rightarrow> bool" where
  "record_fits r \<longleftrightarrow> fits64 (re_time r) \<and> re_order r < 2 ^ 64 \<and> re_value r \<noteq> Raw_empty"

lemma record_of_json: "record_json r = Inr j \<Longrightarrow> record_fits r \<Longrightarrow> record_of j = Inr r"
  by (auto simp: record_json_def record_fits_def record_of_def str_of_field_def
      int64_of_text[where i = "re_time r"] uint64_of_text[where n = "re_order r"]
      strings_of_json[where ps = "re_participants r"] raw_of_json[where r = "re_value r"]
      split: sum.splits)

lemma records_of_json: "records_json rs = Inr js \<Longrightarrow> list_all record_fits rs \<Longrightarrow> records_of js = Inr rs"
  by (induction rs arbitrary: js) (auto simp: record_of_json split: sum.splits)

definition chunk_fits :: "chunk \<Rightarrow> bool" where
  "chunk_fits c \<longleftrightarrow> fits64 (ch_index c) \<and> fits64 (ch_from c) \<and> fits64 (ch_through c) \<and> list_all record_fits (ch_records c)"

lemma document_of_json:
  assumes "document_json c = Inr j" "chunk_fits c" "ch_base c \<noteq> Raw_empty"
  shows "\<exists>m. j = JObj m \<and> document_of m = Inr (format_version, c)"
proof -
  obtain base rs where b: "raw_json (ch_base c) = Inr base" "records_json (ch_records c) = Inr rs"
    using assms(1) by (auto simp: document_json_def split: sum.splits)
  have fits: "fits64 (ch_index c)" "fits64 (ch_from c)" "fits64 (ch_through c)" "list_all record_fits (ch_records c)"
    "fits64 format_version"
    using assms(2) by (simp_all add: chunk_fits_def fits64_def format_version_def min_int64_def max_int64_def)
  let ?m = "[(''format_version'', JNum (int_text format_version)),
         (''session_uuid'', JStr (ch_session c)), (''game_version_uuid'', JStr (ch_game_version c)),
         (''recording_uuid'', JStr (ch_recording c)), (''index'', JNum (int_text (ch_index c))),
         (''final'', JBool (ch_final c)), (''from_session_time_ms'', JNum (int_text (ch_from c))),
         (''through_session_time_ms'', JNum (int_text (ch_through c))),
         (''participants'', strings_json (ch_participants c)), (''base_state'', base),
         (''records'', JList rs)]"
  have j: "j = JObj ?m" using assms(1) by (simp add: document_json_def b)
  have "int64_of_field Not_a_document ''format_version'' ?m = Inr format_version" by (rule int64_of_text) (simp_all add: fits)
  moreover have "int64_of_field Not_a_document ''index'' ?m = Inr (ch_index c)" by (rule int64_of_text) (simp_all add: fits)
  moreover have "int64_of_field Not_a_document ''from_session_time_ms'' ?m = Inr (ch_from c)" by (rule int64_of_text) (simp_all add: fits)
  moreover have "int64_of_field Not_a_document ''through_session_time_ms'' ?m = Inr (ch_through c)" by (rule int64_of_text) (simp_all add: fits)
  moreover have "strings_of_field Not_a_document ''participants'' ?m = Inr (ch_participants c)" by (rule strings_of_json) simp
  moreover have "raw_of_field ''base_state'' ?m = ch_base c" by (rule raw_of_json[OF b(1) assms(3)]) simp
  moreover have "records_of_field ''records'' ?m = Inr (ch_records c)"
    using records_of_json[OF b(2) fits(4)] by (simp add: records_of_field_def)
  ultimately have "document_of ?m = Inr (format_version, c)"
    unfolding document_of_def by (simp add: str_of_field_def bool_of_field_def)
  then show ?thesis using j by blast
qed

lemma validate_records_ok: "validate_records rs = None \<longleftrightarrow> list_all (\<lambda>r. validate_record r = None) rs"
  by (induction rs) (auto split: option.split)

definition private_record :: "chunk_record \<Rightarrow> bool" where
  "private_record r \<longleftrightarrow> re_type r = command_response_record \<or> re_type r = error_record"

lemma validate_private: "validate_record r = None \<Longrightarrow> private_record r \<Longrightarrow> \<exists>p. re_participants r = Some [p]"
  by (auto simp: validate_record_def private_record_def participants_len_def record_types length_Suc_conv
      split: option.splits if_splits)

text \<open>
  C22: a chunk that was stored is read back as it was: for a compression that decompresses to the text
  it was given, \<open>Decode\<close> after \<open>Encode\<close> gives the same chunk, every record with its time, order,
  participants (everyone apart from no one) and value; and what \<open>Encode\<close> accepts shows each command
  response and each error to exactly one participant.
\<close>

theorem decode_encode_chunk:
  assumes "\<forall>j. decompress (compress j) = Some (Raw j)" "encode_chunk compress c = Inr z" "chunk_fits c"
  shows "decode_chunk decompress z = Inr c
    \<and> (\<forall>r \<in> set (ch_records c). private_record r \<longrightarrow> (\<exists>p. re_participants r = Some [p]))"
proof -
  obtain j where j: "validate_chunk c = None" "document_json c = Inr j" "z = compress j"
    using assms(2) by (auto simp: encode_chunk_def split: option.splits sum.splits)
  have base: "ch_base c \<noteq> Raw_empty" "validate_records (ch_records c) = None"
    using j(1) by (auto simp: validate_chunk_def split: if_splits)
  obtain m where "j = JObj m" "document_of m = Inr (format_version, c)"
    using document_of_json[OF j(2) assms(3) base(1)] by blast
  then have "decode_chunk decompress z = Inr c" using assms(1) j(3) by (simp add: decode_chunk_def)
  moreover have "\<forall>r \<in> set (ch_records c). private_record r \<longrightarrow> (\<exists>p. re_participants r = Some [p])"
    using base(2) validate_private by (auto simp: validate_records_ok list_all_iff)
  ultimately show ?thesis by blast
qed

definition sample_chunk :: chunk where
  "sample_chunk = \<lparr>ch_session = ''s'', ch_game_version = ''v'', ch_recording = ''r'', ch_index = 0, ch_final = True,
     ch_from = 0, ch_through = 50, ch_participants = Some [''p1'', ''p2''], ch_base = Raw (JObj []),
     ch_records = [\<lparr>re_type = error_record, re_time = 20, re_order = 0, re_participants = Some [''p1''], re_value = Raw (JStr ''no'')\<rparr>,
       \<lparr>re_type = event_record, re_time = 50, re_order = 1, re_participants = None, re_value = Raw (JBool True)\<rparr>]\<rparr>"

theorem decode_encode_chunk_witness:
  "\<exists>z. encode_chunk id sample_chunk = Inr z \<and> decode_chunk (\<lambda>j. Some (Raw j)) z = Inr sample_chunk"
proof -
  obtain z where z: "encode_chunk id sample_chunk = Inr z"
    by (simp add: encode_chunk_def validate_chunk_def sample_chunk_def validate_record_def record_types
        participants_len_def document_json_def raw_json_def record_json_def)
  have "chunk_fits sample_chunk"
    by (simp add: chunk_fits_def sample_chunk_def fits64_def record_fits_def min_int64_def max_int64_def)
  then show ?thesis using decode_encode_chunk[of "\<lambda>j. Some (Raw j)" id, OF _ z] z by simp
qed

lemma check_transients_fst: "check_transients ps = Inr rs \<Longrightarrow> rs = map fst ps \<and> list_all (\<lambda>p. valid_json (re_value (fst p))) ps"
  by (induction ps arbitrary: rs rule: check_transients.induct) (auto split: if_splits sum.splits)


definition sample_capture :: capture where
  "sample_capture = \<lparr>ca_session = ''s'', ca_game_version = ''v'', ca_time = 30, ca_revision = 1, ca_state = Raw (JObj []),
     ca_participants = Some [''p''],
     ca_responses = [\<lparr>cr_participant = ''p'', cr_time = 20, cr_order = 2, cr_response = Raw JNull\<rparr>],
     ca_errors = [\<lparr>ge_participant = ''p'', ge_time = 20, ge_order = 2, ge_error = Raw (JStr ''no'')\<rparr>],
     ca_events = [\<lparr>gv_participants = None, gv_time = 20, gv_order = 0, gv_event = Raw (JStr ''tick'')\<rparr>,
       \<lparr>gv_participants = None, gv_time = 20, gv_order = 1, gv_event = Raw (JStr ''shot'')\<rparr>]\<rparr>"


end
