(* ===== verification/ReplayRecording.thy ===== *)
theory ReplayRecording
  imports ReplayChunk
begin

section \<open>Recording the history of a game\<close>

text \<open>
  The package \<open>play/runtime/workflows/replayrecording\<close>: the ticks of a running game become chunks
  (\<open>chunking.go\<close>), the goroutine of a recording handles what it is sent in order (\<open>step_record.go\<close>)
  and a bounded queue holds the chunks until they are stored (\<open>step_store_chunks.go\<close>). Times are
  milliseconds; the policy's duration is in nanoseconds.
\<close>

subsection \<open>Chunking\<close>

record chunking_policy =
  cp_state_every :: int
  cp_duration :: duration
  cp_max_bytes :: int

record chunking =
  ck_recording :: string
  ck_policy :: chunking_policy
  ck_header :: "header option"
  ck_active :: "builder option"
  ck_active_end :: int
  ck_next_index :: int
  ck_next_order :: nat
  ck_skipped :: int
  ck_last_time :: int

definition new_chunking :: "string \<Rightarrow> chunking_policy \<Rightarrow> chunking" where
  "new_chunking recording policy =
     \<lparr>ck_recording = recording,
      ck_policy = \<lparr>cp_state_every = max (cp_state_every policy) 1,
        cp_duration = (if cp_duration policy < millisecond then millisecond else cp_duration policy),
        cp_max_bytes = (if cp_max_bytes policy \<le> 0 then max_int64 else cp_max_bytes policy)\<rparr>,
      ck_header = None, ck_active = None, ck_active_end = 0, ck_next_index = 0, ck_next_order = 0,
      ck_skipped = 0, ck_last_time = 0\<rparr>"

definition open_next :: "(raw \<Rightarrow> nat) \<Rightarrow> capture \<Rightarrow> parsed_state \<Rightarrow> chunking \<Rightarrow> chunking" where
  "open_next bytes t state c =
     (let h = (case ck_header c of Some h \<Rightarrow> h
          | None \<Rightarrow> \<lparr>he_session = ca_session t, he_game_version = ca_game_version t,
                    he_recording = ck_recording c, he_participants = ca_participants t\<rparr>);
          duration = go_div (cp_duration (ck_policy c)) millisecond
      in c\<lparr>ck_header := Some h,
           ck_active := Some (open_chunk bytes h (ck_next_index c) (ck_next_order c) (ca_time t) state),
           ck_next_index := ck_next_index c + 1,
           ck_active_end := (go_div (ca_time t) duration + 1) * duration,
           ck_skipped := 0\<rparr>)"

definition end_chunk :: "builder \<Rightarrow> int \<Rightarrow> bool \<Rightarrow> chunking \<Rightarrow> chunking \<times> chunk" where
  "end_chunk active through final c =
     (c\<lparr>ck_next_order := bu_next_order active, ck_active := None\<rparr>, seal_chunk through final active)"

definition rolls_over :: "capture \<Rightarrow> bool \<Rightarrow> chunking \<Rightarrow> bool" where
  "rolls_over t final c = (\<not> final \<and> (case ck_active c of None \<Rightarrow> False
     | Some b \<Rightarrow> ca_time t \<ge> ck_active_end c \<or> int (bu_size b) \<ge> cp_max_bytes (ck_policy c)))"

definition keeps_state :: "capture \<Rightarrow> bool \<Rightarrow> chunking \<Rightarrow> bool" where
  "keeps_state t final c = (ck_active c = None \<or> rolls_over t final c \<or> final
     \<or> ck_skipped c + 1 \<ge> cp_state_every (ck_policy c))"

definition record_kept :: "(raw \<Rightarrow> nat) \<Rightarrow> capture \<Rightarrow> bool \<Rightarrow> chunk_record list \<Rightarrow> parsed_state option \<Rightarrow>
    chunking \<Rightarrow> chunking \<times> (chunk_error + chunk option)" where
  "record_kept bytes t final rs kept c0 =
     (let c = c0\<lparr>ck_last_time := max (ck_last_time c0) (ca_time t)\<rparr>;
          state = (case kept of Some s \<Rightarrow> s | None \<Rightarrow> \<lparr>st_raw = Raw_empty, st_tree = JNull\<rparr>)
      in case ck_active c of
           None \<Rightarrow>
             let c' = open_next bytes t state c
             in (c'\<lparr>ck_active := map_option (append_records bytes rs) (ck_active c')\<rparr>, Inr None)
         | Some b \<Rightarrow>
             let b' = append_records bytes rs b in
             if rolls_over t final c0 then
               let (c', sealed) = end_chunk b' (ca_time t) False c
               in (open_next bytes t state c', Inr (Some sealed))
             else (case kept of
                 None \<Rightarrow> (c\<lparr>ck_active := Some b', ck_skipped := ck_skipped c + 1\<rparr>, Inr None)
               | Some s \<Rightarrow> (c\<lparr>ck_active := Some (append_state bytes (ca_time t) s b'), ck_skipped := 0\<rparr>, Inr None)))"

definition record_tick :: "(raw \<Rightarrow> nat) \<Rightarrow> capture \<Rightarrow> bool \<Rightarrow> chunking \<Rightarrow> chunking \<times> (chunk_error + chunk option)" where
  "record_tick bytes t final c =
     (case transients t of Inl e \<Rightarrow> (c, Inl e)
      | Inr rs \<Rightarrow>
          if keeps_state t final c then
            (case parse_state (ca_state t) of Inl e \<Rightarrow> (c, Inl e)
             | Inr s \<Rightarrow> record_kept bytes t final rs (Some s) c)
          else record_kept bytes t final rs None c)"

definition add_tick :: "(raw \<Rightarrow> nat) \<Rightarrow> capture \<Rightarrow> chunking \<Rightarrow> chunking \<times> (chunk_error + chunk option)" where
  "add_tick bytes t c = record_tick bytes t False c"

text \<open>\<open>finish\<close>: \<open>None\<close> is the panic of ending a chunk that is not open.\<close>

definition finish_chunking :: "(raw \<Rightarrow> nat) \<Rightarrow> capture \<Rightarrow> chunking \<Rightarrow> (chunking \<times> (chunk_error + chunk)) option" where
  "finish_chunking bytes t c =
     (case record_tick bytes t True c of
        (c', Inl e) \<Rightarrow> Some (c', Inl e)
      | (c', Inr _) \<Rightarrow> (case ck_active c' of None \<Rightarrow> None
          | Some b \<Rightarrow> (case end_chunk b (ca_time t) True c' of (c'', sealed) \<Rightarrow> Some (c'', Inr sealed))))"

definition seal_active :: "chunking \<Rightarrow> chunking \<times> chunk option" where
  "seal_active c = (case ck_active c of None \<Rightarrow> (c, None)
     | Some b \<Rightarrow> (case end_chunk b (ck_last_time c) False c of (c', sealed) \<Rightarrow> (c', Some sealed)))"

subsection \<open>The queue of chunks to store\<close>

record replay_chunk =
  rc_recording :: string
  rc_started :: instant
  rc_index :: int
  rc_version :: int
  rc_from :: int
  rc_through :: int
  rc_final :: bool
  rc_content :: string

record sealed_chunk =
  sq_session :: string
  sq_chunk :: replay_chunk

text \<open>\<open>None\<close> is the panic of dropping the oldest chunk of a full queue that holds none.\<close>

definition queue_add :: "nat \<Rightarrow> sealed_chunk \<Rightarrow> sealed_chunk list \<Rightarrow> (sealed_chunk list \<times> sealed_chunk option) option" where
  "queue_add limit sealed pending =
     (if length pending \<ge> limit then
        (case pending of [] \<Rightarrow> None | oldest # rest \<Rightarrow> Some (rest @ [sealed], Some oldest))
      else Some (pending @ [sealed], None))"

definition queue_take :: "sealed_chunk list \<Rightarrow> sealed_chunk list \<times> sealed_chunk option" where
  "queue_take pending = (case pending of [] \<Rightarrow> ([], None) | s # rest \<Rightarrow> (rest, Some s))"

subsection \<open>A recording's goroutine\<close>

record recording =
  rg_id :: string
  rg_session :: string
  rg_started :: instant
  rg_chunks :: chunking
  rg_final :: "replay_chunk option"
  rg_finished :: bool

text \<open>
  What it is sent: a \<open>finish\<close> comes with what the store answers to the attempt it makes. What it
  does: chunks handed to the queue, attempts to store the final chunk, ticks that were rejected
  and chunks that could not be encoded.
\<close>

datatype recording_message = Offer_tick capture | Finish_game capture bool | Stop_recording

datatype recording_effect =
    Queued replay_chunk
  | Store_attempt replay_chunk bool
  | Rejected
  | Not_encoded

datatype finish_answer = Finish_ok | Finish_rejected | Finish_not_encoded | Finish_store_failed | Finish_panics

definition encode_sealed :: "(json \<Rightarrow> string) \<Rightarrow> recording \<Rightarrow> chunk \<Rightarrow> chunk_error + replay_chunk" where
  "encode_sealed compress r sealed = (case encode_chunk compress sealed of Inl e \<Rightarrow> Inl e
     | Inr content \<Rightarrow> Inr \<lparr>rc_recording = rg_id r, rc_started = rg_started r, rc_index = ch_index sealed,
         rc_version = format_version, rc_from = ch_from sealed, rc_through = ch_through sealed,
         rc_final = ch_final sealed, rc_content = content\<rparr>)"

definition enqueue :: "(json \<Rightarrow> string) \<Rightarrow> recording \<Rightarrow> chunk \<Rightarrow> recording_effect list" where
  "enqueue compress r sealed = (case encode_sealed compress r sealed of Inl e \<Rightarrow> [Not_encoded] | Inr c \<Rightarrow> [Queued c])"

definition record_offer :: "(raw \<Rightarrow> nat) \<Rightarrow> (json \<Rightarrow> string) \<Rightarrow> capture \<Rightarrow> recording \<Rightarrow> recording \<times> recording_effect list" where
  "record_offer bytes compress t r =
     (if rg_finished r \<or> rg_final r \<noteq> None then (r, [])
      else case add_tick bytes t (rg_chunks r) of
             (c, Inl e) \<Rightarrow> (r\<lparr>rg_chunks := c\<rparr>, [Rejected])
           | (c, Inr None) \<Rightarrow> (r\<lparr>rg_chunks := c\<rparr>, [])
           | (c, Inr (Some sealed)) \<Rightarrow> (r\<lparr>rg_chunks := c\<rparr>, enqueue compress r sealed))"

definition store_final :: "bool \<Rightarrow> replay_chunk \<Rightarrow> recording \<Rightarrow> recording \<times> recording_effect list \<times> finish_answer" where
  "store_final stored c r =
     (if stored then (r\<lparr>rg_final := None, rg_finished := True\<rparr>, [Store_attempt c True], Finish_ok)
      else (r, [Store_attempt c False], Finish_store_failed))"

definition finish_recording :: "(raw \<Rightarrow> nat) \<Rightarrow> (json \<Rightarrow> string) \<Rightarrow> capture \<Rightarrow> bool \<Rightarrow> recording \<Rightarrow>
    recording \<times> recording_effect list \<times> finish_answer" where
  "finish_recording bytes compress t stored r =
     (if rg_finished r then (r, [], Finish_ok)
      else case rg_final r of
        Some c \<Rightarrow> store_final stored c r
      | None \<Rightarrow> (case finish_chunking bytes t (rg_chunks r) of
          None \<Rightarrow> (r, [], Finish_panics)
        | Some (ck, Inl e) \<Rightarrow> (r\<lparr>rg_chunks := ck\<rparr>, [Rejected], Finish_rejected)
        | Some (ck, Inr final) \<Rightarrow>
            let r = r\<lparr>rg_chunks := ck\<rparr> in
            (case encode_sealed compress r final of
               Inl e \<Rightarrow> (r, [], Finish_not_encoded)
             | Inr c \<Rightarrow> store_final stored c (r\<lparr>rg_final := Some c\<rparr>))))"

definition stop_recording :: "(json \<Rightarrow> string) \<Rightarrow> recording \<Rightarrow> recording \<times> recording_effect list" where
  "stop_recording compress r =
     (case rg_final r of Some c \<Rightarrow> (r, [Queued c])
      | None \<Rightarrow> if rg_finished r then (r, [])
          else (case seal_active (rg_chunks r) of
              (c, None) \<Rightarrow> (r\<lparr>rg_chunks := c\<rparr>, [])
            | (c, Some sealed) \<Rightarrow> (r\<lparr>rg_chunks := c\<rparr>, enqueue compress r sealed)))"

text \<open>The loop of \<open>run\<close>: it ends when the recording is stopped.\<close>

fun run_recording :: "(raw \<Rightarrow> nat) \<Rightarrow> (json \<Rightarrow> string) \<Rightarrow> recording_message list \<Rightarrow> recording \<Rightarrow> recording \<times> recording_effect list" where
  "run_recording bytes compress [] r = (r, [])"
| "run_recording bytes compress (Offer_tick t # ms) r =
     (let (r', es) = record_offer bytes compress t r; (r'', es') = run_recording bytes compress ms r' in (r'', es @ es'))"
| "run_recording bytes compress (Finish_game t stored # ms) r =
     (let (r', es, _) = finish_recording bytes compress t stored r; (r'', es') = run_recording bytes compress ms r' in (r'', es @ es'))"
| "run_recording bytes compress (Stop_recording # ms) r = stop_recording compress r"

definition start_recording :: "string \<Rightarrow> string \<Rightarrow> instant \<Rightarrow> chunking_policy \<Rightarrow> recording" where
  "start_recording id' session now policy =
     \<lparr>rg_id = id', rg_session = session, rg_started = now, rg_chunks = new_chunking id' policy,
      rg_final = None, rg_finished = False\<rparr>"


subsection \<open>What a chunk holds\<close>

definition delta_values :: "chunk_record list \<Rightarrow> json list" where
  "delta_values rs = concat (map (\<lambda>r. case re_value r of Raw j \<Rightarrow> if re_type r = state_delta then [j] else [] | _ \<Rightarrow> []) rs)"

text \<open>The states a reader gets from a chunk: its base, then one per delta.\<close>

definition read_chunk :: "chunk \<Rightarrow> patch_error + json list" where
  "read_chunk c = (case ch_base c of Raw d \<Rightarrow>
       (case json_codec.read_deltas d (delta_values (ch_records c)) of Inl e \<Rightarrow> Inl e | Inr xs \<Rightarrow> Inr (d # xs))
     | _ \<Rightarrow> Inl Decoding)"

definition transient_view :: "chunk_record list \<Rightarrow> chunk_record list" where
  "transient_view rs = map (\<lambda>r. r\<lparr>re_order := 0\<rparr>) (filter (\<lambda>r. re_type r \<noteq> state_delta) rs)"

fun number_from :: "nat \<Rightarrow> chunk_record list \<Rightarrow> chunk_record list" where
  "number_from n [] = []"
| "number_from n (r # rs) = r\<lparr>re_order := n\<rparr> # number_from (n + 1) rs"

lemma number_from_orders: "map re_order (number_from n rs) = [n..<n + length rs]"
  by (induction rs arbitrary: n) (simp_all add: upt_conv_Cons del: upt_Suc)

lemma number_from_transients: "transient_view (number_from n rs) = transient_view rs"
  by (induction rs arbitrary: n) (simp_all add: transient_view_def)

lemma number_from_deltas: "delta_values (number_from n rs) = delta_values rs"
  by (induction rs arbitrary: n) (auto simp: delta_values_def split: raw.split)

lemma delta_values_append [simp]: "delta_values (rs @ rs') = delta_values rs @ delta_values rs'"
  by (simp add: delta_values_def)

lemma append_records_eq:
  "append_records bytes rs b = b\<lparr>bu_chunk := (bu_chunk b)\<lparr>ch_records := ch_records (bu_chunk b) @ number_from (bu_next_order b) rs\<rparr>,
     bu_size := bu_size b + sum_list (map (bytes \<circ> re_value) rs), bu_next_order := bu_next_order b + length rs\<rparr>"
  by (induction rs arbitrary: b) simp_all

context patch_codec
begin

lemma read_snoc:
  "read_deltas base ws = Inr xs \<Longrightarrow> valid (last (base # xs)) \<Longrightarrow> valid x \<Longrightarrow>
   read_deltas base (ws @ [store (difference (last (base # xs)) x)]) = Inr (xs @ [x])"
proof (induction ws arbitrary: base xs)
  case Nil
  then show ?case by (simp add: load_store applied_difference)
next
  case (Cons w ws)
  then obtain p y ys where "load w = Inr p" "applied base p = Inr y" "read_deltas y ws = Inr ys" "xs = y # ys"
    by (auto split: sum.splits)
  then show ?case using Cons.IH[of y ys] Cons.prems by simp
qed

end

definition builder_ok :: "builder \<Rightarrow> bool" where
  "builder_ok b \<longleftrightarrow> json_ok (bu_last b) \<and> (\<exists>xs. read_chunk (bu_chunk b) = Inr xs \<and> last xs = bu_last b)"

lemma read_append:
  "read_chunk c = Inr xs \<Longrightarrow> delta_values rs = [] \<Longrightarrow> read_chunk (c\<lparr>ch_records := ch_records c @ rs\<rparr>) = Inr xs"
  by (auto simp: read_chunk_def split: raw.splits)

lemma transients_plain: "check_transients ps = Inr rs \<Longrightarrow> rs = map fst ps"
  by (induction ps arbitrary: rs rule: check_transients.induct) (auto split: if_splits sum.splits)

lemma placed_set: "set (placed t) = set (placed_responses (ca_responses t)) \<union> set (placed_errors (ca_errors t)) \<union> set (placed_events (ca_events t))"
  by (simp add: placed_def Un_assoc)

lemma transients_records:
  assumes "transients t = Inr rs" "r \<in> set rs"
  shows "re_order r = 0" "re_type r \<noteq> state_delta"
proof -
  obtain ord where "(r, ord) \<in> set (placed t)"
    using assms transients_plain by (fastforce simp: transients_def)
  then show "re_order r = 0" "re_type r \<noteq> state_delta"
    by (auto simp: placed_set placed_responses_def placed_errors_def placed_events_def record_types)
qed

lemma transients_view: "transients t = Inr rs \<Longrightarrow> transient_view rs = rs"
  using transients_records[of t rs] by (auto simp: transient_view_def intro!: map_idI)

lemma transients_deltas: "transients t = Inr rs \<Longrightarrow> delta_values rs = []"
  using transients_records(2)[of t rs] by (auto simp: delta_values_def split: raw.splits)

lemma builder_ok_append:
  "builder_ok b \<Longrightarrow> transients t = Inr rs \<Longrightarrow> builder_ok (append_records bytes rs b)"
  using transients_deltas[of t rs]
  by (auto simp: builder_ok_def append_records_eq number_from_deltas intro!: read_append)

lemma builder_ok_open: "parse_state r = Inr s \<Longrightarrow> json_ok (st_tree s) \<Longrightarrow> builder_ok (open_chunk bytes h i n time s)"
  by (auto simp: builder_ok_def open_chunk_def read_chunk_def delta_values_def parse_state_def parse_document_def split: raw.splits)

lemma builder_ok_state:
  assumes "builder_ok b" "json_ok (st_tree s)"
  shows "builder_ok (append_state bytes time s b)" "bu_last (append_state bytes time s b) = st_tree s"
proof -
  obtain xs where xs: "json_ok (bu_last b)" "read_chunk (bu_chunk b) = Inr xs" "last xs = bu_last b"
    using assms(1) by (auto simp: builder_ok_def)
  obtain d ys where d: "ch_base (bu_chunk b) = Raw d" "xs = d # ys"
    "json_codec.read_deltas d (delta_values (ch_records (bu_chunk b))) = Inr ys"
    using xs(2) by (auto simp: read_chunk_def split: raw.splits sum.splits)
  let ?os = "diff_documents (bu_last b) (st_tree s)"
  have eq: "?os = [] \<longleftrightarrow> bu_last b = st_tree s" by (rule json_codec.nothing_difference[OF xs(1) assms(2)])
  have "json_codec.read_deltas d (delta_values (ch_records (bu_chunk b)) @ [marshal_patch ?os]) = Inr (ys @ [st_tree s])"
    using json_codec.read_snoc[OF d(3), of "st_tree s"] xs(1,3) d(2) assms(2) by simp
  then show "builder_ok (append_state bytes time s b)"
    using assms d xs eq by (auto simp: append_state_def Let_def builder_ok_def append_records_eq read_chunk_def delta_values_def record_types)
  show "bu_last (append_state bytes time s b) = st_tree s"
    using eq by (auto simp: append_state_def Let_def append_records_eq)
qed


subsection \<open>A recording's chunks\<close>

definition chunks_of :: "chunk list \<Rightarrow> chunking \<Rightarrow> chunk list" where
  "chunks_of sealed c = sealed @ (case ck_active c of None \<Rightarrow> [] | Some b \<Rightarrow> [bu_chunk b])"

definition order_after :: "chunking \<Rightarrow> nat" where
  "order_after c = (case ck_active c of None \<Rightarrow> ck_next_order c | Some b \<Rightarrow> bu_next_order b)"

definition linked :: "chunk list \<Rightarrow> bool" where
  "linked cs \<longleftrightarrow> (\<forall>i. Suc i < length cs \<longrightarrow> ch_through (cs ! i) = ch_from (cs ! Suc i))"

definition recording_inv :: "chunk list \<Rightarrow> chunk_record list \<Rightarrow> chunking \<Rightarrow> bool" where
  "recording_inv sealed kept c \<longleftrightarrow>
     concat (map (transient_view \<circ> ch_records) (chunks_of sealed c)) = kept
     \<and> map re_order (concat (map ch_records (chunks_of sealed c))) = [0..<order_after c]
     \<and> map ch_index (chunks_of sealed c) = map int [0..<length (chunks_of sealed c)]
     \<and> ck_next_index c = int (length (chunks_of sealed c))
     \<and> (\<forall>b. ck_active c = Some b \<longrightarrow> builder_ok b)
     \<and> (\<forall>ch \<in> set sealed. \<exists>xs. read_chunk ch = Inr xs)
     \<and> linked (chunks_of sealed c)
     \<and> (ck_active c = None \<longrightarrow> sealed = [])"

lemma linked_snoc: "linked cs \<Longrightarrow> (cs \<noteq> [] \<Longrightarrow> ch_through (last cs) = ch_from x) \<Longrightarrow> linked (cs @ [x])"
proof -
  assume l: "linked cs" "cs \<noteq> [] \<Longrightarrow> ch_through (last cs) = ch_from x"
  show "linked (cs @ [x])" unfolding linked_def
  proof (intro allI impI)
    fix i assume "Suc i < length (cs @ [x])"
    then consider "Suc i < length cs" | "Suc i = length cs" by fastforce
    then show "ch_through ((cs @ [x]) ! i) = ch_from ((cs @ [x]) ! Suc i)"
    proof cases
      case 1
      then show ?thesis using l(1) by (simp add: linked_def nth_append)
    next
      case 2
      then have "cs \<noteq> []" "i = length cs - 1" by auto
      then show ?thesis using l(2) 2 by (simp add: nth_append last_conv_nth)
    qed
  qed
qed

lemma linked_swap: "linked (cs @ [x]) \<Longrightarrow> ch_from y = ch_from x \<Longrightarrow> linked (cs @ [y])"
  unfolding linked_def
proof (intro allI impI)
  fix i assume l: "\<forall>i. Suc i < length (cs @ [x]) \<longrightarrow> ch_through ((cs @ [x]) ! i) = ch_from ((cs @ [x]) ! Suc i)"
    and e: "ch_from y = ch_from x" and i: "Suc i < length (cs @ [y])"
  then have "ch_through ((cs @ [x]) ! i) = ch_from ((cs @ [x]) ! Suc i)" by simp
  then show "ch_through ((cs @ [y]) ! i) = ch_from ((cs @ [y]) ! Suc i)"
    using e i by (simp add: nth_append split: if_splits)
qed

lemma builder_facts [simp]:
  "ch_index (bu_chunk (append_records bytes rs b)) = ch_index (bu_chunk b)"
  "ch_from (bu_chunk (append_records bytes rs b)) = ch_from (bu_chunk b)"
  "ch_base (bu_chunk (append_records bytes rs b)) = ch_base (bu_chunk b)"
  "ch_records (bu_chunk (append_records bytes rs b)) = ch_records (bu_chunk b) @ number_from (bu_next_order b) rs"
  "bu_next_order (append_records bytes rs b) = bu_next_order b + length rs"
  "bu_last (append_records bytes rs b) = bu_last b"
  by (simp_all add: append_records_eq)

lemma transient_view_append [simp]: "transient_view (rs @ rs') = transient_view rs @ transient_view rs'"
  by (simp add: transient_view_def)

lemma transient_view_number [simp]: "transient_view (number_from n rs) = transient_view rs"
  by (rule number_from_transients)

text \<open>A builder that replaces the active one with more records keeps the invariant.\<close>

lemma recording_inv_grow:
  assumes "recording_inv sealed kept c" "ck_active c = Some b" "ck_active c' = Some b'" "ck_next_index c' = ck_next_index c"
    "ch_records (bu_chunk b') = ch_records (bu_chunk b) @ number_from (bu_next_order b) rs"
    "bu_next_order b' = bu_next_order b + length rs" "builder_ok b'"
    "ch_index (bu_chunk b') = ch_index (bu_chunk b)" "ch_from (bu_chunk b') = ch_from (bu_chunk b)"
  shows "recording_inv sealed (kept @ transient_view rs) c'"
proof -
  have "linked (sealed @ [bu_chunk b'])"
    using assms(1,2,9) linked_swap by (auto simp: recording_inv_def chunks_of_def)
  moreover have "[0..<bu_next_order b] @ [bu_next_order b..<bu_next_order b + length rs] = [0..<bu_next_order b + length rs]"
    by (metis upt_add_eq_append zero_le)
  moreover have "map re_order (concat (map ch_records sealed)) @ map re_order (ch_records (bu_chunk b)) = [0..<bu_next_order b]"
    using assms(1,2) by (simp add: recording_inv_def chunks_of_def order_after_def)
  ultimately have "map re_order (concat (map ch_records sealed)) @ map re_order (ch_records (bu_chunk b)) @ [bu_next_order b..<bu_next_order b + length rs]
      = [0..<bu_next_order b + length rs]" by (metis append.assoc)
  then show ?thesis
    using assms \<open>linked (sealed @ [bu_chunk b'])\<close> by (auto simp: recording_inv_def chunks_of_def order_after_def number_from_orders)
qed

lemma recording_inv_append:
  assumes "recording_inv sealed kept c" "ck_active c = Some b" "transients t = Inr rs"
  shows "recording_inv sealed (kept @ rs) (c\<lparr>ck_active := Some (append_records bytes rs b)\<rparr>)"
proof -
  have "builder_ok b" using assms(1,2) by (simp add: recording_inv_def)
  then show ?thesis using recording_inv_grow[OF assms(1,2), of "c\<lparr>ck_active := Some (append_records bytes rs b)\<rparr>"
        "append_records bytes rs b" rs] builder_ok_append[OF _ assms(3)] transients_view[OF assms(3)]
    by simp
qed

lemma recording_inv_state:
  assumes "recording_inv sealed kept c" "ck_active c = Some b" "json_ok (st_tree s)"
    "ck_active c' = Some (append_state bytes time s b)" "ck_next_index c' = ck_next_index c"
  shows "recording_inv sealed kept c'"
proof -
  have b: "builder_ok b" using assms(1,2) by (simp add: recording_inv_def)
  define rs where "rs = (if diff_documents (bu_last b) (st_tree s) = [] then []
      else [\<lparr>re_type = state_delta, re_time = time, re_order = 0, re_participants = None,
             re_value = Raw (marshal_patch (diff_documents (bu_last b) (st_tree s)))\<rparr>])"
  have "append_state bytes time s b = append_records bytes rs (if rs = [] then b else b\<lparr>bu_last := st_tree s\<rparr>)"
    by (simp add: append_state_def Let_def rs_def)
  then have "recording_inv sealed (kept @ transient_view rs) c'"
    by (intro recording_inv_grow[OF assms(1,2,4,5)] builder_ok_state(1)[OF b assms(3)]) simp_all
  then show ?thesis by (simp add: rs_def transient_view_def split: if_splits)
qed

lemma open_chunk_facts [simp]:
  "ch_records (bu_chunk (open_chunk bytes h i n time s)) = []"
  "ch_index (bu_chunk (open_chunk bytes h i n time s)) = i"
  "ch_from (bu_chunk (open_chunk bytes h i n time s)) = time"
  "bu_next_order (open_chunk bytes h i n time s) = n"
  "bu_last (open_chunk bytes h i n time s) = st_tree s"
  by (simp_all add: open_chunk_def)

lemma transient_view_Nil [simp]: "transient_view [] = []"
  by (simp add: transient_view_def)

lemma recording_inv_open:
  assumes "recording_inv sealed kept c" "ck_active c = None" "parse_state r = Inr s" "json_ok (st_tree s)"
  shows "recording_inv sealed kept (open_next bytes t s c)"
  using assms builder_ok_open[OF assms(3,4)]
  by (auto simp: recording_inv_def chunks_of_def open_next_def Let_def order_after_def linked_def)

lemma recording_inv_rollover:
  assumes "recording_inv sealed kept c" "ck_active c = Some b" "parse_state r = Inr s" "json_ok (st_tree s)"
  shows "recording_inv (sealed @ [seal_chunk (ca_time t) False b]) kept (open_next bytes t s (fst (end_chunk b (ca_time t) False c)))"
proof -
  let ?s = "seal_chunk (ca_time t) False b"
  have I: "concat (map (transient_view \<circ> ch_records) sealed) @ transient_view (ch_records (bu_chunk b)) = kept"
    "map re_order (concat (map ch_records sealed)) @ map re_order (ch_records (bu_chunk b)) = [0..<bu_next_order b]"
    "map ch_index sealed @ [ch_index (bu_chunk b)] = map int [0..<Suc (length sealed)]"
    "ck_next_index c = 1 + int (length sealed)"
    "builder_ok b" "\<forall>ch \<in> set sealed. \<exists>xs. read_chunk ch = Inr xs" "linked (sealed @ [bu_chunk b])"
    using assms(1,2) by (simp_all add: recording_inv_def chunks_of_def order_after_def del: upt_Suc)
  have f: "ch_records ?s = ch_records (bu_chunk b)" "ch_index ?s = ch_index (bu_chunk b)" "ch_from ?s = ch_from (bu_chunk b)"
    "ch_through ?s = ca_time t" "ch_base ?s = ch_base (bu_chunk b)"
    by (simp_all add: seal_chunk_def)
  have "read_chunk ?s = read_chunk (bu_chunk b)" by (simp add: read_chunk_def f split: raw.split)
  then have "\<exists>xs. read_chunk ?s = Inr xs" using I(5) by (simp add: builder_ok_def) blast
  moreover obtain b' where b': "ck_active (open_next bytes t s (fst (end_chunk b (ca_time t) False c))) = Some b'"
    "ch_records (bu_chunk b') = []" "ch_index (bu_chunk b') = ck_next_index c" "ch_from (bu_chunk b') = ca_time t"
    "bu_next_order b' = bu_next_order b" "builder_ok b'"
    "ck_next_index (open_next bytes t s (fst (end_chunk b (ca_time t) False c))) = ck_next_index c + 1"
    using builder_ok_open[OF assms(3,4)] by (simp add: open_next_def end_chunk_def Let_def)
  moreover have "linked (sealed @ [?s])" using linked_swap[OF I(7)] f(3) by blast
  then have "linked (sealed @ [?s, bu_chunk b'])" using linked_snoc[of "sealed @ [?s]" "bu_chunk b'"] f(4) b'(4) by simp
  ultimately show ?thesis using I(1-4,6)
    by (simp add: recording_inv_def chunks_of_def order_after_def f del: upt_Suc) (simp add: f flip: append_assoc)
qed


text \<open>The state of a capture, when it is JSON, is the value the decoder makes of it: its objects are maps.\<close>

definition tick_ok :: "capture \<Rightarrow> bool" where
  "tick_ok t = (case ca_state t of Raw j \<Rightarrow> json_ok j | _ \<Rightarrow> True)"

lemma record_tick_error: "record_tick bytes t final c = (c', Inl e) \<Longrightarrow> c' = c"
  by (auto simp: record_tick_def record_kept_def Let_def end_chunk_def split: sum.splits option.splits if_splits prod.splits)

lemma rolls_over_active: "rolls_over t final c \<Longrightarrow> \<exists>b. ck_active c = Some b"
  by (auto simp: rolls_over_def split: option.splits)

lemma recording_inv_last_time: "recording_inv sealed kept (c\<lparr>ck_last_time := x\<rparr>) = recording_inv sealed kept c"
  by (cases "ck_active c") (simp_all add: recording_inv_def chunks_of_def order_after_def)

lemma recording_inv_skipped: "recording_inv sealed kept (c\<lparr>ck_skipped := x\<rparr>) = recording_inv sealed kept c"
  by (cases "ck_active c") (simp_all add: recording_inv_def chunks_of_def order_after_def)

lemma record_tick_inv:
  assumes inv: "recording_inv sealed kept c" and ok: "tick_ok t" and r: "record_tick bytes t final c = (c', Inr s)"
  obtains rs b where "transients t = Inr rs" "recording_inv (sealed @ (case s of None \<Rightarrow> [] | Some ch \<Rightarrow> [ch])) (kept @ rs) c'"
    "ck_active c' = Some b" "keeps_state t final c \<Longrightarrow> ca_state t = Raw (bu_last b)"
proof -
  obtain rs where rs: "transients t = Inr rs" using r by (auto simp: record_tick_def split: sum.splits)
  let ?c = "c\<lparr>ck_last_time := max (ck_last_time c) (ca_time t)\<rparr>"
  have inv': "recording_inv sealed kept ?c" using inv by (simp add: recording_inv_last_time)
  have ps: "st_raw st = ca_state t \<and> ca_state t = Raw (st_tree st) \<and> json_ok (st_tree st)" if "parse_state (ca_state t) = Inr st" for st
    using that ok by (auto simp: parse_state_def parse_document_def tick_ok_def split: raw.splits)
  have view: "transient_view rs = rs" by (rule transients_view[OF rs])
  show ?thesis
  proof (cases "ck_active c")
    case None
    then have k: "keeps_state t final c" by (simp add: keeps_state_def)
    then obtain st where st: "parse_state (ca_state t) = Inr st" using r rs by (auto simp: record_tick_def split: sum.splits)
    let ?o = "open_next bytes t st ?c"
    have o: "recording_inv sealed kept ?o"
      by (rule recording_inv_open[OF inv' _ st]) (use None ps[OF st] in simp_all)
    obtain b where b: "ck_active ?o = Some b" "bu_last b = st_tree st" by (simp add: open_next_def Let_def)
    have c': "c' = ?o\<lparr>ck_active := Some (append_records bytes rs b)\<rparr>" "s = None"
      using r rs k st None b by (auto simp: record_tick_def record_kept_def Let_def)
    have "recording_inv sealed (kept @ rs) c'"
      unfolding c'(1) by (rule recording_inv_append[OF o b(1) rs])
    then show ?thesis by (intro that[OF rs]) (use c' b ps[OF st] in auto)
  next
    case (Some b0)
    let ?b = "append_records bytes rs b0"
    have a: "recording_inv sealed (kept @ rs) (?c\<lparr>ck_active := Some ?b\<rparr>)"
      by (rule recording_inv_append[OF inv' _ rs]) (simp add: Some)
    show ?thesis
    proof (cases "rolls_over t final c")
      case True
      then have k: "keeps_state t final c" by (simp add: keeps_state_def)
      then obtain st where st: "parse_state (ca_state t) = Inr st" using r rs by (auto simp: record_tick_def split: sum.splits)
      have c': "c' = open_next bytes t st (fst (end_chunk ?b (ca_time t) False ?c))" "s = Some (seal_chunk (ca_time t) False ?b)"
        using r rs k st Some True by (auto simp: record_tick_def record_kept_def Let_def end_chunk_def)
      have e: "fst (end_chunk ?b (ca_time t) False (?c\<lparr>ck_active := Some ?b\<rparr>)) = fst (end_chunk ?b (ca_time t) False ?c)"
        by (simp add: end_chunk_def)
      have "recording_inv (sealed @ [seal_chunk (ca_time t) False ?b]) (kept @ rs) c'"
        using recording_inv_rollover[OF a _ st, where b = ?b and t = t and bytes = bytes] ps[OF st] unfolding c'(1) e by simp
      moreover obtain b' where "ck_active c' = Some b'" "bu_last b' = st_tree st" by (simp add: c' open_next_def Let_def)
      ultimately show ?thesis by (intro that[OF rs]) (use c' ps[OF st] in auto)
    next
      case no: False
      show ?thesis
      proof (cases "keeps_state t final c")
        case True
        then obtain st where st: "parse_state (ca_state t) = Inr st" using r rs by (auto simp: record_tick_def split: sum.splits)
        let ?a = "append_state bytes (ca_time t) st ?b"
        have c': "c' = ?c\<lparr>ck_active := Some ?a, ck_skipped := 0\<rparr>" "s = None"
          using r rs True st Some no by (auto simp: record_tick_def record_kept_def Let_def)
        have "recording_inv sealed (kept @ rs) c'"
          by (rule recording_inv_state[OF a]) (use ps[OF st] c' in simp_all)
        moreover have "builder_ok ?b" using a by (simp add: recording_inv_def)
        ultimately show ?thesis
          by (intro that[OF rs]) (use c' ps[OF st] builder_ok_state(2) in auto)
      next
        case False
        have c': "c' = ?c\<lparr>ck_active := Some ?b, ck_skipped := ck_skipped c + 1\<rparr>" "s = None"
          using r rs False Some no by (auto simp: record_tick_def record_kept_def Let_def)
        have "recording_inv sealed (kept @ rs) c'"
          unfolding c'(1) using a recording_inv_skipped[where sealed = sealed and kept = "kept @ rs" and c = "?c\<lparr>ck_active := Some ?b\<rparr>"] by simp
        then show ?thesis by (intro that[OF rs]) (use c' False in auto)
      qed
    qed
  qed
qed

text \<open>Ticks offered one after the other: the chunks ended, and the records of the ticks that were accepted.\<close>

fun run_ticks :: "(raw \<Rightarrow> nat) \<Rightarrow> capture list \<Rightarrow> chunking \<Rightarrow> chunking \<times> chunk list \<times> chunk_record list" where
  "run_ticks bytes [] c = (c, [], [])"
| "run_ticks bytes (t # ts) c = (case add_tick bytes t c of
     (c', Inl e) \<Rightarrow> run_ticks bytes ts c'
   | (c', Inr s) \<Rightarrow> (case run_ticks bytes ts c' of (c'', sealed, kept) \<Rightarrow>
       (c'', (case s of None \<Rightarrow> [] | Some ch \<Rightarrow> [ch]) @ sealed,
        (case transients t of Inl e \<Rightarrow> [] | Inr rs \<Rightarrow> rs) @ kept)))"

lemma run_ticks_inv:
  "recording_inv sealed kept c \<Longrightarrow> list_all tick_ok ts \<Longrightarrow> run_ticks bytes ts c = (c', sealed', kept') \<Longrightarrow>
   recording_inv (sealed @ sealed') (kept @ kept') c'"
proof (induction ts arbitrary: sealed kept c sealed' kept')
  case (Cons t ts)
  show ?case
  proof (cases "add_tick bytes t c")
    case (Pair c1 res)
    show ?thesis
    proof (cases res)
      case (Inl e)
      then have "c1 = c" using Pair record_tick_error by (simp add: add_tick_def)
      then show ?thesis using Cons Pair Inl by simp
    next
      case (Inr s)
      then have add: "record_tick bytes t False c = (c1, Inr s)" using Pair by (simp add: add_tick_def)
      obtain rs where rs: "transients t = Inr rs"
        "recording_inv (sealed @ (case s of None \<Rightarrow> [] | Some ch \<Rightarrow> [ch])) (kept @ rs) c1"
        using record_tick_inv[OF Cons.prems(1) _ add] Cons.prems(2) by (metis list.pred_inject(2))
      obtain s2 k2 where run: "run_ticks bytes ts c1 = (c', s2, k2)"
        "sealed' = (case s of None \<Rightarrow> [] | Some ch \<Rightarrow> [ch]) @ s2" "kept' = rs @ k2"
        using Cons.prems(3) Pair Inr rs(1) by (auto split: prod.splits)
      show ?thesis using Cons.IH[OF rs(2) _ run(1)] Cons.prems(2) run(2,3) by simp
    qed
  qed
qed simp

lemma recording_inv_new: "recording_inv [] [] (new_chunking id' policy)"
  by (simp add: recording_inv_def chunks_of_def order_after_def new_chunking_def linked_def)

text \<open>
  C7: nothing a game showed is lost between chunks: whatever ticks are offered, the chunks ended and
  the open one hold together exactly the responses, errors and events of the ticks accepted, in the
  order they were offered; their records are numbered 0, 1, 2, ... across chunks and the chunks
  likewise; each chunk starts where the one before it ends; and every chunk can be read back state
  by state from its own base.
\<close>

theorem recording_loses_nothing:
  assumes "run_ticks bytes ts (new_chunking id' policy) = (c, sealed, kept)" "list_all tick_ok ts"
  shows "let chunks = chunks_of sealed c in
    concat (map (transient_view \<circ> ch_records) chunks) = kept
    \<and> map re_order (concat (map ch_records chunks)) = [0..<length (concat (map ch_records chunks))]
    \<and> map ch_index chunks = map int [0..<length chunks]
    \<and> (\<forall>i. Suc i < length chunks \<longrightarrow> ch_through (chunks ! i) = ch_from (chunks ! Suc i))
    \<and> (\<forall>ch \<in> set chunks. \<exists>states. read_chunk ch = Inr states)"
proof -
  have I: "recording_inv sealed kept c" using run_ticks_inv[OF recording_inv_new assms(2,1)] by simp
  then have "map re_order (concat (map ch_records (chunks_of sealed c))) = [0..<order_after c]" by (simp add: recording_inv_def)
  moreover from this have "order_after c = length (concat (map ch_records (chunks_of sealed c)))"
    by (metis length_map length_upt minus_nat.diff_0)
  moreover have "\<forall>ch \<in> set (chunks_of sealed c). \<exists>states. read_chunk ch = Inr states"
    using I by (auto simp: recording_inv_def chunks_of_def builder_ok_def split: option.splits)
  ultimately show ?thesis using I unfolding Let_def by (simp add: recording_inv_def linked_def)
qed

definition sample_tick :: "int \<Rightarrow> json \<Rightarrow> game_event list \<Rightarrow> capture" where
  "sample_tick time state events = \<lparr>ca_session = ''s'', ca_game_version = ''v'', ca_time = time, ca_revision = 1,
     ca_state = Raw state, ca_participants = Some [''p''], ca_responses = [], ca_errors = [], ca_events = events\<rparr>"

definition sample_policy :: chunking_policy where
  "sample_policy = \<lparr>cp_state_every = 1, cp_duration = 60000000000, cp_max_bytes = 0\<rparr>"

definition sample_event :: "int \<Rightarrow> game_event" where
  "sample_event time = \<lparr>gv_participants = None, gv_time = time, gv_order = 0, gv_event = Raw (JStr ''hi'')\<rparr>"

definition sample_ticks :: "capture list" where
  "sample_ticks = [sample_tick 0 (JObj [(''n'', JNum ''1'')]) [],
     sample_tick 30000 (JObj [(''n'', JNum ''2'')]) [sample_event 30000],
     sample_tick 60000 (JObj [(''n'', JNum ''3'')]) [sample_event 60000]]"

theorem recording_loses_nothing_witness:
  "\<exists>c sealed kept. run_ticks (\<lambda>_. 8) sample_ticks (new_chunking ''r'' sample_policy) = (c, sealed, kept)
     \<and> length sealed = 1 \<and> length kept = 2
     \<and> concat (map (transient_view \<circ> ch_records) (chunks_of sealed c)) = kept"
proof -
  obtain c sealed kept where r: "run_ticks (\<lambda>_. 8) sample_ticks (new_chunking ''r'' sample_policy) = (c, sealed, kept)"
    by (metis prod_cases3)
  have "(case run_ticks (\<lambda>_. 8) sample_ticks (new_chunking ''r'' sample_policy) of (c, sealed, kept) \<Rightarrow> (length sealed, length kept)) = (1, 2)"
    by code_simp
  moreover have "list_all tick_ok sample_ticks" by code_simp
  ultimately show ?thesis using recording_loses_nothing[OF r] r by (auto simp: Let_def)
qed


subsection \<open>The ending\<close>

lemma record_tick_active: "record_tick bytes t final c = (c', Inr s) \<Longrightarrow> ck_active c' \<noteq> None"
  by (auto simp: record_tick_def record_kept_def Let_def end_chunk_def open_next_def
      split: sum.splits option.splits if_splits prod.splits)

text \<open>
  C17: the ending of a game is in its last chunk: \<open>finish\<close> after any ticks never ends a chunk that is
  not open; it either rejects the capture, changing nothing, and only when one of its texts is not
  JSON, or ends a chunk marked final, through the capture's time, whose last state read back is the
  capture's.
\<close>

theorem final_chunk_holds_ending:
  assumes "run_ticks bytes ts (new_chunking id' policy) = (c, sealed, kept)" "list_all tick_ok (t # ts)"
  shows "case finish_chunking bytes t c of None \<Rightarrow> False
    | Some (c', Inl e) \<Rightarrow> c' = c \<and> ((\<forall>rs. transients t \<noteq> Inr rs) \<or> (\<forall>j. ca_state t \<noteq> Raw j))
    | Some (c', Inr ch) \<Rightarrow> ch_final ch \<and> ch_through ch = ca_time t
        \<and> (\<exists>states. read_chunk ch = Inr states \<and> ca_state t = Raw (last states))"
proof -
  have inv: "recording_inv sealed kept c" using run_ticks_inv[OF recording_inv_new _ assms(1)] assms(2) by simp
  obtain c' res where r: "record_tick bytes t True c = (c', res)" by (cases "record_tick bytes t True c")
  have k: "keeps_state t True c" by (simp add: keeps_state_def)
  show ?thesis
  proof (cases res)
    case (Inl e)
    have "(\<forall>rs. transients t \<noteq> Inr rs) \<or> (\<forall>j. ca_state t \<noteq> Raw j)"
      using r Inl k by (auto simp: record_tick_def parse_state_def parse_document_def record_kept_def Let_def end_chunk_def
          split: sum.splits raw.splits option.splits if_splits prod.splits)
    then show ?thesis using r Inl record_tick_error[of bytes t True c c' e] by (simp add: finish_chunking_def)
  next
    case (Inr s)
    have "tick_ok t" using assms(2) by simp
    then obtain kept' sealed' b where b: "recording_inv sealed' kept' c'" "ck_active c' = Some b" "ca_state t = Raw (bu_last b)"
      using record_tick_inv[OF inv _ r[unfolded Inr]] k by metis
    then have "builder_ok b" by (simp add: recording_inv_def)
    then obtain xs where xs: "read_chunk (bu_chunk b) = Inr xs" "last xs = bu_last b" by (auto simp: builder_ok_def)
    have "read_chunk (seal_chunk (ca_time t) True b) = Inr xs"
      using xs(1) by (auto simp: read_chunk_def seal_chunk_def split: raw.splits)
    then show ?thesis using r Inr b(2,3) xs(2)
      by (simp add: finish_chunking_def end_chunk_def seal_chunk_def)
  qed
qed

theorem final_chunk_holds_ending_witness:
  "case finish_chunking (\<lambda>_. 8) (sample_tick 61000 (JObj [(''n'', JNum ''9'')]) [])
      (fst (run_ticks (\<lambda>_. 8) sample_ticks (new_chunking ''r'' sample_policy))) of
     Some (_, Inr ch) \<Rightarrow> ch_final ch \<and> (\<exists>states. read_chunk ch = Inr states \<and> last states = JObj [(''n'', JNum ''9'')])
   | _ \<Rightarrow> False"
proof -
  let ?t = "sample_tick 61000 (JObj [(''n'', JNum ''9'')]) []"
  obtain c sealed kept where r: "run_ticks (\<lambda>_. 8) sample_ticks (new_chunking ''r'' sample_policy) = (c, sealed, kept)"
    by (metis prod_cases3)
  have ok: "list_all tick_ok (?t # sample_ticks)" by code_simp
  have t: "transients ?t = Inr []" "ca_state ?t = Raw (JObj [(''n'', JNum ''9'')])" by code_simp+
  show ?thesis using final_chunk_holds_ending[OF r ok] t r by (auto split: option.splits prod.splits sum.splits)
qed

text \<open>What may still happen once the final chunk was sealed.\<close>

definition only_this :: "replay_chunk \<Rightarrow> recording_effect \<Rightarrow> bool" where
  "only_this c e \<longleftrightarrow> (\<exists>b. e = Store_attempt c b) \<or> e = Queued c"

fun ending_ok :: "recording_effect list \<Rightarrow> bool" where
  "ending_ok [] = True"
| "ending_ok (Store_attempt c stored # es) = (rc_final c \<and> (stored \<longrightarrow> es = []) \<and> list_all (only_this c) es \<and> ending_ok es)"
| "ending_ok (_ # es) = ending_ok es"

lemma run_finished: "rg_finished r \<Longrightarrow> rg_final r = None \<Longrightarrow> snd (run_recording bytes compress ms r) = []"
proof (induction ms)
  case (Cons m ms)
  then show ?case
    by (cases m) (auto simp: record_offer_def finish_recording_def stop_recording_def split: prod.split)
qed simp

lemma run_sealed:
  "\<not> rg_finished r \<Longrightarrow> rg_final r = Some c \<Longrightarrow> rc_final c \<Longrightarrow>
   list_all (only_this c) (snd (run_recording bytes compress ms r)) \<and> ending_ok (snd (run_recording bytes compress ms r))"
proof (induction ms)
  case (Cons m ms)
  show ?case
  proof (cases m)
    case (Offer_tick t)
    then show ?thesis using Cons by (simp add: record_offer_def split: prod.split)
  next
    case (Finish_game t stored)
    show ?thesis
    proof (cases stored)
      case True
      then show ?thesis using Cons.prems Finish_game run_finished[of "r\<lparr>rg_final := None, rg_finished := True\<rparr>" bytes compress ms]
        by (auto simp: finish_recording_def store_final_def only_this_def split: prod.split)
    next
      case False
      then show ?thesis using Cons Finish_game
        by (auto simp: finish_recording_def store_final_def only_this_def[of c "Store_attempt c False"] split: prod.split)
    qed
  next
    case Stop_recording
    then show ?thesis using Cons.prems by (simp add: stop_recording_def only_this_def)
  qed
qed simp

lemma enqueue_ending: "ending_ok (enqueue compress r ch @ es) = ending_ok es"
  by (auto simp: enqueue_def split: sum.split)

lemma run_open: "\<not> rg_finished r \<Longrightarrow> rg_final r = None \<Longrightarrow> ending_ok (snd (run_recording bytes compress ms r))"
proof (induction ms arbitrary: r)
  case (Cons m ms)
  show ?case
  proof (cases m)
    case (Offer_tick t)
    have "ending_ok (snd (run_recording bytes compress ms (r\<lparr>rg_chunks := c\<rparr>)))" for c using Cons by simp
    then show ?thesis using Cons.prems Offer_tick
      by (auto simp: record_offer_def enqueue_ending split: prod.splits sum.splits option.splits) (metis snd_conv)+
  next
    case (Finish_game t stored)
    have same: "ending_ok (snd (run_recording bytes compress ms (r\<lparr>rg_chunks := c\<rparr>)))" for c using Cons by simp
    have same0: "ending_ok (snd (run_recording bytes compress ms r))" using Cons by simp
    have final: "rc_final c" if "encode_sealed compress r' ch = Inr c" "ch_final ch" for r' ch c
      using that by (auto simp: encode_sealed_def split: sum.splits)
    have fin: "ch_final ch" if "finish_chunking bytes t (rg_chunks r) = Some (ck, Inr ch)" for ck ch
      using that by (auto simp: finish_chunking_def end_chunk_def seal_chunk_def split: prod.splits sum.splits option.splits)
    show ?thesis
    proof (cases "finish_chunking bytes t (rg_chunks r)")
      case None
      then show ?thesis using Cons.prems Finish_game same0 by (auto simp: finish_recording_def split: prod.splits)
    next
      case (Some p)
      obtain ck res where p: "p = (ck, res)" by (cases p)
      show ?thesis
      proof (cases res)
        case (Inl e)
        then show ?thesis using Cons.prems Finish_game same[of ck] Some p by (auto simp: finish_recording_def split: prod.splits)
      next
        case (Inr ch)
        show ?thesis
        proof (cases "encode_sealed compress (r\<lparr>rg_chunks := ck\<rparr>) ch")
          case (Inl e)
          then show ?thesis using Cons.prems Finish_game same[of ck] Some p Inr
            by (auto simp: finish_recording_def Let_def split: prod.splits)
        next
          case enc: (Inr c)
          have c: "rc_final c" using final[OF enc] fin Some p Inr by blast
          let ?s = "r\<lparr>rg_chunks := ck, rg_final := Some c\<rparr>"
          let ?f = "r\<lparr>rg_chunks := ck, rg_final := None, rg_finished := True\<rparr>"
          have "list_all (only_this c) (snd (run_recording bytes compress ms ?s)) \<and> ending_ok (snd (run_recording bytes compress ms ?s))"
            by (rule run_sealed) (use Cons.prems c in simp_all)
          moreover have "snd (run_recording bytes compress ms ?f) = []" by (rule run_finished) simp_all
          ultimately show ?thesis using Cons.prems Finish_game Some p Inr enc c
            by (cases stored) (auto simp: finish_recording_def store_final_def Let_def split: prod.splits)
        qed
      qed
    qed
  next
    case Stop_recording
    then show ?thesis using Cons.prems enqueue_ending[where es = "[]"]
      by (auto simp: stop_recording_def split: prod.splits option.splits)
  qed
qed simp

lemma ending_ok_split:
  "ending_ok (pre @ Store_attempt c stored # post) \<Longrightarrow>
   rc_final c \<and> (stored \<longrightarrow> post = []) \<and> list_all (only_this c) post"
  by (induction pre rule: ending_ok.induct) auto

text \<open>
  C15: the ending is stored once: whatever a recording is sent, from the first attempt to store its
  final chunk on it does nothing but try that same chunk again, or queue it when it is stopped; and
  once it is stored nothing follows, so no later tick and no second final chunk can come after it.
\<close>

theorem ending_stored_once:
  assumes "snd (run_recording bytes compress ms (start_recording id' session now policy)) = pre @ Store_attempt c stored # post"
  shows "rc_final c \<and> (stored \<longrightarrow> post = []) \<and> (\<forall>e \<in> set post. (\<exists>again. e = Store_attempt c again) \<or> e = Queued c)"
proof -
  have "ending_ok (pre @ Store_attempt c stored # post)"
    using run_open[of "start_recording id' session now policy" bytes compress ms] assms by (simp add: start_recording_def)
  then show ?thesis using ending_ok_split[of pre c stored post] by (simp add: list_all_iff only_this_def)
qed

theorem ending_stored_once_witness:
  "\<exists>c. snd (run_recording (\<lambda>_. 8) (\<lambda>_. ''z'')
      [Offer_tick (sample_tick 0 (JObj []) []), Finish_game (sample_tick 9 (JObj []) []) False,
       Offer_tick (sample_tick 12 (JObj []) []), Finish_game (sample_tick 15 (JObj []) []) True, Stop_recording]
      (start_recording ''r'' ''s'' 0 sample_policy)) = [Store_attempt c False, Store_attempt c True] \<and> rc_final c"
proof -
  let ?es = "snd (run_recording (\<lambda>_. 8) (\<lambda>_. ''z'')
      [Offer_tick (sample_tick 0 (JObj []) []), Finish_game (sample_tick 9 (JObj []) []) False,
       Offer_tick (sample_tick 12 (JObj []) []), Finish_game (sample_tick 15 (JObj []) []) True, Stop_recording]
      (start_recording ''r'' ''s'' 0 sample_policy))"
  have "(case ?es of [Store_attempt c False, Store_attempt c' True] \<Rightarrow> True | _ \<Rightarrow> False)" by code_simp
  then obtain c c' where es: "?es = [] @ Store_attempt c False # [Store_attempt c' True]"
    by (auto split: list.splits recording_effect.splits bool.splits)
  show ?thesis using ending_stored_once[OF es] es by auto
qed

end
