(* ===== verification/Inputs.thy ===== *)
theory Inputs
  imports GoJson
begin

section \<open>Declared inputs\<close>

text \<open>
  The package \<open>play/internal/business/inputs\<close>: how a manifest declares the inputs of a game, which
  values are valid and how a SAMPLE becomes the full snapshot. Floating point numbers are a type
  \<open>'f\<close> with the operations the code uses of them (\<open>float_ops\<close>): reading the text of a JSON number
  (nothing when it overflows), writing it in the shortest form that reads back, comparing, and zero.
  A value is what the decoder makes of its text.
\<close>

subsection \<open>Numbers\<close>

record 'f float_ops =
  fo_parse :: "string \<Rightarrow> 'f option"
  fo_print :: "'f \<Rightarrow> string"
  fo_less :: "'f \<Rightarrow> 'f \<Rightarrow> bool"
  fo_zero :: 'f

text \<open>What \<open>strconv\<close> documents of them: what is written reads back, and zero is written as 0.\<close>

definition float_ops_ok :: "'f float_ops \<Rightarrow> bool" where
  "float_ops_ok F \<longleftrightarrow> (\<forall>x. fo_parse F (fo_print F x) = Some x) \<and> fo_parse F ''0'' = Some (fo_zero F)"

subsection \<open>Declarations\<close>

definition input_boolean :: string where "input_boolean = ''boolean''"
definition input_number :: string where "input_number = ''number''"
definition input_vector2 :: string where "input_vector2 = ''vector2''"
definition input_string :: string where "input_string = ''string''"
definition input_enum :: string where "input_enum = ''enum''"

lemmas input_types = input_boolean_def input_number_def input_vector2_def input_string_def input_enum_def

definition max_inputs :: nat where "max_inputs = 32"
definition max_string_length :: nat where "max_string_length = 256"

record 'f input_declaration =
  de_name :: string
  de_type :: string
  de_nullable :: bool
  de_min :: "'f option"
  de_max :: "'f option"
  de_values :: "string list"
  de_default :: raw

datatype input_error =
    Bad_name
  | Min_exceeds_max
  | No_enum_values
  | Enum_values_repeated
  | No_enum_default
  | Unknown_type string
  | Bounds_not_number
  | Nullable_not_string
  | Values_not_enum
  | Zero_not_valid
  | Bad_default input_error
  | Invalid_value string
  | Not_an_object
  | Not_declared
  | Too_many_inputs nat
  | In_input string input_error
  | Declared_twice string

definition is_letter :: "char \<Rightarrow> bool" where
  "is_letter c = (let n = of_char c :: nat in (65 \<le> n \<and> n \<le> 90) \<or> (97 \<le> n \<and> n \<le> 122))"

definition is_name_char :: "char \<Rightarrow> bool" where
  "is_name_char c = (is_letter c \<or> digit_value c \<noteq> None \<or> c = CHR ''_'')"

definition valid_name :: "string \<Rightarrow> bool" where
  "valid_name name = (case name of [] \<Rightarrow> False | c # cs \<Rightarrow> is_letter c \<and> list_all is_name_char cs \<and> length cs \<le> 63)"

subsection \<open>Values\<close>

definition finite_number :: "'f float_ops \<Rightarrow> raw \<Rightarrow> 'f option" where
  "finite_number F v = (case v of Raw (JNum s) \<Rightarrow> fo_parse F s | Raw JNull \<Rightarrow> Some (fo_zero F) | _ \<Rightarrow> None)"

definition out_of_range :: "'f float_ops \<Rightarrow> 'f input_declaration \<Rightarrow> 'f \<Rightarrow> bool" where
  "out_of_range F d x =
     ((case de_min d of None \<Rightarrow> False | Some lo \<Rightarrow> fo_less F x lo) \<or> (case de_max d of None \<Rightarrow> False | Some hi \<Rightarrow> fo_less F hi x))"

definition canonical_value :: "'f float_ops \<Rightarrow> 'f input_declaration \<Rightarrow> raw \<Rightarrow> input_error + json" where
  "canonical_value F d v =
     (let invalid = Inl (Invalid_value (de_name d)) in
      if de_type d = input_boolean then
        (case v of Raw (JBool b) \<Rightarrow> Inr (JBool b) | Raw JNull \<Rightarrow> Inr (JBool False) | _ \<Rightarrow> invalid)
      else if de_type d = input_number then
        (case finite_number F v of None \<Rightarrow> invalid
         | Some x \<Rightarrow> if out_of_range F d x then invalid else Inr (JNum (fo_print F x)))
      else if de_type d = input_vector2 then
        (case v of Raw (JList [a, b]) \<Rightarrow>
            (case (finite_number F (Raw a), finite_number F (Raw b)) of
               (Some x, Some y) \<Rightarrow> Inr (JList [JNum (fo_print F x), JNum (fo_print F y)])
             | _ \<Rightarrow> invalid)
         | _ \<Rightarrow> invalid)
      else if de_type d = input_string then
        (case v of Raw JNull \<Rightarrow> if de_nullable d then Inr JNull else invalid
         | Raw (JStr s) \<Rightarrow> if length s > max_string_length then invalid else Inr (JStr s)
         | _ \<Rightarrow> invalid)
      else if de_type d = input_enum then
        (case (case v of Raw (JStr s) \<Rightarrow> Some s | Raw JNull \<Rightarrow> Some [] | _ \<Rightarrow> None) of
           Some s \<Rightarrow> if s \<in> set (de_values d) then Inr (JStr s) else invalid
         | None \<Rightarrow> invalid)
      else invalid)"

definition natural_zero :: "'f input_declaration \<Rightarrow> raw" where
  "natural_zero d =
     (if de_type d = input_boolean then Raw (JBool False)
      else if de_type d = input_number then Raw (JNum ''0'')
      else if de_type d = input_vector2 then Raw (JList [JNum ''0'', JNum ''0''])
      else if de_type d = input_string then (if de_nullable d then Raw JNull else Raw (JStr []))
      else Raw_empty)"

text \<open>The rules of a type: \<open>None\<close> when they hold.\<close>

definition check_type :: "'f float_ops \<Rightarrow> 'f input_declaration \<Rightarrow> input_error option" where
  "check_type F d =
     (if de_type d = input_boolean \<or> de_type d = input_vector2 \<or> de_type d = input_string then None
      else if de_type d = input_number then
        (case (de_min d, de_max d) of (Some lo, Some hi) \<Rightarrow> if fo_less F hi lo then Some Min_exceeds_max else None
         | _ \<Rightarrow> None)
      else if de_type d = input_enum then
        (if de_values d = [] then Some No_enum_values
         else if [] \<in> set (de_values d) \<or> \<not> distinct (de_values d) then Some Enum_values_repeated
         else if de_default d = Raw_empty then Some No_enum_default
         else None)
      else Some (Unknown_type (de_type d)))"

definition validate_input :: "'f float_ops \<Rightarrow> 'f input_declaration \<Rightarrow> input_error + 'f input_declaration" where
  "validate_input F d =
     (if \<not> valid_name (de_name d) then Inl Bad_name
      else case check_type F d of Some e \<Rightarrow> Inl e
      | None \<Rightarrow>
        if de_type d \<noteq> input_number \<and> (de_min d \<noteq> None \<or> de_max d \<noteq> None) then Inl Bounds_not_number
        else if de_type d \<noteq> input_string \<and> de_nullable d then Inl Nullable_not_string
        else if de_type d \<noteq> input_enum \<and> de_values d \<noteq> [] then Inl Values_not_enum
        else let declared = (de_default d \<noteq> Raw_empty);
                 default = (if declared then de_default d else natural_zero d)
             in case canonical_value F d default of
                  Inl e \<Rightarrow> Inl (if declared then Bad_default e else Zero_not_valid)
                | Inr v \<Rightarrow> Inr (d\<lparr>de_default := Raw v\<rparr>))"

subsection \<open>Schemas\<close>

record 'f schema =
  sc_declarations :: "string \<Rightarrow> 'f input_declaration option"
  sc_names :: "string list"

definition empty_schema :: "'f schema" where
  "empty_schema = \<lparr>sc_declarations = (\<lambda>_. None), sc_names = []\<rparr>"

fun add_declarations :: "'f float_ops \<Rightarrow> 'f input_declaration list \<Rightarrow> 'f schema \<Rightarrow> input_error + 'f schema" where
  "add_declarations F [] s = Inr s"
| "add_declarations F (d # ds) s =
     (case validate_input F d of Inl e \<Rightarrow> Inl (In_input (de_name d) e)
      | Inr v \<Rightarrow> if sc_declarations s (de_name v) \<noteq> None then Inl (Declared_twice (de_name v))
          else add_declarations F ds \<lparr>sc_declarations = (sc_declarations s)(de_name v \<mapsto> v), sc_names = sc_names s @ [de_name v]\<rparr>)"

definition new_schema :: "'f float_ops \<Rightarrow> 'f input_declaration list \<Rightarrow> input_error + 'f schema" where
  "new_schema F ds =
     (if length ds > max_inputs then Inl (Too_many_inputs (length ds))
      else case add_declarations F ds empty_schema of Inl e \<Rightarrow> Inl e
      | Inr s \<Rightarrow> Inr (s\<lparr>sc_names := sort (sc_names s)\<rparr>))"

definition schema_empty :: "'f schema \<Rightarrow> bool" where
  "schema_empty s = (sc_names s = [])"

definition zero_declaration :: "'f input_declaration" where
  "zero_declaration = \<lparr>de_name = [], de_type = [], de_nullable = False, de_min = None, de_max = None, de_values = [], de_default = Raw_empty\<rparr>"

text \<open>A Go map answers the zero declaration for a name it does not hold.\<close>

definition declaration_of :: "'f schema \<Rightarrow> string \<Rightarrow> 'f input_declaration" where
  "declaration_of s name = (case sc_declarations s name of Some d \<Rightarrow> d | None \<Rightarrow> zero_declaration)"

text \<open>The loop of \<open>Normalize\<close>. A default is written as it is: \<open>default_json\<close> of a text that is empty or bad is null.\<close>

definition default_json :: "raw \<Rightarrow> json" where
  "default_json r = (case r of Raw j \<Rightarrow> j | _ \<Rightarrow> JNull)"

fun normalize_fields :: "'f float_ops \<Rightarrow> 'f schema \<Rightarrow> fields \<Rightarrow> string list \<Rightarrow> input_error + fields" where
  "normalize_fields F s given [] = Inr []"
| "normalize_fields F s given (name # names) =
     (let d = declaration_of s name in
      case (case map_of given name of None \<Rightarrow> Inr (default_json (de_default d)) | Some g \<Rightarrow> canonical_value F d (Raw g)) of
        Inl e \<Rightarrow> Inl e
      | Inr v \<Rightarrow> (case normalize_fields F s given names of Inl e \<Rightarrow> Inl e | Inr fs \<Rightarrow> Inr ((name, v) # fs)))"

definition normalize :: "'f float_ops \<Rightarrow> 'f schema \<Rightarrow> raw \<Rightarrow> input_error + json" where
  "normalize F s r = (case r of
      Raw (JObj given) \<Rightarrow>
        if \<not> list_all (\<lambda>(name, _). sc_declarations s name \<noteq> None) given then Inl Not_declared
        else (case normalize_fields F s given (sc_names s) of Inl e \<Rightarrow> Inl e | Inr fs \<Rightarrow> Inr (JObj fs))
    | _ \<Rightarrow> Inl Not_an_object)"

definition schema_defaults :: "'f float_ops \<Rightarrow> 'f schema \<Rightarrow> raw" where
  "schema_defaults F s = (case normalize F s (Raw (JObj [])) of Inl e \<Rightarrow> Raw_empty | Inr j \<Rightarrow> Raw j)"

definition declarations :: "'f schema \<Rightarrow> 'f input_declaration list" where
  "declarations s = (if sc_names s = [] then [] else map (declaration_of s) (sc_names s))"

subsection \<open>Canonical values\<close>

lemma canonical_again:
  assumes "float_ops_ok F" "canonical_value F d v = Inr c"
  shows "canonical_value F d (Raw c) = Inr c"
proof -
  have p: "\<And>x. fo_parse F (fo_print F x) = Some x" using assms(1) by (simp add: float_ops_ok_def)
  consider "de_type d = input_boolean" | "de_type d = input_number" | "de_type d = input_vector2"
    | "de_type d = input_string" | "de_type d = input_enum"
    using assms(2) by (auto simp: canonical_value_def Let_def split: if_splits)
  then show ?thesis
  proof cases
    case 1
    then show ?thesis using assms(2) by (auto simp: canonical_value_def Let_def split: raw.splits json.splits)
  next
    case 2
    then have t: "\<not> de_type d = input_boolean" by (simp add: input_types)
    obtain x where "finite_number F v = Some x" "\<not> out_of_range F d x" "c = JNum (fo_print F x)"
      using assms(2) 2 t by (auto simp: canonical_value_def Let_def split: option.splits if_splits)
    then show ?thesis using 2 t p by (simp add: canonical_value_def finite_number_def)
  next
    case 3
    then have t: "\<not> de_type d = input_boolean" "\<not> de_type d = input_number" by (simp_all add: input_types)
    obtain x y where "c = JList [JNum (fo_print F x), JNum (fo_print F y)]"
      using assms(2) 3 t by (auto simp: canonical_value_def Let_def split: option.splits raw.splits json.splits list.splits)
    then show ?thesis using 3 t p by (simp add: canonical_value_def finite_number_def)
  next
    case 4
    then have t: "\<not> de_type d = input_boolean" "\<not> de_type d = input_number" "\<not> de_type d = input_vector2" by (simp_all add: input_types)
    show ?thesis using assms(2) 4 t by (auto simp: canonical_value_def Let_def split: raw.splits json.splits if_splits)
  next
    case 5
    then have t: "\<not> de_type d = input_boolean" "\<not> de_type d = input_number" "\<not> de_type d = input_vector2" "\<not> de_type d = input_string"
      by (simp_all add: input_types)
    obtain s where "c = JStr s" "s \<in> set (de_values d)"
      using assms(2) 5 t by (auto simp: canonical_value_def Let_def split: option.splits raw.splits json.splits if_splits)
    then show ?thesis using 5 t by (simp add: canonical_value_def)
  qed
qed

lemma default_update:
  "de_name (d\<lparr>de_default := x\<rparr>) = de_name d" "de_type (d\<lparr>de_default := x\<rparr>) = de_type d"
  "de_nullable (d\<lparr>de_default := x\<rparr>) = de_nullable d" "de_min (d\<lparr>de_default := x\<rparr>) = de_min d"
  "de_max (d\<lparr>de_default := x\<rparr>) = de_max d" "de_values (d\<lparr>de_default := x\<rparr>) = de_values d"
  by simp_all

lemma canonical_default_irrelevant [simp]: "canonical_value F (d\<lparr>de_default := x\<rparr>) v = canonical_value F d v"
  unfolding canonical_value_def out_of_range_def default_update by (rule refl)

lemma check_type_default: "check_type F d = None \<Longrightarrow> x \<noteq> Raw_empty \<Longrightarrow> check_type F (d\<lparr>de_default := x\<rparr>) = None"
  unfolding check_type_def default_update by (auto split: if_splits option.splits)

text \<open>A validated declaration: its default is one of its values, in the canonical encoding.\<close>

definition input_ok :: "'f float_ops \<Rightarrow> 'f input_declaration \<Rightarrow> bool" where
  "input_ok F d \<longleftrightarrow> validate_input F d = Inr d \<and> (\<exists>v. de_default d = Raw v \<and> canonical_value F d (Raw v) = Inr v)"

lemma validate_input_ok:
  assumes "float_ops_ok F" "validate_input F d = Inr d'"
  shows "input_ok F d' \<and> de_name d' = de_name d"
proof -
  let ?v = "if de_default d \<noteq> Raw_empty then de_default d else natural_zero d"
  obtain v where v: "canonical_value F d ?v = Inr v" "d' = d\<lparr>de_default := Raw v\<rparr>"
    and c: "valid_name (de_name d)" "check_type F d = None"
      "de_type d = input_number \<or> de_min d = None \<and> de_max d = None"
      "de_type d = input_string \<or> \<not> de_nullable d" "de_type d = input_enum \<or> de_values d = []"
    using assms(2) by (auto simp: validate_input_def Let_def split: if_splits option.splits sum.splits)
  have again: "canonical_value F d (Raw v) = Inr v" by (rule canonical_again[OF assms(1) v(1)])
  have "check_type F d' = None" using check_type_default[OF c(2)] v(2) by simp
  then have "validate_input F d' = Inr d'" using c again v(2) by (auto simp: validate_input_def Let_def)
  then show ?thesis using v(2) again by (simp add: input_ok_def)
qed

definition schema_ok :: "'f float_ops \<Rightarrow> 'f schema \<Rightarrow> bool" where
  "schema_ok F s \<longleftrightarrow> distinct (sc_names s) \<and> dom (sc_declarations s) = set (sc_names s)
     \<and> (\<forall>n d. sc_declarations s n = Some d \<longrightarrow> de_name d = n \<and> input_ok F d)"

lemma add_declarations_ok:
  "float_ops_ok F \<Longrightarrow> schema_ok F s \<Longrightarrow> add_declarations F ds s = Inr s' \<Longrightarrow>
   schema_ok F s' \<and> set (sc_names s') = set (sc_names s) \<union> de_name ` set ds
     \<and> length (sc_names s') = length (sc_names s) + length ds"
proof (induction ds arbitrary: s)
  case (Cons d ds)
  then obtain v where v: "validate_input F d = Inr v" "sc_declarations s (de_name v) = None"
    "add_declarations F ds \<lparr>sc_declarations = (sc_declarations s)(de_name v \<mapsto> v), sc_names = sc_names s @ [de_name v]\<rparr> = Inr s'"
    by (auto split: sum.splits if_splits)
  have ok: "input_ok F v" "de_name v = de_name d" using validate_input_ok[OF Cons.prems(1) v(1)] by auto
  have "de_name v \<notin> set (sc_names s)" using Cons.prems(2) v(2) by (auto simp: schema_ok_def)
  then have "schema_ok F \<lparr>sc_declarations = (sc_declarations s)(de_name v \<mapsto> v), sc_names = sc_names s @ [de_name v]\<rparr>"
    using Cons.prems(2) ok(1) by (auto simp: schema_ok_def)
  then show ?case using Cons.IH[OF Cons.prems(1) _ v(3)] ok(2) by auto
qed simp

lemma new_schema_ok:
  assumes "float_ops_ok F" "new_schema F ds = Inr s"
  shows "schema_ok F s" "sorted (sc_names s)" "set (sc_names s) = de_name ` set ds" "length (sc_names s) = length ds"
    "length ds \<le> max_inputs"
proof -
  obtain s0 where s0: "add_declarations F ds empty_schema = Inr s0" "s = s0\<lparr>sc_names := sort (sc_names s0)\<rparr>" "length ds \<le> max_inputs"
    using assms(2) by (auto simp: new_schema_def split: if_splits sum.splits)
  have "schema_ok F (empty_schema :: 'a schema)" by (simp add: schema_ok_def empty_schema_def)
  from add_declarations_ok[OF assms(1) this s0(1)]
  show "schema_ok F s" "sorted (sc_names s)" "set (sc_names s) = de_name ` set ds" "length (sc_names s) = length ds"
    using s0(2) by (auto simp: schema_ok_def empty_schema_def)
  show "length ds \<le> max_inputs" by (rule s0(3))
qed

subsection \<open>Snapshots\<close>

text \<open>What a snapshot holds for a name: the canonical form of what was given, or the default.\<close>

definition value_of :: "'f float_ops \<Rightarrow> 'f schema \<Rightarrow> fields \<Rightarrow> string \<Rightarrow> input_error + json" where
  "value_of F s given name = (case map_of given name of
      None \<Rightarrow> Inr (default_json (de_default (declaration_of s name)))
    | Some g \<Rightarrow> canonical_value F (declaration_of s name) (Raw g))"

lemma keys_in: "map fst fs = names \<Longrightarrow> (n, v) \<in> set fs \<Longrightarrow> n \<in> set names"
  by force

lemma normalize_fields_Inr:
  "normalize_fields F s given names = Inr fs \<longleftrightarrow>
   map fst fs = names \<and> list_all (\<lambda>(n, v). value_of F s given n = Inr v) fs"
proof (induction names arbitrary: fs)
  case (Cons n names)
  show ?case
  proof (cases "value_of F s given n")
    case (Inl e)
    then show ?thesis by (cases fs) (auto simp: value_of_def Let_def split: option.splits)
  next
    case (Inr v)
    then have "normalize_fields F s given (n # names) = (case normalize_fields F s given names of Inl e \<Rightarrow> Inl e | Inr fs \<Rightarrow> Inr ((n, v) # fs))"
      by (simp add: value_of_def Let_def split: option.splits)
    then have "normalize_fields F s given (n # names) = Inr fs \<longleftrightarrow> (\<exists>fs'. fs = (n, v) # fs' \<and> normalize_fields F s given names = Inr fs')"
      by (auto split: sum.split)
    also have "\<dots> \<longleftrightarrow> (\<exists>fs'. fs = (n, v) # fs' \<and> map fst fs' = names \<and> list_all (\<lambda>(n, v). value_of F s given n = Inr v) fs')"
      using Cons.IH by simp
    also have "\<dots> \<longleftrightarrow> map fst fs = n # names \<and> list_all (\<lambda>(n, v). value_of F s given n = Inr v) fs"
      by (cases fs) (use Inr in auto)
    finally show ?thesis .
  qed
qed auto

lemma normalize_fields_total:
  "(\<exists>fs. normalize_fields F s given names = Inr fs) \<longleftrightarrow> (\<forall>n \<in> set names. \<exists>v. value_of F s given n = Inr v)"
proof
  assume "\<forall>n \<in> set names. \<exists>v. value_of F s given n = Inr v"
  then have "normalize_fields F s given names = Inr (map (\<lambda>n. (n, projr (value_of F s given n))) names)"
    unfolding normalize_fields_Inr by (simp add: list_all_iff o_def) (metis sum.sel(2))
  then show "\<exists>fs. normalize_fields F s given names = Inr fs" by blast
next
  assume "\<exists>fs. normalize_fields F s given names = Inr fs"
  then obtain fs where "map fst fs = names" "list_all (\<lambda>(n, v). value_of F s given n = Inr v) fs"
    unfolding normalize_fields_Inr by blast
  then show "\<forall>n \<in> set names. \<exists>v. value_of F s given n = Inr v" by (fastforce simp: list_all_iff)
qed

lemma declaration_of_ok: "schema_ok F s \<Longrightarrow> n \<in> set (sc_names s) \<Longrightarrow> input_ok F (declaration_of s n) \<and> de_name (declaration_of s n) = n"
proof -
  assume s: "schema_ok F s" "n \<in> set (sc_names s)"
  then have "n \<in> dom (sc_declarations s)" by (simp add: schema_ok_def)
  then obtain d where "sc_declarations s n = Some d" by blast
  then show ?thesis using s(1) by (simp add: schema_ok_def declaration_of_def)
qed

lemma value_of_canonical:
  assumes "float_ops_ok F" "schema_ok F s" "n \<in> set (sc_names s)" "value_of F s given n = Inr v"
  shows "canonical_value F (declaration_of s n) (Raw v) = Inr v"
proof (cases "map_of given n")
  case None
  then show ?thesis using declaration_of_ok[OF assms(2,3)] assms(4) by (auto simp: input_ok_def value_of_def default_json_def)
next
  case (Some g)
  then show ?thesis using canonical_again[OF assms(1)] assms(4) by (simp add: value_of_def)
qed

lemma normalize_Inr:
  "normalize F s r = Inr j \<longleftrightarrow> (\<exists>given fs. r = Raw (JObj given) \<and> j = JObj fs
     \<and> fst ` set given \<subseteq> dom (sc_declarations s) \<and> map fst fs = sc_names s
     \<and> list_all (\<lambda>(n, v). value_of F s given n = Inr v) fs)"
proof -
  have "normalize F s (Raw (JObj given)) = Inr j \<longleftrightarrow> (\<exists>fs. j = JObj fs
     \<and> fst ` set given \<subseteq> dom (sc_declarations s) \<and> map fst fs = sc_names s
     \<and> list_all (\<lambda>(n, v). value_of F s given n = Inr v) fs)" for given
  proof -
    have "list_all (\<lambda>(name, _). sc_declarations s name \<noteq> None) given \<longleftrightarrow> fst ` set given \<subseteq> dom (sc_declarations s)"
      by (force simp: list_all_iff)
    moreover have "(case normalize_fields F s given (sc_names s) of Inl e \<Rightarrow> Inl e | Inr fs \<Rightarrow> Inr (JObj fs)) = Inr j
        \<longleftrightarrow> (\<exists>fs. j = JObj fs \<and> normalize_fields F s given (sc_names s) = Inr fs)"
      by (auto split: sum.split)
    ultimately show ?thesis by (auto simp: normalize_def normalize_fields_Inr)
  qed
  then show ?thesis by (cases r) (auto simp: normalize_def split: json.split)
qed

lemma map_of_keys: "map fst fs = names \<Longrightarrow> distinct names \<Longrightarrow> (n, v) \<in> set fs \<Longrightarrow> map_of fs n = Some v"
  by simp

lemma normalize_again:
  assumes "float_ops_ok F" "schema_ok F s" "normalize F s r = Inr j"
  shows "normalize F s (Raw j) = Inr j"
proof -
  obtain given fs where fs: "j = JObj fs" "map fst fs = sc_names s" "list_all (\<lambda>(n, v). value_of F s given n = Inr v) fs"
    using assms(3) unfolding normalize_Inr by blast
  have d: "distinct (sc_names s)" "dom (sc_declarations s) = set (sc_names s)" using assms(2) by (auto simp: schema_ok_def)
  have "value_of F s fs n = Inr v" if "(n, v) \<in> set fs" for n v
  proof -
    have "n \<in> set (sc_names s)" by (rule keys_in[OF fs(2) that])
    moreover have "value_of F s given n = Inr v" using fs(3) that by (auto simp: list_all_iff)
    ultimately show ?thesis
      using value_of_canonical[OF assms(1,2)] map_of_keys[OF fs(2) d(1) that] by (simp add: value_of_def)
  qed
  moreover have "fst ` set fs \<subseteq> dom (sc_declarations s)" using fs(2) d(2) by (metis list.set_map subset_refl)
  ultimately have "normalize F s (Raw (JObj fs)) = Inr (JObj fs)"
    unfolding normalize_Inr using fs(2) by (auto simp: list_all_iff)
  then show ?thesis by (simp add: fs(1))
qed

text \<open>
  C31: a snapshot is full and canonical: for a validated schema, what \<open>Normalize\<close> gives holds every
  declared input, and nothing else, once each in the order of names; an input that was sent holds the
  canonical form of its value and the others their default; and normalizing a snapshot again gives
  the same snapshot.
\<close>

theorem normalize_full:
  assumes "float_ops_ok F" "new_schema F ds = Inr s" "normalize F s (Raw (JObj given)) = Inr snapshot"
  shows "\<exists>fs. snapshot = JObj fs \<and> map fst fs = sc_names s
    \<and> sorted (map fst fs) \<and> distinct (map fst fs) \<and> set (map fst fs) = de_name ` set ds
    \<and> (\<forall>(n, v) \<in> set fs. case map_of given n of
        Some g \<Rightarrow> canonical_value F (declaration_of s n) (Raw g) = Inr v
      | None \<Rightarrow> de_default (declaration_of s n) = Raw v)
    \<and> normalize F s (Raw snapshot) = Inr snapshot"
proof -
  note ok = new_schema_ok[OF assms(1,2)]
  obtain fs where fs: "snapshot = JObj fs" "map fst fs = sc_names s" "list_all (\<lambda>(n, v). value_of F s given n = Inr v) fs"
    using assms(3) unfolding normalize_Inr by blast
  have "case map_of given n of Some g \<Rightarrow> canonical_value F (declaration_of s n) (Raw g) = Inr v
      | None \<Rightarrow> de_default (declaration_of s n) = Raw v" if "(n, v) \<in> set fs" for n v
  proof -
    have "n \<in> set (sc_names s)" by (rule keys_in[OF fs(2) that])
    then have "input_ok F (declaration_of s n)" using declaration_of_ok[OF ok(1)] by blast
    then show ?thesis using fs(3) that
      by (auto simp: list_all_iff value_of_def input_ok_def default_json_def split: option.splits)
  qed
  then have vals: "\<forall>(n, v) \<in> set fs. case map_of given n of
        Some g \<Rightarrow> canonical_value F (declaration_of s n) (Raw g) = Inr v
      | None \<Rightarrow> de_default (declaration_of s n) = Raw v" by blast
  have keys: "sorted (map fst fs) \<and> distinct (map fst fs) \<and> set (map fst fs) = de_name ` set ds"
    unfolding fs(2) using ok by (simp add: schema_ok_def)
  show ?thesis
    by (intro exI[of _ fs] conjI fs(1,2) vals normalize_again[OF assms(1) ok(1) assms(3)]) (use keys in blast)+
qed

text \<open>An instance of the numbers, for the witnesses: integers written in decimal.\<close>

definition whole_numbers :: "int float_ops" where
  "whole_numbers = \<lparr>fo_parse = atoi, fo_print = int_text, fo_less = (<), fo_zero = 0\<rparr>"

lemma whole_numbers_ok: "float_ops_ok whole_numbers"
proof -
  have "atoi ''0'' = Some 0" by code_simp
  then show ?thesis by (simp add: float_ops_ok_def whole_numbers_def)
qed

definition sample_inputs :: "int input_declaration list" where
  "sample_inputs =
     [zero_declaration\<lparr>de_name := ''move'', de_type := input_vector2\<rparr>,
      zero_declaration\<lparr>de_name := ''fire'', de_type := input_boolean\<rparr>]"

definition sample_schema :: "int schema" where
  "sample_schema = (case new_schema whole_numbers sample_inputs of Inr s \<Rightarrow> s | Inl e \<Rightarrow> empty_schema)"

lemma sample_schema: "new_schema whole_numbers sample_inputs = Inr sample_schema"
proof -
  have "(case new_schema whole_numbers sample_inputs of Inr s \<Rightarrow> True | Inl e \<Rightarrow> False)" by code_simp
  then show ?thesis by (auto simp: sample_schema_def split: sum.splits)
qed

theorem normalize_full_witness:
  "\<exists>fs. normalize whole_numbers sample_schema (Raw (JObj [(''fire'', JBool True)])) = Inr (JObj fs)
    \<and> map fst fs = sc_names sample_schema \<and> (''fire'', JBool True) \<in> set fs
    \<and> normalize whole_numbers sample_schema (Raw (JObj fs)) = Inr (JObj fs)"
proof -
  let ?snap = "JObj [(''fire'', JBool True), (''move'', JList [JNum ''0'', JNum ''0''])]"
  have "normalize whole_numbers sample_schema (Raw (JObj [(''fire'', JBool True)])) = Inr ?snap" by code_simp
  from normalize_full[OF whole_numbers_ok sample_schema this] this show ?thesis by auto
qed

text \<open>
  C32: which SAMPLEs are accepted: exactly the JSON objects whose names are all declared and whose
  values each fit their declaration. In particular the defaults of a validated schema always exist.
\<close>

theorem normalize_accepts:
  assumes "float_ops_ok F" "new_schema F ds = Inr s"
  shows "((\<exists>snapshot. normalize F s r = Inr snapshot) \<longleftrightarrow>
      (\<exists>given. r = Raw (JObj given) \<and> fst ` set given \<subseteq> de_name ` set ds
        \<and> (\<forall>n g. map_of given n = Some g \<longrightarrow> (\<exists>v. canonical_value F (declaration_of s n) (Raw g) = Inr v))))
    \<and> schema_defaults F s \<noteq> Raw_empty"
proof -
  note ok = new_schema_ok[OF assms]
  have dom: "dom (sc_declarations s) = set (sc_names s)" using ok(1) by (simp add: schema_ok_def)
  have acc: "(\<exists>j. normalize F s (Raw (JObj given)) = Inr j) \<longleftrightarrow>
      fst ` set given \<subseteq> set (sc_names s) \<and> (\<forall>n \<in> set (sc_names s). \<exists>v. value_of F s given n = Inr v)" for given
    unfolding normalize_fields_total[symmetric] normalize_fields_Inr normalize_Inr dom by auto
  have val: "(\<forall>n \<in> set (sc_names s). \<exists>v. value_of F s given n = Inr v) \<longleftrightarrow>
      (\<forall>n g. map_of given n = Some g \<longrightarrow> (\<exists>v. canonical_value F (declaration_of s n) (Raw g) = Inr v))"
    if "fst ` set given \<subseteq> set (sc_names s)" for given
  proof -
    have "n \<in> set (sc_names s)" if "map_of given n = Some g" for n g
      using map_of_SomeD[OF that] \<open>fst ` set given \<subseteq> set (sc_names s)\<close> by force
    then show ?thesis by (fastforce simp: value_of_def split: option.splits)
  qed
  have obj: "(\<exists>given. r = Raw (JObj given))" if "normalize F s r = Inr j" for j
    using that unfolding normalize_Inr by blast
  have "(\<exists>snapshot. normalize F s r = Inr snapshot) \<longleftrightarrow>
      (\<exists>given. r = Raw (JObj given) \<and> fst ` set given \<subseteq> set (sc_names s)
        \<and> (\<forall>n g. map_of given n = Some g \<longrightarrow> (\<exists>v. canonical_value F (declaration_of s n) (Raw g) = Inr v)))"
    using acc val obj by metis
  moreover have "\<exists>j. normalize F s (Raw (JObj [])) = Inr j" unfolding acc by (simp add: value_of_def)
  ultimately show ?thesis using ok(3) by (auto simp: schema_defaults_def)
qed

theorem normalize_accepts_witness:
  "\<not> (\<exists>snapshot. normalize whole_numbers sample_schema (Raw (JObj [(''jump'', JBool True)])) = Inr snapshot)
   \<and> schema_defaults whole_numbers sample_schema \<noteq> Raw_empty"
  using normalize_accepts[OF whole_numbers_ok sample_schema, of "Raw (JObj [(''jump'', JBool True)])"]
  by (auto simp: sample_inputs_def)

end
