(* ===== verification/GameManifest.thy ===== *)
theory GameManifest
  imports Inputs
begin

section \<open>Commands and manifests\<close>

text \<open>
  The packages \<open>play/internal/business/commands\<close> (the COMMANDs a game declares and the full payload a
  request becomes), \<open>play/session/internal/business/manifest\<close> (the stored manifest of a game version)
  and \<open>play/runtime/internal/business/gamemanifest\<close> (the rules the Runtime compiles it into). The
  objects of a stored manifest are read in the order of their names; Go reads them in any order, which
  can only change which of several errors is reported.
\<close>

subsection \<open>Commands\<close>

definition max_commands :: nat where "max_commands = 64"

record 'f command_declaration =
  cd_name :: string
  cd_payload :: "'f input_declaration list"

datatype command_error =
    Too_many_commands nat
  | Bad_command_name string
  | Command_twice string
  | In_payload string input_error
  | Undeclared_command string
  | Payload_value input_error

record 'f catalog =
  ct_payloads :: "string \<Rightarrow> 'f schema option"
  ct_names :: "string list"

definition empty_catalog :: "'f catalog" where
  "empty_catalog = \<lparr>ct_payloads = (\<lambda>_. None), ct_names = []\<rparr>"

fun add_commands :: "'f float_ops \<Rightarrow> 'f command_declaration list \<Rightarrow> 'f catalog \<Rightarrow> command_error + 'f catalog" where
  "add_commands F [] c = Inr c"
| "add_commands F (d # ds) c =
     (if \<not> valid_name (cd_name d) then Inl (Bad_command_name (cd_name d))
      else if ct_payloads c (cd_name d) \<noteq> None then Inl (Command_twice (cd_name d))
      else case new_schema F (cd_payload d) of Inl e \<Rightarrow> Inl (In_payload (cd_name d) e)
      | Inr s \<Rightarrow> add_commands F ds \<lparr>ct_payloads = (ct_payloads c)(cd_name d \<mapsto> s), ct_names = ct_names c @ [cd_name d]\<rparr>)"

definition new_catalog :: "'f float_ops \<Rightarrow> 'f command_declaration list \<Rightarrow> command_error + 'f catalog" where
  "new_catalog F ds =
     (if length ds > max_commands then Inl (Too_many_commands (length ds))
      else case add_commands F ds empty_catalog of Inl e \<Rightarrow> Inl e
      | Inr c \<Rightarrow> Inr (c\<lparr>ct_names := sort (ct_names c)\<rparr>))"

text \<open>A payload that is \<open>nil\<close> is \<open>Raw_empty\<close>.\<close>

definition normalize_command :: "'f float_ops \<Rightarrow> 'f catalog \<Rightarrow> string \<Rightarrow> raw \<Rightarrow> command_error + json" where
  "normalize_command F c name payload =
     (case ct_payloads c name of None \<Rightarrow> Inl (Undeclared_command name)
      | Some s \<Rightarrow> (case normalize F s (if payload = Raw_empty then Raw (JObj []) else payload) of
          Inl e \<Rightarrow> Inl (Payload_value e) | Inr j \<Rightarrow> Inr j))"

definition payload_of :: "'f catalog \<Rightarrow> string \<Rightarrow> 'f schema" where
  "payload_of c name = (case ct_payloads c name of Some s \<Rightarrow> s | None \<Rightarrow> empty_schema)"

definition command_declarations :: "'f catalog \<Rightarrow> 'f command_declaration list" where
  "command_declarations c = (if ct_names c = [] then []
     else map (\<lambda>name. \<lparr>cd_name = name, cd_payload = declarations (payload_of c name)\<rparr>) (ct_names c))"

subsection \<open>The runtime's manifest\<close>

record 'f runtime_input =
  ri_name :: string
  ri_type :: string
  ri_nullable :: bool
  ri_min :: "'f option"
  ri_max :: "'f option"
  ri_values :: "string list"
  ri_default :: raw

record 'f runtime_command =
  rcm_name :: string
  rcm_payload :: "'f runtime_input list"

record 'f runtime_manifest =
  rm_min_players :: int
  rm_max_players :: int
  rm_inputs :: "'f runtime_input list"
  rm_commands :: "'f runtime_command list"
  rm_update :: bool
  rm_rejoin :: bool

record 'f rules =
  ru_min_players :: int
  ru_max_players :: int
  ru_inputs :: "'f schema"
  ru_commands :: "'f catalog"
  ru_update :: bool
  ru_rejoin :: bool

datatype compile_error = Compile_inputs input_error | Compile_commands command_error

definition inputs_of :: "'f runtime_input list \<Rightarrow> 'f input_declaration list" where
  "inputs_of = map (\<lambda>i. \<lparr>de_name = ri_name i, de_type = ri_type i, de_nullable = ri_nullable i, de_min = ri_min i,
     de_max = ri_max i, de_values = ri_values i, de_default = ri_default i\<rparr>)"

definition compile_manifest :: "'f float_ops \<Rightarrow> 'f runtime_manifest \<Rightarrow> compile_error + 'f rules" where
  "compile_manifest F m =
     (case new_schema F (inputs_of (rm_inputs m)) of Inl e \<Rightarrow> Inl (Compile_inputs e)
      | Inr s \<Rightarrow> (case new_catalog F (map (\<lambda>c. \<lparr>cd_name = rcm_name c, cd_payload = inputs_of (rcm_payload c)\<rparr>) (rm_commands m)) of
          Inl e \<Rightarrow> Inl (Compile_commands e)
        | Inr c \<Rightarrow> Inr \<lparr>ru_min_players = rm_min_players m, ru_max_players = rm_max_players m, ru_inputs = s,
                       ru_commands = c, ru_update = rm_update m, ru_rejoin = rm_rejoin m\<rparr>))"

subsection \<open>The stored manifest\<close>

definition manifest_schema_version :: int where "manifest_schema_version = 1"
definition entrypoint_update :: string where "entrypoint_update = ''update''"
definition entrypoint_player_rejoined :: string where "entrypoint_player_rejoined = ''playerRejoined''"

record 'f manifest =
  ma_min_players :: int
  ma_max_players :: int
  ma_inputs :: "'f input_declaration list"
  ma_commands :: "'f command_declaration list"
  ma_update :: bool
  ma_rejoin :: bool

datatype manifest_error =
    Manifest_undecodable
  | Wrong_schema int
  | No_players
  | Bad_players int int
  | Bad_inputs input_error
  | Bad_commands command_error
  | Unknown_entrypoint string
  | Entrypoint_twice string

definition float_of_field :: "'f float_ops \<Rightarrow> string \<Rightarrow> fields \<Rightarrow> manifest_error + 'f option" where
  "float_of_field F k m = (case map_of m k of None \<Rightarrow> Inr None | Some JNull \<Rightarrow> Inr None
     | Some (JNum s) \<Rightarrow> (case fo_parse F s of None \<Rightarrow> Inl Manifest_undecodable | Some x \<Rightarrow> Inr (Some x))
     | Some _ \<Rightarrow> Inl Manifest_undecodable)"

text \<open>One entry of a map of input declarations: its name and its decoded document.\<close>

definition input_document :: "'f float_ops \<Rightarrow> string \<Rightarrow> fields \<Rightarrow> manifest_error + 'f input_declaration" where
  "input_document F name m =
     (case str_of_field Manifest_undecodable ''type'' m of Inl e \<Rightarrow> Inl e
      | Inr ty \<Rightarrow> (case bool_of_field Manifest_undecodable ''nullable'' m of Inl e \<Rightarrow> Inl e
      | Inr nu \<Rightarrow> (case float_of_field F ''min'' m of Inl e \<Rightarrow> Inl e
      | Inr lo \<Rightarrow> (case float_of_field F ''max'' m of Inl e \<Rightarrow> Inl e
      | Inr hi \<Rightarrow> (case strings_of_field Manifest_undecodable ''values'' m of Inl e \<Rightarrow> Inl e
      | Inr vs \<Rightarrow> Inr \<lparr>de_name = name, de_type = ty, de_nullable = nu, de_min = lo, de_max = hi,
                    de_values = (case vs of None \<Rightarrow> [] | Some xs \<Rightarrow> xs), de_default = raw_of_field ''default'' m\<rparr>)))))"

fun input_documents :: "'f float_ops \<Rightarrow> fields \<Rightarrow> manifest_error + 'f input_declaration list" where
  "input_documents F [] = Inr []"
| "input_documents F ((name, j) # m) =
     (case (case j of JObj d \<Rightarrow> input_document F name d | JNull \<Rightarrow> input_document F name [] | _ \<Rightarrow> Inl Manifest_undecodable) of
        Inl e \<Rightarrow> Inl e
      | Inr d \<Rightarrow> (case input_documents F m of Inl e \<Rightarrow> Inl e | Inr ds \<Rightarrow> Inr (d # ds)))"

definition inputs_of_field :: "'f float_ops \<Rightarrow> string \<Rightarrow> fields \<Rightarrow> manifest_error + 'f input_declaration list" where
  "inputs_of_field F k m = (case map_of m k of None \<Rightarrow> Inr [] | Some JNull \<Rightarrow> Inr []
     | Some (JObj ds) \<Rightarrow> input_documents F ds | Some _ \<Rightarrow> Inl Manifest_undecodable)"

fun command_documents :: "'f float_ops \<Rightarrow> fields \<Rightarrow> manifest_error + 'f command_declaration list" where
  "command_documents F [] = Inr []"
| "command_documents F ((name, j) # m) =
     (case (case j of JObj d \<Rightarrow> inputs_of_field F ''payload'' d | JNull \<Rightarrow> Inr [] | _ \<Rightarrow> Inl Manifest_undecodable) of
        Inl e \<Rightarrow> Inl e
      | Inr p \<Rightarrow> (case command_documents F m of Inl e \<Rightarrow> Inl e | Inr ds \<Rightarrow> Inr (\<lparr>cd_name = name, cd_payload = p\<rparr> # ds)))"

definition commands_of_field :: "'f float_ops \<Rightarrow> string \<Rightarrow> fields \<Rightarrow> manifest_error + 'f command_declaration list" where
  "commands_of_field F k m = (case map_of m k of None \<Rightarrow> Inr [] | Some JNull \<Rightarrow> Inr []
     | Some (JObj ds) \<Rightarrow> command_documents F ds | Some _ \<Rightarrow> Inl Manifest_undecodable)"

definition players_of_field :: "string \<Rightarrow> fields \<Rightarrow> manifest_error + (int \<times> int) option" where
  "players_of_field k m = (case map_of m k of None \<Rightarrow> Inr None | Some JNull \<Rightarrow> Inr None
     | Some (JObj p) \<Rightarrow> (case int64_of_field Manifest_undecodable ''min'' p of Inl e \<Rightarrow> Inl e
         | Inr lo \<Rightarrow> (case int64_of_field Manifest_undecodable ''max'' p of Inl e \<Rightarrow> Inl e | Inr hi \<Rightarrow> Inr (Some (lo, hi))))
     | Some _ \<Rightarrow> Inl Manifest_undecodable)"

record 'f manifest_document =
  md_version :: int
  md_players :: "(int \<times> int) option"
  md_inputs :: "'f input_declaration list"
  md_commands :: "'f command_declaration list"
  md_entrypoints :: "string list"

definition manifest_document :: "'f float_ops \<Rightarrow> fields \<Rightarrow> manifest_error + 'f manifest_document" where
  "manifest_document F m =
     (case int64_of_field Manifest_undecodable ''schema_version'' m of Inl e \<Rightarrow> Inl e
      | Inr v \<Rightarrow> (case players_of_field ''players'' m of Inl e \<Rightarrow> Inl e
      | Inr ps \<Rightarrow> (case inputs_of_field F ''inputs'' m of Inl e \<Rightarrow> Inl e
      | Inr is \<Rightarrow> (case commands_of_field F ''commands'' m of Inl e \<Rightarrow> Inl e
      | Inr cs \<Rightarrow> (case strings_of_field Manifest_undecodable ''entrypoints'' m of Inl e \<Rightarrow> Inl e
      | Inr es \<Rightarrow> Inr \<lparr>md_version = v, md_players = ps, md_inputs = is, md_commands = cs,
                     md_entrypoints = (case es of None \<Rightarrow> [] | Some xs \<Rightarrow> xs)\<rparr>)))))"

text \<open>The entrypoints declared so far: \<open>update\<close> and \<open>playerRejoined\<close>.\<close>

fun entrypoints :: "string list \<Rightarrow> bool \<times> bool \<Rightarrow> manifest_error + bool \<times> bool" where
  "entrypoints [] declared = Inr declared"
| "entrypoints (e # es) (upd, rejoin) =
     (if e = entrypoint_update then (if upd then Inl (Entrypoint_twice e) else entrypoints es (True, rejoin))
      else if e = entrypoint_player_rejoined then (if rejoin then Inl (Entrypoint_twice e) else entrypoints es (upd, True))
      else Inl (Unknown_entrypoint e))"

definition check_manifest :: "'f float_ops \<Rightarrow> 'f manifest_document \<Rightarrow> manifest_error + 'f manifest" where
  "check_manifest F d =
     (if md_version d \<noteq> manifest_schema_version then Inl (Wrong_schema (md_version d))
      else case md_players d of None \<Rightarrow> Inl No_players
      | Some (lo, hi) \<Rightarrow>
        if lo < 1 \<or> hi < lo then Inl (Bad_players lo hi)
        else case new_schema F (md_inputs d) of Inl e \<Rightarrow> Inl (Bad_inputs e)
        | Inr s \<Rightarrow> (case new_catalog F (md_commands d) of Inl e \<Rightarrow> Inl (Bad_commands e)
        | Inr c \<Rightarrow> (case entrypoints (md_entrypoints d) (False, False) of Inl e \<Rightarrow> Inl e
        | Inr (upd, rejoin) \<Rightarrow> Inr \<lparr>ma_min_players = lo, ma_max_players = hi, ma_inputs = declarations s,
              ma_commands = command_declarations c, ma_update = upd, ma_rejoin = rejoin\<rparr>)))"

definition parse_manifest :: "'f float_ops \<Rightarrow> raw \<Rightarrow> manifest_error + 'f manifest" where
  "parse_manifest F r =
     (case (case r of Raw (JObj m) \<Rightarrow> manifest_document F m | Raw JNull \<Rightarrow> manifest_document F [] | _ \<Rightarrow> Inl Manifest_undecodable) of
        Inl e \<Rightarrow> Inl e | Inr d \<Rightarrow> check_manifest F d)"

definition runtime_inputs :: "'f input_declaration list \<Rightarrow> 'f runtime_input list" where
  "runtime_inputs = map (\<lambda>d. \<lparr>ri_name = de_name d, ri_type = de_type d, ri_nullable = de_nullable d, ri_min = de_min d,
     ri_max = de_max d, ri_values = de_values d, ri_default = de_default d\<rparr>)"

definition runtime_of :: "'f manifest \<Rightarrow> 'f runtime_manifest" where
  "runtime_of m = \<lparr>rm_min_players = ma_min_players m, rm_max_players = ma_max_players m,
     rm_inputs = runtime_inputs (ma_inputs m),
     rm_commands = map (\<lambda>c. \<lparr>rcm_name = cd_name c, rcm_payload = runtime_inputs (cd_payload c)\<rparr>) (ma_commands m),
     rm_update = ma_update m, rm_rejoin = ma_rejoin m\<rparr>"

lemma inputs_of_runtime [simp]: "inputs_of (runtime_inputs ds) = ds"
proof (induction ds)
  case (Cons d ds)
  then show ?case by (cases d) (simp add: inputs_of_def runtime_inputs_def)
qed (simp add: inputs_of_def runtime_inputs_def)

subsection \<open>Validated declarations are valid\<close>

lemma restrict_map_dom_self: "m |` dom m = m"
  by (auto simp: restrict_map_def fun_eq_iff dom_def)

lemma dom_fun_upd_Some: "dom (m(k \<mapsto> v)) = insert k (dom m)"
  by simp

lemma add_validated:
  "list_all (input_ok F) ds \<Longrightarrow> distinct (map de_name ds) \<Longrightarrow> de_name ` set ds \<inter> dom (sc_declarations s) = {} \<Longrightarrow>
   add_declarations F ds s = Inr \<lparr>sc_declarations = sc_declarations s ++ map_of (map (\<lambda>d. (de_name d, d)) ds),
     sc_names = sc_names s @ map de_name ds\<rparr>"
proof (induction ds arbitrary: s)
  case (Cons d ds)
  let ?s = "\<lparr>sc_declarations = (sc_declarations s)(de_name d \<mapsto> d), sc_names = sc_names s @ [de_name d]\<rparr>"
  have v: "validate_input F d = Inr d" using Cons.prems(1) by (simp add: input_ok_def)
  have n: "sc_declarations s (de_name d) = None" using Cons.prems(3) by auto
  have "add_declarations F ds ?s = Inr \<lparr>sc_declarations = sc_declarations ?s ++ map_of (map (\<lambda>d. (de_name d, d)) ds),
     sc_names = sc_names ?s @ map de_name ds\<rparr>"
    by (rule Cons.IH) (use Cons.prems in \<open>simp_all del: fun_upd_apply add: dom_fun_upd_Some\<close>)
  moreover have "de_name d \<notin> dom (map_of (map (\<lambda>d. (de_name d, d)) ds))"
    using Cons.prems(2) by (auto simp: dom_map_of_conv_image_fst image_image)
  ultimately show ?case using v n by (simp add: map_add_upd_left del: fun_upd_apply)
qed simp

lemma new_schema_declarations:
  assumes "schema_ok F s" "sorted (sc_names s)" "length (sc_names s) \<le> max_inputs"
  shows "new_schema F (declarations s) = Inr s"
proof -
  let ?ds = "map (declaration_of s) (sc_names s)"
  have ok: "\<forall>n \<in> set (sc_names s). input_ok F (declaration_of s n) \<and> de_name (declaration_of s n) = n"
    using declaration_of_ok[OF assms(1)] by blast
  then have names: "map de_name ?ds = sc_names s" by (simp add: map_idI)
  have "list_all (input_ok F) ?ds" "distinct (map de_name ?ds)"
    using ok assms(1) names by (auto simp: list_all_iff schema_ok_def)
  from add_validated[OF this, of empty_schema]
  have add: "add_declarations F ?ds empty_schema = Inr \<lparr>sc_declarations = map_of (map (\<lambda>d. (de_name d, d)) ?ds), sc_names = map de_name ?ds\<rparr>"
    by (simp add: empty_schema_def)
  have eq: "map (\<lambda>d. (de_name d, d)) ?ds = map (\<lambda>n. (n, declaration_of s n)) (sc_names s)" using ok by simp
  have "map_of (map (\<lambda>n. (n, declaration_of s n)) (sc_names s)) = sc_declarations s"
  proof
    fix n
    show "map_of (map (\<lambda>n. (n, declaration_of s n)) (sc_names s)) n = sc_declarations s n"
    proof (cases "n \<in> set (sc_names s)")
      case True
      then have "n \<in> dom (sc_declarations s)" using assms(1) by (simp add: schema_ok_def)
      then show ?thesis using True by (auto simp: map_of_map_restrict declaration_of_def)
    next
      case False
      then have "n \<notin> dom (sc_declarations s)" using assms(1) by (simp add: schema_ok_def)
      then have "sc_declarations s n = None" by (simp add: domIff)
      then show ?thesis using False by (simp add: map_of_map_restrict restrict_map_def)
    qed
  qed
  then have "add_declarations F ?ds empty_schema = Inr \<lparr>sc_declarations = sc_declarations s, sc_names = sc_names s\<rparr>"
    using add unfolding eq names by simp
  then have "add_declarations F ?ds empty_schema = Inr s" by simp
  moreover have "declarations s = ?ds" by (simp add: declarations_def)
  ultimately show ?thesis using assms(2,3) by (simp add: new_schema_def sorted_sort_id)
qed

definition catalog_ok :: "'f float_ops \<Rightarrow> 'f catalog \<Rightarrow> bool" where
  "catalog_ok F c \<longleftrightarrow> distinct (ct_names c) \<and> dom (ct_payloads c) = set (ct_names c)
     \<and> (\<forall>n s. ct_payloads c n = Some s \<longrightarrow> valid_name n \<and> schema_ok F s \<and> sorted (sc_names s) \<and> length (sc_names s) \<le> max_inputs)"

lemma add_commands_ok:
  "float_ops_ok F \<Longrightarrow> catalog_ok F c \<Longrightarrow> add_commands F ds c = Inr c' \<Longrightarrow>
   catalog_ok F c' \<and> set (ct_names c') = set (ct_names c) \<union> cd_name ` set ds \<and> length (ct_names c') = length (ct_names c) + length ds"
proof (induction ds arbitrary: c)
  case (Cons d ds)
  then obtain s where s: "valid_name (cd_name d)" "ct_payloads c (cd_name d) = None" "new_schema F (cd_payload d) = Inr s"
    "add_commands F ds \<lparr>ct_payloads = (ct_payloads c)(cd_name d \<mapsto> s), ct_names = ct_names c @ [cd_name d]\<rparr> = Inr c'"
    by (auto split: sum.splits if_splits)
  have "cd_name d \<notin> set (ct_names c)" using Cons.prems(2) s(2) by (auto simp: catalog_ok_def)
  then have "catalog_ok F \<lparr>ct_payloads = (ct_payloads c)(cd_name d \<mapsto> s), ct_names = ct_names c @ [cd_name d]\<rparr>"
    using Cons.prems(2) s(1) new_schema_ok[OF Cons.prems(1) s(3)] by (auto simp: catalog_ok_def)
  then show ?case using Cons.IH[OF Cons.prems(1) _ s(4)] by auto
qed simp

lemma new_catalog_ok:
  assumes "float_ops_ok F" "new_catalog F ds = Inr c"
  shows "catalog_ok F c" "sorted (ct_names c)" "set (ct_names c) = cd_name ` set ds" "length (ct_names c) \<le> max_commands"
proof -
  obtain c0 where c0: "add_commands F ds empty_catalog = Inr c0" "c = c0\<lparr>ct_names := sort (ct_names c0)\<rparr>" "length ds \<le> max_commands"
    using assms(2) by (auto simp: new_catalog_def split: if_splits sum.splits)
  have "catalog_ok F (empty_catalog :: 'a catalog)" by (simp add: catalog_ok_def empty_catalog_def)
  from add_commands_ok[OF assms(1) this c0(1)]
  show "catalog_ok F c" "sorted (ct_names c)" "set (ct_names c) = cd_name ` set ds" "length (ct_names c) \<le> max_commands"
    using c0(2,3) by (auto simp: catalog_ok_def empty_catalog_def)
qed

lemma add_commands_again:
  "catalog_ok F c \<Longrightarrow> set ns \<subseteq> set (ct_names c) \<Longrightarrow> distinct ns \<Longrightarrow> set ns \<inter> dom (ct_payloads c0) = {} \<Longrightarrow>
   add_commands F (map (\<lambda>n. \<lparr>cd_name = n, cd_payload = declarations (payload_of c n)\<rparr>) ns) c0
     = Inr \<lparr>ct_payloads = ct_payloads c0 ++ (ct_payloads c |` set ns), ct_names = ct_names c0 @ ns\<rparr>"
proof (induction ns arbitrary: c0)
  case (Cons n ns)
  have "n \<in> dom (ct_payloads c)" using Cons.prems(1,2) by (auto simp: catalog_ok_def)
  then obtain s where s: "ct_payloads c n = Some s" by blast
  then have ok: "valid_name n" "new_schema F (declarations s) = Inr s"
    using Cons.prems(1) by (auto simp: catalog_ok_def intro!: new_schema_declarations)
  have c0: "ct_payloads c0 n = None" using Cons.prems(4) by auto
  let ?c = "\<lparr>ct_payloads = (ct_payloads c0)(n \<mapsto> s), ct_names = ct_names c0 @ [n]\<rparr>"
  have "add_commands F (map (\<lambda>n. \<lparr>cd_name = n, cd_payload = declarations (payload_of c n)\<rparr>) ns) ?c
     = Inr \<lparr>ct_payloads = ct_payloads ?c ++ (ct_payloads c |` set ns), ct_names = ct_names ?c @ ns\<rparr>"
    by (rule Cons.IH) (use Cons.prems in \<open>simp_all del: fun_upd_apply add: dom_fun_upd_Some\<close>)
  moreover have "(ct_payloads c0)(n \<mapsto> s) ++ (ct_payloads c |` set ns) = ct_payloads c0 ++ (ct_payloads c |` insert n (set ns))"
    using s Cons.prems(3) by (auto simp: fun_eq_iff map_add_def restrict_map_def split: option.split)
  ultimately show ?case using ok c0 s by (simp add: payload_of_def)
qed (simp add: restrict_map_def map_add_def)

lemma new_catalog_declarations:
  assumes "catalog_ok F c" "sorted (ct_names c)" "length (ct_names c) \<le> max_commands"
  shows "new_catalog F (command_declarations c) = Inr c"
proof -
  have "command_declarations c = map (\<lambda>n. \<lparr>cd_name = n, cd_payload = declarations (payload_of c n)\<rparr>) (ct_names c)"
    by (simp add: command_declarations_def)
  moreover have "add_commands F (map (\<lambda>n. \<lparr>cd_name = n, cd_payload = declarations (payload_of c n)\<rparr>) (ct_names c)) empty_catalog
     = Inr \<lparr>ct_payloads = ct_payloads c |` set (ct_names c), ct_names = ct_names c\<rparr>"
    using add_commands_again[OF assms(1), of "ct_names c" empty_catalog] assms(1) by (simp add: catalog_ok_def empty_catalog_def)
  moreover have "ct_payloads c |` set (ct_names c) = ct_payloads c"
  proof -
    have d: "dom (ct_payloads c) = set (ct_names c)" using assms(1) by (simp add: catalog_ok_def)
    show ?thesis unfolding d[symmetric] by (rule restrict_map_dom_self)
  qed
  ultimately show ?thesis using assms(2,3) by (simp add: new_catalog_def empty_catalog_def sorted_sort_id)
qed

subsection \<open>Properties\<close>

text \<open>
  C33: a manifest that was accepted always compiles: what \<open>Parse\<close> accepts, handed to the Runtime, is
  compiled without an error into rules with the same players, entrypoints and, defaults filled in,
  the very same inputs and commands; and it satisfies 1 <= min <= max.
\<close>

theorem manifest_compiles:
  assumes "float_ops_ok F" "parse_manifest F r = Inr m"
  shows "\<exists>rules. compile_manifest F (runtime_of m) = Inr rules
    \<and> declarations (ru_inputs rules) = ma_inputs m \<and> command_declarations (ru_commands rules) = ma_commands m
    \<and> ru_min_players rules = ma_min_players m \<and> ru_max_players rules = ma_max_players m
    \<and> ru_update rules = ma_update m \<and> ru_rejoin rules = ma_rejoin m
    \<and> 1 \<le> ru_min_players rules \<and> ru_min_players rules \<le> ru_max_players rules"
proof -
  obtain d where d: "check_manifest F d = Inr m" using assms(2) by (auto simp: parse_manifest_def split: sum.splits)
  obtain lo hi s c upd rejoin where p: "1 \<le> lo" "lo \<le> hi" "new_schema F (md_inputs d) = Inr s" "new_catalog F (md_commands d) = Inr c"
    "m = \<lparr>ma_min_players = lo, ma_max_players = hi, ma_inputs = declarations s,
              ma_commands = command_declarations c, ma_update = upd, ma_rejoin = rejoin\<rparr>"
    using d by (auto simp: check_manifest_def split: if_splits option.splits sum.splits)
  note S = new_schema_ok[OF assms(1) p(3)]
  note C = new_catalog_ok[OF assms(1) p(4)]
  have "new_schema F (declarations s) = Inr s" by (rule new_schema_declarations) (use S in simp_all)
  moreover have "new_catalog F (command_declarations c) = Inr c" by (rule new_catalog_declarations) (use C in simp_all)
  moreover have "map (\<lambda>c. \<lparr>cd_name = rcm_name c, cd_payload = inputs_of (rcm_payload c)\<rparr>)
      (map (\<lambda>c. \<lparr>rcm_name = cd_name c, rcm_payload = runtime_inputs (cd_payload c)\<rparr>) cs) = cs" for cs :: "'a command_declaration list"
    by (induction cs) simp_all
  ultimately have "compile_manifest F (runtime_of m) = Inr \<lparr>ru_min_players = lo, ru_max_players = hi, ru_inputs = s,
      ru_commands = c, ru_update = upd, ru_rejoin = rejoin\<rparr>"
    unfolding compile_manifest_def runtime_of_def p(5) by (simp del: map_map)
  then show ?thesis using p by simp
qed

definition sample_manifest :: raw where
  "sample_manifest = Raw (JObj [
     (''commands'', JObj [(''buy'', JObj [(''payload'', JObj [(''item'', JObj [(''type'', JStr ''number'')])])])]),
     (''entrypoints'', JList [JStr ''update'']),
     (''inputs'', JObj [(''fire'', JObj [(''type'', JStr ''boolean'')])]),
     (''players'', JObj [(''max'', JNum ''4''), (''min'', JNum ''2'')]),
     (''schema_version'', JNum ''1'')])"

theorem manifest_compiles_witness:
  "\<exists>m rules. parse_manifest whole_numbers sample_manifest = Inr m \<and> compile_manifest whole_numbers (runtime_of m) = Inr rules
    \<and> declarations (ru_inputs rules) = ma_inputs m \<and> ru_min_players rules = 2 \<and> ru_update rules"
proof -
  have "(case parse_manifest whole_numbers sample_manifest of Inr m \<Rightarrow> ma_min_players m = 2 \<and> ma_update m | Inl e \<Rightarrow> False)" by code_simp
  then obtain m where m: "parse_manifest whole_numbers sample_manifest = Inr m" "ma_min_players m = 2" "ma_update m"
    by (auto split: sum.splits)
  show ?thesis using manifest_compiles[OF whole_numbers_ok m(1)] m by auto
qed

text \<open>
  C37: the payload of a COMMAND: a request is refused as undeclared exactly when the game does not
  declare its name; a declared command without a payload always has a full one; and a full payload
  is accepted as it is.
\<close>

theorem command_payloads:
  assumes "float_ops_ok F" "new_catalog F ds = Inr c"
  shows "(normalize_command F c name payload = Inl (Undeclared_command name) \<longleftrightarrow> name \<notin> cd_name ` set ds)
    \<and> (name \<in> cd_name ` set ds \<longrightarrow> (\<exists>full. normalize_command F c name Raw_empty = Inr full))
    \<and> (\<forall>full. normalize_command F c name payload = Inr full \<longrightarrow> normalize_command F c name (Raw full) = Inr full)"
proof -
  note C = new_catalog_ok[OF assms]
  have dom: "dom (ct_payloads c) = cd_name ` set ds" using C(1,3) by (simp add: catalog_ok_def)
  show ?thesis
  proof (cases "ct_payloads c name")
    case None
    then have "name \<notin> cd_name ` set ds" using dom by (metis domIff)
    then show ?thesis using None by (simp add: normalize_command_def)
  next
    case (Some s)
    then have n: "name \<in> cd_name ` set ds" using dom by blast
    have s: "schema_ok F s" using C(1) Some by (simp add: catalog_ok_def)
    have "\<exists>fs. normalize_fields F s [] (sc_names s) = Inr fs" unfolding normalize_fields_total by (simp add: value_of_def)
    then have "\<exists>j. normalize F s (Raw (JObj [])) = Inr j" by (auto simp: normalize_def)
    then have "\<exists>full. normalize_command F c name Raw_empty = Inr full" using Some by (auto simp: normalize_command_def)
    moreover have "normalize_command F c name (Raw full) = Inr full" if "normalize_command F c name payload = Inr full" for full
      using that Some normalize_again[OF assms(1) s] by (auto simp: normalize_command_def split: sum.splits)
    ultimately show ?thesis using n Some by (auto simp: normalize_command_def split: sum.split)
  qed
qed

definition sample_commands :: "int command_declaration list" where
  "sample_commands = [\<lparr>cd_name = ''buy'', cd_payload = sample_inputs\<rparr>]"

definition sample_catalog :: "int catalog" where
  "sample_catalog = (case new_catalog whole_numbers sample_commands of Inr c \<Rightarrow> c | Inl e \<Rightarrow> empty_catalog)"

theorem command_payloads_witness:
  "normalize_command whole_numbers sample_catalog ''sell'' Raw_empty = Inl (Undeclared_command ''sell'')
   \<and> (\<exists>full. normalize_command whole_numbers sample_catalog ''buy'' Raw_empty = Inr full)"
proof -
  have "(case new_catalog whole_numbers sample_commands of Inr c \<Rightarrow> True | Inl e \<Rightarrow> False)" by code_simp
  then have c: "new_catalog whole_numbers sample_commands = Inr sample_catalog"
    by (auto simp: sample_catalog_def split: sum.splits)
  show ?thesis
    using command_payloads[OF whole_numbers_ok c, of "''sell''" Raw_empty] command_payloads[OF whole_numbers_ok c, of "''buy''" Raw_empty]
    by (simp add: sample_commands_def)
qed

end
