(* ===== verification/ScriptAst.thy ===== *)
theory ScriptAst
  imports Prelude
begin

section \<open>The syntax of a game's script\<close>

text \<open>
  The syntax trees \<open>play/runtime/sandbox/scriptcheck/scriptcheck.go\<close> checks, as the parser it calls gives
  them: the nodes and fields the checker reads, with one constructor for every other node of a kind. A node
  has its position; a function has, with it, the number of the node that identifies it, for its
  address. An absent part is \<open>No_expr\<close>, \<open>No_stmt\<close> or an empty list; parentheses leave no node.
\<close>

text \<open>A line and a column, from 1; positions are ordered as the code sorts violations.\<close>

datatype pos = Pos (pos_line: nat) (pos_column: nat)

instantiation pos :: linorder
begin

definition less_eq_pos :: "pos \<Rightarrow> pos \<Rightarrow> bool" where
  "p \<le> q \<longleftrightarrow> pos_line p < pos_line q \<or> pos_line p = pos_line q \<and> pos_column p \<le> pos_column q"

definition less_pos :: "pos \<Rightarrow> pos \<Rightarrow> bool" where
  "p < q \<longleftrightarrow> pos_line p < pos_line q \<or> pos_line p = pos_line q \<and> pos_column p < pos_column q"

instance
  by standard (auto simp: less_eq_pos_def less_pos_def pos.expand)

end

datatype unary_op = Increment | Decrement | Delete_op | Minus_op | Plus_op | Other_unary

datatype binary_op = Logical_and | Logical_or | Coalesce | Other_binary

datatype literal = String_value string | Number_value | Boolean_value | Null_value | Regexp_value

datatype (plugins only: size code) expr =
    No_expr
  | Ident pos string
  | This_expr pos
  | Meta_property pos
  | Await_expr pos expr
  | Yield_expr pos expr
  | Function_lit func
  | Arrow_lit nat pos bool "bind list" expr body
  | Class_lit pos expr "element list"
  | Assign_expr pos expr expr
  | Unary_expr pos unary_op expr
  | Dot_expr pos expr pos string
  | Private_dot pos expr
  | Bracket_expr pos expr expr
  | Call_expr pos expr "expr list"
  | New_expr pos expr "expr list"
  | Binary_expr pos binary_op expr expr
  | Conditional_expr pos expr expr expr
  | Sequence_expr pos "expr list"
  | Array_lit pos "expr list"
  | Object_lit pos "expr list"
  | Property_keyed pos bool expr expr
  | Property_short pos string expr
  | Spread_expr pos expr
  | Template_lit pos expr "expr list"
  | Optional_chain pos expr
  | Optional_expr pos expr
  | Array_pattern pos "expr list" expr
  | Object_pattern pos "expr list" expr
  | Binding_expr pos bind
  | Literal pos literal
  | Other_expr pos
and bind = Bind (bind_target: expr) (bind_init: expr)
and func = Func (func_node: nat) (func_pos: pos) (func_name: "string option") bool bool "bind list" expr (func_body: "stmt list")
and body = Block_body "stmt list" | Expr_body expr
and element = Method func | Field expr | Static_block pos
and stmt =
    No_stmt
  | Expr_stmt pos expr
  | Variable_stmt pos "bind list"
  | Lexical_decl pos bool "bind list"
  | Function_decl func
  | Class_decl pos "string option" expr "element list"
  | Block_stmt pos "stmt list"
  | Return_stmt pos expr
  | Throw_stmt pos expr
  | If_stmt pos expr stmt stmt
  | For_stmt pos initializer expr expr stmt
  | For_in pos into expr stmt
  | For_of pos bool into expr stmt
  | While_stmt pos expr stmt
  | Do_while pos stmt expr
  | Labelled_stmt pos stmt
  | Switch_stmt pos expr "clause list"
  | Try_stmt pos "stmt list" expr "stmt list" "stmt list"
  | With_stmt pos
  | Empty_stmt pos
  | Plain_stmt pos
  | Other_stmt pos
and initializer = No_init | Init_expr expr | Init_bindings "bind list"
and into = Into_binding expr | Into_expr expr
and clause = Clause expr "stmt list"

end
