(* ===== verification/ScriptScope.thy ===== *)
theory ScriptScope
  imports ScriptAst
begin

section \<open>Scopes, bindings and what an expression may refer to\<close>

text \<open>
  The names of \<open>play/runtime/sandbox/scriptcheck/scriptcheck.go\<close>: a \<open>binding\<close> is kept in a store and
  named by its place there, since the code shares it by pointer and changes it; a \<open>scope\<close> is its own frame
  of names before those of its parents. A frame is never changed once it has been made. Then the questions the
  checker asks of an expression: the names a target binds, the root of a member chain, whether the
  expression may be an input (\<open>aliases\<close>) or store one (\<open>contains\<close>).
\<close>

subsection \<open>Bindings and scopes\<close>

record binding =
  top_level :: bool
  tainted :: bool
  holds :: bool

type_synonym store = "binding list"
type_synonym frame = "(string \<times> nat) list"
type_synonym scope = "frame list"

definition new_binding :: "bool \<Rightarrow> bool \<Rightarrow> binding" where
  "new_binding t i = \<lparr>top_level = t, tainted = i, holds = False\<rparr>"

text \<open>\<open>scope.declare\<close>: the first declaration of a name in a scope stands.\<close>

definition declare_name :: "string \<Rightarrow> binding \<Rightarrow> store \<times> frame \<Rightarrow> store \<times> frame" where
  "declare_name n b = (\<lambda>(bs, f). if map_of f n = None then (bs @ [b], (n, length bs) # f) else (bs, f))"

fun resolve :: "scope \<Rightarrow> string \<Rightarrow> nat option" where
  "resolve [] n = None"
| "resolve (f # fs) n = (case map_of f n of Some a \<Rightarrow> Some a | None \<Rightarrow> resolve fs n)"

subsection \<open>Targets\<close>

text \<open>\<open>targetNames\<close>: the identifiers a binding target binds, with their positions.\<close>

function (sequential) target_names :: "expr \<Rightarrow> (pos \<times> string) list"
  and all_target_names :: "expr list \<Rightarrow> (pos \<times> string) list"
  and property_target_names :: "expr list \<Rightarrow> (pos \<times> string) list" where
  "target_names t =
    (case t of
      Ident p n \<Rightarrow> [(p, n)]
    | Array_pattern _ es r \<Rightarrow> all_target_names es @ target_names r
    | Object_pattern _ ps r \<Rightarrow> property_target_names ps @ target_names r
    | Assign_expr _ l _ \<Rightarrow> target_names l
    | Binding_expr _ (Bind l _) \<Rightarrow> target_names l
    | _ \<Rightarrow> [])"
| "all_target_names [] = []"
| "all_target_names (e # es) = target_names e @ all_target_names es"
| "property_target_names [] = []"
| "property_target_names (e # es) =
    (case e of
      Property_short p n _ \<Rightarrow> [(p, n)]
    | Property_keyed _ _ _ v \<Rightarrow> target_names v
    | _ \<Rightarrow> []) @ property_target_names es"
  by pat_completeness auto
termination by (relation "measure (\<lambda>x. case x of Inl e \<Rightarrow> size e | Inr (Inl es) \<Rightarrow> size_list size es | Inr (Inr es) \<Rightarrow> size_list size es)") simp_all

declare target_names.simps [simp del]

text \<open>\<open>hoist\<close>: the names a function body declares, without those of the functions inside it.\<close>

definition binds_names :: "bind list \<Rightarrow> string list" where
  "binds_names bs = concat (map (\<lambda>b. map snd (target_names (bind_target b))) bs)"

definition into_names :: "into \<Rightarrow> string list" where
  "into_names i = (case i of Into_binding t \<Rightarrow> map snd (target_names t) | Into_expr _ \<Rightarrow> [])"

function (sequential) hoisted :: "stmt list \<Rightarrow> string list"
  and hoisted_stmt :: "stmt \<Rightarrow> string list"
  and hoisted_clauses :: "clause list \<Rightarrow> string list" where
  "hoisted [] = []"
| "hoisted (st # ss) = hoisted_stmt st @ hoisted ss"
| "hoisted_stmt st =
    (case st of
      Variable_stmt _ bs \<Rightarrow> binds_names bs
    | Lexical_decl _ _ bs \<Rightarrow> binds_names bs
    | Function_decl f \<Rightarrow> (case func_name f of Some n \<Rightarrow> [n] | None \<Rightarrow> [])
    | Class_decl _ name _ _ \<Rightarrow> (case name of Some n \<Rightarrow> [n] | None \<Rightarrow> [])
    | Block_stmt _ ss \<Rightarrow> hoisted ss
    | If_stmt _ _ a b \<Rightarrow> hoisted_stmt a @ hoisted_stmt b
    | For_stmt _ i _ _ b \<Rightarrow> (case i of Init_bindings bs \<Rightarrow> binds_names bs | _ \<Rightarrow> []) @ hoisted_stmt b
    | For_in _ i _ b \<Rightarrow> into_names i @ hoisted_stmt b
    | For_of _ _ i _ b \<Rightarrow> into_names i @ hoisted_stmt b
    | While_stmt _ _ b \<Rightarrow> hoisted_stmt b
    | Do_while _ b _ \<Rightarrow> hoisted_stmt b
    | Labelled_stmt _ b \<Rightarrow> hoisted_stmt b
    | Switch_stmt _ _ cs \<Rightarrow> hoisted_clauses cs
    | Try_stmt _ b p h f \<Rightarrow> hoisted b @ map snd (target_names p) @ hoisted h @ hoisted f
    | _ \<Rightarrow> [])"
| "hoisted_clauses [] = []"
| "hoisted_clauses (c # cs) = (case c of Clause _ ss \<Rightarrow> hoisted ss) @ hoisted_clauses cs"
  by pat_completeness auto
termination by (relation "measure (\<lambda>x. case x of Inl ss \<Rightarrow> size_list size ss | Inr (Inl s) \<Rightarrow> size s | Inr (Inr cs) \<Rightarrow> size_list size cs)") simp_all

subsection \<open>Aliases\<close>

text \<open>\<open>memberRoot\<close>: the object a member chain starts from.\<close>

function (sequential) member_root :: "expr \<Rightarrow> expr" where
  "member_root e =
    (case e of
      Dot_expr _ l _ _ \<Rightarrow> member_root l
    | Bracket_expr _ l _ \<Rightarrow> member_root l
    | Private_dot _ l \<Rightarrow> member_root l
    | Optional_chain _ l \<Rightarrow> member_root l
    | Optional_expr _ l \<Rightarrow> member_root l
    | _ \<Rightarrow> e)"
  by pat_completeness auto
termination by (relation "measure size") simp_all

declare member_root.simps [simp del]

lemma member_root_size: "size (member_root e) \<le> size e"
proof (induction e rule: member_root.induct)
  case (1 e)
  then show ?case
    by (subst member_root.simps) (simp split: expr.split add: le_SucI trans_le_add1)
qed

lemma member_root_size_le [termination_simp]: "size e \<le> k \<Longrightarrow> size (member_root e) < Suc k"
  using member_root_size [of e] by simp

definition marked :: "(binding \<Rightarrow> bool) \<Rightarrow> store \<Rightarrow> scope \<Rightarrow> string \<Rightarrow> bool" where
  "marked m bs s n = (case resolve s n of None \<Rightarrow> False | Some a \<Rightarrow> m (bs ! a))"

definition is_choice :: "binary_op \<Rightarrow> bool" where
  "is_choice op = (op = Logical_and \<or> op = Logical_or \<or> op = Coalesce)"

text \<open>
  \<open>aliases\<close>, \<open>contains\<close> and \<open>reaches\<close>: whether an expression may evaluate to an input or a part of one,
  whether it is a value created here that stores one, and either.
\<close>

function (sequential) aliases :: "store \<Rightarrow> scope \<Rightarrow> expr \<Rightarrow> bool"
  and holding :: "store \<Rightarrow> scope \<Rightarrow> expr \<Rightarrow> bool"
  and any_reaches :: "store \<Rightarrow> scope \<Rightarrow> expr list \<Rightarrow> bool"
  and any_property_reaches :: "store \<Rightarrow> scope \<Rightarrow> expr list \<Rightarrow> bool"
  and last_aliases :: "store \<Rightarrow> scope \<Rightarrow> expr list \<Rightarrow> bool"
  and last_holding :: "store \<Rightarrow> scope \<Rightarrow> expr list \<Rightarrow> bool" where
  "aliases bs s e =
    (case e of
      Ident _ n \<Rightarrow> marked tainted bs s n
    | Dot_expr _ l _ _ \<Rightarrow> aliases bs s (member_root l) \<or> holding bs s (member_root l)
    | Bracket_expr _ l _ \<Rightarrow> aliases bs s (member_root l) \<or> holding bs s (member_root l)
    | Private_dot _ l \<Rightarrow> aliases bs s (member_root l) \<or> holding bs s (member_root l)
    | Optional_chain _ x \<Rightarrow> aliases bs s x
    | Optional_expr _ x \<Rightarrow> aliases bs s x
    | Conditional_expr _ _ a b \<Rightarrow> aliases bs s a \<or> aliases bs s b
    | Binary_expr _ op a b \<Rightarrow> is_choice op \<and> (aliases bs s a \<or> aliases bs s b)
    | Sequence_expr _ es \<Rightarrow> last_aliases bs s es
    | Assign_expr _ _ r \<Rightarrow> aliases bs s r
    | Spread_expr _ x \<Rightarrow> aliases bs s x
    | Call_expr _ f as \<Rightarrow>
        (case f of Dot_expr _ l _ _ \<Rightarrow> aliases bs s l \<or> holding bs s l | _ \<Rightarrow> False) \<or> any_reaches bs s as
    | New_expr _ _ as \<Rightarrow> any_reaches bs s as
    | _ \<Rightarrow> False)"
| "holding bs s e =
    (case e of
      Ident _ n \<Rightarrow> marked holds bs s n
    | Array_lit _ es \<Rightarrow> any_reaches bs s es
    | Object_lit _ ps \<Rightarrow> any_property_reaches bs s ps
    | Spread_expr _ x \<Rightarrow> aliases bs s x \<or> holding bs s x
    | Conditional_expr _ _ a b \<Rightarrow> holding bs s a \<or> holding bs s b
    | Binary_expr _ op a b \<Rightarrow> is_choice op \<and> (holding bs s a \<or> holding bs s b)
    | Sequence_expr _ es \<Rightarrow> last_holding bs s es
    | Assign_expr _ _ r \<Rightarrow> holding bs s r
    | _ \<Rightarrow> False)"
| "any_reaches bs s [] = False"
| "any_reaches bs s (e # es) = (aliases bs s e \<or> holding bs s e \<or> any_reaches bs s es)"
| "any_property_reaches bs s [] = False"
| "any_property_reaches bs s (e # es) =
    ((case e of
       Property_keyed _ _ _ v \<Rightarrow> aliases bs s v \<or> holding bs s v
     | Property_short _ n _ \<Rightarrow> marked tainted bs s n \<or> marked holds bs s n
     | Spread_expr _ x \<Rightarrow> aliases bs s x \<or> holding bs s x
     | _ \<Rightarrow> False) \<or> any_property_reaches bs s es)"
| "last_aliases bs s [] = False"
| "last_aliases bs s (e # es) = (if es = [] then aliases bs s e else last_aliases bs s es)"
| "last_holding bs s [] = False"
| "last_holding bs s (e # es) = (if es = [] then holding bs s e else last_holding bs s es)"
  by pat_completeness auto
termination
  by (relation "measure (\<lambda>x. case x of
      Inl (Inl (_, _, e)) \<Rightarrow> size e | Inl (Inr (Inl (_, _, e))) \<Rightarrow> size e | Inl (Inr (Inr (_, _, es))) \<Rightarrow> size_list size es
    | Inr (Inl (_, _, es)) \<Rightarrow> size_list size es | Inr (Inr (Inl (_, _, es))) \<Rightarrow> size_list size es
    | Inr (Inr (Inr (_, _, es))) \<Rightarrow> size_list size es)") (simp_all add: member_root_size_le)

declare aliases.simps [simp del] holding.simps [simp del]

definition reaches :: "store \<Rightarrow> scope \<Rightarrow> expr \<Rightarrow> bool" where
  "reaches bs s e \<longleftrightarrow> aliases bs s e \<or> holding bs s e"

end
