(* ===== verification/ScriptCheck.thy ===== *)
theory ScriptCheck
  imports ScriptScope
begin

section \<open>The static check of a game's script\<close>

text \<open>
  The checker of \<open>play/runtime/sandbox/scriptcheck/scriptcheck.go\<close>: its profiles and rules, what a script
  may hold at its top level, and the walk over the script's code (\<open>statement\<close>, \<open>expression\<close> and the
  functions they call), which marks the bindings that may be inputs and, in its last pass, reports. The
  checker's fields are the code's; the bindings its scopes point to are its \<open>store\<close>. A violation's message
  is left out: it has its position and its rule. \<open>run\<close>'s loop has no bound in the code and has none here:
  its result is an option, and is never \<open>None\<close> by the theorems of \<open>ScriptFixpoint\<close>.
\<close>

subsection \<open>Profiles, rules and names\<close>

datatype rule =
    Rule_syntax | Rule_entrypoint | Rule_module_state | Rule_global_access | Rule_mutation | Rule_async | Rule_this
  | Rule_unsupported

record violation =
  position :: pos
  broken :: rule

definition profile_handwritten :: string where
  "profile_handwritten = ''handwritten''"

definition profile_sdk_v1 :: string where
  "profile_sdk_v1 = ''sdk-v1''"

definition valid_profile :: "string \<Rightarrow> bool" where
  "valid_profile p \<longleftrightarrow> p = profile_handwritten \<or> p = profile_sdk_v1"

definition module_values_function :: string where
  "module_values_function = ''__playhoot_module_values''"

definition entrypoints :: "string list" where
  "entrypoints = [''start'', ''project'']"

definition definition_functions :: "string list" where
  "definition_functions = [''defineGame'', ''defineCommands'', ''defineInputs'']"

definition forbidden_globals :: "string list" where
  "forbidden_globals = [''globalThis'', ''eval'', ''Function'', ''Reflect'', ''WebAssembly'']"

definition forbidden_properties :: "string list" where
  "forbidden_properties = [''constructor'', ''__proto__'', ''prototype'', ''__defineGetter__'',
    ''__defineSetter__'', ''__lookupGetter__'', ''__lookupSetter__'']"

definition mutating_methods :: "string list" where
  "mutating_methods = [''push'', ''pop'', ''shift'', ''unshift'', ''splice'', ''sort'', ''reverse'', ''fill'',
    ''copyWithin'', ''set'', ''add'', ''delete'', ''clear'']"

definition mutating_object_functions :: "string list" where
  "mutating_object_functions = [''assign'', ''defineProperty'', ''defineProperties'', ''setPrototypeOf'']"

subsection \<open>What a top-level constant may hold\<close>

definition primitive_value :: "expr \<Rightarrow> bool" where
  "primitive_value e =
    (case e of
      Literal _ v \<Rightarrow> v \<noteq> Regexp_value
    | Template_lit _ t es \<Rightarrow> t = No_expr \<and> es = []
    | Unary_expr _ op (Literal _ Number_value) \<Rightarrow> op = Minus_op \<or> op = Plus_op
    | _ \<Rightarrow> False)"

definition is_function :: "expr \<Rightarrow> bool" where
  "is_function e = (case e of Function_lit _ \<Rightarrow> True | Arrow_lit _ _ _ _ _ _ \<Rightarrow> True | _ \<Rightarrow> False)"

definition immutable_value :: "expr \<Rightarrow> bool" where
  "immutable_value e \<longleftrightarrow> is_function e \<or> primitive_value e"

function (sequential) sdk_constant :: "expr \<Rightarrow> bool"
  and sdk_constants :: "expr list \<Rightarrow> bool"
  and sdk_properties :: "expr list \<Rightarrow> bool" where
  "sdk_constant e =
    (case e of
      Function_lit _ \<Rightarrow> True
    | Arrow_lit _ _ _ _ _ _ \<Rightarrow> True
    | Ident _ _ \<Rightarrow> True
    | Array_lit _ es \<Rightarrow> sdk_constants es
    | Object_lit _ ps \<Rightarrow> sdk_properties ps
    | Spread_expr _ x \<Rightarrow> sdk_constant x
    | Call_expr _ f as \<Rightarrow>
        (case f of Ident _ n \<Rightarrow> n \<in> set definition_functions \<and> sdk_constants as | _ \<Rightarrow> False)
    | _ \<Rightarrow> primitive_value e)"
| "sdk_constants [] = True"
| "sdk_constants (e # es) = (sdk_constant e \<and> sdk_constants es)"
| "sdk_properties [] = True"
| "sdk_properties (e # es) =
    ((case e of
       Property_keyed _ computed _ v \<Rightarrow> \<not> computed \<and> sdk_constant v
     | Property_short _ _ i \<Rightarrow> i = No_expr
     | Spread_expr _ x \<Rightarrow> sdk_constant x
     | _ \<Rightarrow> False) \<and> sdk_properties es)"
  by pat_completeness auto
termination by (relation "measure (\<lambda>x. case x of Inl e \<Rightarrow> size e | Inr (Inl es) \<Rightarrow> size_list size es | Inr (Inr es) \<Rightarrow> size_list size es)") simp_all

declare sdk_constant.simps [simp del]

subsection \<open>The checker\<close>

record checker =
  profile :: string
  start_pos :: pos
  store :: store
  scopes :: "nat \<Rightarrow> scope option"
  reporting :: bool
  changed :: bool
  violations :: "violation list"
  reported :: "violation set option"

text \<open>\<open>report\<close>: in the reporting pass, once per position and rule.\<close>

definition report :: "pos \<Rightarrow> rule \<Rightarrow> checker \<Rightarrow> checker" where
  "report p r c =
    (let v = \<lparr>position = p, broken = r\<rparr> in
     case reported c of
       None \<Rightarrow> c\<lparr>violations := violations c @ [v]\<rparr>
     | Some R \<Rightarrow> if v \<in> R then c else c\<lparr>reported := Some (insert v R), violations := violations c @ [v]\<rparr>)"

definition violate :: "pos \<Rightarrow> rule \<Rightarrow> checker \<Rightarrow> checker" where
  "violate p r c = (if reporting c then report p r c else c)"

definition taint :: "nat option \<Rightarrow> checker \<Rightarrow> checker" where
  "taint a c =
    (case a of
      None \<Rightarrow> c
    | Some i \<Rightarrow>
        if \<not> top_level (store c ! i) \<and> \<not> tainted (store c ! i)
        then c\<lparr>store := (store c)[i := (store c ! i)\<lparr>tainted := True\<rparr>], changed := True\<rparr>
        else c)"

definition hold :: "nat option \<Rightarrow> checker \<Rightarrow> checker" where
  "hold a c =
    (case a of
      None \<Rightarrow> c
    | Some i \<Rightarrow>
        if \<not> top_level (store c ! i) \<and> \<not> holds (store c ! i)
        then c\<lparr>store := (store c)[i := (store c ! i)\<lparr>holds := True\<rparr>], changed := True\<rparr>
        else c)"

text \<open>\<open>checker.bind\<close>, \<open>aliases\<close>, \<open>contains\<close> and \<open>reaches\<close> on the checker's own bindings.\<close>

definition reaching :: "expr \<Rightarrow> scope \<Rightarrow> checker \<Rightarrow> bool" where
  "reaching e s c = reaches (store c) s e"

definition bind_value :: "nat option \<Rightarrow> expr \<Rightarrow> scope \<Rightarrow> checker \<Rightarrow> checker" where
  "bind_value a e s c =
    (if aliases (store c) s e then taint a c else if holding (store c) s e then hold a c else c)"

definition taint_names :: "(pos \<times> string) list \<Rightarrow> scope \<Rightarrow> checker \<Rightarrow> checker" where
  "taint_names ns s c = fold (\<lambda>(_, n). taint (resolve s n)) ns c"

definition root_binding :: "expr \<Rightarrow> scope \<Rightarrow> nat option" where
  "root_binding e s = (case member_root e of Ident _ n \<Rightarrow> resolve s n | _ \<Rightarrow> None)"

text \<open>\<open>functionScope\<close>: a function's scope, made the first time the function is met.\<close>

definition declare_all :: "bool \<Rightarrow> string list \<Rightarrow> store \<times> frame \<Rightarrow> store \<times> frame" where
  "declare_all i ns = fold (\<lambda>n. declare_name n (new_binding False i)) ns"

definition parameter_names :: "bind list \<Rightarrow> expr \<Rightarrow> string list" where
  "parameter_names ps r = binds_names ps @ map snd (target_names r)"

definition function_scope :: "nat \<Rightarrow> scope \<Rightarrow> bind list \<Rightarrow> expr \<Rightarrow> stmt list \<Rightarrow> checker \<Rightarrow> scope \<times> checker" where
  "function_scope nd parent ps r body c =
    (case scopes c nd of
      Some s \<Rightarrow> (s, c)
    | None \<Rightarrow>
        let (bs, f) = declare_all False (hoisted body)
              (declare_all (profile c = profile_handwritten) (parameter_names ps r) (store c, []))
        in (f # parent, c\<lparr>store := bs, scopes := (scopes c)(nd \<mapsto> f # parent)\<rparr>))"

subsection \<open>Changing values\<close>

definition expr_pos :: "pos \<Rightarrow> expr \<Rightarrow> pos" where
  "expr_pos d e =
    (case e of
      No_expr \<Rightarrow> d | Ident p _ \<Rightarrow> p | This_expr p \<Rightarrow> p | Meta_property p \<Rightarrow> p | Await_expr p _ \<Rightarrow> p
    | Yield_expr p _ \<Rightarrow> p | Function_lit f \<Rightarrow> func_pos f | Arrow_lit _ p _ _ _ _ \<Rightarrow> p | Class_lit p _ _ \<Rightarrow> p
    | Assign_expr p _ _ \<Rightarrow> p | Unary_expr p _ _ \<Rightarrow> p | Dot_expr p _ _ _ \<Rightarrow> p | Private_dot p _ \<Rightarrow> p
    | Bracket_expr p _ _ \<Rightarrow> p | Call_expr p _ _ \<Rightarrow> p | New_expr p _ _ \<Rightarrow> p | Binary_expr p _ _ _ \<Rightarrow> p
    | Conditional_expr p _ _ _ \<Rightarrow> p | Sequence_expr p _ \<Rightarrow> p | Array_lit p _ \<Rightarrow> p | Object_lit p _ \<Rightarrow> p
    | Property_keyed p _ _ _ \<Rightarrow> p | Property_short p _ _ \<Rightarrow> p | Spread_expr p _ \<Rightarrow> p | Template_lit p _ _ \<Rightarrow> p
    | Optional_chain p _ \<Rightarrow> p | Optional_expr p _ \<Rightarrow> p | Array_pattern p _ _ \<Rightarrow> p | Object_pattern p _ _ \<Rightarrow> p
    | Binding_expr p _ \<Rightarrow> p | Literal p _ \<Rightarrow> p | Other_expr p \<Rightarrow> p)"

text \<open>\<open>mutates\<close>: changing an object is reported unless the function made it itself.\<close>

definition is_name :: "expr \<Rightarrow> bool" where
  "is_name e = (case e of Ident _ _ \<Rightarrow> True | _ \<Rightarrow> False)"

definition mutates :: "expr \<Rightarrow> scope \<Rightarrow> pos \<Rightarrow> checker \<Rightarrow> checker" where
  "mutates ob s p c =
    (case member_root ob of
      Ident _ n \<Rightarrow>
        (case resolve s n of
          None \<Rightarrow> violate p Rule_global_access c
        | Some a \<Rightarrow>
            let b = store c ! a in
            if top_level b then violate p Rule_module_state c
            else if tainted b \<or> (holds b \<and> \<not> is_name ob)
            then violate p Rule_mutation c
            else c)
    | This_expr _ \<Rightarrow> violate p Rule_this c
    | _ \<Rightarrow> if aliases (store c) s ob then violate p Rule_mutation c else c)"

definition changes_member_of :: "expr \<Rightarrow> scope \<Rightarrow> pos \<Rightarrow> checker \<Rightarrow> checker" where
  "changes_member_of t s p c =
    (case t of
      Dot_expr _ l _ _ \<Rightarrow> mutates l s p c
    | Bracket_expr _ l _ \<Rightarrow> mutates l s p c
    | Private_dot _ l \<Rightarrow> mutates l s p c
    | _ \<Rightarrow> mutates t s p c)"

text \<open>The rest of \<open>call\<close>, once its callee and arguments have been visited.\<close>

definition changes_first_argument :: "expr \<Rightarrow> string \<Rightarrow> expr list \<Rightarrow> scope \<Rightarrow> bool" where
  "changes_first_argument l m as s =
    (case l of
      Ident _ n \<Rightarrow> resolve s n = None \<and> n = ''Object'' \<and> m \<in> set mutating_object_functions \<and> as \<noteq> []
    | _ \<Rightarrow> False)"

definition call_effects :: "pos \<Rightarrow> expr \<Rightarrow> expr list \<Rightarrow> scope \<Rightarrow> checker \<Rightarrow> checker" where
  "call_effects p f as s c =
    (case f of
      Dot_expr _ l _ m \<Rightarrow>
        if changes_first_argument l m as s then
          let c' = mutates (hd as) s p c in
          if any_reaches (store c) s as then hold (root_binding (hd as) s) c' else c'
        else if (m = ''call'' \<or> m = ''apply'') \<and> as \<noteq> [] \<and> reaching (hd as) s c then violate p Rule_mutation c
        else if m \<in> set mutating_methods then
          let c' = mutates l s p c in
          if any_reaches (store c) s as then hold (root_binding l s) c' else c'
        else c
    | _ \<Rightarrow> c)"

text \<open>The checks \<open>expression\<close> makes of a name it reads and of a member's name.\<close>

definition check_name :: "pos \<Rightarrow> string \<Rightarrow> scope \<Rightarrow> checker \<Rightarrow> checker" where
  "check_name p n s c =
    (if n \<in> set forbidden_globals \<and> resolve s n = None then violate p Rule_global_access c else c)"

definition check_property :: "pos \<Rightarrow> string \<Rightarrow> checker \<Rightarrow> checker" where
  "check_property p n c = (if n \<in> set forbidden_properties then violate p Rule_global_access c else c)"

definition check_member :: "expr \<Rightarrow> checker \<Rightarrow> checker" where
  "check_member m c = (case m of Literal p (String_value v) \<Rightarrow> check_property p v c | _ \<Rightarrow> c)"

text \<open>The two kinds of target of \<open>assignTarget\<close> that are names.\<close>

definition assign_name :: "pos \<Rightarrow> string \<Rightarrow> scope \<Rightarrow> expr \<Rightarrow> checker \<Rightarrow> checker" where
  "assign_name p n s v c =
    (case resolve s n of
      None \<Rightarrow> violate p Rule_global_access c
    | Some a \<Rightarrow>
        if top_level (store c ! a) then violate p Rule_module_state c
        else if v \<noteq> No_expr then bind_value (Some a) v s c
        else c)"

definition assign_pattern_name :: "scope \<Rightarrow> expr \<Rightarrow> pos \<times> string \<Rightarrow> checker \<Rightarrow> checker" where
  "assign_pattern_name s v = (\<lambda>(p, n) c.
    (case resolve s n of
      None \<Rightarrow> violate p Rule_global_access c
    | Some a \<Rightarrow>
        if top_level (store c ! a) then violate p Rule_module_state c
        else if v \<noteq> No_expr \<and> reaching v s c then taint (Some a) c
        else c))"

definition bind_declared :: "expr \<Rightarrow> expr \<Rightarrow> scope \<Rightarrow> checker \<Rightarrow> checker" where
  "bind_declared t e s c =
    (if e = No_expr then c
     else case t of
       Ident _ n \<Rightarrow> bind_value (resolve s n) e s c
     | _ \<Rightarrow> if reaching e s c then taint_names (target_names t) s c else c)"

subsection \<open>The walk over a script's code\<close>

text \<open>
  One function per function of the checker, and one per list it ranges over. \<open>func_literal\<close> is \<open>function\<close>,
  \<open>class_elements\<close> the loop of \<open>class\<close>, \<open>parameters\<close> the loop \<open>function\<close> and \<open>arrow\<close> share.
\<close>

function (sequential) expression :: "expr \<Rightarrow> scope \<Rightarrow> checker \<Rightarrow> checker"
  and expressions :: "expr list \<Rightarrow> scope \<Rightarrow> checker \<Rightarrow> checker"
  and pattern_defaults :: "expr \<Rightarrow> scope \<Rightarrow> checker \<Rightarrow> checker"
  and element_defaults :: "expr list \<Rightarrow> scope \<Rightarrow> checker \<Rightarrow> checker"
  and property_defaults :: "expr list \<Rightarrow> scope \<Rightarrow> checker \<Rightarrow> checker"
  and bindings :: "bind list \<Rightarrow> scope \<Rightarrow> checker \<Rightarrow> checker"
  and parameters :: "bind list \<Rightarrow> scope \<Rightarrow> checker \<Rightarrow> checker"
  and assign_target :: "expr \<Rightarrow> scope \<Rightarrow> expr \<Rightarrow> checker \<Rightarrow> checker"
  and for_into :: "into \<Rightarrow> scope \<Rightarrow> bool \<Rightarrow> checker \<Rightarrow> checker"
  and func_literal :: "func \<Rightarrow> scope \<Rightarrow> checker \<Rightarrow> checker"
  and class_elements :: "element list \<Rightarrow> scope \<Rightarrow> checker \<Rightarrow> checker"
  and statement :: "stmt \<Rightarrow> scope \<Rightarrow> checker \<Rightarrow> checker"
  and statements :: "stmt list \<Rightarrow> scope \<Rightarrow> checker \<Rightarrow> checker"
  and clauses :: "clause list \<Rightarrow> scope \<Rightarrow> checker \<Rightarrow> checker" where
  "expression e s c =
    (case e of
      No_expr \<Rightarrow> c
    | Ident p n \<Rightarrow> check_name p n s c
    | This_expr p \<Rightarrow> if profile c = profile_handwritten then violate p Rule_this c else c
    | Meta_property p \<Rightarrow> violate p Rule_unsupported c
    | Await_expr p x \<Rightarrow> expression x s (violate p Rule_async c)
    | Yield_expr p x \<Rightarrow> expression x s (violate p Rule_async c)
    | Function_lit f \<Rightarrow> func_literal f s c
    | Arrow_lit nd p async ps r b \<Rightarrow>
        let c1 = (if async then violate p Rule_async c else c);
            (s', c2) = function_scope nd s ps r (case b of Block_body ss \<Rightarrow> ss | Expr_body _ \<Rightarrow> []) c1;
            c3 = parameters ps s' c2
        in (case b of Block_body ss \<Rightarrow> statements ss s' c3 | Expr_body x \<Rightarrow> expression x s' c3)
    | Class_lit _ super es \<Rightarrow> class_elements es s (expression super s c)
    | Assign_expr _ l r \<Rightarrow> assign_target l s r (expression r s c)
    | Unary_expr p op x \<Rightarrow>
        if op = Increment \<or> op = Decrement then assign_target x s No_expr c
        else if op = Delete_op then expression x s (changes_member_of x s p c)
        else expression x s c
    | Dot_expr _ l ip n \<Rightarrow> expression l s (check_property ip n c)
    | Private_dot _ l \<Rightarrow> expression l s c
    | Bracket_expr _ l m \<Rightarrow>
        expression m s (expression l s (check_member m c))
    | Call_expr p f as \<Rightarrow> call_effects p f as s (expressions as s (expression f s c))
    | New_expr _ f as \<Rightarrow> expressions as s (expression f s c)
    | Binary_expr _ _ a b \<Rightarrow> expression b s (expression a s c)
    | Conditional_expr _ t a b \<Rightarrow> expression b s (expression a s (expression t s c))
    | Sequence_expr _ es \<Rightarrow> expressions es s c
    | Array_lit _ es \<Rightarrow> expressions es s c
    | Object_lit _ ps \<Rightarrow> expressions ps s c
    | Property_keyed _ computed k v \<Rightarrow> expression v s (if computed then expression k s c else c)
    | Property_short p n i \<Rightarrow> expression i s (check_name p n s c)
    | Spread_expr _ x \<Rightarrow> expression x s c
    | Template_lit _ t es \<Rightarrow> expressions es s (expression t s c)
    | Optional_chain _ x \<Rightarrow> expression x s c
    | Optional_expr _ x \<Rightarrow> expression x s c
    | Array_pattern _ _ _ \<Rightarrow> c
    | Object_pattern _ _ _ \<Rightarrow> c
    | Literal _ _ \<Rightarrow> c
    | Binding_expr p _ \<Rightarrow> violate p Rule_unsupported c
    | Other_expr p \<Rightarrow> violate p Rule_unsupported c)"
| "expressions [] s c = c"
| "expressions (e # es) s c = expressions es s (expression e s c)"
| "pattern_defaults t s c =
    (case t of
      Array_pattern _ es _ \<Rightarrow> element_defaults es s c
    | Object_pattern _ ps _ \<Rightarrow> property_defaults ps s c
    | Assign_expr _ _ r \<Rightarrow> expression r s c
    | _ \<Rightarrow> c)"
| "element_defaults [] s c = c"
| "element_defaults (e # es) s c = element_defaults es s (pattern_defaults e s c)"
| "property_defaults [] s c = c"
| "property_defaults (e # es) s c =
    property_defaults es s
      (case e of
        Property_short _ _ i \<Rightarrow> expression i s c
      | Property_keyed _ _ _ v \<Rightarrow> pattern_defaults v s c
      | _ \<Rightarrow> c)"
| "bindings [] s c = c"
| "bindings (b # bs) s c =
    (case b of Bind t e \<Rightarrow>
      bindings bs s (bind_declared t e s (pattern_defaults t s (expression e s c))))"
| "parameters [] s c = c"
| "parameters (b # bs) s c =
    (case b of Bind t e \<Rightarrow> parameters bs s (expression e s (pattern_defaults t s c)))"
| "assign_target t s v c =
    (case t of
      Ident p n \<Rightarrow> assign_name p n s v c
    | Array_pattern _ _ _ \<Rightarrow> pattern_defaults t s (fold (assign_pattern_name s v) (target_names t) c)
    | Object_pattern _ _ _ \<Rightarrow> pattern_defaults t s (fold (assign_pattern_name s v) (target_names t) c)
    | _ \<Rightarrow>
        let c' = expression t s (changes_member_of t s (expr_pos (start_pos c) t) c)
        in if v \<noteq> No_expr \<and> reaching v s c' then hold (root_binding t s) c' else c')"
| "for_into i s marks c =
    (case i of
      Into_binding t \<Rightarrow> (if marks then taint_names (target_names t) s c else c)
    | Into_expr x \<Rightarrow>
        let c' = assign_target x s No_expr c
        in if marks then taint_names (target_names x) s c' else c')"
| "func_literal f s c =
    (case f of Func nd p _ async generator ps r body \<Rightarrow>
      let c1 = (if async \<or> generator then violate p Rule_async c else c);
          (s', c2) = function_scope nd s ps r body c1
      in statements body s' (parameters ps s' c2))"
| "class_elements [] s c = c"
| "class_elements (e # es) s c =
    class_elements es s
      (case e of
        Method f \<Rightarrow> func_literal f s c
      | Field x \<Rightarrow> expression x s c
      | Static_block p \<Rightarrow> violate p Rule_module_state c)"
| "statement st s c =
    (case st of
      No_stmt \<Rightarrow> c
    | Expr_stmt _ x \<Rightarrow> expression x s c
    | Variable_stmt _ bs \<Rightarrow> bindings bs s c
    | Lexical_decl _ _ bs \<Rightarrow> bindings bs s c
    | Function_decl f \<Rightarrow> func_literal f s c
    | Class_decl _ _ super es \<Rightarrow> class_elements es s (expression super s c)
    | Block_stmt _ ss \<Rightarrow> statements ss s c
    | Return_stmt _ x \<Rightarrow> expression x s c
    | Throw_stmt _ x \<Rightarrow> expression x s c
    | If_stmt _ t a b \<Rightarrow> statement b s (statement a s (expression t s c))
    | For_stmt _ i t u b \<Rightarrow>
        statement b s (expression u s (expression t s
          (case i of No_init \<Rightarrow> c | Init_expr x \<Rightarrow> expression x s c | Init_bindings bs \<Rightarrow> bindings bs s c)))
    | For_in _ i x b \<Rightarrow> statement b s (for_into i s False (expression x s c))
    | For_of p await i x b \<Rightarrow>
        let c' = expression x s (if await then violate p Rule_async c else c)
        in statement b s (for_into i s (reaching x s c') c')
    | While_stmt _ t b \<Rightarrow> statement b s (expression t s c)
    | Do_while _ b t \<Rightarrow> expression t s (statement b s c)
    | Labelled_stmt _ b \<Rightarrow> statement b s c
    | Switch_stmt _ x cs \<Rightarrow> clauses cs s (expression x s c)
    | Try_stmt _ b _ h f \<Rightarrow> statements f s (statements h s (statements b s c))
    | With_stmt p \<Rightarrow> violate p Rule_unsupported c
    | Empty_stmt _ \<Rightarrow> c
    | Plain_stmt _ \<Rightarrow> c
    | Other_stmt p \<Rightarrow> violate p Rule_unsupported c)"
| "statements [] s c = c"
| "statements (st # ss) s c = statements ss s (statement st s c)"
| "clauses [] s c = c"
| "clauses (cl # cs) s c = (case cl of Clause t ss \<Rightarrow> clauses cs s (statements ss s (expression t s c)))"
  by pat_completeness auto
termination
  by (relation "measure (\<lambda>x. case x of
      Inl (Inl (Inl (e, _))) \<Rightarrow> 2 * size e
    | Inl (Inl (Inr (Inl (es, _)))) \<Rightarrow> 2 * size_list size es
    | Inl (Inl (Inr (Inr (e, _)))) \<Rightarrow> 2 * size e
    | Inl (Inr (Inl (Inl (es, _)))) \<Rightarrow> 2 * size_list size es
    | Inl (Inr (Inl (Inr (es, _)))) \<Rightarrow> 2 * size_list size es
    | Inl (Inr (Inr (Inl (bs, _)))) \<Rightarrow> 2 * size_list size bs
    | Inl (Inr (Inr (Inr (bs, _)))) \<Rightarrow> 2 * size_list size bs
    | Inr (Inl (Inl (e, _))) \<Rightarrow> 2 * size e + 1
    | Inr (Inl (Inr (Inl (i, _)))) \<Rightarrow> 2 * size i
    | Inr (Inl (Inr (Inr (f, _)))) \<Rightarrow> 2 * size f
    | Inr (Inr (Inl (Inl (es, _)))) \<Rightarrow> 2 * size_list size es
    | Inr (Inr (Inl (Inr (st, _)))) \<Rightarrow> 2 * size st
    | Inr (Inr (Inr (Inl (ss, _)))) \<Rightarrow> 2 * size_list size ss
    | Inr (Inr (Inr (Inr (cs, _)))) \<Rightarrow> 2 * size_list size cs)") simp_all

declare expression.simps [simp del] pattern_defaults.simps [simp del] assign_target.simps [simp del]
  for_into.simps [simp del] func_literal.simps [simp del] statement.simps [simp del]

end
