(* ===== verification/ScriptNodes.thy ===== *)
theory ScriptNodes
  imports ScriptCheck
begin

section \<open>The functions of a script\<close>

text \<open>The nodes of the functions written inside each part of a script: those a walk over it can enter.\<close>

primrec expr_nodes :: "expr \<Rightarrow> nat set"
  and bind_nodes :: "bind \<Rightarrow> nat set"
  and func_nodes :: "func \<Rightarrow> nat set"
  and body_nodes :: "body \<Rightarrow> nat set"
  and element_nodes :: "element \<Rightarrow> nat set"
  and stmt_nodes :: "stmt \<Rightarrow> nat set"
  and init_nodes :: "initializer \<Rightarrow> nat set"
  and into_nodes :: "into \<Rightarrow> nat set"
  and clause_nodes :: "clause \<Rightarrow> nat set" where
  "expr_nodes No_expr = {}"
| "expr_nodes (Ident p n) = {}"
| "expr_nodes (This_expr p) = {}"
| "expr_nodes (Meta_property p) = {}"
| "expr_nodes (Await_expr p e) = expr_nodes e"
| "expr_nodes (Yield_expr p e) = expr_nodes e"
| "expr_nodes (Function_lit f) = func_nodes f"
| "expr_nodes (Arrow_lit nd p a ps r b) = insert nd (\<Union> (set (map bind_nodes ps)) \<union> expr_nodes r \<union> body_nodes b)"
| "expr_nodes (Class_lit p e es) = expr_nodes e \<union> \<Union> (set (map element_nodes es))"
| "expr_nodes (Assign_expr p l r) = expr_nodes l \<union> expr_nodes r"
| "expr_nodes (Unary_expr p op e) = expr_nodes e"
| "expr_nodes (Dot_expr p e ip n) = expr_nodes e"
| "expr_nodes (Private_dot p e) = expr_nodes e"
| "expr_nodes (Bracket_expr p l m) = expr_nodes l \<union> expr_nodes m"
| "expr_nodes (Call_expr p f as) = expr_nodes f \<union> \<Union> (set (map expr_nodes as))"
| "expr_nodes (New_expr p f as) = expr_nodes f \<union> \<Union> (set (map expr_nodes as))"
| "expr_nodes (Binary_expr p op a b) = expr_nodes a \<union> expr_nodes b"
| "expr_nodes (Conditional_expr p t a b) = expr_nodes t \<union> expr_nodes a \<union> expr_nodes b"
| "expr_nodes (Sequence_expr p es) = \<Union> (set (map expr_nodes es))"
| "expr_nodes (Array_lit p es) = \<Union> (set (map expr_nodes es))"
| "expr_nodes (Object_lit p es) = \<Union> (set (map expr_nodes es))"
| "expr_nodes (Property_keyed p c k v) = expr_nodes k \<union> expr_nodes v"
| "expr_nodes (Property_short p n i) = expr_nodes i"
| "expr_nodes (Spread_expr p e) = expr_nodes e"
| "expr_nodes (Template_lit p t es) = expr_nodes t \<union> \<Union> (set (map expr_nodes es))"
| "expr_nodes (Optional_chain p e) = expr_nodes e"
| "expr_nodes (Optional_expr p e) = expr_nodes e"
| "expr_nodes (Array_pattern p es r) = \<Union> (set (map expr_nodes es)) \<union> expr_nodes r"
| "expr_nodes (Object_pattern p es r) = \<Union> (set (map expr_nodes es)) \<union> expr_nodes r"
| "expr_nodes (Binding_expr p b) = bind_nodes b"
| "expr_nodes (Literal p v) = {}"
| "expr_nodes (Other_expr p) = {}"
| "bind_nodes (Bind t e) = expr_nodes t \<union> expr_nodes e"
| "func_nodes (Func nd p n a g ps r b) =
    insert nd (\<Union> (set (map bind_nodes ps)) \<union> expr_nodes r \<union> \<Union> (set (map stmt_nodes b)))"
| "body_nodes (Block_body b) = \<Union> (set (map stmt_nodes b))"
| "body_nodes (Expr_body e) = expr_nodes e"
| "element_nodes (Method f) = func_nodes f"
| "element_nodes (Field e) = expr_nodes e"
| "element_nodes (Static_block p) = {}"
| "stmt_nodes No_stmt = {}"
| "stmt_nodes (Expr_stmt p e) = expr_nodes e"
| "stmt_nodes (Variable_stmt p bs) = \<Union> (set (map bind_nodes bs))"
| "stmt_nodes (Lexical_decl p k bs) = \<Union> (set (map bind_nodes bs))"
| "stmt_nodes (Function_decl f) = func_nodes f"
| "stmt_nodes (Class_decl p n e es) = expr_nodes e \<union> \<Union> (set (map element_nodes es))"
| "stmt_nodes (Block_stmt p ss) = \<Union> (set (map stmt_nodes ss))"
| "stmt_nodes (Return_stmt p e) = expr_nodes e"
| "stmt_nodes (Throw_stmt p e) = expr_nodes e"
| "stmt_nodes (If_stmt p t a b) = expr_nodes t \<union> stmt_nodes a \<union> stmt_nodes b"
| "stmt_nodes (For_stmt p i t u b) = init_nodes i \<union> expr_nodes t \<union> expr_nodes u \<union> stmt_nodes b"
| "stmt_nodes (For_in p i e b) = into_nodes i \<union> expr_nodes e \<union> stmt_nodes b"
| "stmt_nodes (For_of p a i e b) = into_nodes i \<union> expr_nodes e \<union> stmt_nodes b"
| "stmt_nodes (While_stmt p t b) = expr_nodes t \<union> stmt_nodes b"
| "stmt_nodes (Do_while p b t) = stmt_nodes b \<union> expr_nodes t"
| "stmt_nodes (Labelled_stmt p b) = stmt_nodes b"
| "stmt_nodes (Switch_stmt p e cs) = expr_nodes e \<union> \<Union> (set (map clause_nodes cs))"
| "stmt_nodes (Try_stmt p b r h f) =
    \<Union> (set (map stmt_nodes b)) \<union> expr_nodes r \<union> \<Union> (set (map stmt_nodes h)) \<union> \<Union> (set (map stmt_nodes f))"
| "stmt_nodes (With_stmt p) = {}"
| "stmt_nodes (Empty_stmt p) = {}"
| "stmt_nodes (Plain_stmt p) = {}"
| "stmt_nodes (Other_stmt p) = {}"
| "init_nodes No_init = {}"
| "init_nodes (Init_expr e) = expr_nodes e"
| "init_nodes (Init_bindings bs) = \<Union> (set (map bind_nodes bs))"
| "into_nodes (Into_binding t) = expr_nodes t"
| "into_nodes (Into_expr e) = expr_nodes e"
| "clause_nodes (Clause e ss) = expr_nodes e \<union> \<Union> (set (map stmt_nodes ss))"

definition all_nodes :: "stmt list \<Rightarrow> nat set" where
  "all_nodes ss = \<Union> (set (map stmt_nodes ss))"


lemma finite_nodes_of:
  "finite (expr_nodes e)" "finite (bind_nodes b)" "finite (func_nodes f)" "finite (body_nodes y)"
  "finite (element_nodes l)" "finite (stmt_nodes st)" "finite (init_nodes i)" "finite (into_nodes t)"
  "finite (clause_nodes cl)"
  by (induction e and b and f and y and l and st and i and t and cl) auto

lemma finite_all_nodes: "finite (all_nodes ss)"
  using finite_nodes_of(6) by (auto simp: all_nodes_def)

end
