(* ===== verification/ScriptWalk.thy ===== *)
theory ScriptWalk
  imports ScriptNodes
begin

section \<open>Invariants of the walk\<close>

text \<open>
  What every function of the walk keeps is proved once, in the locale \<open>walk_invariant\<close>: a predicate that
  reporting, marking a binding and making a function's scope keep is kept by the whole walk. The bindings a
  scope names are always in the store (\<open>well_scoped\<close>), which the walk keeps too.
\<close>

definition scope_ok :: "nat \<Rightarrow> scope \<Rightarrow> bool" where
  "scope_ok k s \<longleftrightarrow> (\<forall>f \<in> set s. \<forall>x \<in> set f. snd x < k)"

definition well_scoped :: "checker \<Rightarrow> bool" where
  "well_scoped c \<longleftrightarrow> (\<forall>nd s. scopes c nd = Some s \<longrightarrow> scope_ok (length (store c)) s)"

lemma scope_ok_mono: "scope_ok k s \<Longrightarrow> k \<le> l \<Longrightarrow> scope_ok l s"
  by (force simp: scope_ok_def)

lemma resolve_ok: "resolve s n = Some a \<Longrightarrow> scope_ok k s \<Longrightarrow> a < k"
  by (induction s n rule: resolve.induct) (force simp: scope_ok_def split: option.splits dest: map_of_SomeD)+

lemma root_binding_ok: "root_binding e s = Some a \<Longrightarrow> scope_ok k s \<Longrightarrow> a < k"
  by (auto simp: root_binding_def split: expr.splits intro: resolve_ok)

text \<open>Declaring names only adds bindings.\<close>

lemma declare_name_grows:
  assumes "\<forall>x \<in> set f. snd x < length bs"
  shows "\<exists>new. fst (declare_name n b (bs, f)) = bs @ new \<and>
    (\<forall>x \<in> set (snd (declare_name n b (bs, f))). snd x < length (bs @ new))"
  using assms by (auto simp: declare_name_def intro: less_SucI)

lemma declare_all_grows:
  "\<forall>x \<in> set f. snd x < length bs \<Longrightarrow>
    \<exists>new. fst (declare_all i ns (bs, f)) = bs @ new \<and>
      (\<forall>x \<in> set (snd (declare_all i ns (bs, f))). snd x < length (bs @ new))"
proof (induction ns arbitrary: bs f)
  case Nil
  then show ?case
    by (simp add: declare_all_def)
next
  case (Cons n ns)
  obtain bs' f' where d: "declare_name n (new_binding False i) (bs, f) = (bs', f')"
    by fastforce
  with declare_name_grows [OF Cons.prems, of n "new_binding False i"]
  obtain new where 1: "bs' = bs @ new" "\<forall>x \<in> set f'. snd x < length bs'"
    by auto
  from Cons.IH [OF 1(2)] obtain more where
    "fst (declare_all i ns (bs', f')) = bs' @ more"
    "\<forall>x \<in> set (snd (declare_all i ns (bs', f'))). snd x < length (bs' @ more)"
    by blast
  moreover have "declare_all i (n # ns) (bs, f) = declare_all i ns (bs', f')"
    using d by (simp add: declare_all_def)
  ultimately show ?case
    using 1 by auto
qed

text \<open>The scope of a function already met is the one made then; a new one extends the store.\<close>

lemma function_scope_old: "scopes c nd = Some s \<Longrightarrow> function_scope nd parent ps r b c = (s, c)"
  by (simp add: function_scope_def)

lemma function_scope_new:
  assumes "scopes c nd = None"
  obtains f new where
    "function_scope nd parent ps r b c =
      (f # parent, c\<lparr>store := store c @ new, scopes := (scopes c)(nd \<mapsto> f # parent)\<rparr>)"
    "scope_ok (length (store c @ new)) [f]"
proof -
  obtain bs f where 1: "declare_all (profile c = profile_handwritten) (parameter_names ps r) (store c, []) = (bs, f)"
    by fastforce
  with declare_all_grows [of "[]" "store c" "profile c = profile_handwritten" "parameter_names ps r"]
  obtain m where m: "bs = store c @ m" "\<forall>x \<in> set f. snd x < length bs"
    by auto
  obtain bs' f' where 2: "declare_all False (hoisted b) (bs, f) = (bs', f')"
    by fastforce
  with declare_all_grows [OF m(2), of False "hoisted b"] obtain m' where
    m': "bs' = bs @ m'" "\<forall>x \<in> set f'. snd x < length bs'"
    by auto
  show thesis
  proof (rule that)
    show "function_scope nd parent ps r b c =
        (f' # parent, c\<lparr>store := store c @ (m @ m'), scopes := (scopes c)(nd \<mapsto> f' # parent)\<rparr>)"
      using assms 1 2 m(1) m'(1) by (simp add: function_scope_def)
    show "scope_ok (length (store c @ (m @ m'))) [f']"
      using m(1) m' by (simp add: scope_ok_def)
  qed
qed

lemma reporting_fields [simp]:
  "store (violate p r c) = store c" "scopes (violate p r c) = scopes c" "changed (violate p r c) = changed c"
  by (auto simp: violate_def report_def Let_def split: option.splits)

lemma marking_fields [simp]:
  "length (store (taint a c)) = length (store c)" "scopes (taint a c) = scopes c"
  "length (store (hold a c)) = length (store c)" "scopes (hold a c) = scopes c"
  by (auto simp: taint_def hold_def split: option.splits)

text \<open>The walk, one constructor at a time; so it is evaluated too.\<close>

lemmas expression_simps [code] =
  expression.simps [of No_expr, unfolded expr.case]
  expression.simps [of "Ident p n" for p n, unfolded expr.case]
  expression.simps [of "This_expr p" for p, unfolded expr.case]
  expression.simps [of "Meta_property p" for p, unfolded expr.case]
  expression.simps [of "Await_expr p x" for p x, unfolded expr.case]
  expression.simps [of "Yield_expr p x" for p x, unfolded expr.case]
  expression.simps [of "Function_lit f" for f, unfolded expr.case]
  expression.simps [of "Arrow_lit nd p async ps r b" for nd p async ps r b, unfolded expr.case]
  expression.simps [of "Class_lit p x es" for p x es, unfolded expr.case]
  expression.simps [of "Assign_expr p l r" for p l r, unfolded expr.case]
  expression.simps [of "Unary_expr p op x" for p op x, unfolded expr.case]
  expression.simps [of "Dot_expr p x ip n" for p x ip n, unfolded expr.case]
  expression.simps [of "Private_dot p x" for p x, unfolded expr.case]
  expression.simps [of "Bracket_expr p l m" for p l m, unfolded expr.case]
  expression.simps [of "Call_expr p f as" for p f as, unfolded expr.case]
  expression.simps [of "New_expr p f as" for p f as, unfolded expr.case]
  expression.simps [of "Binary_expr p op a b" for p op a b, unfolded expr.case]
  expression.simps [of "Conditional_expr p t a b" for p t a b, unfolded expr.case]
  expression.simps [of "Sequence_expr p es" for p es, unfolded expr.case]
  expression.simps [of "Array_lit p es" for p es, unfolded expr.case]
  expression.simps [of "Object_lit p es" for p es, unfolded expr.case]
  expression.simps [of "Property_keyed p k a b" for p k a b, unfolded expr.case]
  expression.simps [of "Property_short p n i" for p n i, unfolded expr.case]
  expression.simps [of "Spread_expr p x" for p x, unfolded expr.case]
  expression.simps [of "Template_lit p t es" for p t es, unfolded expr.case]
  expression.simps [of "Optional_chain p x" for p x, unfolded expr.case]
  expression.simps [of "Optional_expr p x" for p x, unfolded expr.case]
  expression.simps [of "Array_pattern p es r" for p es r, unfolded expr.case]
  expression.simps [of "Object_pattern p es r" for p es r, unfolded expr.case]
  expression.simps [of "Binding_expr p b" for p b, unfolded expr.case]
  expression.simps [of "Literal p v" for p v, unfolded expr.case]
  expression.simps [of "Other_expr p" for p, unfolded expr.case]

lemmas statement_simps [code] =
  statement.simps [of No_stmt, unfolded stmt.case]
  statement.simps [of "Expr_stmt p x" for p x, unfolded stmt.case]
  statement.simps [of "Variable_stmt p bs" for p bs, unfolded stmt.case]
  statement.simps [of "Lexical_decl p k bs" for p k bs, unfolded stmt.case]
  statement.simps [of "Function_decl f" for f, unfolded stmt.case]
  statement.simps [of "Class_decl p n x es" for p n x es, unfolded stmt.case]
  statement.simps [of "Block_stmt p ss" for p ss, unfolded stmt.case]
  statement.simps [of "Return_stmt p x" for p x, unfolded stmt.case]
  statement.simps [of "Throw_stmt p x" for p x, unfolded stmt.case]
  statement.simps [of "If_stmt p t a b" for p t a b, unfolded stmt.case]
  statement.simps [of "For_stmt p i t u b" for p i t u b, unfolded stmt.case]
  statement.simps [of "For_in p i x b" for p i x b, unfolded stmt.case]
  statement.simps [of "For_of p a i x b" for p a i x b, unfolded stmt.case]
  statement.simps [of "While_stmt p t b" for p t b, unfolded stmt.case]
  statement.simps [of "Do_while p b t" for p b t, unfolded stmt.case]
  statement.simps [of "Labelled_stmt p b" for p b, unfolded stmt.case]
  statement.simps [of "Switch_stmt p x cs" for p x cs, unfolded stmt.case]
  statement.simps [of "Try_stmt p b r h f" for p b r h f, unfolded stmt.case]
  statement.simps [of "With_stmt p" for p, unfolded stmt.case]
  statement.simps [of "Empty_stmt p" for p, unfolded stmt.case]
  statement.simps [of "Plain_stmt p" for p, unfolded stmt.case]
  statement.simps [of "Other_stmt p" for p, unfolded stmt.case]

lemmas pattern_defaults_simps [code] =
  pattern_defaults.simps [of No_expr, unfolded expr.case]
  pattern_defaults.simps [of "Ident p n" for p n, unfolded expr.case]
  pattern_defaults.simps [of "This_expr p" for p, unfolded expr.case]
  pattern_defaults.simps [of "Meta_property p" for p, unfolded expr.case]
  pattern_defaults.simps [of "Await_expr p x" for p x, unfolded expr.case]
  pattern_defaults.simps [of "Yield_expr p x" for p x, unfolded expr.case]
  pattern_defaults.simps [of "Function_lit f" for f, unfolded expr.case]
  pattern_defaults.simps [of "Arrow_lit nd p async ps r b" for nd p async ps r b, unfolded expr.case]
  pattern_defaults.simps [of "Class_lit p x es" for p x es, unfolded expr.case]
  pattern_defaults.simps [of "Assign_expr p l r" for p l r, unfolded expr.case]
  pattern_defaults.simps [of "Unary_expr p op x" for p op x, unfolded expr.case]
  pattern_defaults.simps [of "Dot_expr p x ip n" for p x ip n, unfolded expr.case]
  pattern_defaults.simps [of "Private_dot p x" for p x, unfolded expr.case]
  pattern_defaults.simps [of "Bracket_expr p l m" for p l m, unfolded expr.case]
  pattern_defaults.simps [of "Call_expr p f as" for p f as, unfolded expr.case]
  pattern_defaults.simps [of "New_expr p f as" for p f as, unfolded expr.case]
  pattern_defaults.simps [of "Binary_expr p op a b" for p op a b, unfolded expr.case]
  pattern_defaults.simps [of "Conditional_expr p t a b" for p t a b, unfolded expr.case]
  pattern_defaults.simps [of "Sequence_expr p es" for p es, unfolded expr.case]
  pattern_defaults.simps [of "Array_lit p es" for p es, unfolded expr.case]
  pattern_defaults.simps [of "Object_lit p es" for p es, unfolded expr.case]
  pattern_defaults.simps [of "Property_keyed p k a b" for p k a b, unfolded expr.case]
  pattern_defaults.simps [of "Property_short p n i" for p n i, unfolded expr.case]
  pattern_defaults.simps [of "Spread_expr p x" for p x, unfolded expr.case]
  pattern_defaults.simps [of "Template_lit p t es" for p t es, unfolded expr.case]
  pattern_defaults.simps [of "Optional_chain p x" for p x, unfolded expr.case]
  pattern_defaults.simps [of "Optional_expr p x" for p x, unfolded expr.case]
  pattern_defaults.simps [of "Array_pattern p es r" for p es r, unfolded expr.case]
  pattern_defaults.simps [of "Object_pattern p es r" for p es r, unfolded expr.case]
  pattern_defaults.simps [of "Binding_expr p b" for p b, unfolded expr.case]
  pattern_defaults.simps [of "Literal p v" for p v, unfolded expr.case]
  pattern_defaults.simps [of "Other_expr p" for p, unfolded expr.case]

lemmas assign_target_simps [code] =
  assign_target.simps [of No_expr, unfolded expr.case]
  assign_target.simps [of "Ident p n" for p n, unfolded expr.case]
  assign_target.simps [of "This_expr p" for p, unfolded expr.case]
  assign_target.simps [of "Meta_property p" for p, unfolded expr.case]
  assign_target.simps [of "Await_expr p x" for p x, unfolded expr.case]
  assign_target.simps [of "Yield_expr p x" for p x, unfolded expr.case]
  assign_target.simps [of "Function_lit f" for f, unfolded expr.case]
  assign_target.simps [of "Arrow_lit nd p async ps r b" for nd p async ps r b, unfolded expr.case]
  assign_target.simps [of "Class_lit p x es" for p x es, unfolded expr.case]
  assign_target.simps [of "Assign_expr p l r" for p l r, unfolded expr.case]
  assign_target.simps [of "Unary_expr p op x" for p op x, unfolded expr.case]
  assign_target.simps [of "Dot_expr p x ip n" for p x ip n, unfolded expr.case]
  assign_target.simps [of "Private_dot p x" for p x, unfolded expr.case]
  assign_target.simps [of "Bracket_expr p l m" for p l m, unfolded expr.case]
  assign_target.simps [of "Call_expr p f as" for p f as, unfolded expr.case]
  assign_target.simps [of "New_expr p f as" for p f as, unfolded expr.case]
  assign_target.simps [of "Binary_expr p op a b" for p op a b, unfolded expr.case]
  assign_target.simps [of "Conditional_expr p t a b" for p t a b, unfolded expr.case]
  assign_target.simps [of "Sequence_expr p es" for p es, unfolded expr.case]
  assign_target.simps [of "Array_lit p es" for p es, unfolded expr.case]
  assign_target.simps [of "Object_lit p es" for p es, unfolded expr.case]
  assign_target.simps [of "Property_keyed p k a b" for p k a b, unfolded expr.case]
  assign_target.simps [of "Property_short p n i" for p n i, unfolded expr.case]
  assign_target.simps [of "Spread_expr p x" for p x, unfolded expr.case]
  assign_target.simps [of "Template_lit p t es" for p t es, unfolded expr.case]
  assign_target.simps [of "Optional_chain p x" for p x, unfolded expr.case]
  assign_target.simps [of "Optional_expr p x" for p x, unfolded expr.case]
  assign_target.simps [of "Array_pattern p es r" for p es r, unfolded expr.case]
  assign_target.simps [of "Object_pattern p es r" for p es r, unfolded expr.case]
  assign_target.simps [of "Binding_expr p b" for p b, unfolded expr.case]
  assign_target.simps [of "Literal p v" for p v, unfolded expr.case]
  assign_target.simps [of "Other_expr p" for p, unfolded expr.case]

lemmas for_into_simps [code] =
  for_into.simps [of "Into_binding t" for t, unfolded into.case]
  for_into.simps [of "Into_expr e" for e, unfolded into.case]

locale walk_invariant =
  fixes U :: "nat set" and P :: "checker \<Rightarrow> bool"
  assumes keeps_violate: "P c \<Longrightarrow> P (violate p r c)"
    and keeps_taint: "P c \<Longrightarrow> a < length (store c) \<Longrightarrow> P (taint (Some a) c)"
    and keeps_hold: "P c \<Longrightarrow> a < length (store c) \<Longrightarrow> P (hold (Some a) c)"
    and keeps_scope: "P c \<Longrightarrow> scopes c nd = None \<Longrightarrow> nd \<in> U \<Longrightarrow>
      P (c\<lparr>store := store c @ new, scopes := (scopes c)(nd \<mapsto> f # parent)\<rparr>)"
begin

definition safe :: "nat \<Rightarrow> checker \<Rightarrow> bool" where
  "safe k c \<longleftrightarrow> P c \<and> well_scoped c \<and> k \<le> length (store c)"

lemma inv_mono: "safe l c \<Longrightarrow> k \<le> l \<Longrightarrow> safe k c"
  by (simp add: safe_def)

lemma inv_violate [intro!]: "safe k c \<Longrightarrow> safe k (violate p r c)"
  by (simp add: safe_def well_scoped_def keeps_violate)

lemma inv_taint: "safe k c \<Longrightarrow> (\<And>i. a = Some i \<Longrightarrow> i < k) \<Longrightarrow> safe k (taint a c)"
  by (cases a) (auto simp: safe_def well_scoped_def keeps_taint, simp add: taint_def)

lemma inv_hold: "safe k c \<Longrightarrow> (\<And>i. a = Some i \<Longrightarrow> i < k) \<Longrightarrow> safe k (hold a c)"
  by (cases a) (auto simp: safe_def well_scoped_def keeps_hold, simp add: hold_def)

lemma inv_names [intro!]:
  assumes "safe k c" "scope_ok k s"
  shows "safe k (taint (resolve s n) c)" "safe k (hold (resolve s n) c)" "safe k (hold (root_binding e s) c)"
  using assms by (auto intro!: inv_taint inv_hold dest: resolve_ok root_binding_ok)

lemma inv_function_scope:
  assumes "safe k c" "scope_ok k s" "nd \<in> U" "function_scope nd s ps r b c = (s', c')"
  shows "safe (length (store c')) c' \<and> scope_ok (length (store c')) s' \<and> k \<le> length (store c')"
proof (cases "scopes c nd")
  case None
  then obtain f new where 1: "function_scope nd s ps r b c =
      (f # s, c\<lparr>store := store c @ new, scopes := (scopes c)(nd \<mapsto> f # s)\<rparr>)"
    "scope_ok (length (store c @ new)) [f]"
    by (rule function_scope_new)
  moreover have "scope_ok (length (store c @ new)) (f # s)"
    using 1(2) scope_ok_mono [OF assms(2), of "length (store c @ new)"] assms(1) by (simp add: scope_ok_def safe_def)
  moreover have "well_scoped (c\<lparr>store := store c @ new, scopes := (scopes c)(nd \<mapsto> f # s)\<rparr>)"
    using assms(1) \<open>scope_ok (length (store c @ new)) (f # s)\<close>
    by (auto simp: safe_def well_scoped_def intro: scope_ok_mono [OF _ le_add1])
  ultimately show ?thesis
    using assms None by (auto simp: safe_def intro: keeps_scope)
next
  case (Some t)
  then show ?thesis
    using assms by (auto simp: function_scope_old safe_def well_scoped_def)
qed

lemma inv_bind_value [intro!]: "safe k c \<Longrightarrow> scope_ok k s \<Longrightarrow> safe k (bind_value (resolve s n) v t c)"
  by (auto simp: bind_value_def)

lemma inv_taint_names [intro!]: "safe k c \<Longrightarrow> scope_ok k s \<Longrightarrow> safe k (taint_names ns s c)"
  unfolding taint_names_def by (induction ns arbitrary: c) auto

lemma inv_mutates [intro!]: "safe k c \<Longrightarrow> safe k (mutates ob s p c)"
  by (cases "member_root ob") (auto simp: mutates_def Let_def split: option.split)

lemma inv_changes_member_of [intro!]: "safe k c \<Longrightarrow> safe k (changes_member_of t s p c)"
  by (cases t) (auto simp: changes_member_of_def)

lemma inv_call_effects [intro!]: "safe k c \<Longrightarrow> scope_ok k s \<Longrightarrow> safe k (call_effects p f as s c)"
  by (cases f) (auto simp: call_effects_def Let_def)

lemma inv_assign_name [intro!]: "safe k c \<Longrightarrow> scope_ok k s \<Longrightarrow> safe k (assign_name p n s v c)"
  by (auto simp: assign_name_def split: option.split dest: inv_bind_value [where n = n and v = v and t = s])

lemma inv_assign_pattern_name [intro!]: "safe k c \<Longrightarrow> scope_ok k s \<Longrightarrow> safe k (assign_pattern_name s v x c)"
  by (auto simp: assign_pattern_name_def split: option.split prod.split intro!: inv_taint dest: resolve_ok)

lemma inv_assign_pattern [intro!]: "safe k c \<Longrightarrow> scope_ok k s \<Longrightarrow> safe k (fold (assign_pattern_name s v) ns c)"
  by (induction ns arbitrary: c) auto

lemma inv_checks [intro!]:
  assumes "safe k c"
  shows "safe k (check_name p n s c)" "safe k (check_property p n c)" "safe k (check_member m c)"
  using assms by (auto simp: check_name_def check_property_def check_member_def split: expr.split literal.split)

lemma inv_bind_declared [intro!]: "safe k c \<Longrightarrow> scope_ok k s \<Longrightarrow> safe k (bind_declared t e s c)"
  by (cases t) (auto simp: bind_declared_def)

text \<open>The walk keeps the invariant, over code whose functions are among \<open>U\<close>.\<close>

definition walks :: "(scope \<Rightarrow> checker \<Rightarrow> checker) \<Rightarrow> bool" where
  "walks w \<longleftrightarrow> (\<forall>k s c. scope_ok k s \<longrightarrow> safe k c \<longrightarrow> safe k (w s c))"

lemma walksI: "(\<And>k s c. scope_ok k s \<Longrightarrow> safe k c \<Longrightarrow> safe k (w s c)) \<Longrightarrow> walks w"
  by (simp add: walks_def)

lemma walksD: "walks w \<Longrightarrow> scope_ok k s \<Longrightarrow> safe k c \<Longrightarrow> safe k (w s c)"
  by (simp add: walks_def)

definition expr_walks :: "expr \<Rightarrow> bool" where
  "expr_walks e \<longleftrightarrow> walks (expression e) \<and> walks (pattern_defaults e) \<and> walks (property_defaults [e]) \<and>
    (\<forall>v. walks (\<lambda>s. assign_target e s v))"

definition bind_walks :: "bind \<Rightarrow> bool" where
  "bind_walks b \<longleftrightarrow> walks (bindings [b]) \<and> walks (parameters [b])"

definition element_walks :: "element \<Rightarrow> bool" where
  "element_walks l \<longleftrightarrow> walks (class_elements [l])"

definition clause_walks :: "clause \<Rightarrow> bool" where
  "clause_walks cl \<longleftrightarrow> walks (clauses [cl])"

definition stmt_walks :: "stmt \<Rightarrow> bool" where
  "stmt_walks st \<longleftrightarrow> walks (statement st)"

definition func_walks :: "func \<Rightarrow> bool" where
  "func_walks f \<longleftrightarrow> walks (func_literal f)"

definition into_walks :: "into \<Rightarrow> bool" where
  "into_walks i \<longleftrightarrow> (\<forall>marks. walks (\<lambda>s. for_into i s marks))"

definition body_walks :: "body \<Rightarrow> bool" where
  "body_walks b \<longleftrightarrow> (case b of Block_body ss \<Rightarrow> walks (statements ss) | Expr_body e \<Rightarrow> walks (expression e))"

definition init_walks :: "initializer \<Rightarrow> bool" where
  "init_walks i \<longleftrightarrow>
    (case i of No_init \<Rightarrow> True | Init_expr e \<Rightarrow> walks (expression e) | Init_bindings bs \<Rightarrow> walks (bindings bs))"

lemma walk_intros:
  "(\<And>k s c. scope_ok k s \<Longrightarrow> safe k c \<Longrightarrow> safe k (expression e s c)) \<Longrightarrow>
    (\<And>k s c. scope_ok k s \<Longrightarrow> safe k c \<Longrightarrow> safe k (pattern_defaults e s c)) \<Longrightarrow>
    (\<And>k s c. scope_ok k s \<Longrightarrow> safe k c \<Longrightarrow> safe k (property_defaults [e] s c)) \<Longrightarrow>
    (\<And>k s v c. scope_ok k s \<Longrightarrow> safe k c \<Longrightarrow> safe k (assign_target e s v c)) \<Longrightarrow> expr_walks e"
  "(\<And>k s c. scope_ok k s \<Longrightarrow> safe k c \<Longrightarrow> safe k (bindings [b] s c)) \<Longrightarrow>
    (\<And>k s c. scope_ok k s \<Longrightarrow> safe k c \<Longrightarrow> safe k (parameters [b] s c)) \<Longrightarrow> bind_walks b"
  "(\<And>k s c. scope_ok k s \<Longrightarrow> safe k c \<Longrightarrow> safe k (class_elements [l] s c)) \<Longrightarrow> element_walks l"
  "(\<And>k s c. scope_ok k s \<Longrightarrow> safe k c \<Longrightarrow> safe k (clauses [cl] s c)) \<Longrightarrow> clause_walks cl"
  "(\<And>k s c. scope_ok k s \<Longrightarrow> safe k c \<Longrightarrow> safe k (statement st s c)) \<Longrightarrow> stmt_walks st"
  "(\<And>k s c. scope_ok k s \<Longrightarrow> safe k c \<Longrightarrow> safe k (func_literal f s c)) \<Longrightarrow> func_walks f"
  "(\<And>k s m c. scope_ok k s \<Longrightarrow> safe k c \<Longrightarrow> safe k (for_into i s m c)) \<Longrightarrow> into_walks i"
  by (auto simp: expr_walks_def bind_walks_def element_walks_def clause_walks_def stmt_walks_def func_walks_def
      into_walks_def walks_def)

lemma code_walksD [intro]:
  "stmt_walks st \<Longrightarrow> scope_ok k s \<Longrightarrow> safe k c \<Longrightarrow> safe k (statement st s c)"
  "func_walks f \<Longrightarrow> scope_ok k s \<Longrightarrow> safe k c \<Longrightarrow> safe k (func_literal f s c)"
  "into_walks i \<Longrightarrow> scope_ok k s \<Longrightarrow> safe k c \<Longrightarrow> safe k (for_into i s m c)"
  by (auto simp: stmt_walks_def func_walks_def into_walks_def walks_def)

lemma part_walks_simps:
  "init_walks No_init" "init_walks (Init_expr e) \<longleftrightarrow> walks (expression e)"
  "init_walks (Init_bindings bs) \<longleftrightarrow> walks (bindings bs)"
  "body_walks (Block_body ss) \<longleftrightarrow> walks (statements ss)" "body_walks (Expr_body e) \<longleftrightarrow> walks (expression e)"
  by (simp_all add: init_walks_def body_walks_def)

lemma init_walksD [intro]:
  "init_walks i \<Longrightarrow> scope_ok k s \<Longrightarrow> safe k c \<Longrightarrow>
    safe k (case i of No_init \<Rightarrow> c | Init_expr x \<Rightarrow> expression x s c | Init_bindings bs \<Rightarrow> bindings bs s c)"
  by (cases i) (auto simp: init_walks_def walks_def)

lemma expr_walksD [intro]:
  assumes "expr_walks e" "scope_ok k s" "safe k c"
  shows "safe k (expression e s c)" "safe k (pattern_defaults e s c)" "safe k (property_defaults [e] s c)"
    "safe k (assign_target e s v c)"
  using assms by (auto simp: expr_walks_def walks_def)

lemma bind_walksD [intro]:
  assumes "bind_walks b" "scope_ok k s" "safe k c"
  shows "safe k (bindings [b] s c)" "safe k (parameters [b] s c)"
  using assms by (auto simp: bind_walks_def walks_def)

lemma walks_lists [intro]:
  "\<forall>e \<in> set es. expr_walks e \<Longrightarrow> scope_ok k s \<Longrightarrow> safe k c \<Longrightarrow> safe k (expressions es s c)"
  "\<forall>e \<in> set es. expr_walks e \<Longrightarrow> scope_ok k s \<Longrightarrow> safe k c \<Longrightarrow> safe k (element_defaults es s c)"
  "\<forall>e \<in> set es. expr_walks e \<Longrightarrow> scope_ok k s \<Longrightarrow> safe k c \<Longrightarrow> safe k (property_defaults es s c)"
  "\<forall>b \<in> set bs. bind_walks b \<Longrightarrow> scope_ok k s \<Longrightarrow> safe k c \<Longrightarrow> safe k (bindings bs s c)"
  "\<forall>b \<in> set bs. bind_walks b \<Longrightarrow> scope_ok k s \<Longrightarrow> safe k c \<Longrightarrow> safe k (parameters bs s c)"
  "\<forall>l \<in> set ls. element_walks l \<Longrightarrow> scope_ok k s \<Longrightarrow> safe k c \<Longrightarrow> safe k (class_elements ls s c)"
  "\<forall>st \<in> set ss. stmt_walks st \<Longrightarrow> scope_ok k s \<Longrightarrow> safe k c \<Longrightarrow> safe k (statements ss s c)"
  "\<forall>cl \<in> set cs. clause_walks cl \<Longrightarrow> scope_ok k s \<Longrightarrow> safe k c \<Longrightarrow> safe k (clauses cs s c)"
proof -
  show "\<forall>e \<in> set es. expr_walks e \<Longrightarrow> scope_ok k s \<Longrightarrow> safe k c \<Longrightarrow> safe k (expressions es s c)"
    by (induction es arbitrary: c) auto
  show "\<forall>e \<in> set es. expr_walks e \<Longrightarrow> scope_ok k s \<Longrightarrow> safe k c \<Longrightarrow> safe k (element_defaults es s c)"
    by (induction es arbitrary: c) auto
  show "\<forall>e \<in> set es. expr_walks e \<Longrightarrow> scope_ok k s \<Longrightarrow> safe k c \<Longrightarrow> safe k (property_defaults es s c)"
  proof (induction es arbitrary: c)
    case (Cons e es)
    have "property_defaults (e # es) s c = property_defaults es s (property_defaults [e] s c)"
      by simp
    with Cons show ?case
      by (auto simp del: property_defaults.simps)
  qed simp
  show "\<forall>b \<in> set bs. bind_walks b \<Longrightarrow> scope_ok k s \<Longrightarrow> safe k c \<Longrightarrow> safe k (bindings bs s c)"
  proof (induction bs arbitrary: c)
    case (Cons b bs)
    have "bindings (b # bs) s c = bindings bs s (bindings [b] s c)"
      by (simp split: bind.split)
    with Cons show ?case
      by (auto simp del: bindings.simps)
  qed simp
  show "\<forall>b \<in> set bs. bind_walks b \<Longrightarrow> scope_ok k s \<Longrightarrow> safe k c \<Longrightarrow> safe k (parameters bs s c)"
  proof (induction bs arbitrary: c)
    case (Cons b bs)
    have "parameters (b # bs) s c = parameters bs s (parameters [b] s c)"
      by (simp split: bind.split)
    with Cons show ?case
      by (auto simp del: parameters.simps)
  qed simp
  show "\<forall>l \<in> set ls. element_walks l \<Longrightarrow> scope_ok k s \<Longrightarrow> safe k c \<Longrightarrow> safe k (class_elements ls s c)"
  proof (induction ls arbitrary: c)
    case (Cons l ls)
    have "class_elements (l # ls) s c = class_elements ls s (class_elements [l] s c)"
      by simp
    with Cons show ?case
      by (auto simp: element_walks_def simp del: class_elements.simps dest: walksD)
  qed simp
  show "\<forall>st \<in> set ss. stmt_walks st \<Longrightarrow> scope_ok k s \<Longrightarrow> safe k c \<Longrightarrow> safe k (statements ss s c)"
    by (induction ss arbitrary: c) (auto simp: stmt_walks_def dest: walksD)
  show "\<forall>cl \<in> set cs. clause_walks cl \<Longrightarrow> scope_ok k s \<Longrightarrow> safe k c \<Longrightarrow> safe k (clauses cs s c)"
  proof (induction cs arbitrary: c)
    case (Cons cl cs)
    have "clauses (cl # cs) s c = clauses cs s (clauses [cl] s c)"
      by (simp split: clause.split)
    with Cons show ?case
      by (auto simp: clause_walks_def simp del: clauses.simps dest: walksD)
  qed simp
qed

lemma inv_enter:
  assumes "safe k c" "scope_ok k s" "nd \<in> U" "\<forall>b \<in> set ps. bind_walks b" "body_walks b"
    "function_scope nd s ps r (case b of Block_body ss \<Rightarrow> ss | Expr_body _ \<Rightarrow> []) c = (s', c')"
  shows "safe k (case b of Block_body ss \<Rightarrow> statements ss s' (parameters ps s' c')
    | Expr_body e \<Rightarrow> expression e s' (parameters ps s' c'))"
proof -
  from inv_function_scope [OF assms(1-3,6)]
  have i: "safe (length (store c')) c'" "scope_ok (length (store c')) s'" "k \<le> length (store c')"
    by auto
  then have "safe (length (store c')) (parameters ps s' c')"
    using assms(4) by blast
  with i(2) assms(5) have "safe (length (store c')) (case b of Block_body ss \<Rightarrow> statements ss s' (parameters ps s' c')
    | Expr_body e \<Rightarrow> expression e s' (parameters ps s' c'))"
    by (cases b) (auto simp: body_walks_def dest: walksD)
  then show ?thesis
    using i(3) by (rule inv_mono)
qed

lemma inv_of_walks:
  "expr_nodes e \<subseteq> U \<Longrightarrow> expr_walks e"
  "bind_nodes b \<subseteq> U \<Longrightarrow> bind_walks b"
  "func_nodes f \<subseteq> U \<Longrightarrow> func_walks f"
  "body_nodes y \<subseteq> U \<Longrightarrow> body_walks y"
  "element_nodes l \<subseteq> U \<Longrightarrow> element_walks l"
  "stmt_nodes st \<subseteq> U \<Longrightarrow> stmt_walks st"
  "init_nodes i \<subseteq> U \<Longrightarrow> init_walks i"
  "into_nodes t \<subseteq> U \<Longrightarrow> into_walks t"
  "clause_nodes cl \<subseteq> U \<Longrightarrow> clause_walks cl"
proof (induction e and b and f and y and l and st and i and t and cl)
  case (Arrow_lit nd p async ps r b)
  let ?ss = "case b of Block_body ss \<Rightarrow> ss | Expr_body _ \<Rightarrow> []"
  have w: "nd \<in> U" "\<forall>b \<in> set ps. bind_walks b" "body_walks b"
    using Arrow_lit by (auto simp: UN_subset_iff)
  have arrow: "safe k (expression (Arrow_lit nd p async ps r b) s c)" if "safe k c" "scope_ok k s" for k s c
  proof -
    let ?c = "if async then violate p Rule_async c else c"
    obtain s' c' where f: "function_scope nd s ps r ?ss ?c = (s', c')"
      by fastforce
    have "safe k ?c"
      using that(1) by auto
    from inv_enter [OF this that(2) w f] show ?thesis
      by (simp add: expression_simps f Let_def)
  qed
  show ?case
    by (intro walk_intros) (auto simp: pattern_defaults_simps assign_target_simps Let_def intro!: arrow)
next
  case (Func nd p n a g ps r b)
  show ?case
  proof (intro walk_intros)
    fix k s c
    assume i: "scope_ok k s" "safe k c"
    let ?c = "if a \<or> g then violate p Rule_async c else c"
    obtain s' c' where f: "function_scope nd s ps r b ?c = (s', c')"
      by fastforce
    have "safe k ?c"
      using i(2) by auto
    moreover have "nd \<in> U" "\<forall>b \<in> set ps. bind_walks b" "\<forall>st \<in> set b. stmt_walks st"
      using Func by (auto simp: UN_subset_iff)
    ultimately have "safe k (case Block_body b of Block_body ss \<Rightarrow> statements ss s' (parameters ps s' c')
        | Expr_body e \<Rightarrow> expression e s' (parameters ps s' c'))"
      using i(1) f by (intro inv_enter [where b = "Block_body b" and nd = nd and s = s and r = r])
        (auto simp: part_walks_simps intro!: walksI)
    then show "safe k (func_literal (Func nd p n a g ps r b) s c)"
      by (simp add: func_literal.simps f)
  qed
qed (((intro walk_intros walksI)?; auto simp: part_walks_simps expression_simps statement_simps pattern_defaults_simps
  assign_target_simps for_into_simps Let_def UN_subset_iff intro!: walksI)+)

text \<open>So a walk over statements in a scope of the store keeps the predicate, and adds no name out of the store.\<close>

lemma keeps_statements:
  assumes "P c" "well_scoped c" "scope_ok (length (store c)) s" "all_nodes ss \<subseteq> U"
  shows "P (statements ss s c) \<and> well_scoped (statements ss s c) \<and> length (store c) \<le> length (store (statements ss s c))"
proof -
  have "\<forall>st \<in> set ss. stmt_walks st"
    using assms(4) inv_of_walks(6) by (auto simp: all_nodes_def UN_subset_iff)
  moreover have "safe (length (store c)) c"
    using assms(1,2) by (simp add: safe_def)
  ultimately have "safe (length (store c)) (statements ss s c)"
    using assms(3) by blast
  then show ?thesis
    by (simp add: safe_def)
qed

end

end
