(* ===== verification/ScriptValidate.thy ===== *)
theory ScriptValidate
  imports ScriptCheck
begin

section \<open>Validating a script\<close>

text \<open>
  \<open>Validate\<close>, \<open>run\<close> and \<open>checkTopLevel\<close> of \<open>play/runtime/sandbox/scriptcheck/scriptcheck.go\<close>. The parser is
  not the program's: it is the parameter \<open>parse\<close>, an error or the script's statements and its position.
\<close>

record script =
  script_pos :: pos
  script_body :: "stmt list"

subsection \<open>The top level\<close>

text \<open>What \<open>checkTopLevel\<close> gathers: the frame of the top scope, the functions declared, the constants to freeze.\<close>

record top_check =
  names :: frame
  declared :: "string list"
  frozen :: "string list"
  checker_of :: checker

definition declare_top :: "string \<Rightarrow> top_check \<Rightarrow> top_check" where
  "declare_top n t =
    (let (bs, f) = declare_name n (new_binding True False) (store (checker_of t), names t)
     in t\<lparr>names := f, checker_of := (checker_of t)\<lparr>store := bs\<rparr>\<rparr>)"

definition refuse_at :: "pos \<Rightarrow> top_check \<Rightarrow> top_check" where
  "refuse_at p t = t\<lparr>checker_of := report p Rule_module_state (checker_of t)\<rparr>"

definition top_constant :: "bind \<Rightarrow> top_check \<Rightarrow> top_check" where
  "top_constant b t =
    (case b of Bind g e \<Rightarrow>
      (case g of
        Ident _ n \<Rightarrow>
          let t' = declare_top n t; p = expr_pos (start_pos (checker_of t)) e in
          if primitive_value e then t'
          else if profile (checker_of t) = profile_sdk_v1 \<and> sdk_constant e then t'\<lparr>frozen := frozen t' @ [n]\<rparr>
          else if profile (checker_of t) = profile_sdk_v1 then refuse_at p t'
          else if \<not> immutable_value e then refuse_at p t'
          else t'
      | _ \<Rightarrow> refuse_at (expr_pos (start_pos (checker_of t)) g) t))"

definition stmt_pos :: "pos \<Rightarrow> stmt \<Rightarrow> pos" where
  "stmt_pos d st =
    (case st of
      No_stmt \<Rightarrow> d | Expr_stmt p _ \<Rightarrow> p | Variable_stmt p _ \<Rightarrow> p | Lexical_decl p _ _ \<Rightarrow> p
    | Function_decl f \<Rightarrow> func_pos f | Class_decl p _ _ _ \<Rightarrow> p | Block_stmt p _ \<Rightarrow> p | Return_stmt p _ \<Rightarrow> p
    | Throw_stmt p _ \<Rightarrow> p | If_stmt p _ _ _ \<Rightarrow> p | For_stmt p _ _ _ _ \<Rightarrow> p | For_in p _ _ _ \<Rightarrow> p
    | For_of p _ _ _ _ \<Rightarrow> p | While_stmt p _ _ \<Rightarrow> p | Do_while p _ _ \<Rightarrow> p | Labelled_stmt p _ \<Rightarrow> p
    | Switch_stmt p _ _ \<Rightarrow> p | Try_stmt p _ _ _ _ \<Rightarrow> p | With_stmt p \<Rightarrow> p | Empty_stmt p \<Rightarrow> p | Plain_stmt p \<Rightarrow> p | Other_stmt p \<Rightarrow> p)"

definition top_statement :: "stmt \<Rightarrow> top_check \<Rightarrow> top_check" where
  "top_statement st t =
    (case st of
      Function_decl f \<Rightarrow>
        (case func_name f of
          Some n \<Rightarrow> let t' = declare_top n t in t'\<lparr>declared := declared t' @ [n]\<rparr>
        | None \<Rightarrow> t)
    | Lexical_decl p is_const bs \<Rightarrow> fold top_constant bs (if is_const then t else refuse_at p t)
    | Expr_stmt p e \<Rightarrow>
        (case e of
          Literal _ (String_value v) \<Rightarrow> if v = ''use strict'' then t else refuse_at p t
        | _ \<Rightarrow> refuse_at p t)
    | Empty_stmt _ \<Rightarrow> t
    | _ \<Rightarrow> refuse_at (stmt_pos (start_pos (checker_of t)) st) t)"

text \<open>\<open>moduleValuesList\<close> and \<open>checkModuleValues\<close>.\<close>

fun identifiers :: "expr list \<Rightarrow> string list option" where
  "identifiers [] = Some []"
| "identifiers (e # es) =
    (case e of
      Ident _ n \<Rightarrow> (case identifiers es of Some ns \<Rightarrow> Some (n # ns) | None \<Rightarrow> None)
    | _ \<Rightarrow> None)"

definition module_values_list :: "func \<Rightarrow> string list option" where
  "module_values_list f =
    (case func_body f of
      [Return_stmt _ (Array_lit _ es)] \<Rightarrow> identifiers es
    | _ \<Rightarrow> None)"

definition lists_exactly :: "string list \<Rightarrow> string list \<Rightarrow> bool" where
  "lists_exactly listed fs \<longleftrightarrow>
    length listed = card (set fs) \<and>
    fst (fold (\<lambda>n (ok, expected). (ok \<and> n \<in> expected, expected - {n})) listed (True, set fs))"

fun check_module_values :: "stmt list \<Rightarrow> string list \<Rightarrow> checker \<Rightarrow> checker" where
  "check_module_values [] fs c = c"
| "check_module_values (st # ss) fs c =
    (case st of
      Function_decl f \<Rightarrow>
        if func_name f = Some module_values_function then
          (if (case module_values_list f of Some listed \<Rightarrow> lists_exactly listed fs | None \<Rightarrow> False)
           then c else report (func_pos f) Rule_module_state c)
        else check_module_values ss fs c
    | _ \<Rightarrow> check_module_values ss fs c)"

definition require_function :: "string list \<Rightarrow> string \<Rightarrow> checker \<Rightarrow> checker" where
  "require_function ns n c =
    (if n \<in> set ns then c
     else c\<lparr>violations := violations c @ [\<lparr>position = Pos 1 1, broken = Rule_entrypoint\<rparr>]\<rparr>)"

definition check_top_level :: "stmt list \<Rightarrow> checker \<Rightarrow> frame \<times> checker" where
  "check_top_level body c =
    (let t = fold top_statement body \<lparr>names = [], declared = [], frozen = [], checker_of = c\<rparr>;
         sdk = (profile c = profile_sdk_v1);
         required = (if sdk then entrypoints @ [module_values_function] else entrypoints);
         c1 = fold (require_function (declared t)) required (checker_of t);
         c2 = (if sdk \<and> module_values_function \<in> set (declared t)
               then check_module_values body (frozen t) c1 else c1)
     in (names t, c2))"

subsection \<open>Running the checker\<close>

definition pass :: "stmt list \<Rightarrow> scope \<Rightarrow> checker \<Rightarrow> checker" where
  "pass body ts c = statements body ts (c\<lparr>changed := False\<rparr>)"

partial_function (option) settle :: "stmt list \<Rightarrow> scope \<Rightarrow> checker \<Rightarrow> checker option" where
  "settle body ts c = (let c' = pass body ts c in if changed c' then settle body ts c' else Some c')"

declare settle.simps [code]

definition checker_for :: "string \<Rightarrow> script \<Rightarrow> checker" where
  "checker_for pr p = \<lparr>profile = pr, start_pos = script_pos p, store = [], scopes = Map.empty, reporting = False,
     changed = False, violations = [], reported = None\<rparr>"

definition run :: "script \<Rightarrow> checker \<Rightarrow> checker option" where
  "run p c =
    (let (f, c1) = check_top_level (script_body p) c in
     case settle (script_body p) [f] c1 of
       None \<Rightarrow> None
     | Some c2 \<Rightarrow> Some (statements (script_body p) [f] (c2\<lparr>reporting := True, reported := Some {}\<rparr>)))"

definition validate :: "(string \<Rightarrow> string + script) \<Rightarrow> string \<Rightarrow> string \<Rightarrow> violation list option" where
  "validate parse pr source =
    (if \<not> valid_profile pr then Some [\<lparr>position = Pos 1 1, broken = Rule_unsupported\<rparr>]
     else case parse source of
       Inl _ \<Rightarrow> Some [\<lparr>position = Pos 1 1, broken = Rule_syntax\<rparr>]
     | Inr p \<Rightarrow> map_option (\<lambda>c. sort_key position (violations c)) (run p (checker_for pr p)))"

end
