(* ===== verification/ScriptFixpoint.thy ===== *)
theory ScriptFixpoint
  imports ScriptWalk ScriptValidate
begin

section \<open>The taint's fixed point is reached\<close>

text \<open>
  Why \<open>run\<close>'s loop ends. A pass that marks a binding has fewer bindings left to mark, or has entered a
  function it had not entered before; the functions of a script are finitely many, and marks are never taken
  away. \<open>rank\<close> is that measure, \<open>progress\<close> the relation a pass keeps to the checker it started from.
\<close>

definition unmarked :: "store \<Rightarrow> nat" where
  "unmarked bs =
    length (filter (\<lambda>b. \<not> top_level b \<and> \<not> tainted b) bs) + length (filter (\<lambda>b. \<not> top_level b \<and> \<not> holds b) bs)"

definition rank :: "nat set \<Rightarrow> checker \<Rightarrow> nat \<times> nat" where
  "rank U c = (card (U - dom (scopes c)), unmarked (store c))"

definition lower :: "nat set \<Rightarrow> checker \<Rightarrow> checker \<Rightarrow> bool" where
  "lower U c d \<longleftrightarrow> (rank U c, rank U d) \<in> less_than <*lex*> less_than"

definition progress :: "nat set \<Rightarrow> checker \<Rightarrow> checker \<Rightarrow> bool" where
  "progress U d c \<longleftrightarrow> (rank U c = rank U d \<or> lower U c d) \<and> (changed c \<longrightarrow> changed d \<or> lower U c d)"

lemma lower_trans: "lower U c d \<Longrightarrow> lower U d e \<Longrightarrow> lower U c e"
  unfolding lower_def by (rule transD [OF trans_lex_prod [OF trans_less_than trans_less_than]])

lemma lower_after: "lower U c d \<Longrightarrow> progress U e d \<Longrightarrow> progress U e c"
  using lower_trans [of U c d e] by (auto simp: progress_def) (auto simp: lower_def)

lemma filter_update_less:
  "i < length xs \<Longrightarrow> Q (xs ! i) \<Longrightarrow> \<not> Q y \<Longrightarrow> length (filter Q (xs[i := y])) < length (filter Q xs)"
proof (induction xs arbitrary: i)
  case (Cons x xs)
  then show ?case
    by (cases i) auto
qed simp

lemma filter_update_le:
  "(Q y \<Longrightarrow> Q (xs ! i)) \<Longrightarrow> i < length xs \<Longrightarrow> length (filter Q (xs[i := y])) \<le> length (filter Q xs)"
proof (induction xs arbitrary: i)
  case (Cons x xs)
  then show ?case
    by (cases i) (auto simp: le_SucI)
qed simp

lemma unmarked_taint:
  assumes "i < length bs" "\<not> top_level (bs ! i)" "\<not> tainted (bs ! i)"
  shows "unmarked (bs[i := (bs ! i)\<lparr>tainted := True\<rparr>]) < unmarked bs"
  unfolding unmarked_def using assms by (intro add_less_le_mono filter_update_less filter_update_le) auto

lemma unmarked_hold:
  assumes "i < length bs" "\<not> top_level (bs ! i)" "\<not> holds (bs ! i)"
  shows "unmarked (bs[i := (bs ! i)\<lparr>holds := True\<rparr>]) < unmarked bs"
  unfolding unmarked_def using assms by (intro add_le_less_mono filter_update_less filter_update_le) auto

lemma lower_taint:
  assumes "i < length (store c)"
  shows "taint (Some i) c = c \<or> lower U (taint (Some i) c) c"
  using assms unmarked_taint [of i "store c"] by (auto simp: taint_def lower_def rank_def)

lemma lower_hold:
  assumes "i < length (store c)"
  shows "hold (Some i) c = c \<or> lower U (hold (Some i) c) c"
  using assms unmarked_hold [of i "store c"] by (auto simp: hold_def lower_def rank_def)

lemma lower_scope:
  assumes "finite U" "nd \<in> U" "scopes c nd = None"
  shows "lower U (c\<lparr>store := bs, scopes := (scopes c)(nd \<mapsto> s)\<rparr>) c"
proof -
  have "U - dom ((scopes c)(nd \<mapsto> s)) \<subset> U - dom (scopes c)"
    using assms(2,3) by auto
  then have "card (U - dom ((scopes c)(nd \<mapsto> s))) < card (U - dom (scopes c))"
    using assms(1) by (intro psubset_card_mono) auto
  then show ?thesis
    by (simp add: lower_def rank_def)
qed

lemma progress_report: "progress U d c \<Longrightarrow> progress U d (violate p r c)"
  by (simp add: progress_def lower_def rank_def)

lemma progress_mark:
  assumes "progress U d c" "c' = c \<or> lower U c' c"
  shows "progress U d c'"
  using assms(2)
proof
  assume "lower U c' c"
  then show ?thesis
    using assms(1) by (rule lower_after)
qed (simp add: assms(1))

interpretation progress: walk_invariant "all_nodes body" "progress (all_nodes body) d" for body d
  by (standard; (erule progress_report | (erule progress_mark,
      (erule lower_taint | erule lower_hold | (rule disjI2, erule (1) lower_scope [OF finite_all_nodes, rotated])))))

lemma pass_lowers:
  assumes "well_scoped c" "scope_ok (length (store c)) ts"
  shows "well_scoped (pass body ts c) \<and> scope_ok (length (store (pass body ts c))) ts \<and>
    (changed (pass body ts c) \<longrightarrow> lower (all_nodes body) (pass body ts c) c)"
proof -
  let ?d = "c\<lparr>changed := False\<rparr>"
  have d: "well_scoped ?d" "scope_ok (length (store ?d)) ts" "rank (all_nodes body) ?d = rank (all_nodes body) c"
    using assms by (auto simp: well_scoped_def rank_def)
  have "progress (all_nodes body) ?d ?d"
    by (simp add: progress_def)
  from progress.keeps_statements [OF this d(1,2) subset_refl] show ?thesis
    using assms(2) d(3) by (auto simp: pass_def progress_def lower_def intro: scope_ok_mono)
qed

lemma settles:
  assumes "well_scoped c" "scope_ok (length (store c)) ts"
  shows "\<exists>c' b. settle body ts c = Some c' \<and> \<not> changed c' \<and> well_scoped c' \<and> scope_ok (length (store c')) ts \<and>
    c' = pass body ts b \<and> well_scoped b \<and> scope_ok (length (store b)) ts"
proof -
  let ?U = "all_nodes body"
  have "wf {(c, d). lower ?U c d}"
    by (rule wf_subset [OF wf_inv_image [of "less_than <*lex*> less_than" "rank ?U"]])
      (auto simp: lower_def in_inv_image)
  then show ?thesis
    using assms
  proof (induction c rule: wf_induct_rule)
    case (less c)
    note p = pass_lowers [OF less.prems, of body]
    show ?case
    proof (cases "changed (pass body ts c)")
      case True
      with p less.IH [of "pass body ts c"] show ?thesis
        unfolding settle.simps [of body ts c] Let_def by auto
    next
      case False
      with p less.prems show ?thesis
        by (auto simp: settle.simps [of body ts c] Let_def)
    qed
  qed
qed

end
