(* ===== verification/ScriptStable.thy ===== *)
theory ScriptStable
  imports ScriptFixpoint
begin

section \<open>The fixed point is one\<close>

text \<open>
  The loop of \<open>run\<close> stops after a pass that marked nothing. That pass may have entered functions for the first
  time, whose scopes it made after it had judged some of the code; it is shown here that another pass, over
  the checker it left or over any that enlarges it, marks nothing either and makes no scope: the reporting pass
  judges the whole script against the same bindings.
\<close>

subsection \<open>Checkers that extend one another\<close>

definition enlarges :: "checker \<Rightarrow> checker \<Rightarrow> bool" where
  "enlarges c d \<longleftrightarrow> profile d = profile c \<and> start_pos d = start_pos c \<and>
    (\<exists>new. store d = store c @ new) \<and> scopes c \<subseteq>\<^sub>m scopes d"

definition still :: "checker \<Rightarrow> checker \<Rightarrow> bool" where
  "still c d \<longleftrightarrow> profile d = profile c \<and> start_pos d = start_pos c \<and> store d = store c \<and> scopes d = scopes c \<and>
    changed d = changed c"

lemma enlarges_refl: "enlarges c c"
  by (simp add: enlarges_def)

lemma enlarges_trans: "enlarges c d \<Longrightarrow> enlarges d e \<Longrightarrow> enlarges c e"
  unfolding enlarges_def by (auto intro: map_le_trans)

lemma enlarges_still: "enlarges c d \<Longrightarrow> still d e \<Longrightarrow> enlarges c e"
  by (simp add: enlarges_def still_def)

lemma still_refl: "still c c"
  by (simp add: still_def)

lemma still_trans: "still c d \<Longrightarrow> still d e \<Longrightarrow> still c e"
  by (simp add: still_def)

lemma still_violate: "still c (violate p r c)"
  by (auto simp: still_def violate_def report_def Let_def split: option.split)

text \<open>A question about an expression has the same answer when the store has grown.\<close>

lemma marked_append: "scope_ok (length bs) s \<Longrightarrow> marked m (bs @ new) s n = marked m bs s n"
  by (auto simp: marked_def nth_append split: option.split dest: resolve_ok)

lemma questions_append:
  assumes "scope_ok (length bs) s"
  shows "aliases (bs @ new) s e = aliases bs s e" "holding (bs @ new) s e = holding bs s e"
    "any_reaches (bs @ new) s es = any_reaches bs s es"
    "any_property_reaches (bs @ new) s es = any_property_reaches bs s es"
    "last_aliases (bs @ new) s es = last_aliases bs s es" "last_holding (bs @ new) s es = last_holding bs s es"
  using assms
proof (induction bs s e and bs s e and bs s es and bs s es and bs s es and bs s es
    rule: aliases_holding_any_reaches_any_property_reaches_last_aliases_last_holding.induct)
  case (1 bs s e)
  then show ?case
    by (subst (1 2) aliases.simps) (simp split: expr.split add: marked_append)
next
  case (2 bs s e)
  then show ?case
    by (subst (1 2) holding.simps) (simp split: expr.split add: marked_append)
next
  case (6 bs s e es)
  then show ?case
    by (cases e) (simp_all add: marked_append)
qed simp_all

subsection \<open>Steps a second pass does not repeat\<close>

text \<open>
  \<open>persists d c\<close>: since \<open>d\<close>, a binding has been marked or the checker has only grown. A step is \<open>calm\<close> when
  it persists and, where it marked nothing, repeating it on any checker that enlarges its result does nothing.
\<close>

definition persists :: "checker \<Rightarrow> checker \<Rightarrow> bool" where
  "persists d c \<longleftrightarrow> (changed d \<longrightarrow> changed c) \<and> (changed c \<or> enlarges d c)"

interpretation persists: walk_invariant UNIV "persists d" for d
proof
  fix c p r
  assume "persists d c"
  then show "persists d (violate p r c)"
    using still_violate [of c p r] by (auto simp: persists_def still_def enlarges_def)
next
  fix c a
  assume "persists d c"
  then show "persists d (taint (Some a) c)"
    by (auto simp: persists_def taint_def)
next
  fix c a
  assume "persists d c"
  then show "persists d (hold (Some a) c)"
    by (auto simp: persists_def hold_def)
next
  fix c nd new f parent
  assume p: "persists d c" and n: "scopes c nd = None"
  have "enlarges c (c\<lparr>store := store c @ new, scopes := (scopes c)(nd \<mapsto> f # parent)\<rparr>)"
    using n by (auto simp: enlarges_def map_le_def)
  with p show "persists d (c\<lparr>store := store c @ new, scopes := (scopes c)(nd \<mapsto> f # parent)\<rparr>)"
    by (auto simp: persists_def intro: enlarges_trans)
qed

definition within :: "nat \<Rightarrow> scope \<Rightarrow> checker \<Rightarrow> bool" where
  "within k s c \<longleftrightarrow> scope_ok k s \<and> well_scoped c \<and> k \<le> length (store c)"

definition calm :: "(scope \<Rightarrow> checker \<Rightarrow> checker) \<Rightarrow> bool" where
  "calm w \<longleftrightarrow> (\<forall>k s c. within k s c \<longrightarrow> within k s (w s c) \<and> persists c (w s c) \<and>
    (\<not> changed (w s c) \<longrightarrow> (\<forall>d. enlarges (w s c) d \<longrightarrow> still d (w s d))))"

lemma calmI:
  assumes "\<And>k s c. within k s c \<Longrightarrow> within k s (w s c) \<and> persists c (w s c)"
    and "\<And>k s c d. within k s c \<Longrightarrow> \<not> changed (w s c) \<Longrightarrow> enlarges c (w s c) \<Longrightarrow> enlarges (w s c) d \<Longrightarrow> still d (w s d)"
  shows "calm w"
  unfolding calm_def
proof (intro allI impI conjI)
  fix k s c d
  assume c: "within k s c"
  from assms(1) [OF c] show "within k s (w s c)" "persists c (w s c)"
    by simp_all
  assume u: "\<not> changed (w s c)" and e: "enlarges (w s c) d"
  have "enlarges c (w s c)"
    using assms(1) [OF c] u by (simp add: persists_def)
  then show "still d (w s d)"
    using assms(2) [OF c u] e by blast
qed

lemma calmD:
  assumes "calm w" "within k s c"
  shows "within k s (w s c)" "persists c (w s c)"
    "\<not> changed (w s c) \<Longrightarrow> enlarges (w s c) d \<Longrightarrow> still d (w s d)"
  using assms by (auto simp: calm_def)

lemma persists_trans: "persists c d \<Longrightarrow> persists d e \<Longrightarrow> persists c e"
  unfolding persists_def by (auto intro: enlarges_trans)

definition andthen :: "(scope \<Rightarrow> checker \<Rightarrow> checker) \<Rightarrow> (scope \<Rightarrow> checker \<Rightarrow> checker) \<Rightarrow> scope \<Rightarrow> checker \<Rightarrow> checker" where
  "andthen v w = (\<lambda>s c. w s (v s c))"

lemma calm_andthen [intro!]:
  assumes "calm v" "calm w"
  shows "calm (andthen v w)"
proof (rule calmI)
  fix k s c
  assume "within k s c"
  with calmD(1,2) [OF assms(1) this] calmD(1,2) [OF assms(2), of k s "v s c"]
  show "within k s (andthen v w s c) \<and> persists c (andthen v w s c)"
    by (auto simp: andthen_def intro: persists_trans)
next
  fix k s c d
  assume c: "within k s c" and u: "\<not> changed (andthen v w s c)" and e: "enlarges (andthen v w s c) d"
  note v = calmD [OF assms(1) c] and w = calmD [OF assms(2) calmD(1) [OF assms(1) c]]
  have "\<not> changed (v s c)" "enlarges (v s c) (w s (v s c))"
    using u w(2) by (auto simp: persists_def andthen_def)
  then have 1: "still d (v s d)"
    using v(3) e by (auto simp: andthen_def intro: enlarges_trans)
  then have "still (v s d) (w s (v s d))"
    using w(3) u e by (auto simp: andthen_def intro: enlarges_still)
  with 1 show "still d (andthen v w s d)"
    by (auto simp: andthen_def intro: still_trans)
qed

text \<open>A step that only reports, and a choice whose condition another pass judges the same.\<close>

lemma calm_quiet:
  assumes "\<And>s c. still c (w s c)"
  shows "calm w"
  using assms by (intro calmI) (auto simp: still_def within_def well_scoped_def persists_def enlarges_def)

definition steady :: "(scope \<Rightarrow> checker \<Rightarrow> bool) \<Rightarrow> bool" where
  "steady q \<longleftrightarrow> (\<forall>k s c d. scope_ok k s \<longrightarrow> k \<le> length (store c) \<longrightarrow> enlarges c d \<longrightarrow> q s d = q s c)"

lemma calm_if:
  assumes "steady q" "calm v" "calm w"
  shows "calm (\<lambda>s c. if q s c then v s c else w s c)"
proof (rule calmI)
  fix k s c
  assume "within k s c"
  then show "within k s (if q s c then v s c else w s c) \<and> persists c (if q s c then v s c else w s c)"
    using calmD(1,2) [OF assms(2)] calmD(1,2) [OF assms(3)] by simp
next
  fix k s c d
  assume c: "within k s c" and u: "\<not> changed (if q s c then v s c else w s c)"
    and x: "enlarges c (if q s c then v s c else w s c)" and e: "enlarges (if q s c then v s c else w s c) d"
  have "q s d = q s c"
    using assms(1) c enlarges_trans [OF x e] by (auto simp: steady_def within_def)
  then show "still d (if q s d then v s d else w s d)"
    using calmD(3) [OF assms(2) c] calmD(3) [OF assms(3) c] u e by (cases "q s c") auto
qed

lemma steady_reaching [intro]: "steady (reaching e)" "steady (\<lambda>s c. aliases (store c) s e)" "steady (\<lambda>s c. holding (store c) s e)"
    "steady (\<lambda>s c. any_reaches (store c) s es)"
  unfolding steady_def enlarges_def
  by (auto simp: reaching_def reaches_def questions_append dest: scope_ok_mono)

lemma steady_fixed [intro]: "steady (\<lambda>s c. q s)"
  by (simp add: steady_def)

text \<open>Marking the binding a name or a member's root resolves to.\<close>

lemma calm_taint:
  assumes "\<And>k s i. scope_ok k s \<Longrightarrow> a s = Some i \<Longrightarrow> i < k"
  shows "calm (\<lambda>s. taint (a s))"
proof (rule calmI)
  fix k s c
  assume "within k s c"
  then show "within k s (taint (a s) c) \<and> persists c (taint (a s) c)"
    by (auto simp: within_def well_scoped_def persists_def taint_def enlarges_refl split: option.split)
next
  fix k s c d
  assume "within k s c" "\<not> changed (taint (a s) c)" "enlarges c (taint (a s) c)" "enlarges (taint (a s) c) d"
  then show "still d (taint (a s) d)"
    using assms [of k s]
    by (auto simp: within_def taint_def still_def enlarges_def nth_append split: option.splits if_splits)
qed

lemma calm_hold:
  assumes "\<And>k s i. scope_ok k s \<Longrightarrow> a s = Some i \<Longrightarrow> i < k"
  shows "calm (\<lambda>s. hold (a s))"
proof (rule calmI)
  fix k s c
  assume "within k s c"
  then show "within k s (hold (a s) c) \<and> persists c (hold (a s) c)"
    by (auto simp: within_def well_scoped_def persists_def hold_def enlarges_refl split: option.split)
next
  fix k s c d
  assume "within k s c" "\<not> changed (hold (a s) c)" "enlarges c (hold (a s) c)" "enlarges (hold (a s) c) d"
  then show "still d (hold (a s) d)"
    using assms [of k s]
    by (auto simp: within_def hold_def still_def enlarges_def nth_append split: option.splits if_splits)
qed

text \<open>The checker's own steps.\<close>

definition skip :: "scope \<Rightarrow> checker \<Rightarrow> checker" where
  "skip = (\<lambda>s c. c)"

lemma still_mutates: "still c (mutates ob s p c)"
  by (cases "member_root ob") (simp_all add: mutates_def still_refl still_violate Let_def split: option.split)

lemma still_changes: "still c (changes_member_of t s p c)"
  by (cases t) (simp_all add: changes_member_of_def still_mutates)

lemma calm_reports [intro!]:
  "calm skip" "calm (\<lambda>s. violate p r)" "calm (check_name p n)" "calm (\<lambda>s. check_property p n)"
  "calm (\<lambda>s. check_member m)" "calm (\<lambda>s. mutates ob s p)" "calm (\<lambda>s. changes_member_of t s p)"
  "calm (\<lambda>s c. changes_member_of t s (expr_pos (start_pos c) t) c)"
  "calm (\<lambda>s c. if profile c = h then violate p r c else c)"
  "calm (\<lambda>s c. if b then violate p r c else c)"
  by (rule calm_quiet; simp add: skip_def check_name_def check_property_def check_member_def still_refl still_violate
      still_mutates still_changes split: expr.split literal.split)+

lemma calm_marks [intro!]:
  "calm (\<lambda>s. taint (resolve s n))" "calm (\<lambda>s. hold (resolve s n))" "calm (\<lambda>s. hold (root_binding e s))"
  by (rule calm_taint calm_hold, erule (1) resolve_ok root_binding_ok)+

lemma calm_choose [intro]:
  "steady q \<Longrightarrow> calm w \<Longrightarrow> calm (\<lambda>s c. if q s c then w s c else c)"
  using calm_if [OF _ _ calm_reports(1)] unfolding skip_def by blast

lemma calm_bind_value: "calm (\<lambda>s. bind_value (resolve s n) v s)"
proof -
  have "(\<lambda>s. bind_value (resolve s n) v s) = (\<lambda>s c. if aliases (store c) s v then taint (resolve s n) c
      else (\<lambda>s c. if holding (store c) s v then hold (resolve s n) c else c) s c)"
    by (simp add: bind_value_def fun_eq_iff)
  moreover have "calm \<dots>"
    by (rule calm_if) auto
  ultimately show ?thesis
    by simp
qed

lemma calm_taint_names: "calm (taint_names ns)"
proof (induction ns)
  case Nil
  then show ?case
    using calm_reports(1) by (simp add: taint_names_def skip_def cong: fold_cong)
next
  case (Cons x ns)
  have "taint_names (x # ns) = andthen (\<lambda>s. taint (resolve s (snd x))) (taint_names ns)"
    by (simp add: fun_eq_iff taint_names_def andthen_def split: prod.split)
  then show ?case
    using Cons by auto
qed

definition names_module_state :: "string \<Rightarrow> scope \<Rightarrow> checker \<Rightarrow> bool" where
  "names_module_state n s c = (case resolve s n of None \<Rightarrow> False | Some a \<Rightarrow> top_level (store c ! a))"

lemma steady_names_module_state [intro]: "steady (names_module_state n)"
  unfolding steady_def enlarges_def
  by (auto simp: names_module_state_def nth_append split: option.split dest: resolve_ok)

lemma calm_assign_name: "calm (\<lambda>s. assign_name p n s v)"
proof -
  have "(\<lambda>s. assign_name p n s v) = (\<lambda>s c. if resolve s n = None then violate p Rule_global_access c
      else (\<lambda>s c. if names_module_state n s c then violate p Rule_module_state c
        else (\<lambda>s c. if v \<noteq> No_expr then bind_value (resolve s n) v s c else c) s c) s c)"
    by (auto simp: assign_name_def names_module_state_def fun_eq_iff split: option.split)
  moreover have "calm \<dots>"
    by (intro calm_if calm_choose) (auto intro: calm_bind_value)
  ultimately show ?thesis
    by simp
qed

lemma calm_assign_pattern_name: "calm (\<lambda>s. assign_pattern_name s v x)"
proof -
  obtain p n where x: "x = (p, n)"
    by fastforce
  have "(\<lambda>s. assign_pattern_name s v x) = (\<lambda>s c. if resolve s n = None then violate p Rule_global_access c
      else (\<lambda>s c. if names_module_state n s c then violate p Rule_module_state c
        else (\<lambda>s c. if v \<noteq> No_expr then (\<lambda>s c. if reaching v s c then taint (resolve s n) c else c) s c else c) s c) s c)"
    by (auto simp: x assign_pattern_name_def names_module_state_def fun_eq_iff split: option.split)
  moreover have "calm \<dots>"
    by (intro calm_if calm_choose) auto
  ultimately show ?thesis
    by simp
qed

lemma calm_assign_pattern: "calm (\<lambda>s. fold (assign_pattern_name s v) ns)"
proof (induction ns)
  case Nil
  then show ?case
    using calm_reports(1) by (simp add: skip_def id_def)
next
  case (Cons x ns)
  have *: "(\<lambda>s. fold (assign_pattern_name s v) (x # ns)) =
      andthen (\<lambda>s. assign_pattern_name s v x) (\<lambda>s. fold (assign_pattern_name s v) ns)"
    by (simp add: fun_eq_iff andthen_def)
  show ?case
    unfolding * by (rule calm_andthen [OF calm_assign_pattern_name Cons])
qed

lemma calm_bind_declared: "calm (bind_declared t e)"
proof -
  have "bind_declared t e = (if e = No_expr then skip
      else if is_name t then (case t of Ident _ n \<Rightarrow> \<lambda>s. bind_value (resolve s n) e s | _ \<Rightarrow> skip)
      else (\<lambda>s c. if reaching e s c then taint_names (target_names t) s c else c))"
    by (cases t) (auto simp: bind_declared_def skip_def is_name_def fun_eq_iff)
  moreover have "calm \<dots>"
    by (cases t) (auto intro: calm_bind_value calm_taint_names)
  ultimately show ?thesis
    by simp
qed

lemma calm_call_effects: "calm (call_effects p f as)"
proof (cases f)
  case (Dot_expr q l ip m)
  have "call_effects p f as = (\<lambda>s c. if changes_first_argument l m as s
      then (\<lambda>s c. if any_reaches (store c) s as then andthen (\<lambda>s. mutates (hd as) s p) (\<lambda>s. hold (root_binding (hd as) s)) s c
        else mutates (hd as) s p c) s c
      else (\<lambda>s c. if (m = ''call'' \<or> m = ''apply'') \<and> as \<noteq> [] \<and> reaching (hd as) s c then violate p Rule_mutation c
        else (\<lambda>s c. if m \<in> set mutating_methods
          then (\<lambda>s c. if any_reaches (store c) s as then andthen (\<lambda>s. mutates l s p) (\<lambda>s. hold (root_binding l s)) s c
            else mutates l s p c) s c
          else skip s c) s c) s c)"
    by (auto simp: Dot_expr call_effects_def andthen_def skip_def fun_eq_iff Let_def)
  moreover have "calm \<dots>"
  proof (intro calm_if)
    show "steady (\<lambda>s c. (m = ''call'' \<or> m = ''apply'') \<and> as \<noteq> [] \<and> reaching (hd as) s c)"
      using steady_reaching(1) [of "hd as"] unfolding steady_def by blast
  qed auto
  ultimately show ?thesis
    by simp
qed (rule calm_quiet, simp add: call_effects_def still_refl)+

text \<open>Entering a function: its scope is the one made the first time.\<close>

definition enter :: "nat \<Rightarrow> bind list \<Rightarrow> expr \<Rightarrow> stmt list \<Rightarrow> (scope \<Rightarrow> checker \<Rightarrow> checker) \<Rightarrow> scope \<Rightarrow> checker \<Rightarrow> checker" where
  "enter nd ps r b w = (\<lambda>s c. case function_scope nd s ps r b c of (s', c') \<Rightarrow> w s' c')"

lemma function_scope_kept:
  "function_scope nd s ps r b c = (s', c') \<Longrightarrow> scopes c' nd = Some s'"
  by (auto simp: function_scope_def Let_def split: option.splits prod.splits)

lemma calm_enter [intro!]:
  assumes "calm w"
  shows "calm (enter nd ps r b w)"
proof (rule calmI)
  fix k s c
  assume c: "within k s c"
  obtain s' c' where f: "function_scope nd s ps r b c = (s', c')"
    by fastforce
  have "persists.safe c k c"
    using c by (auto simp: persists.safe_def within_def persists_def enlarges_refl)
  from persists.inv_function_scope [OF this _ UNIV_I f] c
  have i: "persists c c'" "within (length (store c')) s' c'" "k \<le> length (store c')"
    by (auto simp: persists.safe_def within_def)
  with calmD(1,2) [OF assms i(2)] c show "within k s (enter nd ps r b w s c) \<and> persists c (enter nd ps r b w s c)"
    by (auto simp: enter_def f within_def intro: persists_trans)
  fix d
  assume u: "\<not> changed (enter nd ps r b w s c)" and e: "enlarges (enter nd ps r b w s c) d"
  have "enlarges c' (w s' c')"
    using calmD(2) [OF assms i(2)] u by (simp add: enter_def f persists_def)
  then have "scopes d nd = Some s'"
    using function_scope_kept [OF f] enlarges_trans [of c' "w s' c'" d] e
    by (auto simp: enter_def f enlarges_def map_le_def dom_def)
  then show "still d (enter nd ps r b w s d)"
    using calmD(3) [OF assms i(2)] u e by (simp add: enter_def f function_scope_old)
qed

subsection \<open>The whole walk is calm\<close>

definition expr_calm :: "expr \<Rightarrow> bool" where
  "expr_calm e \<longleftrightarrow> calm (expression e) \<and> calm (pattern_defaults e) \<and> calm (property_defaults [e])"

definition bind_calm :: "bind \<Rightarrow> bool" where
  "bind_calm b \<longleftrightarrow> calm (bindings [b]) \<and> calm (parameters [b])"

definition element_calm :: "element \<Rightarrow> bool" where
  "element_calm l \<longleftrightarrow> calm (class_elements [l])"

definition clause_calm :: "clause \<Rightarrow> bool" where
  "clause_calm cl \<longleftrightarrow> calm (clauses [cl])"

definition body_walk :: "body \<Rightarrow> scope \<Rightarrow> checker \<Rightarrow> checker" where
  "body_walk b = (case b of Block_body ss \<Rightarrow> statements ss | Expr_body e \<Rightarrow> expression e)"

definition init_walk :: "initializer \<Rightarrow> scope \<Rightarrow> checker \<Rightarrow> checker" where
  "init_walk i = (case i of No_init \<Rightarrow> skip | Init_expr e \<Rightarrow> expression e | Init_bindings bs \<Rightarrow> bindings bs)"

lemma calm_list:
  assumes "\<And>s c. f [] s c = c" "\<And>x xs s c. f (x # xs) s c = f xs s (g x s c)" "\<forall>x \<in> set xs. calm (g x)"
  shows "calm (f xs)"
  using assms(3)
proof (induction xs)
  case Nil
  have "f [] = skip"
    using assms(1) by (simp add: skip_def fun_eq_iff)
  then show ?case
    using calm_reports(1) by simp
next
  case (Cons x xs)
  have "f (x # xs) = andthen (g x) (f xs)"
    using assms(2) by (simp add: andthen_def fun_eq_iff)
  then show ?case
    using Cons by auto
qed

lemma calm_lists [intro!]:
  "\<forall>e \<in> set es. expr_calm e \<Longrightarrow> calm (expressions es)"
  "\<forall>e \<in> set es. expr_calm e \<Longrightarrow> calm (element_defaults es)"
  "\<forall>e \<in> set es. expr_calm e \<Longrightarrow> calm (property_defaults es)"
  "\<forall>b \<in> set bs. bind_calm b \<Longrightarrow> calm (bindings bs)"
  "\<forall>b \<in> set bs. bind_calm b \<Longrightarrow> calm (parameters bs)"
  "\<forall>l \<in> set ls. element_calm l \<Longrightarrow> calm (class_elements ls)"
  "\<forall>st \<in> set ss. calm (statement st) \<Longrightarrow> calm (statements ss)"
  "\<forall>cl \<in> set cs. clause_calm cl \<Longrightarrow> calm (clauses cs)"
proof -
  show "\<forall>e \<in> set es. expr_calm e \<Longrightarrow> calm (expressions es)"
    by (rule calm_list [of expressions expression]) (auto simp: expr_calm_def)
  show "\<forall>e \<in> set es. expr_calm e \<Longrightarrow> calm (element_defaults es)"
    by (rule calm_list [of element_defaults pattern_defaults]) (auto simp: expr_calm_def)
  show "\<forall>e \<in> set es. expr_calm e \<Longrightarrow> calm (property_defaults es)"
    by (rule calm_list [of property_defaults "\<lambda>e. property_defaults [e]"]) (auto simp: expr_calm_def)
  show "\<forall>b \<in> set bs. bind_calm b \<Longrightarrow> calm (bindings bs)"
    by (rule calm_list [of bindings "\<lambda>b. bindings [b]"]) (auto simp: bind_calm_def split: bind.split)
  show "\<forall>b \<in> set bs. bind_calm b \<Longrightarrow> calm (parameters bs)"
    by (rule calm_list [of parameters "\<lambda>b. parameters [b]"]) (auto simp: bind_calm_def split: bind.split)
  show "\<forall>l \<in> set ls. element_calm l \<Longrightarrow> calm (class_elements ls)"
    by (rule calm_list [of class_elements "\<lambda>l. class_elements [l]"]) (auto simp: element_calm_def)
  show "\<forall>st \<in> set ss. calm (statement st) \<Longrightarrow> calm (statements ss)"
    by (rule calm_list [of statements statement]) auto
  show "\<forall>cl \<in> set cs. clause_calm cl \<Longrightarrow> calm (clauses cs)"
    by (rule calm_list [of clauses "\<lambda>cl. clauses [cl]"]) (auto simp: clause_calm_def split: clause.split)
qed

text \<open>Assigning to an expression and ranging over one, from what is known of the expression.\<close>

definition hold_value :: "expr \<Rightarrow> expr \<Rightarrow> scope \<Rightarrow> checker \<Rightarrow> checker" where
  "hold_value t v = (\<lambda>s c. if v \<noteq> No_expr \<and> reaching v s c then hold (root_binding t s) c else c)"

lemma calm_hold_value [intro]: "calm (hold_value t v)"
proof -
  have "steady (\<lambda>s c. v \<noteq> No_expr \<and> reaching v s c)"
    using steady_reaching(1) [of v] unfolding steady_def by blast
  then show ?thesis
    unfolding hold_value_def by auto
qed

lemma calm_assign_target [intro!]:
  assumes "expr_calm t"
  shows "calm (\<lambda>s. assign_target t s v)"
proof -
  have t: "calm (expression t)" "calm (pattern_defaults t)"
    using assms by (simp_all add: expr_calm_def)
  consider (name) p n where "t = Ident p n"
    | (pattern) "(\<lambda>s. assign_target t s v) = andthen (\<lambda>s. fold (assign_pattern_name s v) (target_names t)) (pattern_defaults t)"
    | (other) "(\<lambda>s. assign_target t s v) = andthen (\<lambda>s c. changes_member_of t s (expr_pos (start_pos c) t) c)
        (andthen (expression t) (hold_value t v))"
    by (cases t) (auto simp: fun_eq_iff assign_target_simps andthen_def hold_value_def Let_def)
  then show ?thesis
  proof cases
    case name
    then have "(\<lambda>s. assign_target t s v) = (\<lambda>s. assign_name p n s v)"
      by (simp add: assign_target_simps fun_eq_iff)
    then show ?thesis
      by (simp add: calm_assign_name)
  next
    case pattern
    then show ?thesis
      using t(2) calm_assign_pattern by auto
  next
    case other
    then show ?thesis
      using t(1) by auto
  qed
qed

definition into_calm :: "into \<Rightarrow> bool" where
  "into_calm i \<longleftrightarrow> (\<forall>m. calm (\<lambda>s. for_into i s m))"

lemma calm_for_into:
  "into_calm (Into_binding t)" "expr_calm e \<Longrightarrow> into_calm (Into_expr e)"
proof -
  have "(\<lambda>s. for_into (Into_binding t) s m) = (if m then taint_names (target_names t) else skip)" for m
    by (auto simp: for_into_simps fun_eq_iff skip_def)
  then show "into_calm (Into_binding t)"
    using calm_taint_names by (auto simp: into_calm_def)
next
  assume e: "expr_calm e"
  have "(\<lambda>s. for_into (Into_expr e) s m) = andthen (\<lambda>s. assign_target e s No_expr) (if m then taint_names (target_names e) else skip)" for m
    by (auto simp: for_into_simps fun_eq_iff skip_def andthen_def Let_def)
  then show "into_calm (Into_expr e)"
    using e calm_taint_names by (auto simp: into_calm_def)
qed

lemma calm_into_reaching [intro]: "into_calm i \<Longrightarrow> calm (\<lambda>s c. for_into i s (reaching x s c) c)"
proof -
  assume i: "into_calm i"
  have "(\<lambda>s c. for_into i s (reaching x s c) c) = (\<lambda>s c. if reaching x s c then for_into i s True c else for_into i s False c)"
    by (simp add: fun_eq_iff)
  moreover have "calm \<dots>"
    using i by (intro calm_if) (auto simp: into_calm_def)
  ultimately show ?thesis
    by simp
qed

text \<open>The walk as a sequence of steps, one constructor at a time.\<close>

lemma expression_steps:
  "expression No_expr = skip" "expression (Ident p n) = check_name p n"
  "expression (This_expr p) = (\<lambda>s c. if profile c = profile_handwritten then violate p Rule_this c else c)"
  "expression (Meta_property p) = (\<lambda>s. violate p Rule_unsupported)"
  "expression (Await_expr p x) = andthen (\<lambda>s. violate p Rule_async) (expression x)"
  "expression (Yield_expr p x) = andthen (\<lambda>s. violate p Rule_async) (expression x)"
  "expression (Function_lit f) = func_literal f"
  "expression (Arrow_lit nd p async ps r b) = andthen (\<lambda>s c. if async then violate p Rule_async c else c)
    (enter nd ps r (case b of Block_body ss \<Rightarrow> ss | Expr_body _ \<Rightarrow> []) (andthen (parameters ps) (body_walk b)))"
  "expression (Class_lit p x es) = andthen (expression x) (class_elements es)"
  "expression (Assign_expr p l e) = andthen (expression e) (\<lambda>s. assign_target l s e)"
  "expression (Unary_expr p op x) = (if op = Increment \<or> op = Decrement then (\<lambda>s. assign_target x s No_expr)
    else if op = Delete_op then andthen (\<lambda>s. changes_member_of x s p) (expression x) else expression x)"
  "expression (Dot_expr p x ip n) = andthen (\<lambda>s. check_property ip n) (expression x)"
  "expression (Private_dot p x) = expression x"
  "expression (Bracket_expr p x m) = andthen (\<lambda>s. check_member m) (andthen (expression x) (expression m))"
  "expression (Call_expr p x as) = andthen (expression x) (andthen (expressions as) (call_effects p x as))"
  "expression (New_expr p x as) = andthen (expression x) (expressions as)"
  "expression (Binary_expr p o2 x y) = andthen (expression x) (expression y)"
  "expression (Conditional_expr p t x y) = andthen (expression t) (andthen (expression x) (expression y))"
  "expression (Sequence_expr p es') = expressions es'"
  "expression (Array_lit p es') = expressions es'"
  "expression (Object_lit p es') = expressions es'"
  "expression (Property_keyed p k x y) = andthen (if k then expression x else skip) (expression y)"
  "expression (Property_short p n i) = andthen (check_name p n) (expression i)"
  "expression (Spread_expr p x) = expression x"
  "expression (Template_lit p x as) = andthen (expression x) (expressions as)"
  "expression (Optional_chain p x) = expression x" "expression (Optional_expr p x) = expression x"
  "expression (Array_pattern p es' y) = skip" "expression (Object_pattern p es' y) = skip"
  "expression (Binding_expr p bd) = (\<lambda>s. violate p Rule_unsupported)"
  "expression (Literal p v) = skip" "expression (Other_expr p) = (\<lambda>s. violate p Rule_unsupported)"
  by (auto simp: fun_eq_iff expression_simps skip_def andthen_def enter_def body_walk_def Let_def
      split: body.split prod.split)

lemma statement_steps:
  "statement No_stmt = skip" "statement (Expr_stmt p x) = expression x" "statement (Variable_stmt p bs) = bindings bs"
  "statement (Lexical_decl p k bs) = bindings bs" "statement (Function_decl f) = func_literal f"
  "statement (Class_decl p nm x es) = andthen (expression x) (class_elements es)"
  "statement (Block_stmt p ss) = statements ss" "statement (Return_stmt p x) = expression x"
  "statement (Throw_stmt p x) = expression x"
  "statement (If_stmt p x a b) = andthen (expression x) (andthen (statement a) (statement b))"
  "statement (For_stmt p i x y b) =
    andthen (init_walk i) (andthen (expression x) (andthen (expression y) (statement b)))"
  "statement (For_in p t x b) = andthen (expression x) (andthen (\<lambda>s. for_into t s False) (statement b))"
  "statement (For_of p k t x b) = andthen (\<lambda>s c. if k then violate p Rule_async c else c)
    (andthen (expression x) (andthen (\<lambda>s c. for_into t s (reaching x s c) c) (statement b)))"
  "statement (While_stmt p x b) = andthen (expression x) (statement b)"
  "statement (Do_while p b x) = andthen (statement b) (expression x)"
  "statement (Labelled_stmt p b) = statement b"
  "statement (Switch_stmt p x cs) = andthen (expression x) (clauses cs)"
  "statement (Try_stmt p ss x hs fs) = andthen (statements ss) (andthen (statements hs) (statements fs))"
  "statement (With_stmt p) = (\<lambda>s. violate p Rule_unsupported)" "statement (Empty_stmt p) = skip"
  "statement (Plain_stmt p) = skip" "statement (Other_stmt p) = (\<lambda>s. violate p Rule_unsupported)"
  by (auto simp: fun_eq_iff statement_simps skip_def andthen_def init_walk_def Let_def split: initializer.split)

lemma pattern_defaults_steps:
  "pattern_defaults t = (case t of
      Array_pattern _ es _ \<Rightarrow> element_defaults es
    | Object_pattern _ ps _ \<Rightarrow> property_defaults ps
    | Assign_expr _ _ r \<Rightarrow> expression r
    | _ \<Rightarrow> skip)"
  "property_defaults [t] = (case t of
      Property_short _ _ i \<Rightarrow> expression i
    | Property_keyed _ _ _ v \<Rightarrow> pattern_defaults v
    | _ \<Rightarrow> skip)"
  by (cases t; simp add: fun_eq_iff pattern_defaults_simps skip_def)+

lemma part_steps:
  "bindings [Bind t e] = andthen (expression e) (andthen (pattern_defaults t) (bind_declared t e))"
  "parameters [Bind t e] = andthen (pattern_defaults t) (expression e)"
  "func_literal (Func nd p n a g ps r b) = andthen (\<lambda>s c. if a \<or> g then violate p Rule_async c else c)
    (enter nd ps r b (andthen (parameters ps) (statements b)))"
  "class_elements [Method f] = func_literal f" "class_elements [Field e] = expression e"
  "class_elements [Static_block p] = (\<lambda>s. violate p Rule_module_state)"
  "clauses [Clause e ss] = andthen (expression e) (statements ss)"
  "body_walk (Block_body ss) = statements ss" "body_walk (Expr_body e) = expression e"
  "init_walk No_init = skip" "init_walk (Init_expr e) = expression e" "init_walk (Init_bindings bs) = bindings bs"
  by (auto simp: fun_eq_iff andthen_def enter_def func_literal.simps body_walk_def init_walk_def Let_def split: prod.split)

lemma calm_intros:
  "calm (expression e) \<Longrightarrow>
    calm (case e of Array_pattern _ es _ \<Rightarrow> element_defaults es | Object_pattern _ ps _ \<Rightarrow> property_defaults ps
      | Assign_expr _ _ r \<Rightarrow> expression r | _ \<Rightarrow> skip) \<Longrightarrow>
    calm (case e of Property_short _ _ i \<Rightarrow> expression i | Property_keyed _ _ _ v \<Rightarrow> pattern_defaults v | _ \<Rightarrow> skip) \<Longrightarrow>
    expr_calm e"
  "calm (bindings [b]) \<Longrightarrow> calm (parameters [b]) \<Longrightarrow> bind_calm b"
  "calm (class_elements [l]) \<Longrightarrow> element_calm l" "calm (clauses [cl]) \<Longrightarrow> clause_calm cl"
  by (simp_all add: expr_calm_def bind_calm_def element_calm_def clause_calm_def pattern_defaults_steps)

lemma calm_parts [intro]:
  "expr_calm e \<Longrightarrow> calm (expression e)" "expr_calm e \<Longrightarrow> calm (pattern_defaults e)"
  "into_calm t \<Longrightarrow> calm (\<lambda>s. for_into t s m)"
  by (simp_all add: expr_calm_def into_calm_def)

text \<open>Every function of the walk is calm.\<close>

lemma calm_walk:
  "expr_calm e" "bind_calm b" "calm (func_literal f)" "calm (body_walk y)" "element_calm l" "calm (statement st)"
  "calm (init_walk i)" "into_calm t" "clause_calm cl"
  by (induction e and b and f and y and l and st and i and t and cl)
    (((rule calm_intros)?; auto simp: part_steps expression_steps statement_steps intro: calm_for_into calm_bind_declared
      calm_call_effects)+)

text \<open>So a pass over the checker a silent pass left, or over one that enlarges it, does nothing but report.\<close>

lemma calm_statements: "calm (statements ss)"
  using calm_walk(6) by auto

lemma settled_still:
  assumes "well_scoped c" "scope_ok (length (store c)) ts"
  shows "\<exists>e. settle body ts c = Some e \<and> \<not> changed e \<and> (\<forall>d. enlarges e d \<longrightarrow> still d (statements body ts d))"
proof -
  obtain e b where e: "settle body ts c = Some e" "\<not> changed e" "e = pass body ts b" "well_scoped b"
    "scope_ok (length (store b)) ts"
    using settles [OF assms] by blast
  have "within (length (store b)) ts (b\<lparr>changed := False\<rparr>)"
    using e(4,5) by (simp add: within_def well_scoped_def)
  from calmD(3) [OF calm_statements this] e show ?thesis
    by (auto simp: pass_def)
qed

end
