(* ===== verification/ScriptAccepted.thy ===== *)
theory ScriptAccepted
  imports ScriptStable
begin

section \<open>What an accepted script is\<close>

text \<open>
  What the checker's answer says of the script: the top level an accepted script has, stated as a predicate on
  its statements, and how the violations of the top level and of the reporting pass make up the answer.
\<close>

subsection \<open>Listing module values\<close>

lemma listing_fold:
  "fst (fold (\<lambda>n (ok, expected). (ok \<and> n \<in> expected, expected - {n})) ns (ok, E)) \<longleftrightarrow>
    ok \<and> distinct ns \<and> set ns \<subseteq> E"
proof (induction ns arbitrary: ok E)
  case (Cons n ns)
  then show ?case
    by auto
qed simp

lemma lists_exactly_iff: "lists_exactly ns fs \<longleftrightarrow> distinct ns \<and> set ns = set fs"
proof
  assume l: "lists_exactly ns fs"
  then have "distinct ns" "set ns \<subseteq> set fs" "length ns = card (set fs)"
    by (simp_all add: lists_exactly_def listing_fold)
  then show "distinct ns \<and> set ns = set fs"
    using card_subset_eq [of "set fs" "set ns"] by (simp add: distinct_card)
next
  assume "distinct ns \<and> set ns = set fs"
  then show "lists_exactly ns fs"
    using distinct_card [of ns] by (simp add: lists_exactly_def listing_fold)
qed

subsection \<open>The top level\<close>

definition constant_allowed :: "string \<Rightarrow> bind \<Rightarrow> bool" where
  "constant_allowed pr b \<longleftrightarrow>
    (\<exists>p n. bind_target b = Ident p n) \<and>
    (primitive_value (bind_init b) \<or>
      (if pr = profile_sdk_v1 then sdk_constant (bind_init b) else immutable_value (bind_init b)))"

definition top_allowed :: "string \<Rightarrow> stmt \<Rightarrow> bool" where
  "top_allowed pr st =
    (case st of
      Function_decl _ \<Rightarrow> True
    | Lexical_decl _ is_const bs \<Rightarrow> is_const \<and> (\<forall>b \<in> set bs. constant_allowed pr b)
    | Expr_stmt _ (Literal _ (String_value v)) \<Rightarrow> v = ''use strict''
    | Empty_stmt _ \<Rightarrow> True
    | _ \<Rightarrow> False)"

definition function_names :: "stmt list \<Rightarrow> string list" where
  "function_names ss = concat (map (\<lambda>st. case st of
      Function_decl f \<Rightarrow> (case func_name f of Some n \<Rightarrow> [n] | None \<Rightarrow> []) | _ \<Rightarrow> []) ss)"

text \<open>The constants an sdk-v1 script must have frozen: those that are not primitives.\<close>

definition frozen_bind :: "string \<Rightarrow> bind \<Rightarrow> string list" where
  "frozen_bind pr b =
    (case b of
      Bind (Ident _ n) e \<Rightarrow> if \<not> primitive_value e \<and> pr = profile_sdk_v1 \<and> sdk_constant e then [n] else []
    | _ \<Rightarrow> [])"

definition frozen_names :: "string \<Rightarrow> stmt list \<Rightarrow> string list" where
  "frozen_names pr ss = concat (map (\<lambda>st. case st of
      Lexical_decl _ _ bs \<Rightarrow> concat (map (frozen_bind pr) bs) | _ \<Rightarrow> []) ss)"

text \<open>How one step of the top-level check changes what it gathers.\<close>

definition names_ok :: "top_check \<Rightarrow> bool" where
  "names_ok t \<longleftrightarrow> scope_ok (length (store (checker_of t))) [names t]"

definition adds :: "bool \<Rightarrow> violation list \<Rightarrow> violation list \<Rightarrow> bool" where
  "adds ok vs ws \<longleftrightarrow> (\<exists>more. ws = vs @ more \<and> (more = [] \<longleftrightarrow> ok))"

lemma adds_trans: "adds a us vs \<Longrightarrow> adds b vs ws \<Longrightarrow> adds (a \<and> b) us ws"
  by (fastforce simp: adds_def)

definition top_grows :: "bool \<Rightarrow> string list \<Rightarrow> string list \<Rightarrow> top_check \<Rightarrow> top_check \<Rightarrow> bool" where
  "top_grows ok ds fs t u \<longleftrightarrow>
    (let c = checker_of t; d = checker_of u in
     adds ok (violations c) (violations d) \<and>
     declared u = declared t @ ds \<and> frozen u = frozen t @ fs \<and>
     scopes d = scopes c \<and> reported d = reported c \<and> profile d = profile c \<and> reporting d = reporting c \<and>
     (names_ok t \<longrightarrow> names_ok u))"

lemma top_grows_refl: "top_grows True [] [] t t"
  by (simp add: top_grows_def adds_def)

lemma top_grows_trans:
  "top_grows a ds fs t u \<Longrightarrow> top_grows b es gs u v \<Longrightarrow> top_grows (a \<and> b) (ds @ es) (fs @ gs) t v"
  unfolding top_grows_def Let_def by (intro conjI) (simp_all, blast intro: adds_trans)

lemma declare_top_grows: "top_grows True [] [] t (declare_top n t)"
proof -
  obtain bs f where d: "declare_name n (new_binding True False) (store (checker_of t), names t) = (bs, f)"
    by fastforce
  moreover have "names_ok t \<Longrightarrow> scope_ok (length bs) [f]"
    using declare_name_grows [of "names t" "store (checker_of t)" n "new_binding True False"] d
    by (auto simp: names_ok_def scope_ok_def simp del: append_assoc split_paired_Ex)
  ultimately show ?thesis
    by (simp add: top_grows_def declare_top_def adds_def names_ok_def)
qed

lemma refuse_grows: "reported (checker_of t) = None \<Longrightarrow> top_grows False [] [] t (refuse_at p t)"
  by (simp add: top_grows_def refuse_at_def report_def adds_def names_ok_def)

lemma freeze_grows: "top_grows True [] [n] t (t\<lparr>frozen := frozen t @ [n]\<rparr>)"
  by (simp add: top_grows_def adds_def names_ok_def)

lemma name_grows: "top_grows True [n] [] t (t\<lparr>declared := declared t @ [n]\<rparr>)"
  by (simp add: top_grows_def adds_def names_ok_def)

lemma top_constant_grows:
  assumes "reported (checker_of t) = None" "profile (checker_of t) = pr"
  shows "top_grows (constant_allowed pr b) [] (frozen_bind pr b) t (top_constant b t)"
proof -
  obtain g e where b: "b = Bind g e"
    by (cases b)
  show ?thesis
  proof (cases "\<exists>p n. g = Ident p n")
    case True
    then obtain p n where g: "g = Ident p n"
      by blast
    let ?t = "declare_top n t"
    have r: "reported (checker_of ?t) = None"
      using declare_top_grows [of t n] assms(1) by (simp add: top_grows_def Let_def)
    note step = top_grows_trans [OF declare_top_grows [of t n]]
    show ?thesis
      using step [OF top_grows_refl] step [OF refuse_grows [OF r]] step [OF freeze_grows]
      by (simp add: b g assms(2) top_constant_def constant_allowed_def frozen_bind_def Let_def)
  next
    case False
    then show ?thesis
      using refuse_grows [OF assms(1)] by (cases g) (auto simp: b top_constant_def constant_allowed_def frozen_bind_def)
  qed
qed

lemma top_constants_grow:
  assumes "reported (checker_of t) = None" "profile (checker_of t) = pr"
  shows "top_grows (\<forall>b \<in> set bs. constant_allowed pr b) [] (concat (map (frozen_bind pr) bs)) t (fold top_constant bs t)"
  using assms
proof (induction bs arbitrary: t)
  case Nil
  then show ?case
    by (simp add: top_grows_refl)
next
  case (Cons b bs)
  note g = top_constant_grows [OF Cons.prems, of b]
  then have "reported (checker_of (top_constant b t)) = None" "profile (checker_of (top_constant b t)) = pr"
    using Cons.prems by (simp_all add: top_grows_def Let_def)
  from top_grows_trans [OF g Cons.IH [OF this]] show ?case
    by simp
qed

lemma top_statement_grows:
  assumes "reported (checker_of t) = None" "profile (checker_of t) = pr"
  shows "top_grows (top_allowed pr st) (function_names [st]) (frozen_names pr [st]) t (top_statement st t)"
proof (cases st)
  case (Function_decl f)
  then show ?thesis
    using top_grows_refl [of t] top_grows_trans [OF declare_top_grows name_grows]
    by (cases "func_name f") (auto simp: top_statement_def top_allowed_def function_names_def frozen_names_def Let_def)
next
  case (Lexical_decl p is_const bs)
  let ?t = "if is_const then t else refuse_at p t"
  have "top_grows is_const [] [] t ?t"
    using assms(1) by (simp add: top_grows_refl refuse_grows)
  moreover from this have "reported (checker_of ?t) = None" "profile (checker_of ?t) = pr"
    using assms by (simp_all add: top_grows_def Let_def)
  ultimately show ?thesis
    using top_grows_trans [OF _ top_constants_grow] Lexical_decl
    by (fastforce simp: top_statement_def top_allowed_def function_names_def frozen_names_def)
next
  case (Expr_stmt p e)
  then show ?thesis
    using refuse_grows [OF assms(1)] top_grows_refl [of t]
    by (cases e) (auto simp: top_statement_def top_allowed_def function_names_def frozen_names_def split: literal.split)
qed (use refuse_grows [OF assms(1)] top_grows_refl [of t] in
  \<open>auto simp: top_statement_def top_allowed_def function_names_def frozen_names_def\<close>)

lemma top_statements_grow:
  assumes "reported (checker_of t) = None" "profile (checker_of t) = pr"
  shows "top_grows (\<forall>st \<in> set ss. top_allowed pr st) (function_names ss) (frozen_names pr ss) t (fold top_statement ss t)"
  using assms
proof (induction ss arbitrary: t)
  case Nil
  then show ?case
    by (simp add: top_grows_refl function_names_def frozen_names_def)
next
  case (Cons st ss)
  note g = top_statement_grows [OF Cons.prems, of st]
  then have "reported (checker_of (top_statement st t)) = None" "profile (checker_of (top_statement st t)) = pr"
    using Cons.prems by (simp_all add: top_grows_def Let_def)
  from top_grows_trans [OF g Cons.IH [OF this]] show ?case
    by (simp add: function_names_def frozen_names_def)
qed

text \<open>The functions a script must declare, and the list of its module values.\<close>

definition required_functions :: "string \<Rightarrow> string list" where
  "required_functions pr = (if pr = profile_sdk_v1 then entrypoints @ [module_values_function] else entrypoints)"

definition module_values_listed :: "string \<Rightarrow> stmt list \<Rightarrow> bool" where
  "module_values_listed pr ss \<longleftrightarrow>
    (case find (\<lambda>st. case st of Function_decl f \<Rightarrow> func_name f = Some module_values_function | _ \<Rightarrow> False) ss of
      Some (Function_decl f) \<Rightarrow>
        (\<exists>ns. module_values_list f = Some ns \<and> distinct ns \<and> set ns = set (frozen_names pr ss))
    | _ \<Rightarrow> True)"

definition same_but_violations :: "checker \<Rightarrow> checker \<Rightarrow> bool" where
  "same_but_violations c d \<longleftrightarrow>
    profile d = profile c \<and> store d = store c \<and> scopes d = scopes c \<and> reporting d = reporting c \<and>
    changed d = changed c \<and> reported d = reported c"

lemma same_but_violations_trans:
  "same_but_violations c d \<Longrightarrow> same_but_violations d e \<Longrightarrow> same_but_violations c e"
  by (simp add: same_but_violations_def)

lemma checked_if:
  "same_but_violations c d \<Longrightarrow> same_but_violations c e \<Longrightarrow> same_but_violations c (if b then d else e)"
  "adds ok (violations e) (violations d) \<Longrightarrow> adds (b \<longrightarrow> ok) (violations e) (violations (if b then d else e))"
  by (simp_all add: adds_def)

lemma require_functions:
  "same_but_violations c (fold (require_function ns) fs c) \<and>
    adds (set fs \<subseteq> set ns) (violations c) (violations (fold (require_function ns) fs c))"
proof (induction fs arbitrary: c)
  case (Cons f fs)
  have "same_but_violations c (require_function ns f c)"
    "adds (f \<in> set ns) (violations c) (violations (require_function ns f c))"
    by (simp_all add: same_but_violations_def require_function_def adds_def)
  with Cons [of "require_function ns f c"] show ?case
    using adds_trans [of "f \<in> set ns" "violations c" "violations (require_function ns f c)"]
    by (auto simp: same_but_violations_def)
qed (simp add: same_but_violations_def adds_def)

lemma check_module_values_adds:
  assumes "reported c = None"
  shows "same_but_violations c (check_module_values ss (frozen_names pr body) c) \<and>
    adds (case find (\<lambda>st. case st of Function_decl f \<Rightarrow> func_name f = Some module_values_function | _ \<Rightarrow> False) ss of
        Some (Function_decl f) \<Rightarrow>
          (\<exists>ns. module_values_list f = Some ns \<and> distinct ns \<and> set ns = set (frozen_names pr body))
      | _ \<Rightarrow> True)
      (violations c) (violations (check_module_values ss (frozen_names pr body) c))"
proof (induction ss)
  case (Cons st ss)
  then show ?case
    using assms by (cases st)
      (auto simp: same_but_violations_def adds_def report_def lists_exactly_iff split: option.split)
qed (simp add: same_but_violations_def adds_def)

text \<open>Whether the top level of a script is as its profile has it, and that its check says so.\<close>

definition top_level_ok :: "string \<Rightarrow> stmt list \<Rightarrow> bool" where
  "top_level_ok pr ss \<longleftrightarrow>
    (\<forall>st \<in> set ss. top_allowed pr st) \<and> set (required_functions pr) \<subseteq> set (function_names ss) \<and>
    (pr = profile_sdk_v1 \<longrightarrow> module_values_listed pr ss)"

lemma top_level_checked:
  assumes "check_top_level (script_body p) (checker_for pr p) = (f, c)"
  shows "well_scoped c" "scope_ok (length (store c)) [f]" "reported c = None" "\<not> reporting c" "profile c = pr"
    "violations c = [] \<longleftrightarrow> top_level_ok pr (script_body p)"
proof -
  let ?ss = "script_body p" and ?init = "checker_for pr p"
  let ?first = "\<lparr>names = [], declared = [], frozen = [], checker_of = ?init\<rparr>"
  let ?t = "fold top_statement ?ss ?first"
  let ?r = "fold (require_function (declared ?t)) (required_functions pr) (checker_of ?t)"
  have g: "top_grows (\<forall>st \<in> set ?ss. top_allowed pr st) (function_names ?ss) (frozen_names pr ?ss) ?first ?t"
    by (rule top_statements_grow) (simp_all add: checker_for_def)
  then have t: "adds (\<forall>st \<in> set ?ss. top_allowed pr st) [] (violations (checker_of ?t))"
    "declared ?t = function_names ?ss" "frozen ?t = frozen_names pr ?ss" "scopes (checker_of ?t) = Map.empty"
    "reported (checker_of ?t) = None" "\<not> reporting (checker_of ?t)" "profile (checker_of ?t) = pr" "names_ok ?t"
    by (simp_all add: top_grows_def checker_for_def names_ok_def scope_ok_def Let_def)
  have r: "same_but_violations (checker_of ?t) ?r"
    "adds (set (required_functions pr) \<subseteq> set (function_names ?ss)) (violations (checker_of ?t)) (violations ?r)"
    using require_functions [of "checker_of ?t" "declared ?t" "required_functions pr"] t(2) by simp_all
  have m: "same_but_violations ?r (check_module_values ?ss (frozen_names pr ?ss) ?r)"
    "adds (module_values_listed pr ?ss) (violations ?r) (violations (check_module_values ?ss (frozen_names pr ?ss) ?r))"
    using check_module_values_adds [of ?r ?ss pr ?ss] r(1) t(5)
    by (simp_all add: same_but_violations_def module_values_listed_def)
  let ?sdk = "pr = profile_sdk_v1 \<and> module_values_function \<in> set (function_names ?ss)"
  have c: "f = names ?t" "c = (if ?sdk then check_module_values ?ss (frozen_names pr ?ss) ?r else ?r)"
    using assms t(2,3) by (auto simp: check_top_level_def checker_for_def required_functions_def Let_def)
  have s: "same_but_violations (checker_of ?t) c"
    unfolding c(2) by (rule checked_if(1) [OF same_but_violations_trans [OF r(1) m(1)] r(1)])
  with t(4-8) c(1) show "well_scoped c" "scope_ok (length (store c)) [f]" "reported c = None" "\<not> reporting c" "profile c = pr"
    by (simp_all add: same_but_violations_def well_scoped_def names_ok_def)
  have "adds (?sdk \<longrightarrow> module_values_listed pr ?ss) (violations ?r) (violations c)"
    unfolding c(2) by (rule checked_if(2) [OF m(2)])
  from adds_trans [OF adds_trans [OF t(1) r(2)] this]
  show "violations c = [] \<longleftrightarrow> top_level_ok pr (script_body p)"
    by (auto simp: adds_def top_level_ok_def required_functions_def)
qed

subsection \<open>What the passes report\<close>

definition silent_since :: "violation list \<Rightarrow> checker \<Rightarrow> bool" where
  "silent_since vs c \<longleftrightarrow> \<not> reporting c \<and> reported c = None \<and> violations c = vs"

definition reports_since :: "violation list \<Rightarrow> checker \<Rightarrow> bool" where
  "reports_since vs c \<longleftrightarrow> (\<exists>ws. violations c = vs @ ws \<and> distinct ws \<and> reported c = Some (set ws))"

interpretation silent: walk_invariant UNIV "silent_since vs" for vs
  by standard (auto simp: silent_since_def violate_def taint_def hold_def)

interpretation reports: walk_invariant UNIV "reports_since vs" for vs
  by standard (auto simp: reports_since_def violate_def taint_def hold_def report_def Let_def)

lemma settle_keeps:
  assumes "settle body ts c = Some c'" "Q c" "\<And>d. Q d \<Longrightarrow> Q (pass body ts d)"
  shows "Q c'"
proof (rule settle.raw_induct [of "\<lambda>b t c c'. b = body \<longrightarrow> t = ts \<longrightarrow> Q c \<longrightarrow> Q c'", rule_format])
  fix f b t c d
  assume *: "\<And>b t c d. f b t c = Some d \<Longrightarrow> b = body \<Longrightarrow> t = ts \<Longrightarrow> Q c \<Longrightarrow> Q d"
    "(let c' = pass b t c in if changed c' then f b t c' else Some c') = Some d" "b = body" "t = ts" "Q c"
  then show "Q d"
    using assms(3) by (auto simp: Let_def split: if_splits)
qed (use assms in auto)

lemma settle_silent:
  assumes "settle body ts c = Some c'" "well_scoped c" "scope_ok (length (store c)) ts" "silent_since vs c"
  shows "silent_since vs c'"
proof -
  have "well_scoped c' \<and> scope_ok (length (store c')) ts \<and> silent_since vs c'"
  proof (rule settle_keeps [OF assms(1)])
    fix d
    assume d: "well_scoped d \<and> scope_ok (length (store d)) ts \<and> silent_since vs d"
    then have "silent_since vs (d\<lparr>changed := False\<rparr>)" "well_scoped (d\<lparr>changed := False\<rparr>)"
      by (auto simp: silent_since_def well_scoped_def)
    from silent.keeps_statements [OF this, of ts body] d
    show "well_scoped (pass body ts d) \<and> scope_ok (length (store (pass body ts d))) ts \<and> silent_since vs (pass body ts d)"
      using pass_lowers [of d ts body] by (auto simp: pass_def)
  qed (use assms in simp)
  then show ?thesis
    by simp
qed

lemma run_reports:
  assumes "check_top_level (script_body p) (checker_for pr p) = (f, c)"
  shows "\<exists>d walk. run p (checker_for pr p) = Some d \<and> violations d = violations c @ walk \<and> distinct walk"
proof -
  note t = top_level_checked [OF assms]
  obtain e where e: "settle (script_body p) [f] c = Some e" "well_scoped e" "scope_ok (length (store e)) [f]"
    using settles [OF t(1,2)] by blast
  have s: "silent_since (violations c) e"
    using settle_silent [OF e(1) t(1,2)] t(3,4) by (simp add: silent_since_def)
  let ?e = "e\<lparr>reporting := True, reported := Some {}\<rparr>"
  have "reports_since (violations c) ?e" "well_scoped ?e"
    using s e(2) by (auto simp: silent_since_def reports_since_def well_scoped_def)
  from reports.keeps_statements [OF this, of "[f]" "script_body p"]
  have "reports_since (violations c) (statements (script_body p) [f] ?e)"
    using e(3) by simp
  then show ?thesis
    using assms e(1) by (auto simp: run_def reports_since_def)
qed

lemma validate_total: "\<exists>vs. validate parse pr source = Some vs"
proof (cases "parse source")
  case (Inr p)
  obtain f c where "check_top_level (script_body p) (checker_for pr p) = (f, c)"
    by fastforce
  with run_reports show ?thesis
    by (fastforce simp: validate_def Inr)
qed (simp add: validate_def)

subsection \<open>The properties\<close>

text \<open>
  C19: \<open>Validate\<close> always answers: whatever the profile, the source and the parser's result, the taint reaches
  its fixed point and the violations are returned.
\<close>

theorem validate_answers: "\<exists>vs. validate parse pr source = Some vs"
  by (rule validate_total)


text \<open>
  C23: an accepted script parses and its profile is known; every statement of its top level declares a function,
  or constants each holding a value its profile allows, or is \<open>use strict\<close> or empty; it declares the
  entrypoints; and an sdk-v1 script's module values function lists exactly the constants to freeze.
\<close>

theorem accepted_top_level:
  assumes "validate parse pr source = Some []"
  shows "valid_profile pr \<and> (\<exists>p. parse source = Inr p \<and> top_level_ok pr (script_body p))"
proof (cases "parse source")
  case (Inl e)
  then show ?thesis
    using assms by (simp add: validate_def split: if_splits)
next
  case (Inr p)
  then have v: "valid_profile pr"
    using assms by (auto simp: validate_def split: if_splits)
  obtain f c where c: "check_top_level (script_body p) (checker_for pr p) = (f, c)"
    by fastforce
  from run_reports [OF this] obtain d walk where
    "run p (checker_for pr p) = Some d" "violations d = violations c @ walk"
    by blast
  with assms Inr v have "sort_key position (violations c @ walk) = []"
    by (simp add: validate_def)
  then have "violations c = []"
    using set_sort [of position "violations c @ walk"] by simp
  with top_level_checked(6) [OF c] v Inr show ?thesis
    by simp
qed

text \<open>
  C21: the reporting pass judges a script by a true fixed point of the taint: it neither marks a binding nor makes
  a scope, so the bindings it leaves are those the last taint pass left, and another pass over its result
  changes nothing.
\<close>

theorem taint_is_fixed:
  "case check_top_level (script_body p) (checker_for pr p) of (f, c) \<Rightarrow>
    \<exists>e d. settle (script_body p) [f] c = Some e \<and> run p (checker_for pr p) = Some d \<and>
      store d = store e \<and> scopes d = scopes e \<and>
      (let again = pass (script_body p) [f] d in store again = store d \<and> scopes again = scopes d \<and> \<not> changed again)"
proof -
  obtain f c where c: "check_top_level (script_body p) (checker_for pr p) = (f, c)"
    by fastforce
  from settled_still [OF top_level_checked(1,2) [OF c]] obtain e where
    e: "settle (script_body p) [f] c = Some e" "\<not> changed e"
    "\<And>d. enlarges e d \<Longrightarrow> still d (statements (script_body p) [f] d)"
    by blast
  let ?r = "e\<lparr>reporting := True, reported := Some {}\<rparr>"
  let ?d = "statements (script_body p) [f] ?r"
  have r: "run p (checker_for pr p) = Some ?d"
    by (simp add: run_def c e(1))
  have d: "still ?r ?d"
    by (rule e(3)) (simp add: enlarges_def)
  then have "still (?d\<lparr>changed := False\<rparr>) (pass (script_body p) [f] ?d)"
    unfolding pass_def by (intro e(3)) (simp add: enlarges_def still_def)
  with c e(1) r d show ?thesis
    by (intro case_prodI2 exI [of _ e] exI [of _ ?d]) (auto simp: still_def Let_def)
qed

subsection \<open>On sample scripts\<close>

text \<open>
  \<open>sample_script body\<close> is a script of two functions, \<open>function start(input) { body }\<close> and
  \<open>function project(state) { return state; }\<close>, and the constant \<open>limit = 3\<close>.
\<close>

definition sample_script :: "stmt list \<Rightarrow> script" where
  "sample_script body = \<lparr>script_pos = Pos 1 1, script_body =
    [Lexical_decl (Pos 1 1) True [Bind (Ident (Pos 1 7) ''limit'') (Literal (Pos 1 15) Number_value)],
     Function_decl (Func 1 (Pos 2 1) (Some ''start'') False False
       [Bind (Ident (Pos 2 16) ''input'') No_expr] No_expr body),
     Function_decl (Func 2 (Pos 9 1) (Some ''project'') False False
       [Bind (Ident (Pos 9 18) ''state'') No_expr] No_expr
       [Return_stmt (Pos 9 27) (Ident (Pos 9 34) ''state'')])]\<rparr>"

text \<open>\<open>const made = {from: input}; made.rank = limit; return made;\<close> changes only what the call made.\<close>

definition accepted_body :: "stmt list" where
  "accepted_body =
    [Lexical_decl (Pos 3 3) True [Bind (Ident (Pos 3 9) ''made'')
       (Object_lit (Pos 3 16) [Property_keyed (Pos 3 17) False (Literal (Pos 3 17) (String_value ''from''))
         (Ident (Pos 3 23) ''input'')])],
     Expr_stmt (Pos 4 3) (Assign_expr (Pos 4 3) (Dot_expr (Pos 4 3) (Ident (Pos 4 3) ''made'') (Pos 4 8) ''rank'')
       (Ident (Pos 4 15) ''limit'')),
     Return_stmt (Pos 5 3) (Ident (Pos 5 10) ''made'')]"

lemma sample_accepted: "validate (\<lambda>_. Inr (sample_script accepted_body)) profile_handwritten source = Some []"
  by code_simp

text \<open>Under \<open>sdk-v1\<close> a script also lists its module values: \<open>function __playhoot_module_values() { return []; }\<close>.\<close>

definition sdk_script :: script where
  "sdk_script = (sample_script accepted_body)\<lparr>script_body := script_body (sample_script accepted_body)
     @ [Function_decl (Func 3 (Pos 12 1) (Some module_values_function) False False [] No_expr
          [Return_stmt (Pos 12 40) (Array_lit (Pos 12 47) [])])]\<rparr>"

lemma sdk_accepted: "validate (\<lambda>_. Inr sdk_script) profile_sdk_v1 source = Some []"
  by code_simp

text \<open>\<open>const part = input.list; part.push(limit);\<close> changes a part of an input.\<close>

definition refused_body :: "stmt list" where
  "refused_body =
    [Lexical_decl (Pos 3 3) True [Bind (Ident (Pos 3 9) ''part'')
       (Dot_expr (Pos 3 16) (Ident (Pos 3 16) ''input'') (Pos 3 22) ''list'')],
     Expr_stmt (Pos 4 3) (Call_expr (Pos 4 3)
       (Dot_expr (Pos 4 3) (Ident (Pos 4 3) ''part'') (Pos 4 8) ''push'') [Ident (Pos 4 13) ''limit''])]"

lemma sample_refused:
  "validate (\<lambda>_. Inr (sample_script refused_body)) profile_handwritten source =
    Some [\<lparr>position = Pos 4 3, broken = Rule_mutation\<rparr>]"
  by code_simp


theorem accepted_top_level_witness: "top_level_ok profile_handwritten (script_body (sample_script accepted_body))"
  using accepted_top_level [OF sample_accepted] by simp

text \<open>The pattern \<open>{a = eval("1")}\<close>.\<close>

definition eval_pattern :: expr where
  "eval_pattern = Object_pattern (Pos 3 10) [Property_short (Pos 3 11) ''a''
     (Call_expr (Pos 3 15) (Ident (Pos 3 15) ''eval'') [Literal (Pos 3 20) (String_value ''1'')])] No_expr"


end
