(* ===== verification/LiveConnection.thy ===== *)
theory LiveConnection
  imports ViewPatch
begin

section \<open>The connections of a live Session\<close>

text \<open>
  \<open>connection.go\<close> of the package \<open>play/runtime/workflows/liveconnection\<close> and the part of
  \<open>step_boundary.go\<close> that sends views: what an attached connection holds, its feeds, and how it is
  sent what changed in a participant's view. A channel that is closed once is an option that is set
  once; waking a reader has no other effect than letting it look. A view that is \<open>nil\<close> is
  \<open>Raw_empty\<close>.
\<close>

subsection \<open>Messages\<close>

record participant =
  pa_id :: string
  pa_user :: string
  pa_display :: string

record lobby_member =
  lm_user :: string
  lm_display :: string

record lobby_update =
  lu_members :: "lobby_member list"
  lu_min_players :: int
  lu_max_players :: int

datatype presence_status = Presence_active | Presence_reconnecting | Presence_disconnected | Presence_left

record roster_member =
  ro_participant :: participant
  ro_status :: presence_status

type_synonym roster_update = "roster_member list"

record session_start =
  ss_participants :: "participant list"
  ss_frontend :: string

datatype end_reason = End_disconnected | End_session_ended | End_left | End_replaced | End_owner_changed

record connection_end =
  ce_reason :: end_reason
  ce_status :: string
  ce_cause :: string

record own_view =
  ov_participant :: string
  ov_full :: bool
  ov_revision :: int
  ov_state :: raw
  ov_ack :: int
  ov_errors :: "raw list"
  ov_events :: "raw list"

subsection \<open>Feeds\<close>

record 'a latest_feed =
  lf_pending :: "'a option"
  lf_finished :: bool

definition new_latest_feed :: "'a latest_feed" where
  "new_latest_feed = \<lparr>lf_pending = None, lf_finished = False\<rparr>"

definition publish_latest :: "'a \<Rightarrow> 'a latest_feed \<Rightarrow> 'a latest_feed" where
  "publish_latest update f = (if lf_finished f then f else f\<lparr>lf_pending := Some update\<rparr>)"

definition finish_latest :: "'a latest_feed \<Rightarrow> 'a latest_feed" where
  "finish_latest f = f\<lparr>lf_finished := True\<rparr>"

text \<open>The update taken, if any, and whether more may come.\<close>

definition take_latest :: "'a latest_feed \<Rightarrow> 'a latest_feed \<times> 'a option \<times> bool" where
  "take_latest f = (case lf_pending f of None \<Rightarrow> (f, None, \<not> lf_finished f)
     | Some update \<Rightarrow> (f\<lparr>lf_pending := None\<rparr>, Some update, True))"

text \<open>The views not taken yet, oldest first; whether publishing one collapsed them.\<close>

definition publish_view :: "own_view \<Rightarrow> raw \<Rightarrow> int \<Rightarrow> own_view list \<Rightarrow> own_view list \<times> bool" where
  "publish_view view whole max_pending pending =
     (if max_pending > 0 \<and> int (length pending) \<ge> max_pending \<and> whole \<noteq> Raw_empty then
        let mine = filter (\<lambda>v. ov_participant v = ov_participant view) (pending @ [view])
        in ([view\<lparr>ov_full := True, ov_state := whole,
               ov_errors := concat (map ov_errors mine), ov_events := concat (map ov_events mine)\<rparr>], True)
      else (pending @ [view], False))"

definition take_view :: "own_view list \<Rightarrow> own_view list \<times> own_view option" where
  "take_view pending = (case pending of [] \<Rightarrow> ([], None) | v # rest \<Rightarrow> (rest, Some v))"

subsection \<open>Connections\<close>

record connection =
  cn_user :: string
  cn_display :: string
  cn_participant :: string
  cn_watching :: string
  cn_lobby_updates :: "lobby_update latest_feed"
  cn_roster_updates :: "roster_update latest_feed"
  cn_views :: "own_view list"
  cn_last_view :: raw
  cn_last_ack :: int
  cn_revision :: int
  cn_started :: "session_start option"
  cn_ended :: "connection_end option"

definition new_connection :: "string \<Rightarrow> string \<Rightarrow> connection" where
  "new_connection user display =
     \<lparr>cn_user = user, cn_display = display, cn_participant = [], cn_watching = [],
      cn_lobby_updates = new_latest_feed, cn_roster_updates = new_latest_feed, cn_views = [],
      cn_last_view = Raw_empty, cn_last_ack = 0, cn_revision = 0, cn_started = None, cn_ended = None\<rparr>"

definition end_with :: "connection_end \<Rightarrow> connection \<Rightarrow> connection" where
  "end_with ending c = (case cn_ended c of Some _ \<Rightarrow> c | None \<Rightarrow> c\<lparr>cn_ended := Some ending\<rparr>)"

definition end_connection :: "end_reason \<Rightarrow> connection \<Rightarrow> connection" where
  "end_connection reason = end_with \<lparr>ce_reason = reason, ce_status = [], ce_cause = []\<rparr>"

definition is_ended :: "connection \<Rightarrow> bool" where
  "is_ended c = (cn_ended c \<noteq> None)"

definition mark_started :: "session_start \<Rightarrow> connection \<Rightarrow> connection" where
  "mark_started start c = c\<lparr>cn_started := Some start, cn_lobby_updates := finish_latest (cn_lobby_updates c)\<rparr>"

subsection \<open>Sending views\<close>

definition no_changes :: raw where
  "no_changes = Raw (JObj [])"

text \<open>
  \<open>sendView\<close> to a connection: \<open>acked\<close> is how far the SAMPLEs of \<open>participant\<close> were consumed as the
  viewer receives it.
\<close>

definition send_view_to :: "int \<Rightarrow> int \<Rightarrow> string \<Rightarrow> raw \<Rightarrow> raw list \<Rightarrow> raw list \<Rightarrow> connection \<Rightarrow> connection \<times> bool" where
  "send_view_to max_pending acked participant view errors events viewer =
     (let errors = (if cn_participant viewer \<noteq> participant then [] else errors);
          (patch, full) = (if view = Raw_empty then (no_changes, False)
            else case view_diff (cn_last_view viewer) view of Inr d \<Rightarrow> d | Inl _ \<Rightarrow> (view, True));
          viewer = (if view = Raw_empty then viewer else viewer\<lparr>cn_last_view := view\<rparr>)
      in if \<not> full \<and> patch = no_changes \<and> acked = cn_last_ack viewer \<and> errors = [] \<and> events = [] then (viewer, False)
         else
           let viewer = (if full \<or> patch \<noteq> no_changes then viewer\<lparr>cn_revision := cn_revision viewer + 1\<rparr> else viewer);
               viewer = viewer\<lparr>cn_last_ack := acked\<rparr>;
               (views, collapsed) = publish_view
                 \<lparr>ov_participant = participant, ov_full = full, ov_revision = cn_revision viewer, ov_state = patch,
                  ov_ack = acked, ov_errors = errors, ov_events = events\<rparr> (cn_last_view viewer) max_pending (cn_views viewer)
           in (viewer\<lparr>cn_views := views\<rparr>, collapsed))"

definition send_full_to :: "int \<Rightarrow> int \<Rightarrow> string \<Rightarrow> raw \<Rightarrow> connection \<Rightarrow> connection \<times> bool" where
  "send_full_to max_pending acked participant view viewer =
     (let viewer = viewer\<lparr>cn_last_view := view, cn_last_ack := acked, cn_revision := cn_revision viewer + 1\<rparr>;
          (views, collapsed) = publish_view
            \<lparr>ov_participant = participant, ov_full = True, ov_revision = cn_revision viewer, ov_state = view,
             ov_ack = acked, ov_errors = [], ov_events = []\<rparr> view max_pending (cn_views viewer)
      in (viewer\<lparr>cn_views := views\<rparr>, collapsed))"

subsection \<open>The client\<close>

text \<open>
  What the other end does with the views it takes: a FULL view replaces what it has; a patch is
  merged when it follows the client's revision, repeats it when it changes nothing, and otherwise
  one was lost.
\<close>

record client =
  cl_view :: raw
  cl_revision :: int
  cl_ack :: int
  cl_errors :: "raw list"
  cl_events :: "raw list"
  cl_lost :: bool

definition new_client :: client where
  "new_client = \<lparr>cl_view = Raw_empty, cl_revision = 0, cl_ack = 0, cl_errors = [], cl_events = [], cl_lost = False\<rparr>"

definition merged_view :: "raw \<Rightarrow> raw \<Rightarrow> raw" where
  "merged_view old patch = (case (old, patch) of (Raw (JObj b), Raw (JObj p)) \<Rightarrow> Raw (JObj (merge_fields b p)) | _ \<Rightarrow> patch)"

definition receive :: "client \<Rightarrow> own_view \<Rightarrow> client" where
  "receive k v =
     (let k = k\<lparr>cl_ack := ov_ack v, cl_errors := cl_errors k @ ov_errors v, cl_events := cl_events k @ ov_events v\<rparr>
      in if ov_full v then k\<lparr>cl_view := ov_state v, cl_revision := ov_revision v\<rparr>
         else if ov_state v = no_changes \<and> ov_revision v = cl_revision k then k
         else if ov_revision v = cl_revision k + 1 then
           k\<lparr>cl_view := merged_view (cl_view k) (ov_state v), cl_revision := ov_revision v\<rparr>
         else k\<lparr>cl_lost := True\<rparr>)"

text \<open>What a client has once it took everything pending.\<close>

definition receives :: "client \<Rightarrow> connection \<Rightarrow> client" where
  "receives k c = foldl receive k (cn_views c)"

definition in_sync :: "client \<Rightarrow> connection \<Rightarrow> bool" where
  "in_sync k c \<longleftrightarrow> \<not> cl_lost k \<and> cl_view k = cn_last_view c \<and> cl_revision k = cn_revision c \<and> cl_ack k = cn_last_ack c"

text \<open>Views a patch can bring a client to: objects as the decoder makes them, without a new null.\<close>

definition view_follows :: "raw \<Rightarrow> raw \<Rightarrow> bool" where
  "view_follows old new = (case (old, new) of
      (Raw (JObj b), Raw (JObj a)) \<Rightarrow> json_ok (JObj b) \<and> json_ok (JObj a) \<and> no_new_null b a | _ \<Rightarrow> True)"

text \<open>The interface the sender of views relies on: a difference is either whole or merges into the next view.\<close>

locale view_channel =
  fixes follows :: "'v \<Rightarrow> 'v \<Rightarrow> bool" and change :: "'v \<Rightarrow> 'v \<Rightarrow> 'e + 'v \<times> bool" and merged :: "'v \<Rightarrow> 'v \<Rightarrow> 'v"
    and nothing :: 'v
  assumes whole: "change old new = Inr (p, True) \<Longrightarrow> p = new"
    and patch: "follows old new \<Longrightarrow> change old new = Inr (p, False) \<Longrightarrow> merged old p = new"
    and unchanged: "follows old new \<Longrightarrow> change old new = Inr (nothing, False) \<Longrightarrow> old = new"
begin

definition sent :: "'v \<Rightarrow> 'v \<Rightarrow> 'v \<times> bool" where
  "sent old new = (case change old new of Inr d \<Rightarrow> d | Inl _ \<Rightarrow> (new, True))"

lemma sent_reaches: "follows old new \<Longrightarrow> (if snd (sent old new) then fst (sent old new) else merged old (fst (sent old new))) = new"
  by (auto simp: sent_def dest: whole patch split: sum.split prod.splits)

lemma sent_nothing: "follows old new \<Longrightarrow> sent old new = (nothing, False) \<Longrightarrow> old = new"
  using unchanged[of old new] by (auto simp: sent_def split: sum.splits prod.splits)

end

interpretation json_views: view_channel view_follows view_diff merged_view no_changes
proof unfold_locales
  fix old new p
  show "view_diff old new = Inr (p, True) \<Longrightarrow> p = new"
    by (auto simp: view_diff_def split: raw.splits json.splits option.splits if_splits)
next
  fix old new p
  assume f: "view_follows old new" and d: "view_diff old new = Inr (p, False)"
  then obtain b a cs where o: "old = Raw (JObj b)" "new = Raw (JObj a)" "p = Raw (JObj cs)" "view_diff_objects b a = Some cs"
    by (auto simp: view_diff_def split: raw.splits json.splits option.splits if_splits)
  then show "merged_view old p = new"
    using f merge_view_diff(1)[OF o(4)] by (simp add: view_follows_def merged_view_def)
next
  fix old new
  assume f: "view_follows old new" and d: "view_diff old new = Inr (no_changes, False)"
  then obtain b a where o: "old = Raw (JObj b)" "new = Raw (JObj a)" "view_diff_objects b a = Some []"
    by (auto simp: view_diff_def no_changes_def split: raw.splits json.splits option.splits if_splits)
  then show "old = new" using f merge_view_diff(1)[OF o(3)] by (simp add: view_follows_def)
qed


subsection \<open>A client follows its views\<close>

lemma receive_transients:
  "cl_errors (foldl receive k vs) = cl_errors k @ concat (map ov_errors vs)"
  "cl_events (foldl receive k vs) = cl_events k @ concat (map ov_events vs)"
  by (induction vs arbitrary: k) (simp_all add: receive_def Let_def)

lemma receive_full: "ov_full v \<Longrightarrow> receive k v =
   k\<lparr>cl_ack := ov_ack v, cl_errors := cl_errors k @ ov_errors v, cl_events := cl_events k @ ov_events v,
     cl_view := ov_state v, cl_revision := ov_revision v\<rparr>"
  by (simp add: receive_def)

definition only_views_of :: "string \<Rightarrow> connection \<Rightarrow> bool" where
  "only_views_of p c \<longleftrightarrow> list_all (\<lambda>v. ov_participant v = p) (cn_views c)"

text \<open>Publishing a view that brings the client to the connection's state keeps it in sync, collapsed or not.\<close>

lemma publish_sync:
  assumes k: "foldl receive k (cn_views c) = k'" "\<not> cl_lost k" "\<not> cl_lost (receive k' v)"
    and v: "ov_participant v = p" "only_views_of p c"
    and to: "cl_view (receive k' v) = whole" "cl_revision (receive k' v) = ov_revision v"
    and pub: "publish_view v whole max_pending (cn_views c) = (vs, collapsed)"
  shows "let k'' = foldl receive k vs in \<not> cl_lost k'' \<and> cl_view k'' = whole \<and> cl_revision k'' = ov_revision v \<and> cl_ack k'' = ov_ack v
    \<and> cl_errors k'' = cl_errors k' @ ov_errors v \<and> cl_events k'' = cl_events k' @ ov_events v
    \<and> list_all (\<lambda>v. ov_participant v = p) vs"
proof (cases "max_pending > 0 \<and> int (length (cn_views c)) \<ge> max_pending \<and> whole \<noteq> Raw_empty")
  case True
  have all: "filter (\<lambda>w. ov_participant w = ov_participant v) (cn_views c @ [v]) = cn_views c @ [v]"
    using v by (simp add: only_views_of_def filter_id_conv list_all_iff)
  have vs: "vs = [v\<lparr>ov_full := True, ov_state := whole, ov_errors := concat (map ov_errors (cn_views c @ [v])),
      ov_events := concat (map ov_events (cn_views c @ [v]))\<rparr>]"
    using pub True unfolding publish_view_def Let_def all by simp
  show ?thesis using k(1,2) v(1) unfolding vs Let_def
    by (simp add: receive_full receive_transients flip: k(1))
next
  case False
  then have "vs = cn_views c @ [v]" using pub by (auto simp: publish_view_def split: if_splits)
  moreover have "cl_errors (receive k' v) = cl_errors k' @ ov_errors v" "cl_events (receive k' v) = cl_events k' @ ov_events v"
    "cl_ack (receive k' v) = ov_ack v" by (simp_all add: receive_def Let_def)
  ultimately show ?thesis using assms by (simp add: Let_def only_views_of_def)
qed

lemma send_view_sync:
  assumes sync: "in_sync (receives k c) c" "\<not> cl_lost k" "only_views_of p c"
    and f: "view \<noteq> Raw_empty \<Longrightarrow> view_follows (cn_last_view c) view"
    and s: "send_view_to max_pending acked p view errors events c = (c', collapsed)"
  shows "in_sync (receives k c') c' \<and> only_views_of p c' \<and> cn_participant c' = cn_participant c
    \<and> cl_errors (receives k c') = cl_errors (receives k c) @ (if cn_participant c = p then errors else [])
    \<and> cl_events (receives k c') = cl_events (receives k c) @ events
    \<and> cn_last_view c' = (if view = Raw_empty then cn_last_view c else view)"
proof -
  let ?errors = "if cn_participant c \<noteq> p then [] else errors"
  define d where "d = (if view = Raw_empty then (no_changes, False) else json_views.sent (cn_last_view c) view)"
  obtain patch full where d': "d = (patch, full)" by (cases d)
  let ?c1 = "if view = Raw_empty then c else c\<lparr>cn_last_view := view\<rparr>"
  let ?now = "cn_last_view ?c1"
  let ?k = "receives k c"
  have k: "\<not> cl_lost ?k" "cl_view ?k = cn_last_view c" "cl_revision ?k = cn_revision c" "cl_ack ?k = cn_last_ack c"
    using sync(1) by (simp_all add: in_sync_def)
  have reach: "(if full then patch else if patch = no_changes then cn_last_view c else merged_view (cn_last_view c) patch) = ?now"
  proof (cases "view = Raw_empty")
    case True
    then show ?thesis using d' by (simp add: d_def)
  next
    case False
    then have "json_views.sent (cn_last_view c) view = (patch, full)" using d' by (simp add: d_def)
    then show ?thesis using False json_views.sent_reaches[OF f] json_views.sent_nothing[OF f] by (cases full) auto
  qed
  show ?thesis
  proof (cases "\<not> full \<and> patch = no_changes \<and> acked = cn_last_ack c \<and> ?errors = [] \<and> events = []")
    case True
    then have "c' = ?c1"
      using s d' by (auto simp: send_view_to_def d_def json_views.sent_def split: if_splits sum.splits)
    moreover have "?now = cn_last_view c" using reach True by simp
    ultimately show ?thesis using True sync by (auto simp: in_sync_def receives_def only_views_of_def)
  next
    case False
    define rev where "rev = (if full \<or> patch \<noteq> no_changes then cn_revision c + 1 else cn_revision c)"
    define v where "v = \<lparr>ov_participant = p, ov_full = full, ov_revision = rev, ov_state = patch, ov_ack = acked,
        ov_errors = ?errors, ov_events = events\<rparr>"
    obtain vs coll where pub: "publish_view v ?now max_pending (cn_views c) = (vs, coll)" by fastforce
    have sent: "(if view = Raw_empty then (no_changes, False)
            else case view_diff (cn_last_view c) view of Inr d \<Rightarrow> d | Inl _ \<Rightarrow> (view, True)) = (patch, full)"
      using d' by (auto simp: d_def json_views.sent_def split: if_splits)
    let ?c2 = "?c1\<lparr>cn_revision := rev, cn_last_ack := acked\<rparr>"
    have c': "c' = ?c2\<lparr>cn_views := vs\<rparr>"
      using s pub False unfolding send_view_to_def sent Let_def v_def rev_def
      by (cases "full \<or> patch \<noteq> no_changes"; cases "view = Raw_empty") (simp_all split: prod.splits)
    have r: "\<not> cl_lost (receive ?k v)" "cl_view (receive ?k v) = ?now" "cl_revision (receive ?k v) = ov_revision v"
      using k reach by (auto simp: receive_def Let_def v_def rev_def)
    have fk: "foldl receive k (cn_views c) = ?k" by (simp add: receives_def)
    have pv: "ov_participant v = p" by (simp add: v_def)
    note P = publish_sync[OF fk sync(2) r(1) pv sync(3) r(2,3) pub]
    have vf: "ov_revision v = rev" "ov_ack v = acked" "ov_errors v = ?errors" "ov_events v = events" by (simp_all add: v_def)
    show ?thesis
      using P unfolding Let_def vf c' in_sync_def only_views_of_def receives_def[of k "?c2\<lparr>cn_views := vs\<rparr>"] by simp
  qed
qed

lemma send_full_sync:
  assumes sync: "in_sync (receives k c) c" "\<not> cl_lost k" "only_views_of p c"
    and s: "send_full_to max_pending acked p view c = (c', collapsed)"
  shows "in_sync (receives k c') c' \<and> only_views_of p c' \<and> cn_participant c' = cn_participant c
    \<and> cl_errors (receives k c') = cl_errors (receives k c) \<and> cl_events (receives k c') = cl_events (receives k c)
    \<and> cn_last_view c' = view"
proof -
  let ?k = "receives k c"
  define v where "v = \<lparr>ov_participant = p, ov_full = True, ov_revision = cn_revision c + 1, ov_state = view, ov_ack = acked,
      ov_errors = [], ov_events = []\<rparr>"
  obtain vs coll where pub: "publish_view v view max_pending (cn_views c) = (vs, coll)" by fastforce
  have c': "c' = c\<lparr>cn_last_view := view, cn_last_ack := acked, cn_revision := cn_revision c + 1, cn_views := vs\<rparr>"
    using s pub by (simp add: send_full_to_def v_def Let_def)
  have "\<not> cl_lost ?k" using sync(1) by (simp add: in_sync_def)
  then have r: "\<not> cl_lost (receive ?k v)" "cl_view (receive ?k v) = view" "cl_revision (receive ?k v) = ov_revision v"
    by (simp_all add: receive_full v_def)
  have fk: "foldl receive k (cn_views c) = ?k" by (simp add: receives_def)
  have pv: "ov_participant v = p" by (simp add: v_def)
  note P = publish_sync[OF fk sync(2) r(1) pv sync(3) r(2,3) pub]
  have vf: "ov_revision v = cn_revision c + 1" "ov_ack v = acked" "ov_errors v = []" "ov_events v = []" by (simp_all add: v_def)
  show ?thesis
    using P unfolding Let_def vf c' in_sync_def only_views_of_def receives_def[of k "c\<lparr>cn_last_view := view, cn_last_ack := acked, cn_revision := cn_revision c + 1, cn_views := vs\<rparr>"] by simp
qed

lemma take_sync:
  assumes "take_view (cn_views c) = (vs, taken)"
  shows "receives (case taken of None \<Rightarrow> k | Some v \<Rightarrow> receive k v) (c\<lparr>cn_views := vs\<rparr>) = receives k c"
  using assms by (auto simp: take_view_def receives_def split: list.splits)

text \<open>What happens to a connection that sees one participant: views are sent to it, and its client takes them.\<close>

datatype viewing =
    Send_view int raw "raw list" "raw list"
  | Send_full int raw
  | Take_view

fun view_step :: "int \<Rightarrow> string \<Rightarrow> viewing \<Rightarrow> connection \<times> client \<Rightarrow> connection \<times> client" where
  "view_step m p (Send_view acked view errors events) (c, k) = (fst (send_view_to m acked p view errors events c), k)"
| "view_step m p (Send_full acked view) (c, k) = (fst (send_full_to m acked p view c), k)"
| "view_step m p Take_view (c, k) = (case take_view (cn_views c) of (vs, taken) \<Rightarrow>
     (c\<lparr>cn_views := vs\<rparr>, case taken of None \<Rightarrow> k | Some v \<Rightarrow> receive k v))"

text \<open>Every view sent follows the last one sent.\<close>

fun views_follow :: "raw \<Rightarrow> viewing list \<Rightarrow> bool" where
  "views_follow last' [] = True"
| "views_follow last' (Send_view acked view errors events # es) =
     (if view = Raw_empty then views_follow last' es else view_follows last' view \<and> views_follow view es)"
| "views_follow last' (Send_full acked view # es) = views_follow view es"
| "views_follow last' (Take_view # es) = views_follow last' es"

definition sent_errors :: "viewing list \<Rightarrow> raw list" where
  "sent_errors es = concat (map (\<lambda>e. case e of Send_view _ _ errors _ \<Rightarrow> errors | _ \<Rightarrow> []) es)"

definition sent_events :: "viewing list \<Rightarrow> raw list" where
  "sent_events es = concat (map (\<lambda>e. case e of Send_view _ _ _ events \<Rightarrow> events | _ \<Rightarrow> []) es)"

lemma take_lost: "cl_lost k \<Longrightarrow> cl_lost (receive k v)"
  by (simp add: receive_def Let_def)

lemma receives_lost: "cl_lost k \<Longrightarrow> cl_lost (receives k c)"
proof -
  have "cl_lost k \<Longrightarrow> cl_lost (foldl receive k vs)" for vs
    by (induction vs arbitrary: k) (simp_all add: take_lost)
  then show "cl_lost k \<Longrightarrow> cl_lost (receives k c)" by (simp add: receives_def)
qed

lemma viewing_sync:
  "in_sync (receives k c) c \<Longrightarrow> only_views_of p c \<Longrightarrow> views_follow (cn_last_view c) es \<Longrightarrow>
   fold (view_step m p) es (c, k) = (c', k') \<Longrightarrow>
   in_sync (receives k' c') c'
   \<and> cl_errors (receives k' c') = cl_errors (receives k c) @ (if cn_participant c = p then sent_errors es else [])
   \<and> cl_events (receives k' c') = cl_events (receives k c) @ sent_events es"
proof (induction es arbitrary: c k)
  case (Cons e es)
  have lost: "\<not> cl_lost k" using Cons.prems(1) receives_lost by (auto simp: in_sync_def)
  show ?case
  proof (cases e)
    case (Send_view acked view errors events)
    obtain c1 b where c1: "send_view_to m acked p view errors events c = (c1, b)" by fastforce
    have "view \<noteq> Raw_empty \<Longrightarrow> view_follows (cn_last_view c) view" using Cons.prems(3) Send_view by simp
    from send_view_sync[OF Cons.prems(1) lost Cons.prems(2) this c1] Cons.prems(3,4) Send_view c1
    show ?thesis using Cons.IH[of k c1] by (auto simp: sent_errors_def sent_events_def split: if_splits)
  next
    case (Send_full acked view)
    obtain c1 b where c1: "send_full_to m acked p view c = (c1, b)" by fastforce
    from send_full_sync[OF Cons.prems(1) lost Cons.prems(2) c1] Cons.prems(3,4) Send_full c1
    show ?thesis using Cons.IH[of k c1] by (auto simp: sent_errors_def sent_events_def)
  next
    case Take_view
    obtain vs taken where t: "take_view (cn_views c) = (vs, taken)" by fastforce
    let ?k = "case taken of None \<Rightarrow> k | Some v \<Rightarrow> receive k v"
    let ?c = "c\<lparr>cn_views := vs\<rparr>"
    have r: "receives ?k ?c = receives k c" by (rule take_sync[OF t])
    have "in_sync (receives ?k ?c) ?c" unfolding r using Cons.prems(1) by (simp add: in_sync_def)
    moreover have "only_views_of p ?c" using Cons.prems(2) t by (auto simp: only_views_of_def take_view_def split: list.splits)
    ultimately show ?thesis using Cons.IH[of ?k ?c] Cons.prems(3,4) Take_view t r
      by (simp add: sent_errors_def sent_events_def)
  qed
qed (simp add: sent_errors_def sent_events_def)


definition sample_viewing :: "viewing list" where
  "sample_viewing =
     [Send_full 0 (Raw (JObj [(''x'', JNum ''1'')])), Take_view,
      Send_view 1 (Raw (JObj [(''x'', JNum ''2'')])) [] [Raw (JStr ''hit'')],
      Send_view 2 (Raw (JObj [(''x'', JNum ''3'')])) [Raw (JStr ''no'')] [Raw (JStr ''miss'')]]"


end
