(* ===== verification/LiveState.thy ===== *)
theory LiveState
  imports LiveConnection BoundaryPlan GameManifest RateLimit
begin

section \<open>The state of a live Session\<close>

text \<open>
  \<open>controller.go\<close>, \<open>step_sample.go\<close>, \<open>step_command.go\<close> and \<open>step_limit_requests.go\<close> of the package
  \<open>play/runtime/workflows/liveconnection\<close>: the state a controller shares with its connections, the
  timeline and its limits, and what a SAMPLE and a COMMAND do.

  A pointer is a number: a connection, a pending command and a pending rejoin are entries of the
  stores \<open>lv_conns\<close>, \<open>lv_cmds\<close> and \<open>lv_asks\<close>, and a fresh one is the next number, which also stands for
  the connection's random ID. Maps that the code counts or iterates are association lists with
  distinct keys; a lookup the code does not check reads the zero value here, and the invariants show
  the entry is there. The lock is the atomicity of each operation; metrics, logs and audit records are
  left out. The clock's reading \<open>now\<close> is an argument.
\<close>

subsection \<open>Data\<close>

datatype phase = Lobby | Starting | Running | Finishing | Ended

datatype live_limit =
    Limit_sample_rate
  | Limit_timeline_participant
  | Limit_timeline_session
  | Limit_command_pending
  | Limit_command_participant
  | Limit_command_session

record live_limits =
  ll_sample_transitions :: "limit list"
  ll_participant_commands :: "limit list"
  ll_session_commands :: "limit list"
  ll_pending_commands :: int
  ll_processed_tokens :: int
  ll_pending_per_participant :: int
  ll_pending_per_session :: int
  ll_boundary_operations :: int
  ll_admins :: int
  ll_pending_views :: int

record game =
  gm_version :: string
  gm_script :: string
  gm_profile :: string
  gm_revision :: int
  gm_through :: int
  gm_state :: raw
  gm_prng :: string

record participant_inputs =
  pi_stream :: "nat option"
  pi_max_accepted :: int
  pi_consumed :: int
  pi_current :: raw
  pi_transitions :: limiter

datatype command_outcome = Command_executed | Command_already_processed | Command_not_running | Command_rate_limited | Command_paused

record pending_command =
  pc_token :: string
  pc_name :: string
  pc_payload :: raw
  pc_answer :: "(command_outcome \<times> raw) option"

record participant_commands =
  tk_pending :: "(string \<times> nat) list"
  tk_processed :: "string \<Rightarrow> bool"
  tk_order :: "string list"
  tk_keep :: int
  tk_rate :: limiter

datatype disconnect_cause = Cause_unknown | Cause_grace_expired | Cause_recovery_ended | Cause_left

record presence =
  pr_disconnected :: bool
  pr_cause :: disconnect_cause
  pr_grace_ends :: "instant option"
  pr_grace_cause :: disconnect_cause

datatype rejoin_outcome = Rejoin_accepted | Rejoin_rejected | Rejoin_not_supported | Rejoin_not_running

record live_op =
  lo_participant :: string
  lo_time :: int
  lo_order :: nat
  lo_inputs :: raw
  lo_command :: "nat option"
  lo_disconnected :: bool
  lo_rejoin :: "nat option"
  lo_from_player :: bool
  lo_stream :: "nat option"
  lo_sequence :: int

definition plain_op :: "string \<Rightarrow> live_op" where
  "plain_op p = \<lparr>lo_participant = p, lo_time = 0, lo_order = 0, lo_inputs = Raw_empty, lo_command = None,
     lo_disconnected = False, lo_rejoin = None, lo_from_player = False, lo_stream = None, lo_sequence = 0\<rparr>"

record 'f live =
  lv_rules :: "'f rules"
  lv_grace :: duration
  lv_limits :: live_limits
  lv_phase :: phase
  lv_conns :: "nat \<Rightarrow> connection"
  lv_next_conn :: nat
  lv_admins :: "nat list"
  lv_players :: "(string \<times> nat) list"
  lv_lobby :: "string list"
  lv_played_by :: "string \<Rightarrow> bool"
  lv_participants :: "participant list"
  lv_game :: game
  lv_start :: session_start
  lv_running_since :: instant
  lv_base_time :: int
  lv_paused :: bool
  lv_paused_at :: instant
  lv_last_activity :: instant
  lv_inputs :: "string \<Rightarrow> participant_inputs option"
  lv_tokens :: "string \<Rightarrow> participant_commands option"
  lv_presence :: "string \<Rightarrow> presence option"
  lv_rejoins :: "(string \<times> nat) list"
  lv_views :: "string \<Rightarrow> raw"
  lv_timeline :: "live_op list"
  lv_next_order :: nat
  lv_queued :: "string \<Rightarrow> int"
  lv_queued_total :: int
  lv_command_rate :: limiter
  lv_cmds :: "nat \<Rightarrow> pending_command"
  lv_next_cmd :: nat
  lv_asks :: "nat \<Rightarrow> rejoin_outcome option"
  lv_next_ask :: nat

definition zero_ingress :: participant_inputs where
  "zero_ingress = \<lparr>pi_stream = None, pi_max_accepted = 0, pi_consumed = 0, pi_current = Raw_empty, pi_transitions = []\<rparr>"

definition ingress_of :: "'f live \<Rightarrow> string \<Rightarrow> participant_inputs" where
  "ingress_of s p = (case lv_inputs s p of Some i \<Rightarrow> i | None \<Rightarrow> zero_ingress)"

definition zero_tokens :: participant_commands where
  "zero_tokens = \<lparr>tk_pending = [], tk_processed = (\<lambda>_. False), tk_order = [], tk_keep = 0, tk_rate = []\<rparr>"

definition tokens_of :: "'f live \<Rightarrow> string \<Rightarrow> participant_commands" where
  "tokens_of s p = (case lv_tokens s p of Some t \<Rightarrow> t | None \<Rightarrow> zero_tokens)"

definition zero_presence :: presence where
  "zero_presence = \<lparr>pr_disconnected = False, pr_cause = Cause_unknown, pr_grace_ends = None, pr_grace_cause = Cause_unknown\<rparr>"

definition presence_of :: "'f live \<Rightarrow> string \<Rightarrow> presence" where
  "presence_of s p = (case lv_presence s p of Some r \<Rightarrow> r | None \<Rightarrow> zero_presence)"

subsection \<open>The timeline\<close>

definition session_time :: "instant \<Rightarrow> 'f live \<Rightarrow> int" where
  "session_time now s =
     (let at = (if lv_paused s then lv_paused_at s else now)
      in lv_base_time s + go_div (time_sub at (lv_running_since s)) millisecond)"

definition enqueue_op :: "instant \<Rightarrow> live_op \<Rightarrow> 'f live \<Rightarrow> 'f live" where
  "enqueue_op now o' s =
     s\<lparr>lv_next_order := lv_next_order s + 1,
       lv_timeline := lv_timeline s @ [o'\<lparr>lo_time := session_time now s, lo_order := lv_next_order s + 1\<rparr>]\<rparr>"

definition timeline_room :: "string \<Rightarrow> 'f live \<Rightarrow> live_limit option" where
  "timeline_room p s =
     (if lv_queued s p \<ge> ll_pending_per_participant (lv_limits s) then Some Limit_timeline_participant
      else if lv_queued_total s \<ge> ll_pending_per_session (lv_limits s) then Some Limit_timeline_session
      else None)"

definition enqueue_player :: "instant \<Rightarrow> live_op \<Rightarrow> 'f live \<Rightarrow> 'f live" where
  "enqueue_player now o' s =
     enqueue_op now (o'\<lparr>lo_from_player := True\<rparr>)
       (s\<lparr>lv_queued := (lv_queued s)(lo_participant o' := lv_queued s (lo_participant o') + 1),
          lv_queued_total := lv_queued_total s + 1\<rparr>)"

definition count_op :: "live_op \<Rightarrow> (string \<Rightarrow> int) \<times> int \<Rightarrow> (string \<Rightarrow> int) \<times> int" where
  "count_op o' q = (if lo_from_player o' then ((fst q)(lo_participant o' := fst q (lo_participant o') + 1), snd q + 1) else q)"

definition recount :: "'f live \<Rightarrow> 'f live" where
  "recount s = (let (queued, total) = fold count_op (lv_timeline s) (\<lambda>_. 0, 0)
     in s\<lparr>lv_queued := queued, lv_queued_total := total\<rparr>)"

definition record_activity :: "instant \<Rightarrow> 'f live \<Rightarrow> 'f live" where
  "record_activity now s = s\<lparr>lv_last_activity := now\<rparr>"

subsection \<open>SAMPLEs\<close>

definition new_participant_inputs :: "raw \<Rightarrow> live_limits \<Rightarrow> participant_inputs" where
  "new_participant_inputs current limits =
     \<lparr>pi_stream = None, pi_max_accepted = 0, pi_consumed = 0, pi_current = current,
      pi_transitions = map new_bucket (ll_sample_transitions limits)\<rparr>"

definition follow :: "nat \<Rightarrow> participant_inputs \<Rightarrow> participant_inputs" where
  "follow stream i = i\<lparr>pi_stream := Some stream, pi_max_accepted := 0, pi_consumed := 0\<rparr>"

definition player_of :: "string \<Rightarrow> 'f live \<Rightarrow> nat option" where
  "player_of user s = map_of (lv_players s) user"

text \<open>Whether the connection plays: it has a participant and no newer one replaced it.\<close>

definition plays :: "nat \<Rightarrow> 'f live \<Rightarrow> bool" where
  "plays conn s = (cn_participant (lv_conns s conn) \<noteq> [] \<and> player_of (cn_user (lv_conns s conn)) s = Some conn)"

datatype sample_result =
    Sample_dropped
  | Sample_stale
  | Sample_invalid input_error
  | Sample_refresh
  | Sample_limited live_limit
  | Sample_transition

definition set_ingress :: "string \<Rightarrow> participant_inputs \<Rightarrow> 'f live \<Rightarrow> 'f live" where
  "set_ingress p i s = s\<lparr>lv_inputs := (lv_inputs s)(p \<mapsto> i)\<rparr>"

definition take_sample :: "'f float_ops \<Rightarrow> instant \<Rightarrow> nat \<Rightarrow> int \<Rightarrow> raw \<Rightarrow> 'f live \<Rightarrow> 'f live \<times> sample_result" where
  "take_sample F now conn sequence inputs s =
     (if lv_phase s \<noteq> Running \<or> lv_paused s \<or> \<not> plays conn s then (s, Sample_dropped)
      else let p = cn_participant (lv_conns s conn); ingress = ingress_of s p in
        if sequence \<le> pi_max_accepted ingress then (s, Sample_stale)
        else case normalize F (ru_inputs (lv_rules s)) inputs of
          Inl e \<Rightarrow> (s, Sample_invalid e)
        | Inr snapshot \<Rightarrow>
            if Raw snapshot = pi_current ingress then
              (set_ingress p (ingress\<lparr>pi_max_accepted := sequence\<rparr>) s, Sample_refresh)
            else case timeline_room p s of
              Some limit \<Rightarrow> (s, Sample_limited limit)
            | None \<Rightarrow>
                let (rate, allowed, _) = allow_one (pi_transitions ingress) now;
                    ingress = ingress\<lparr>pi_transitions := rate\<rparr>
                in if \<not> allowed then (set_ingress p ingress s, Sample_limited Limit_sample_rate)
                   else
                     let s = set_ingress p (ingress\<lparr>pi_max_accepted := sequence, pi_current := Raw snapshot\<rparr>) s;
                         o' = (plain_op p)\<lparr>lo_inputs := Raw snapshot, lo_stream := pi_stream ingress, lo_sequence := sequence\<rparr>
                     in (record_activity now (enqueue_player now o' s), Sample_transition))"

definition enqueue_transition :: "instant \<Rightarrow> string \<Rightarrow> raw \<Rightarrow> 'f live \<Rightarrow> 'f live" where
  "enqueue_transition now p snapshot s =
     enqueue_op now ((plain_op p)\<lparr>lo_inputs := snapshot\<rparr>) (set_ingress p ((ingress_of s p)\<lparr>pi_current := snapshot\<rparr>) s)"

definition reset_inputs :: "'f float_ops \<Rightarrow> instant \<Rightarrow> string \<Rightarrow> 'f live \<Rightarrow> 'f live" where
  "reset_inputs F now p s = (case lv_inputs s p of None \<Rightarrow> s
     | Some ingress \<Rightarrow> let defaults = schema_defaults F (ru_inputs (lv_rules s)) in
         if pi_current ingress \<noteq> defaults then enqueue_transition now p defaults s else s)"

subsection \<open>COMMANDs\<close>

text \<open>Forgetting the oldest tokens beyond the maximum.\<close>

fun forget_oldest :: "int \<Rightarrow> string list \<Rightarrow> (string \<Rightarrow> bool) \<Rightarrow> string list \<times> (string \<Rightarrow> bool)" where
  "forget_oldest keep [] processed = ([], processed)"
| "forget_oldest keep (t # ts) processed =
     (if int (length (t # ts)) > keep then forget_oldest keep ts (processed(t := False)) else (t # ts, processed))"

definition remember :: "string \<Rightarrow> participant_commands \<Rightarrow> participant_commands" where
  "remember token t =
     (if tk_processed t token then t
      else let (order, processed) = forget_oldest (tk_keep t) (tk_order t @ [token]) ((tk_processed t)(token := True))
           in t\<lparr>tk_order := order, tk_processed := processed\<rparr>)"

definition new_participant_commands :: "string list \<Rightarrow> live_limits \<Rightarrow> participant_commands" where
  "new_participant_commands processed limits =
     fold remember processed \<lparr>tk_pending = [], tk_processed = (\<lambda>_. False), tk_order = [],
       tk_keep = ll_processed_tokens limits, tk_rate = map new_bucket (ll_participant_commands limits)\<rparr>"

definition resolve_command :: "nat \<Rightarrow> command_outcome \<Rightarrow> raw \<Rightarrow> 'f live \<Rightarrow> 'f live" where
  "resolve_command c outcome response s =
     s\<lparr>lv_cmds := (lv_cmds s)(c := (lv_cmds s c)\<lparr>pc_answer := Some (outcome, response)\<rparr>)\<rparr>"

definition set_tokens :: "string \<Rightarrow> participant_commands \<Rightarrow> 'f live \<Rightarrow> 'f live" where
  "set_tokens p t s = s\<lparr>lv_tokens := (lv_tokens s)(p \<mapsto> t)\<rparr>"

definition command_executed :: "string \<Rightarrow> nat \<Rightarrow> raw \<Rightarrow> 'f live \<Rightarrow> 'f live" where
  "command_executed p c response s =
     (let token = pc_token (lv_cmds s c); t = tokens_of s p
      in resolve_command c Command_executed response
           (set_tokens p (remember token (t\<lparr>tk_pending := filter (\<lambda>(k, _). k \<noteq> token) (tk_pending t)\<rparr>)) s))"

definition abandon_pending :: "participant_commands \<Rightarrow> 'f live \<Rightarrow> 'f live" where
  "abandon_pending t s = fold (\<lambda>(_, c) s. resolve_command c Command_not_running Raw_empty s) (tk_pending t) s"

text \<open>The limit that refuses one more COMMAND; a rate that was asked counts it.\<close>

definition command_room :: "instant \<Rightarrow> string \<Rightarrow> 'f live \<Rightarrow> 'f live \<times> live_limit option" where
  "command_room now p s =
     (let t = tokens_of s p in
      if int (length (tk_pending t)) \<ge> ll_pending_commands (lv_limits s) then (s, Some Limit_command_pending)
      else case timeline_room p s of Some limit \<Rightarrow> (s, Some limit)
      | None \<Rightarrow>
          let (rate, allowed, _) = allow_one (tk_rate t) now; s = set_tokens p (t\<lparr>tk_rate := rate\<rparr>) s in
          if \<not> allowed then (s, Some Limit_command_participant)
          else let (rate, allowed, _) = allow_one (lv_command_rate s) now; s = s\<lparr>lv_command_rate := rate\<rparr> in
            (s, if allowed then None else Some Limit_command_session))"

datatype command_reply =
    Answered command_outcome
  | Invalid_command command_error
  | Waits nat bool

text \<open>\<open>runCommand\<close> until it waits; \<open>Waits c duplicate\<close> is the command waited for.\<close>

definition accept_command :: "'f float_ops \<Rightarrow> instant \<Rightarrow> nat \<Rightarrow> string \<Rightarrow> string \<Rightarrow> raw \<Rightarrow> 'f live \<Rightarrow> 'f live \<times> command_reply" where
  "accept_command F now conn token name payload s =
     (if lv_phase s \<noteq> Running \<or> \<not> plays conn s then (s, Answered Command_not_running)
      else if lv_paused s then (s, Answered Command_paused)
      else case normalize_command F (ru_commands (lv_rules s)) name payload of
        Inl e \<Rightarrow> (s, Invalid_command e)
      | Inr payload' \<Rightarrow>
          let p = cn_participant (lv_conns s conn); t = tokens_of s p in
          if tk_processed t token then (s, Answered Command_already_processed)
          else case map_of (tk_pending t) token of
            Some c \<Rightarrow> (s, Waits c True)
          | None \<Rightarrow>
              (case command_room now p s of
                (s, Some limit) \<Rightarrow> (s, Answered Command_rate_limited)
              | (s, None) \<Rightarrow>
                  let c = lv_next_cmd s; t = tokens_of s p;
                      s = s\<lparr>lv_next_cmd := c + 1,
                            lv_cmds := (lv_cmds s)(c := \<lparr>pc_token = token, pc_name = name, pc_payload = Raw payload', pc_answer = None\<rparr>)\<rparr>;
                      s = set_tokens p (t\<lparr>tk_pending := (token, c) # tk_pending t\<rparr>) s
                  in (record_activity now (enqueue_player now ((plain_op p)\<lparr>lo_command := Some c\<rparr>) s), Waits c False)))"

text \<open>What is answered once the command waited for is resolved.\<close>

definition command_answer :: "nat \<Rightarrow> bool \<Rightarrow> 'f live \<Rightarrow> (command_outcome \<times> raw) option" where
  "command_answer c duplicate s = (case pc_answer (lv_cmds s c) of None \<Rightarrow> None
     | Some (outcome, response) \<Rightarrow>
         if duplicate \<and> outcome = Command_executed then Some (Command_already_processed, Raw_empty)
         else Some (outcome, response))"

end
