(* ===== verification/LivePlayers.thy ===== *)
theory LivePlayers
  imports LiveState
begin

section \<open>The players and admins of a live Session\<close>

text \<open>
  Views, presence, rejoining, the lobby, starting and ending:
  \<open>controller.go\<close>, \<open>step_boundary.go\<close> (\<open>sendView\<close>, \<open>sendFull\<close>, \<open>ackFor\<close>), \<open>step_transport_grace.go\<close>,
  \<open>step_rejoin_player.go\<close>, \<open>step_reattach_player.go\<close>, \<open>step_resync_player.go\<close>,
  \<open>step_select_perspective.go\<close>, \<open>step_attach_player.go\<close>, \<open>step_attach_admin.go\<close>,
  \<open>step_leave_player.go\<close>, \<open>step_start_session.go\<close> and \<open>step_end_session.go\<close>. What the database and
  the sandbox answer in between is an argument of the operation that follows.
\<close>

subsection \<open>Views\<close>

definition set_conn :: "nat \<Rightarrow> connection \<Rightarrow> 'f live \<Rightarrow> 'f live" where
  "set_conn c conn s = s\<lparr>lv_conns := (lv_conns s)(c := conn)\<rparr>"

definition on_conn :: "(connection \<Rightarrow> connection) \<Rightarrow> nat \<Rightarrow> 'f live \<Rightarrow> 'f live" where
  "on_conn f c s = set_conn c (f (lv_conns s c)) s"

definition on_conns :: "(connection \<Rightarrow> connection) \<Rightarrow> nat list \<Rightarrow> 'f live \<Rightarrow> 'f live" where
  "on_conns f cs s = fold (on_conn f) cs s"

definition ack_for :: "nat \<Rightarrow> string \<Rightarrow> 'f live \<Rightarrow> int" where
  "ack_for viewer p s = (if cn_participant (lv_conns s viewer) \<noteq> p then 0 else pi_consumed (ingress_of s p))"

definition send_view :: "nat \<Rightarrow> string \<Rightarrow> raw \<Rightarrow> raw list \<Rightarrow> raw list \<Rightarrow> 'f live \<Rightarrow> 'f live" where
  "send_view viewer p view errors evs s =
     on_conn (\<lambda>c. fst (send_view_to (ll_pending_views (lv_limits s)) (ack_for viewer p s) p view errors evs c)) viewer s"

definition send_full :: "nat \<Rightarrow> string \<Rightarrow> 'f live \<Rightarrow> 'f live" where
  "send_full viewer p s =
     on_conn (\<lambda>c. fst (send_full_to (ll_pending_views (lv_limits s)) (ack_for viewer p s) p (lv_views s p) c)) viewer s"

definition resync :: "nat \<Rightarrow> 'f live \<Rightarrow> 'f live" where
  "resync conn s =
     (if lv_phase s \<noteq> Running \<or> \<not> plays conn s then s else send_full conn (cn_participant (lv_conns s conn)) s)"

definition participant_of :: "string \<Rightarrow> 'f live \<Rightarrow> string option" where
  "participant_of user s = map_option pa_id (find (\<lambda>p. pa_user p = user) (lv_participants s))"

datatype perspective_outcome = Perspective_selected | Perspective_unknown_participant | Perspective_creator_playing | Perspective_not_running

definition creator_played :: "string \<Rightarrow> 'f live \<Rightarrow> bool" where
  "creator_played user s = (lv_played_by s user \<or> participant_of user s \<noteq> None)"

definition select_perspective :: "nat \<Rightarrow> string \<Rightarrow> 'f live \<Rightarrow> 'f live \<times> perspective_outcome" where
  "select_perspective admin p s =
     (if creator_played (cn_user (lv_conns s admin)) s then (s, Perspective_creator_playing)
      else if lv_phase s \<noteq> Running \<or> admin \<notin> set (lv_admins s) then (s, Perspective_not_running)
      else if \<not> list_ex (\<lambda>q. pa_id q = p) (lv_participants s) then (s, Perspective_unknown_participant)
      else (send_full admin p (on_conn (\<lambda>c. c\<lparr>cn_watching := p\<rparr>) admin s), Perspective_selected))"

definition resync_admin :: "nat \<Rightarrow> 'f live \<Rightarrow> 'f live" where
  "resync_admin admin s =
     (if lv_phase s \<noteq> Running \<or> cn_watching (lv_conns s admin) = [] \<or> admin \<notin> set (lv_admins s) then s
      else send_full admin (cn_watching (lv_conns s admin)) s)"

subsection \<open>Presence\<close>

definition set_presence :: "string \<Rightarrow> presence \<Rightarrow> 'f live \<Rightarrow> 'f live" where
  "set_presence p r s = s\<lparr>lv_presence := (lv_presence s)(p \<mapsto> r)\<rparr>"

definition presence_status :: "presence \<Rightarrow> presence_status" where
  "presence_status r =
     (if pr_disconnected r \<and> pr_cause r = Cause_left then Presence_left
      else if pr_disconnected r then Presence_disconnected
      else if pr_grace_ends r \<noteq> None then Presence_reconnecting
      else Presence_active)"

definition attached :: "presence \<Rightarrow> bool" where
  "attached r = (\<not> pr_disconnected r \<and> pr_grace_ends r = None)"

definition await :: "instant \<Rightarrow> disconnect_cause \<Rightarrow> presence \<Rightarrow> presence" where
  "await ends_at cause r = r\<lparr>pr_grace_ends := Some ends_at, pr_grace_cause := cause\<rparr>"

definition attach :: "presence \<Rightarrow> presence" where
  "attach r = r\<lparr>pr_grace_ends := None, pr_grace_cause := Cause_unknown\<rparr>"

definition roster_update_of :: "'f live \<Rightarrow> roster_update" where
  "roster_update_of s = map (\<lambda>p. \<lparr>ro_participant = p, ro_status = presence_status (presence_of s (pa_id p))\<rparr>) (lv_participants s)"

definition broadcast_roster :: "'f live \<Rightarrow> 'f live" where
  "broadcast_roster s =
     (let update = roster_update_of s
      in on_conns (\<lambda>c. if cn_participant c \<noteq> [] then c\<lparr>cn_roster_updates := publish_latest update (cn_roster_updates c)\<rparr> else c)
           (map snd (lv_players s)) s)"

definition detach_player :: "'f float_ops \<Rightarrow> instant \<Rightarrow> nat \<Rightarrow> 'f live \<Rightarrow> 'f live" where
  "detach_player F now conn s =
     (let p = cn_participant (lv_conns s conn) in
      if player_of (cn_user (lv_conns s conn)) s \<noteq> Some conn then s
      else case lv_presence s p of None \<Rightarrow> s
      | Some r \<Rightarrow> if \<not> attached r then s
          else broadcast_roster (set_presence p (await (now + lv_grace s) Cause_grace_expired r) (reset_inputs F now p s)))"

definition disconnect :: "'f float_ops \<Rightarrow> instant \<Rightarrow> disconnect_cause \<Rightarrow> string \<Rightarrow> 'f live \<Rightarrow> 'f live" where
  "disconnect F now cause p s =
     (let s = set_presence p (attach ((presence_of s p)\<lparr>pr_disconnected := True, pr_cause := cause\<rparr>)) s;
          s = reset_inputs F now p s
      in broadcast_roster (enqueue_op now ((plain_op p)\<lparr>lo_disconnected := True\<rparr>) s))"

definition expire_grace :: "'f float_ops \<Rightarrow> instant \<Rightarrow> participant \<Rightarrow> 'f live \<Rightarrow> 'f live" where
  "expire_grace F now q s =
     (let r = presence_of s (pa_id q) in
      if pr_disconnected r \<or> (case pr_grace_ends r of None \<Rightarrow> True | Some ends_at \<Rightarrow> now < ends_at) then s
      else disconnect F now (pr_grace_cause r) (pa_id q) s)"

definition expire_graces :: "'f float_ops \<Rightarrow> instant \<Rightarrow> 'f live \<Rightarrow> 'f live" where
  "expire_graces F now s = fold (expire_grace F now) (lv_participants s) s"

subsection \<open>Rejoining\<close>

definition resolve_rejoin :: "nat \<Rightarrow> rejoin_outcome \<Rightarrow> 'f live \<Rightarrow> 'f live" where
  "resolve_rejoin a outcome s = s\<lparr>lv_asks := (lv_asks s)(a := Some outcome)\<rparr>"

datatype rejoin_reply = Rejoin_answered rejoin_outcome | Rejoin_waits nat

definition ask_rejoin :: "instant \<Rightarrow> string \<Rightarrow> 'f live \<Rightarrow> 'f live \<times> rejoin_reply" where
  "ask_rejoin now user s =
     (case participant_of user s of
        None \<Rightarrow> (s, Rejoin_answered Rejoin_not_running)
      | Some p \<Rightarrow>
          if lv_phase s \<noteq> Running then (s, Rejoin_answered Rejoin_not_running)
          else if \<not> ru_rejoin (lv_rules s) then (s, Rejoin_answered Rejoin_not_supported)
          else case map_of (lv_rejoins s) p of
            Some a \<Rightarrow> (s, Rejoin_waits a)
          | None \<Rightarrow>
              let a = lv_next_ask s;
                  s = s\<lparr>lv_next_ask := a + 1, lv_asks := (lv_asks s)(a := None), lv_rejoins := (p, a) # lv_rejoins s\<rparr>
              in (enqueue_op now ((plain_op p)\<lparr>lo_rejoin := Some a\<rparr>) s, Rejoin_waits a))"

definition decide_rejoin :: "instant \<Rightarrow> string \<Rightarrow> nat \<Rightarrow> bool \<Rightarrow> 'f live \<Rightarrow> 'f live" where
  "decide_rejoin now p a accepted s =
     (let s = s\<lparr>lv_rejoins := filter (\<lambda>(k, _). k \<noteq> p) (lv_rejoins s)\<rparr> in
      if \<not> accepted then resolve_rejoin a Rejoin_rejected s
      else broadcast_roster (resolve_rejoin a Rejoin_accepted
             (set_presence p (await (now + lv_grace s) Cause_grace_expired
                ((presence_of s p)\<lparr>pr_disconnected := False, pr_cause := Cause_unknown\<rparr>)) s)))"

definition fresh_conn :: "connection \<Rightarrow> 'f live \<Rightarrow> nat \<times> 'f live" where
  "fresh_conn conn s = (lv_next_conn s, set_conn (lv_next_conn s) conn (s\<lparr>lv_next_conn := lv_next_conn s + 1\<rparr>))"

definition set_player :: "string \<Rightarrow> nat \<Rightarrow> 'f live \<Rightarrow> 'f live" where
  "set_player user c s = s\<lparr>lv_players := (user, c) # filter (\<lambda>(u, _). u \<noteq> user) (lv_players s)\<rparr>"

datatype reattach = Not_participant | Must_rejoin | Reattached nat

definition reattach_player :: "'f float_ops \<Rightarrow> instant \<Rightarrow> string \<Rightarrow> string \<Rightarrow> session_start option \<Rightarrow> 'f live \<Rightarrow> 'f live \<times> reattach" where
  "reattach_player F now user display signed s =
     (if lv_phase s \<noteq> Running then (s, Not_participant)
      else case participant_of user s of None \<Rightarrow> (s, Not_participant)
      | Some p \<Rightarrow>
          if pr_disconnected (presence_of s p) then (s, Must_rejoin)
          else
            let s = (case player_of user s of None \<Rightarrow> s
                   | Some older \<Rightarrow> if is_ended (lv_conns s older) then s else on_conn (end_connection End_replaced) older s);
                s = reset_inputs F now p s;
                s = set_presence p (attach (presence_of s p)) s;
                (conn, s) = fresh_conn ((new_connection user display)\<lparr>cn_participant := p\<rparr>) s;
                s = set_player user conn s;
                s = set_ingress p (follow conn (ingress_of s p)) s;
                s = send_full conn p s;
                s = on_conn (mark_started (case signed of None \<Rightarrow> lv_start s | Some start \<Rightarrow> start)) conn s
            in (broadcast_roster s, Reattached conn))"

subsection \<open>The lobby\<close>

definition lobby_update_of :: "'f live \<Rightarrow> lobby_update" where
  "lobby_update_of s =
     \<lparr>lu_members = map (\<lambda>user. \<lparr>lm_user = user,
          lm_display = (case player_of user s of Some c \<Rightarrow> cn_display (lv_conns s c) | None \<Rightarrow> [])\<rparr>) (lv_lobby s),
      lu_min_players = ru_min_players (lv_rules s), lu_max_players = ru_max_players (lv_rules s)\<rparr>"

definition tell_lobby :: "lobby_update \<Rightarrow> connection \<Rightarrow> connection" where
  "tell_lobby update c = c\<lparr>cn_lobby_updates := publish_latest update (cn_lobby_updates c)\<rparr>"

definition broadcast_lobby :: "'f live \<Rightarrow> 'f live" where
  "broadcast_lobby s = on_conns (tell_lobby (lobby_update_of s)) (lv_admins s @ map snd (lv_players s)) s"

definition leave_lobby :: "nat \<Rightarrow> 'f live \<Rightarrow> 'f live" where
  "leave_lobby conn s =
     (let user = cn_user (lv_conns s conn) in
      if player_of user s \<noteq> Some conn then s
      else broadcast_lobby (s\<lparr>lv_players := filter (\<lambda>(u, _). u \<noteq> user) (lv_players s),
                              lv_lobby := filter (\<lambda>u. u \<noteq> user) (lv_lobby s)\<rparr>))"

datatype reject_reason = Reject_session_unavailable | Reject_session_started | Reject_lobby_full | Reject_too_many_admins

definition join_lobby :: "string \<Rightarrow> string \<Rightarrow> 'f live \<Rightarrow> 'f live \<times> (reject_reason + nat)" where
  "join_lobby user display s =
     (let (conn, s) = fresh_conn (new_connection user display) s in
      case lv_phase s of
        Ended \<Rightarrow> (s, Inl Reject_session_unavailable)
      | Lobby \<Rightarrow>
          let s = s\<lparr>lv_played_by := (lv_played_by s)(user := True)\<rparr> in
          (case player_of user s of
             Some older \<Rightarrow>
               let s = on_conn (end_connection End_replaced) older s;
                   s = set_player user conn s
               in (on_conn (tell_lobby (lobby_update_of s)) conn s, Inr conn)
           | None \<Rightarrow>
               if int (length (lv_lobby s)) \<ge> ru_max_players (lv_rules s) then (s, Inl Reject_lobby_full)
               else (broadcast_lobby ((set_player user conn s)\<lparr>lv_lobby := lv_lobby s @ [user]\<rparr>), Inr conn))
      | _ \<Rightarrow> (s, Inl Reject_session_started))"

definition register_admin :: "string \<Rightarrow> session_start option \<Rightarrow> 'f live \<Rightarrow> 'f live \<times> (reject_reason + nat)" where
  "register_admin user signed s =
     (let (admin, s) = fresh_conn (new_connection user []) s in
      if int (length (lv_admins s)) \<ge> ll_admins (lv_limits s) then (s, Inl Reject_too_many_admins)
      else
        let s = (case lv_phase s of
              Lobby \<Rightarrow> on_conn (tell_lobby (lobby_update_of s)) admin s
            | Starting \<Rightarrow> on_conn (tell_lobby (lobby_update_of s)) admin s
            | Ended \<Rightarrow> on_conn (end_connection End_session_ended) admin s
            | _ \<Rightarrow> on_conn (mark_started (case signed of None \<Rightarrow> lv_start s | Some start \<Rightarrow> start)) admin s)
        in (if lv_phase s \<noteq> Ended then s\<lparr>lv_admins := admin # lv_admins s\<rparr> else s, Inr admin))"

definition disconnect_admin :: "nat \<Rightarrow> 'f live \<Rightarrow> 'f live" where
  "disconnect_admin admin s =
     on_conn (end_connection End_disconnected) admin (s\<lparr>lv_admins := filter (\<lambda>a. a \<noteq> admin) (lv_admins s)\<rparr>)"

text \<open>A player's transport is gone: \<open>Disconnect\<close> of its connection.\<close>

definition disconnect_player :: "'f float_ops \<Rightarrow> instant \<Rightarrow> nat \<Rightarrow> 'f live \<Rightarrow> 'f live" where
  "disconnect_player F now conn s =
     on_conn (end_connection End_disconnected) conn
       (case lv_phase s of Lobby \<Rightarrow> leave_lobby conn s | Running \<Rightarrow> detach_player F now conn s | _ \<Rightarrow> s)"

text \<open>\<open>leave\<close>, once no Start attempt is in progress; whether a boundary is asked for.\<close>

definition leave_session :: "'f float_ops \<Rightarrow> instant \<Rightarrow> nat \<Rightarrow> 'f live \<Rightarrow> 'f live \<times> bool" where
  "leave_session F now conn s =
     (let p = cn_participant (lv_conns s conn);
          (s, flush) = (case lv_phase s of
             Lobby \<Rightarrow> (leave_lobby conn s, False)
           | Running \<Rightarrow>
               (case lv_presence s p of None \<Rightarrow> (s, False)
                | Some r \<Rightarrow> if player_of (cn_user (lv_conns s conn)) s = Some conn \<and> \<not> pr_disconnected r
                    then (disconnect F now Cause_left p s, True) else (s, False))
           | _ \<Rightarrow> (s, False))
      in (on_conn (end_connection End_left) conn s, flush))"

subsection \<open>Starting\<close>

datatype start_refusal = Start_in_progress | Start_already_started | Start_not_in_lobby

fun numbered :: "nat \<Rightarrow> string list \<Rightarrow> 'f live \<Rightarrow> participant list" where
  "numbered n [] s = []"
| "numbered n (user # users) s =
     \<lparr>pa_id = CHR ''P'' # itoa (n + 1), pa_user = user,
      pa_display = (case player_of user s of Some c \<Rightarrow> cn_display (lv_conns s c) | None \<Rightarrow> [])\<rparr> # numbered (n + 1) users s"

definition begin_start :: "'f live \<Rightarrow> 'f live \<times> (start_refusal + participant list)" where
  "begin_start s = (case lv_phase s of
      Lobby \<Rightarrow> let participants = numbered 0 (lv_lobby s) s
               in (s\<lparr>lv_phase := Starting, lv_participants := participants\<rparr>, Inr participants)
    | Starting \<Rightarrow> (s, Inl Start_in_progress)
    | Running \<Rightarrow> (s, Inl Start_already_started)
    | _ \<Rightarrow> (s, Inl Start_not_in_lobby))"

definition gone :: "'f live \<Rightarrow> string \<Rightarrow> bool" where
  "gone s user = (case player_of user s of Some c \<Rightarrow> is_ended (lv_conns s c) | None \<Rightarrow> False)"

definition cancel_start :: "'f live \<Rightarrow> 'f live" where
  "cancel_start s =
     (if lv_phase s \<noteq> Starting then s
      else
        let left = filter (gone s) (lv_lobby s);
            s' = s\<lparr>lv_phase := Lobby, lv_participants := [],
                   lv_lobby := filter (\<lambda>u. \<not> gone s u) (lv_lobby s),
                   lv_players := filter (\<lambda>(u, _). u \<notin> set left) (lv_players s)\<rparr>
        in if length (lv_lobby s') \<noteq> length (lv_lobby s) then broadcast_lobby s' else s')"

record resumed_game =
  rs_processed :: "string \<Rightarrow> string list"
  rs_disconnected :: "string list"

text \<open>What a participant of the started game has: their inputs, tokens, presence and first view.\<close>

definition enter_participant :: "'f float_ops \<Rightarrow> bool \<Rightarrow> instant \<Rightarrow> disconnect_cause \<Rightarrow> resumed_game \<Rightarrow> (string \<Rightarrow> raw) \<Rightarrow>
    participant \<Rightarrow> 'f live \<Rightarrow> 'f live" where
  "enter_participant F previews await_until cause resumed views q s =
     (let p = pa_id q; gone' = p \<in> set (rs_disconnected resumed);
          fresh = zero_presence\<lparr>pr_disconnected := gone'\<rparr>;
          s = set_ingress p (new_participant_inputs (schema_defaults F (ru_inputs (lv_rules s))) (lv_limits s)) s;
          s = set_tokens p (new_participant_commands (rs_processed resumed p) (lv_limits s)) s;
          s = set_presence p (if \<not> gone' \<and> \<not> previews then await await_until cause fresh else fresh) s
      in s\<lparr>lv_views := (lv_views s)(p := views p)\<rparr>)"

definition drop_outsider :: "participant list \<Rightarrow> string \<times> nat \<Rightarrow> 'f live \<Rightarrow> 'f live" where
  "drop_outsider roster player s =
     (if fst player \<in> pa_user ` set roster then s
      else on_conn (end_connection End_session_ended) (snd player)
             (s\<lparr>lv_players := filter (\<lambda>(u, _). u \<noteq> fst player) (lv_players s)\<rparr>))"

definition enter_player :: "participant \<Rightarrow> 'f live \<Rightarrow> 'f live" where
  "enter_player q s =
     (case player_of (pa_user q) s of None \<Rightarrow> s
      | Some conn \<Rightarrow>
          if is_ended (lv_conns s conn) then s
          else if pr_disconnected (presence_of s (pa_id q)) then
            on_conn (end_connection End_disconnected) conn
              (s\<lparr>lv_players := filter (\<lambda>(u, _). u \<noteq> pa_user q) (lv_players s)\<rparr>)
          else
            let s = on_conn (\<lambda>c. c\<lparr>cn_participant := pa_id q\<rparr>) conn s;
                s = set_presence (pa_id q) (attach (presence_of s (pa_id q))) s;
                s = set_ingress (pa_id q) ((ingress_of s (pa_id q))\<lparr>pi_stream := Some conn\<rparr>) s;
                s = send_full conn (pa_id q) s
            in on_conn (mark_started (lv_start s)) conn s)"

definition complete_start :: "'f float_ops \<Rightarrow> bool \<Rightarrow> duration \<Rightarrow> instant \<Rightarrow> participant list \<Rightarrow> game \<Rightarrow> string \<Rightarrow>
    (string \<Rightarrow> raw) \<Rightarrow> resumed_game option \<Rightarrow> 'f live \<Rightarrow> 'f live" where
  "complete_start F previews recovery_window now participants game frontend views resumed s =
     (if lv_phase s \<noteq> Starting then s
      else
        let s = s\<lparr>lv_phase := Running, lv_participants := participants, lv_game := game,
                  lv_start := \<lparr>ss_participants = participants, ss_frontend = frontend\<rparr>, lv_lobby := [],
                  lv_running_since := now, lv_base_time := gm_through game, lv_last_activity := now\<rparr>;
            (await_until, cause) = (case resumed of None \<Rightarrow> (now + lv_grace s, Cause_grace_expired)
               | Some _ \<Rightarrow> (now + recovery_window, Cause_recovery_ended));
            kept = (case resumed of None \<Rightarrow> \<lparr>rs_processed = (\<lambda>_. []), rs_disconnected = []\<rparr> | Some r \<Rightarrow> r);
            s = fold (enter_participant F previews await_until cause kept views) participants s;
            s = fold (drop_outsider participants) (lv_players s) s;
            s = on_conns (mark_started (lv_start s)) (lv_admins s) s;
            s = fold enter_player participants s
        in broadcast_roster s)"

subsection \<open>Ending\<close>

text \<open>\<open>end\<close>: every command and rejoin that waits is answered, every connection ends as \<open>ending\<close>.\<close>

definition abandon_of :: "participant \<Rightarrow> 'f live \<Rightarrow> 'f live" where
  "abandon_of q s = (case lv_tokens s (pa_id q) of None \<Rightarrow> s
     | Some t \<Rightarrow> set_tokens (pa_id q) (t\<lparr>tk_pending := []\<rparr>) (abandon_pending t s))"

definition end_live :: "connection_end \<Rightarrow> 'f live \<Rightarrow> 'f live" where
  "end_live ending s =
     (let s = recount (s\<lparr>lv_phase := Ended, lv_lobby := [], lv_timeline := []\<rparr>);
          s = fold abandon_of (lv_participants s) s;
          s = fold (\<lambda>(_, a). resolve_rejoin a Rejoin_not_running) (lv_rejoins s) s;
          s = on_conns (end_with ending) (lv_admins s @ map snd (lv_players s)) s
      in s\<lparr>lv_rejoins := [], lv_admins := [], lv_players := []\<rparr>)"

definition retire :: "'f live \<Rightarrow> 'f live" where
  "retire = end_live \<lparr>ce_reason = End_owner_changed, ce_status = [], ce_cause = []\<rparr>"

end
