(* ===== verification/LiveBoundary.thy ===== *)
theory LiveBoundary
  imports LivePlayers
begin

section \<open>The boundaries of a running game\<close>

text \<open>
  \<open>step_boundary.go\<close>, \<open>execution.go\<close>, \<open>step_finish_game.go\<close> and \<open>step_end_session.go\<close> of the package
  \<open>play/runtime/workflows/liveconnection\<close>: the controller's main goroutine takes the waiting operations
  as one boundary, has the sandbox execute them, commits what it produced or puts the work back, and
  ends the Session. What the sandbox, replay and the database answer is an argument.
\<close>

subsection \<open>Work and what it produced\<close>

record live_boundary =
  wb_operations :: "live_op list"
  wb_time :: int
  wb_game :: game
  wb_participants :: "string list"
  wb_acks :: "(string \<times> nat option \<times> int) list"
  wb_update :: bool

record live_error =
  le_participant :: string
  le_time :: int
  le_order :: nat
  le_value :: raw

record live_event =
  lve_participants :: "string list option"
  lve_time :: int
  lve_order :: nat
  lve_value :: raw

record execution =
  ex_game :: game
  ex_views :: "(string \<times> raw) list"
  ex_responses :: "raw list"
  ex_rejoins :: "bool list"
  ex_errors :: "live_error list"
  ex_events :: "live_event list"
  ex_finished :: "(nat \<times> int) option"

definition no_execution :: "game \<Rightarrow> execution" where
  "no_execution g = \<lparr>ex_game = g, ex_views = [], ex_responses = [], ex_rejoins = [], ex_errors = [], ex_events = [], ex_finished = None\<rparr>"

definition view_in :: "execution \<Rightarrow> string \<Rightarrow> raw" where
  "view_in e p = (case map_of (ex_views e) p of Some v \<Rightarrow> v | None \<Rightarrow> Raw_empty)"

definition sent_to :: "string \<Rightarrow> live_event \<Rightarrow> bool" where
  "sent_to p e = (case lve_participants e of None \<Rightarrow> True | Some ps \<Rightarrow> p \<in> set ps)"

definition errors_for :: "execution \<Rightarrow> string \<Rightarrow> raw list" where
  "errors_for e p = map le_value (filter (\<lambda>x. le_participant x = p) (ex_errors e))"

definition events_for :: "execution \<Rightarrow> string \<Rightarrow> raw list" where
  "events_for e p = map lve_value (filter (sent_to p) (ex_events e))"

subsection \<open>Taking a boundary\<close>

definition planned_op :: "'f live \<Rightarrow> live_op \<Rightarrow> pending_op" where
  "planned_op s o' =
     \<lparr>po_participant = lo_participant o', po_time = lo_time o', po_order = lo_order o', po_inputs = lo_inputs o',
      po_command = map_option (\<lambda>c. \<lparr>gc_name = pc_name (lv_cmds s c), gc_payload = pc_payload (lv_cmds s c)\<rparr>) (lo_command o'),
      po_disconnected = lo_disconnected o', po_rejoin = (lo_rejoin o' \<noteq> None)\<rparr>"

definition planned :: "'f live \<Rightarrow> live_op list \<Rightarrow> pending_op list" where
  "planned s = map (planned_op s)"

definition sampled :: "string \<Rightarrow> participant_inputs \<Rightarrow> live_op \<Rightarrow> bool" where
  "sampled p ingress o' = (lo_participant o' = p \<and> lo_stream o' = pi_stream ingress)"

definition ack_through :: "participant_inputs \<Rightarrow> live_op list \<Rightarrow> live_op list \<Rightarrow> string \<Rightarrow> int" where
  "ack_through ingress taken rest p =
     (if \<not> list_ex (\<lambda>o'. sampled p ingress o' \<and> lo_sequence o' > 0) rest then pi_max_accepted ingress
      else fold (\<lambda>o' through. if sampled p ingress o' then max through (lo_sequence o') else through) taken (pi_consumed ingress))"

text \<open>The boundary taken and whether the next one is asked for at once.\<close>

definition take_boundary :: "'f float_ops \<Rightarrow> instant \<Rightarrow> 'f live \<Rightarrow> 'f live \<times> (live_boundary \<times> bool) option" where
  "take_boundary F now s =
     (if lv_phase s \<noteq> Running \<or> lv_paused s then (s, None)
      else
        let s = expire_graces F now s;
            p = plan (planned s (lv_timeline s)) (session_time now s) (gm_through (lv_game s)) (ru_update (lv_rules s))
                  (ll_boundary_operations (lv_limits s));
            taken = take (bp_taken p) (lv_timeline s);
            rest = drop (bp_taken p) (lv_timeline s);
            ids = map pa_id (lv_participants s)
        in (recount (s\<lparr>lv_timeline := rest\<rparr>),
            Some (\<lparr>wb_operations = taken, wb_time = bp_time p, wb_game = lv_game s, wb_participants = ids,
                   wb_acks = map (\<lambda>q. (q, pi_stream (ingress_of s q), ack_through (ingress_of s q) taken rest q)) ids,
                   wb_update = bp_update p\<rparr>, rest \<noteq> [])))"

definition requeue :: "live_boundary \<Rightarrow> 'f live \<Rightarrow> 'f live" where
  "requeue work s =
     (if lv_phase s \<noteq> Running then s else recount (s\<lparr>lv_timeline := wb_operations work @ lv_timeline s\<rparr>))"

subsection \<open>Executing it\<close>

text \<open>What the sandbox answers: an infrastructure failure, a script that failed, or a result.\<close>

record sandbox_result =
  sr_revision :: int
  sr_state :: raw
  sr_prng :: string
  sr_responses :: "raw list"
  sr_rejoins :: "bool list"
  sr_errors :: "(int \<times> string \<times> raw) list"
  sr_events :: "(int \<times> string list option \<times> raw) list"
  sr_finished :: "int option"

datatype 'r sandbox_reply = Infra_failed | Script_failed | Succeeded 'r

datatype execute_error = Failed_infra | Failed_script | Failed_out_of_sync | Failed_panic

definition batch_of :: "'f live \<Rightarrow> live_boundary \<Rightarrow> (sandbox_op list \<times> nat list) option" where
  "batch_of s work = batch (planned s (wb_operations work))
     \<lparr>bp_taken = length (wb_operations work), bp_time = wb_time work, bp_update = wb_update work\<rparr> (gm_through (wb_game work))"

text \<open>The time and order of a call of the batch.\<close>

definition placed_at :: "sandbox_op list \<Rightarrow> nat list \<Rightarrow> int \<Rightarrow> (int \<times> nat) option" where
  "placed_at ops orders i =
     (if i < 0 \<or> i \<ge> int (length ops) then None else Some (so_time (ops ! nat i), orders ! nat i))"

fun place_errors :: "string list \<Rightarrow> sandbox_op list \<Rightarrow> nat list \<Rightarrow> (int \<times> string \<times> raw) list \<Rightarrow> execute_error + live_error list" where
  "place_errors ps ops orders [] = Inr []"
| "place_errors ps ops orders ((i, p, v) # es) =
     (case placed_at ops orders i of None \<Rightarrow> Inl Failed_out_of_sync
      | Some (t, ord) \<Rightarrow>
          if p \<notin> set ps then Inl Failed_script
          else case place_errors ps ops orders es of Inl e \<Rightarrow> Inl e
            | Inr r \<Rightarrow> Inr (\<lparr>le_participant = p, le_time = t, le_order = ord, le_value = v\<rparr> # r))"

fun place_events :: "string list \<Rightarrow> sandbox_op list \<Rightarrow> nat list \<Rightarrow> (int \<times> string list option \<times> raw) list \<Rightarrow> execute_error + live_event list" where
  "place_events ps ops orders [] = Inr []"
| "place_events ps ops orders ((i, to, v) # es) =
     (case placed_at ops orders i of None \<Rightarrow> Inl Failed_out_of_sync
      | Some (t, ord) \<Rightarrow>
          if \<not> (case to of None \<Rightarrow> True | Some qs \<Rightarrow> set qs \<subseteq> set ps) then Inl Failed_script
          else case place_events ps ops orders es of Inl e \<Rightarrow> Inl e
            | Inr r \<Rightarrow> Inr (\<lparr>lve_participants = to, lve_time = t, lve_order = ord, lve_value = v\<rparr> # r))"

fun project_all :: "(string \<Rightarrow> raw sandbox_reply) \<Rightarrow> string list \<Rightarrow> execute_error + (string \<times> raw) list" where
  "project_all project [] = Inr []"
| "project_all project (p # ps) = (case project p of
      Infra_failed \<Rightarrow> Inl Failed_infra | Script_failed \<Rightarrow> Inl Failed_script
    | Succeeded v \<Rightarrow> (case project_all project ps of Inl e \<Rightarrow> Inl e | Inr vs \<Rightarrow> Inr ((p, v) # vs)))"

definition count_commands :: "live_op list \<Rightarrow> nat" where
  "count_commands ops = length (filter (\<lambda>o'. lo_command o' \<noteq> None) ops)"

definition count_rejoins :: "live_op list \<Rightarrow> nat" where
  "count_rejoins ops = length (filter (\<lambda>o'. lo_rejoin o' \<noteq> None) ops)"

text \<open>The rest of \<open>attempt\<close>, once the game's end, if any, cut the work to \<open>ops\<close> and the batch to \<open>b\<close>.\<close>

definition accept_result :: "live_boundary \<Rightarrow> live_op list \<Rightarrow> sandbox_op list \<times> nat list \<Rightarrow> (nat \<times> int) option \<Rightarrow> sandbox_result \<Rightarrow>
    (string \<Rightarrow> raw sandbox_reply) \<Rightarrow> execute_error + execution" where
  "accept_result work ops b finished r project =
     (if length (sr_responses r) \<noteq> count_commands ops \<or> length (sr_rejoins r) \<noteq> count_rejoins ops then Inl Failed_out_of_sync
      else case place_errors (wb_participants work) (fst b) (snd b) (sr_errors r) of Inl e \<Rightarrow> Inl e
      | Inr errs \<Rightarrow> (case place_events (wb_participants work) (fst b) (snd b) (sr_events r) of Inl e \<Rightarrow> Inl e
      | Inr evs \<Rightarrow> (case project_all project (wb_participants work) of Inl e \<Rightarrow> Inl e
      | Inr views \<Rightarrow> Inr \<lparr>ex_game = (wb_game work)\<lparr>gm_revision := sr_revision r, gm_state := sr_state r, gm_prng := sr_prng r\<rparr>,
            ex_views = views, ex_responses = sr_responses r, ex_rejoins = sr_rejoins r, ex_errors = errs, ex_events = evs,
            ex_finished = finished\<rparr>)))"

definition attempt :: "'f live \<Rightarrow> live_boundary \<Rightarrow> sandbox_result sandbox_reply \<Rightarrow> (string \<Rightarrow> raw sandbox_reply) \<Rightarrow> execute_error + execution" where
  "attempt s work reply project =
     (case batch_of s work of None \<Rightarrow> Inl Failed_panic
      | Some (ops, orders) \<Rightarrow> (case reply of
          Infra_failed \<Rightarrow> Inl Failed_infra
        | Script_failed \<Rightarrow> Inl Failed_script
        | Succeeded r \<Rightarrow>
            if sr_revision r \<noteq> gm_revision (wb_game work) + 1 then Inl Failed_out_of_sync
            else case sr_finished r of
              None \<Rightarrow> accept_result work (wb_operations work) (ops, orders) None r project
            | Some i \<Rightarrow> (case finished_at (planned s (wb_operations work)) ops orders i of
                None \<Rightarrow> Inl Failed_out_of_sync
              | Some (n, t) \<Rightarrow> accept_result work (take n (wb_operations work)) (take (nat i + 1) ops, take (nat i + 1) orders)
                    (Some (n, t)) r project)))"

text \<open>What one run meets: restoring a context, if it must, and the sandbox's answers.\<close>

record run_replies =
  rr_restore :: "unit sandbox_reply"
  rr_execute :: "sandbox_result sandbox_reply"
  rr_project :: "string \<Rightarrow> raw sandbox_reply"

text \<open>One run of \<open>execute\<close>: the context it leaves, whether it was restored in vain, and its outcome.\<close>

definition execution_run :: "'f live \<Rightarrow> live_boundary \<Rightarrow> bool \<Rightarrow> run_replies \<Rightarrow> bool \<times> bool \<times> (execute_error + execution)" where
  "execution_run s work context r =
     (if \<not> context \<and> rr_restore r = Infra_failed then (False, True, Inl Failed_infra)
      else if \<not> context \<and> rr_restore r = Script_failed then (False, True, Inl Failed_script)
      else case attempt s work (rr_execute r) (rr_project r) of
             Inr e \<Rightarrow> (True, False, Inr e) | Inl e \<Rightarrow> (False, False, Inl e))"

text \<open>\<open>maxExecutionRuns\<close> is two: a failure is tried once more in a restored context, unless the instance shuts down.\<close>

definition execute :: "'f live \<Rightarrow> live_boundary \<Rightarrow> bool \<Rightarrow> bool \<Rightarrow> run_replies \<Rightarrow> run_replies \<Rightarrow> bool \<times> (execute_error + execution)" where
  "execute s work context shutdown r1 r2 =
     (case execution_run s work context r1 of
        (c, restoring, Inr e) \<Rightarrow> (c, Inr e)
      | (c, restoring, Inl e) \<Rightarrow>
          if restoring \<or> shutdown then (c, Inl e)
          else (case execution_run s work c r2 of (c', _, res) \<Rightarrow> (c', res)))"

subsection \<open>Committing it\<close>

text \<open>The loop over the work's operations: \<open>None\<close> is reading past the answers, a panic.\<close>

fun commit_ops :: "instant \<Rightarrow> live_op list \<Rightarrow> raw list \<Rightarrow> bool list \<Rightarrow> 'f live \<Rightarrow> 'f live option" where
  "commit_ops now [] responses rejoins s = Some s"
| "commit_ops now (o' # os) responses rejoins s =
     (case lo_command o' of
        Some c \<Rightarrow> (case responses of [] \<Rightarrow> None
          | r # rs \<Rightarrow> commit_ops now os rs rejoins (command_executed (lo_participant o') c r s))
      | None \<Rightarrow> (case lo_rejoin o' of
          Some a \<Rightarrow> (case rejoins of [] \<Rightarrow> None
            | d # ds \<Rightarrow> commit_ops now os responses ds (decide_rejoin now (lo_participant o') a d s))
        | None \<Rightarrow> commit_ops now os responses rejoins s))"

definition set_ack :: "string \<times> nat option \<times> int \<Rightarrow> 'f live \<Rightarrow> 'f live" where
  "set_ack ack s = (case ack of (p, stream, through) \<Rightarrow>
     if pi_stream (ingress_of s p) = stream then set_ingress p ((ingress_of s p)\<lparr>pi_consumed := through\<rparr>) s else s)"

definition show_player :: "execution \<Rightarrow> participant \<Rightarrow> 'f live \<Rightarrow> 'f live" where
  "show_player e q s = (case player_of (pa_user q) s of None \<Rightarrow> s
     | Some conn \<Rightarrow>
         if is_ended (lv_conns s conn) \<or> cn_participant (lv_conns s conn) \<noteq> pa_id q then s
         else send_view conn (pa_id q) (view_in e (pa_id q)) (errors_for e (pa_id q)) (events_for e (pa_id q)) s)"

definition show_admin :: "execution \<Rightarrow> nat \<Rightarrow> 'f live \<Rightarrow> 'f live" where
  "show_admin e admin s =
     (let w = cn_watching (lv_conns s admin) in
      if w \<noteq> [] \<and> \<not> is_ended (lv_conns s admin)
      then send_view admin w (view_in e w) (errors_for e w) (events_for e w) s else s)"

definition acknowledge :: "live_boundary \<Rightarrow> execution \<Rightarrow> 'f live \<Rightarrow> 'f live" where
  "acknowledge work e s =
     (let s = fold set_ack (wb_acks work) s;
          s = fold (show_player e) (lv_participants s) s
      in fold (show_admin e) (lv_admins s) s)"

datatype commit_result = Committed | Commit_not_running | Commit_out_of_sync | Commit_panics

definition commit_boundary :: "instant \<Rightarrow> live_boundary \<Rightarrow> execution \<Rightarrow> 'f live \<Rightarrow> 'f live \<times> commit_result" where
  "commit_boundary now work e s =
     (if lv_phase s \<noteq> Running then (s, Commit_not_running)
      else if gm_revision (ex_game e) \<noteq> gm_revision (lv_game s) + 1 then (s, Commit_out_of_sync)
      else
        let s1 = s\<lparr>lv_game := (ex_game e)\<lparr>gm_through := wb_time work\<rparr>,
                   lv_views := fold (\<lambda>(p, v) views. views(p := v)) (ex_views e) (lv_views s)\<rparr>
        in case commit_ops now (wb_operations work) (ex_responses e) (ex_rejoins e) s1 of
             None \<Rightarrow> (s, Commit_panics)
           | Some s2 \<Rightarrow>
               if ex_finished e \<noteq> None then (s2\<lparr>lv_phase := Finishing\<rparr>, Committed)
               else (acknowledge work e s2, Committed))"

definition acknowledge_only :: "live_boundary \<Rightarrow> 'f live \<Rightarrow> 'f live" where
  "acknowledge_only work s = (if lv_phase s \<noteq> Running then s else acknowledge work (no_execution (lv_game s)) s)"

subsection \<open>Ending the Session\<close>

text \<open>What the database answers to ending a Session: a failure, that it is still live, or how it ended.\<close>

datatype db_end = Db_failed | Db_still_live | Db_ended bool string string

definition end_session :: "db_end \<Rightarrow> ('f live \<Rightarrow> 'f live) \<Rightarrow> 'f live \<Rightarrow> 'f live" where
  "end_session answer on_ended s = (case answer of
      Db_failed \<Rightarrow> s | Db_still_live \<Rightarrow> s
    | Db_ended ended_now status cause \<Rightarrow>
        if lv_phase s = Ended then s
        else end_live \<lparr>ce_reason = End_session_ended, ce_status = status, ce_cause = cause\<rparr>
               (if ended_now then on_ended s else s))"

definition abort :: "db_end \<Rightarrow> 'f live \<Rightarrow> 'f live" where
  "abort answer s =
     (let s = end_session answer id s
      in if lv_phase s = Running then end_live \<lparr>ce_reason = End_session_ended, ce_status = [], ce_cause = []\<rparr> s else s)"

definition is_abandoned :: "'f live \<Rightarrow> bool" where
  "is_abandoned s \<longleftrightarrow> lv_phase s = Running
     \<and> list_all (\<lambda>q. pr_disconnected (presence_of s (pa_id q))) (lv_participants s)
     \<and> \<not> list_ex (\<lambda>o'. lo_disconnected o' \<or> lo_rejoin o' \<noteq> None) (lv_timeline s)"

definition end_if_abandoned :: "db_end \<Rightarrow> 'f live \<Rightarrow> 'f live" where
  "end_if_abandoned answer s = (if is_abandoned s then end_session answer id s else s)"

subsection \<open>The main goroutine\<close>

record finished_game =
  fg_work :: live_boundary
  fg_executed :: execution
  fg_recorded :: bool
  fg_failures :: nat

record 'f controller =
  co_live :: "'f live"
  co_in_flight :: "live_boundary option"
  co_context :: bool
  co_failures :: nat
  co_finishing :: "finished_game option"
  co_flush :: bool

definition max_infra_failures :: nat where "max_infra_failures = 50"

text \<open>\<open>finishGame\<close>, \<open>recorded\<close> when replay stores its final capture: replay first, then the database, then the players.\<close>

definition finish_game :: "bool \<Rightarrow> db_end \<Rightarrow> 'f controller \<Rightarrow> 'f controller" where
  "finish_game recorded answer c =
     (case co_finishing c of None \<Rightarrow> c
      | Some g \<Rightarrow>
          let g = (if recorded then g\<lparr>fg_recorded := True\<rparr> else g) in
          if \<not> fg_recorded g then c\<lparr>co_finishing := Some (g\<lparr>fg_failures := fg_failures g + 1\<rparr>)\<rparr>
          else case answer of
            Db_ended _ _ _ \<Rightarrow>
              c\<lparr>co_live := end_session answer (acknowledge (fg_work g) (fg_executed g)) (co_live c), co_finishing := None\<rparr>
          | _ \<Rightarrow> c\<lparr>co_finishing := Some (g\<lparr>fg_failures := fg_failures g + 1\<rparr>)\<rparr>)"

text \<open>
  \<open>runBoundary\<close> until the sandbox executes: the boundary taken is in flight; with nothing to execute it
  is acknowledged at once.
\<close>

definition start_boundary :: "'f float_ops \<Rightarrow> instant \<Rightarrow> bool \<Rightarrow> db_end \<Rightarrow> 'f controller \<Rightarrow> 'f controller" where
  "start_boundary F now recorded answer c =
     (if co_in_flight c \<noteq> None then c
      else if co_finishing c \<noteq> None then finish_game recorded answer c
      else case take_boundary F now (co_live c) of
        (s, None) \<Rightarrow> c\<lparr>co_live := s\<rparr>
      | (s, Some (work, flush)) \<Rightarrow>
          let c = c\<lparr>co_flush := flush\<rparr> in
          if wb_operations work = [] \<and> \<not> wb_update work
          then c\<lparr>co_live := end_if_abandoned answer (acknowledge_only work s)\<rparr>
          else c\<lparr>co_live := s, co_in_flight := Some work\<rparr>)"

definition boundary_failed :: "live_boundary \<Rightarrow> db_end \<Rightarrow> 'f controller \<Rightarrow> 'f controller" where
  "boundary_failed work answer c =
     (let c = c\<lparr>co_live := requeue work (co_live c), co_failures := co_failures c + 1, co_in_flight := None\<rparr>
      in if co_failures c \<ge> max_infra_failures then c\<lparr>co_live := abort answer (co_live c)\<rparr> else c)"

text \<open>What the batch did not reach never happened.\<close>

definition reached :: "execution \<Rightarrow> live_boundary \<Rightarrow> live_boundary" where
  "reached e work = (case ex_finished e of None \<Rightarrow> work
     | Some (n, t) \<Rightarrow> work\<lparr>wb_operations := take n (wb_operations work), wb_time := t\<rparr>)"

definition boundary_executed :: "instant \<Rightarrow> bool \<Rightarrow> live_boundary \<Rightarrow> execution \<Rightarrow> db_end \<Rightarrow> 'f controller \<Rightarrow> 'f controller" where
  "boundary_executed now recorded work0 e answer c =
     (let work = reached e work0
      in case commit_boundary now work e (co_live c) of
           (s, Commit_not_running) \<Rightarrow> c\<lparr>co_live := s, co_in_flight := None\<rparr>
         | (s, Committed) \<Rightarrow>
             (case ex_finished e of
                None \<Rightarrow> c\<lparr>co_live := end_if_abandoned answer s, co_in_flight := None, co_failures := 0\<rparr>
              | Some _ \<Rightarrow> finish_game recorded answer
                  (c\<lparr>co_live := s, co_in_flight := None, co_failures := 0, co_context := False,
                     co_finishing := Some \<lparr>fg_work = work, fg_executed = e, fg_recorded = False, fg_failures = 0\<rparr>\<rparr>))
         | (s, _) \<Rightarrow> boundary_failed work answer (c\<lparr>co_context := False\<rparr>))"

text \<open>The rest of \<open>runBoundary\<close>, once the sandbox answered.\<close>

definition finish_boundary :: "instant \<Rightarrow> bool \<Rightarrow> bool \<Rightarrow> run_replies \<Rightarrow> run_replies \<Rightarrow> db_end \<Rightarrow> 'f controller \<Rightarrow> 'f controller" where
  "finish_boundary now shutdown recorded r1 r2 answer c =
     (case co_in_flight c of None \<Rightarrow> c
      | Some work \<Rightarrow>
          (case execute (co_live c) work (co_context c) shutdown r1 r2 of
             (context, Inr e) \<Rightarrow> boundary_executed now recorded work e answer (c\<lparr>co_context := context\<rparr>)
           | (context, Inl err) \<Rightarrow>
               let c = c\<lparr>co_context := context\<rparr> in
               if shutdown then c\<lparr>co_live := requeue work (co_live c), co_in_flight := None\<rparr>
               else if err = Failed_script then c\<lparr>co_live := abort answer (co_live c), co_in_flight := None\<rparr>
               else boundary_failed work answer c))"

end
