(* ===== verification/LiveController.thy ===== *)
theory LiveController
  imports LiveBoundary
begin

section \<open>A controller's whole life\<close>

text \<open>
  The requests a controller of \<open>play/runtime/workflows/liveconnection\<close> serves and the turns of its main
  goroutine, in any order: a quick request runs on its caller's goroutine under the lock, so it may come
  between any two steps of the main goroutine, also while the sandbox executes a boundary. The states
  reached are those of a Session's controller; the ones of previews, which pause and act as several
  participants, are not among them.
\<close>

definition no_game :: game where
  "no_game = \<lparr>gm_version = [], gm_script = [], gm_profile = [], gm_revision = 0, gm_through = 0, gm_state = Raw_empty, gm_prng = []\<rparr>"

definition new_live :: "'f rules \<Rightarrow> duration \<Rightarrow> live_limits \<Rightarrow> 'f live" where
  "new_live rules grace limits =
     \<lparr>lv_rules = rules, lv_grace = grace, lv_limits = limits, lv_phase = Lobby,
      lv_conns = (\<lambda>_. new_connection [] []), lv_next_conn = 0, lv_admins = [], lv_players = [], lv_lobby = [],
      lv_played_by = (\<lambda>_. False), lv_participants = [], lv_game = no_game,
      lv_start = \<lparr>ss_participants = [], ss_frontend = []\<rparr>, lv_running_since = 0, lv_base_time = 0,
      lv_paused = False, lv_paused_at = 0, lv_last_activity = 0, lv_inputs = (\<lambda>_. None), lv_tokens = (\<lambda>_. None),
      lv_presence = (\<lambda>_. None), lv_rejoins = [], lv_views = (\<lambda>_. Raw_empty), lv_timeline = [], lv_next_order = 0,
      lv_queued = (\<lambda>_. 0), lv_queued_total = 0, lv_command_rate = map new_bucket (ll_session_commands limits),
      lv_cmds = (\<lambda>_. \<lparr>pc_token = [], pc_name = [], pc_payload = Raw_empty, pc_answer = None\<rparr>), lv_next_cmd = 0,
      lv_asks = (\<lambda>_. None), lv_next_ask = 0\<rparr>"

definition new_controller :: "'f rules \<Rightarrow> duration \<Rightarrow> live_limits \<Rightarrow> 'f controller" where
  "new_controller rules grace limits =
     \<lparr>co_live = new_live rules grace limits, co_in_flight = None, co_context = False, co_failures = 0,
      co_finishing = None, co_flush = False\<rparr>"

subsection \<open>Requests\<close>

text \<open>
  \<open>Rq_complete_start\<close> carries what a start or a recovery found; \<open>Rq_end\<close> is any end of the Session the
  database decides: a cancellation, a termination, a limit or a failed start.
\<close>

datatype request =
    Rq_join string string
  | Rq_join_admin string "session_start option"
  | Rq_drop_player nat
  | Rq_drop_admin nat
  | Rq_leave nat
  | Rq_sample nat int raw
  | Rq_command nat string string raw
  | Rq_rejoin string
  | Rq_reattach string string "session_start option"
  | Rq_resync nat
  | Rq_resync_admin nat
  | Rq_perspective nat string
  | Rq_begin_start
  | Rq_cancel_start
  | Rq_complete_start duration "participant list" game string "string \<Rightarrow> raw" "resumed_game option"
  | Rq_end db_end
  | Rq_retire

fun handle :: "'f float_ops \<Rightarrow> instant \<Rightarrow> request \<Rightarrow> 'f live \<Rightarrow> 'f live" where
  "handle F now (Rq_join user display) s = fst (join_lobby user display s)"
| "handle F now (Rq_join_admin user signed) s = fst (register_admin user signed s)"
| "handle F now (Rq_drop_player conn) s = disconnect_player F now conn s"
| "handle F now (Rq_drop_admin admin) s = disconnect_admin admin s"
| "handle F now (Rq_leave conn) s = fst (leave_session F now conn s)"
| "handle F now (Rq_sample conn sequence inputs) s = fst (take_sample F now conn sequence inputs s)"
| "handle F now (Rq_command conn token name payload) s = fst (accept_command F now conn token name payload s)"
| "handle F now (Rq_rejoin user) s = fst (ask_rejoin now user s)"
| "handle F now (Rq_reattach user display signed) s = fst (reattach_player F now user display signed s)"
| "handle F now (Rq_resync conn) s = resync conn s"
| "handle F now (Rq_resync_admin admin) s = resync_admin admin s"
| "handle F now (Rq_perspective admin p) s = fst (select_perspective admin p s)"
| "handle F now Rq_begin_start s = fst (begin_start s)"
| "handle F now Rq_cancel_start s = cancel_start s"
| "handle F now (Rq_complete_start window participants game frontend views resumed) s =
     complete_start F False window now participants game frontend views resumed s"
| "handle F now (Rq_end answer) s = end_session answer id s"
| "handle F now Rq_retire s = retire s"

text \<open>
  What a caller guarantees: a connection it names was returned to it by an attach; a player's leaving
  waits for the end of a Start attempt; and a start completes with the participants it froze, or with
  the ones the database committed, distinct users with distinct names.
\<close>

definition roster_ok :: "participant list \<Rightarrow> bool" where
  "roster_ok participants \<longleftrightarrow> distinct (map pa_id participants) \<and> distinct (map pa_user participants)
     \<and> [] \<notin> pa_id ` set participants"

fun admissible :: "request \<Rightarrow> 'f live \<Rightarrow> bool" where
  "admissible (Rq_drop_player conn) s = (conn < lv_next_conn s)"
| "admissible (Rq_drop_admin admin) s = (admin < lv_next_conn s)"
| "admissible (Rq_leave conn) s = (conn < lv_next_conn s \<and> lv_phase s \<noteq> Starting)"
| "admissible (Rq_sample conn sequence inputs) s = (conn < lv_next_conn s)"
| "admissible (Rq_command conn token name payload) s = (conn < lv_next_conn s)"
| "admissible (Rq_resync conn) s = (conn < lv_next_conn s)"
| "admissible (Rq_resync_admin admin) s = (admin < lv_next_conn s)"
| "admissible (Rq_perspective admin p) s = (admin < lv_next_conn s)"
| "admissible (Rq_complete_start window participants game frontend views resumed) s =
     (case resumed of None \<Rightarrow> participants = lv_participants s | Some _ \<Rightarrow> roster_ok participants)"
| "admissible _ s = True"

subsection \<open>The states reached\<close>

text \<open>The operations a finished execution commits.\<close>

definition committed :: "instant \<Rightarrow> bool \<Rightarrow> run_replies \<Rightarrow> run_replies \<Rightarrow> 'f controller \<Rightarrow> live_op list" where
  "committed now shutdown r1 r2 c =
     (case co_in_flight c of None \<Rightarrow> []
      | Some work \<Rightarrow> (case execute (co_live c) work (co_context c) shutdown r1 r2 of
            (_, Inl _) \<Rightarrow> []
          | (_, Inr e) \<Rightarrow> (case commit_boundary now (reached e work) e (co_live c) of
                (_, Committed) \<Rightarrow> wb_operations (reached e work) | _ \<Rightarrow> [])))"

text \<open>
  \<open>turn F now c ops c'\<close>: one turn of the controller at time \<open>now\<close>, which commits the operations \<open>ops\<close>:
  a request, or the main goroutine taking a boundary or finishing the one in flight.
\<close>

inductive turn :: "'f float_ops \<Rightarrow> instant \<Rightarrow> 'f controller \<Rightarrow> live_op list \<Rightarrow> 'f controller \<Rightarrow> bool" for F now where
  turn_request: "admissible r (co_live c) \<Longrightarrow> turn F now c [] (c\<lparr>co_live := handle F now r (co_live c)\<rparr>)"
| turn_start: "turn F now c [] (start_boundary F now recorded answer c)"
| turn_finish: "turn F now c (committed now shutdown r1 r2 c) (finish_boundary now shutdown recorded r1 r2 answer c)"

inductive_cases turnE: "turn F now c ops c'"

text \<open>
  \<open>reaches F c executed now\<close>: a Session's controller can come to the state \<open>c\<close> at time \<open>now\<close>, having
  executed and committed the operations \<open>executed\<close>. The clock never goes back.
\<close>

inductive reaches :: "'f float_ops \<Rightarrow> 'f controller \<Rightarrow> live_op list \<Rightarrow> instant \<Rightarrow> bool" for F where
  reaches_new: "reaches F (new_controller rules grace limits) [] now"
| reaches_turn: "\<lbrakk>reaches F c executed t; t \<le> now; turn F now c ops c'\<rbrakk> \<Longrightarrow> reaches F c' (executed @ ops) now"

definition in_flight_ops :: "'f controller \<Rightarrow> live_op list" where
  "in_flight_ops c = (case co_in_flight c of None \<Rightarrow> [] | Some work \<Rightarrow> wb_operations work)"

text \<open>Every operation accepted and not executed yet, in order.\<close>

definition outstanding :: "'f controller \<Rightarrow> live_op list" where
  "outstanding c = in_flight_ops c @ lv_timeline (co_live c)"

end
