(* ===== verification/LiveFrames.thy ===== *)
theory LiveFrames
  imports LiveController
begin

section \<open>What the operations leave alone\<close>

text \<open>
  Much of what a controller does only tells its connections something. \<open>tells s s'\<close> is such a step:
  only the connections change, and none of them changes whose it is or whom it watches.
\<close>

definition whose :: "connection \<Rightarrow> string \<times> string \<times> string \<times> string" where
  "whose c = (cn_user c, cn_display c, cn_participant c, cn_watching c)"

definition tells :: "'f live \<Rightarrow> 'f live \<Rightarrow> bool" where
  "tells s s' \<longleftrightarrow> s' = s\<lparr>lv_conns := lv_conns s'\<rparr> \<and> (\<forall>c. whose (lv_conns s' c) = whose (lv_conns s c))"

named_theorems telling \<open>steps that only tell connections something\<close>

lemma tells_refl: "tells s s"
  by (simp add: tells_def)

lemma tells_trans: "tells s s' \<Longrightarrow> tells s' s'' \<Longrightarrow> tells s s''"
  unfolding tells_def by (metis (no_types, lifting) live.surjective live.update_convs(5))

lemma tells_on_conn [telling]: "whose (f (lv_conns s c)) = whose (lv_conns s c) \<Longrightarrow> tells s (on_conn f c s)"
  by (simp add: tells_def on_conn_def set_conn_def)

lemma tells_fold:
  assumes "\<And>x s. tells s (f x s)"
  shows "tells s (fold f xs s)"
proof (induction xs arbitrary: s)
  case (Cons x xs)
  show ?case using tells_trans[OF assms Cons] by simp
qed (simp add: tells_refl)

lemma tells_on_conns [telling]: "(\<And>c. whose (f c) = whose c) \<Longrightarrow> tells s (on_conns f cs s)"
  unfolding on_conns_def by (rule tells_fold, rule tells_on_conn) blast

subsection \<open>Connections\<close>

lemma whose_send_view [simp]: "whose (fst (send_view_to m a p v es evs c)) = whose c"
  by (simp add: send_view_to_def whose_def Let_def split: prod.split sum.split)

lemma whose_send_full [simp]: "whose (fst (send_full_to m a p v c)) = whose c"
  by (simp add: send_full_to_def whose_def Let_def split: prod.split)

lemma whose_end_with [simp]: "whose (end_with e c) = whose c"
  by (simp add: end_with_def whose_def split: option.split)

lemma whose_end_connection [simp]: "whose (end_connection r c) = whose c"
  by (simp add: end_connection_def)

lemma whose_mark_started [simp]: "whose (mark_started st c) = whose c"
  by (simp add: mark_started_def whose_def)

lemma whose_tell_lobby [simp]: "whose (tell_lobby u c) = whose c"
  by (simp add: tell_lobby_def whose_def)

subsection \<open>Steps that only tell\<close>

lemma tells_send_view [telling]: "tells s (send_view viewer p v es evs s)"
  unfolding send_view_def by (rule tells_on_conn) simp

lemma tells_send_full [telling]: "tells s (send_full viewer p s)"
  unfolding send_full_def by (rule tells_on_conn) simp

lemma tells_resync [telling]: "tells s (resync conn s)"
  by (simp add: resync_def telling tells_refl)

lemma tells_resync_admin [telling]: "tells s (resync_admin admin s)"
  by (simp add: resync_admin_def telling tells_refl)

lemma tells_broadcast_roster [telling]: "tells s (broadcast_roster s)"
  unfolding broadcast_roster_def Let_def by (rule tells_on_conns) (simp add: whose_def)

lemma tells_broadcast_lobby [telling]: "tells s (broadcast_lobby s)"
  unfolding broadcast_lobby_def by (rule tells_on_conns) simp

lemma tells_show_player [telling]: "tells s (show_player e q s)"
  by (auto simp: show_player_def telling tells_refl split: option.split)

lemma tells_show_admin [telling]: "tells s (show_admin e a s)"
  by (simp add: show_admin_def Let_def telling tells_refl)

subsection \<open>What telling keeps\<close>

text \<open>The fields a telling step keeps, one by one, for the simplifier.\<close>

lemma tells_fields:
  assumes "tells s s'"
  shows "lv_rules s' = lv_rules s" "lv_grace s' = lv_grace s" "lv_limits s' = lv_limits s" "lv_phase s' = lv_phase s"
    "lv_next_conn s' = lv_next_conn s" "lv_admins s' = lv_admins s" "lv_players s' = lv_players s" "lv_lobby s' = lv_lobby s"
    "lv_played_by s' = lv_played_by s" "lv_participants s' = lv_participants s" "lv_game s' = lv_game s" "lv_start s' = lv_start s"
    "lv_running_since s' = lv_running_since s" "lv_base_time s' = lv_base_time s" "lv_paused s' = lv_paused s"
    "lv_inputs s' = lv_inputs s" "lv_tokens s' = lv_tokens s" "lv_presence s' = lv_presence s" "lv_rejoins s' = lv_rejoins s"
    "lv_views s' = lv_views s" "lv_timeline s' = lv_timeline s" "lv_next_order s' = lv_next_order s" "lv_queued s' = lv_queued s"
    "lv_queued_total s' = lv_queued_total s" "lv_cmds s' = lv_cmds s" "lv_next_cmd s' = lv_next_cmd s"
    "lv_asks s' = lv_asks s" "lv_next_ask s' = lv_next_ask s" "lv_paused_at s' = lv_paused_at s" "lv_command_rate s' = lv_command_rate s"
    "lv_last_activity s' = lv_last_activity s"
    "cn_user (lv_conns s' c) = cn_user (lv_conns s c)" "cn_display (lv_conns s' c) = cn_display (lv_conns s c)"
    "cn_participant (lv_conns s' c) = cn_participant (lv_conns s c)" "cn_watching (lv_conns s' c) = cn_watching (lv_conns s c)"
proof -
  obtain m where m: "s' = s\<lparr>lv_conns := m\<rparr>" using assms unfolding tells_def by metis
  have "whose (lv_conns s' c) = whose (lv_conns s c)" for c using assms unfolding tells_def by blast
  then show "cn_user (lv_conns s' c) = cn_user (lv_conns s c)" "cn_display (lv_conns s' c) = cn_display (lv_conns s c)"
    "cn_participant (lv_conns s' c) = cn_participant (lv_conns s c)" "cn_watching (lv_conns s' c) = cn_watching (lv_conns s c)"
    unfolding whose_def by simp_all
qed (use assms in \<open>(unfold tells_def, metis live.ext_inject live.surjective live.update_convs(5))+\<close>)

lemmas told [simp] =
  tells_fields[OF tells_send_view] tells_fields[OF tells_send_full] tells_fields[OF tells_resync]
  tells_fields[OF tells_resync_admin] tells_fields[OF tells_broadcast_roster] tells_fields[OF tells_broadcast_lobby]
  tells_fields[OF tells_show_player] tells_fields[OF tells_show_admin]

subsection \<open>The room\<close>

text \<open>
  What a step that neither admits nor dismisses anyone, nor moves the Session to another phase or
  another game, leaves as it was.
\<close>

definition same_room :: "'f live \<Rightarrow> 'f live \<Rightarrow> bool" where
  "same_room s s' \<longleftrightarrow> lv_phase s' = lv_phase s \<and> lv_players s' = lv_players s \<and> lv_lobby s' = lv_lobby s
     \<and> lv_participants s' = lv_participants s \<and> lv_rules s' = lv_rules s \<and> lv_limits s' = lv_limits s
     \<and> lv_next_conn s' = lv_next_conn s \<and> lv_game s' = lv_game s \<and> lv_running_since s' = lv_running_since s
     \<and> lv_base_time s' = lv_base_time s \<and> lv_paused s' = lv_paused s \<and> lv_paused_at s' = lv_paused_at s
     \<and> (\<forall>c. whose (lv_conns s' c) = whose (lv_conns s c))"

named_theorems room \<open>steps that keep the room\<close>

lemma same_room_refl: "same_room s s"
  by (simp add: same_room_def)

lemma same_room_trans: "same_room s s' \<Longrightarrow> same_room s' s'' \<Longrightarrow> same_room s s''"
  by (simp add: same_room_def)

lemma same_room_tells: "tells s s' \<Longrightarrow> same_room s s'"
  unfolding same_room_def by (simp add: tells_fields) (simp add: tells_def)

lemmas room_told [room] = telling[THEN same_room_tells]

lemma same_room_fold:
  assumes "\<And>x s. same_room s (f x s)"
  shows "same_room s (fold f xs s)"
proof (induction xs arbitrary: s)
  case (Cons x xs)
  show ?case using same_room_trans[OF assms Cons] by simp
qed (simp add: same_room_refl)

text \<open>The updates of one field each.\<close>

lemmas updates = set_ingress_def set_presence_def set_tokens_def record_activity_def recount_def resolve_command_def resolve_rejoin_def
  enqueue_op_def

lemma same_room_updates [room]:
  "same_room s (set_ingress p i s)" "same_room s (set_presence p r s)" "same_room s (set_tokens p t s)"
  "same_room s (record_activity now s)" "same_room s (recount s)" "same_room s (resolve_command c oc rs s)"
  "same_room s (resolve_rejoin a ro s)" "same_room s (enqueue_op now o' s)" "same_room s (enqueue_player now o' s)"
  "same_room s (s\<lparr>lv_timeline := os\<rparr>)" "same_room s (s\<lparr>lv_rejoins := rj\<rparr>)"
  "same_room s (s\<lparr>lv_command_rate := rate\<rparr>)"
  by (simp_all add: same_room_def updates enqueue_player_def Let_def split: prod.split)

lemma same_room_after: "same_room s' s'' \<Longrightarrow> same_room s s' \<Longrightarrow> same_room s s''"
  by (rule same_room_trans)

text \<open>Peeling the last of several steps.\<close>

lemmas room_step = room[THEN same_room_after]

lemma same_room_reset_inputs [room]: "same_room s (reset_inputs F now p s)"
  by (auto simp: reset_inputs_def enqueue_transition_def Let_def intro!: room_step same_room_refl split: option.split)

lemma same_room_disconnect [room]: "same_room s (disconnect F now cause p s)"
  unfolding disconnect_def Let_def by (intro room_step same_room_after[OF same_room_reset_inputs] same_room_refl)

lemma same_room_expire [room]: "same_room s (expire_grace F now q s)" "same_room s (expire_graces F now s)"
proof -
  show e: "same_room s (expire_grace F now q s)" for s q
    by (simp add: expire_grace_def Let_def room same_room_refl)
  show "same_room s (expire_graces F now s)"
    unfolding expire_graces_def by (rule same_room_fold) (rule e)
qed

lemma same_room_detach [room]: "same_room s (detach_player F now conn s)"
  unfolding detach_player_def Let_def
  by (auto intro!: room_step same_room_refl same_room_after[OF same_room_reset_inputs] split: option.split)

lemma same_room_take_sample [room]: "same_room s (fst (take_sample F now conn sequence inputs s))"
  unfolding take_sample_def Let_def
  by (auto intro!: room_step same_room_refl split: option.split sum.split prod.split)

lemma same_room_command_room [room]: "same_room s (fst (command_room now p s))"
  unfolding command_room_def Let_def
  by (auto intro!: room_step same_room_refl split: option.split prod.split)

lemma same_room_new_command: "same_room s s' \<Longrightarrow> same_room s (s'\<lparr>lv_next_cmd := n, lv_cmds := cs\<rparr>)"
  and same_room_new_ask: "same_room s s' \<Longrightarrow> same_room s (s'\<lparr>lv_next_ask := n, lv_asks := asks, lv_rejoins := rj\<rparr>)"
  by (simp_all add: same_room_def)

lemma same_room_accept_command [room]: "same_room s (fst (accept_command F now conn token name payload s))"
  unfolding accept_command_def Let_def
  using same_room_command_room[where s = s and now = now and p = "cn_participant (lv_conns s conn)"]
  by (auto intro!: room_step same_room_refl same_room_new_command split: option.split sum.split prod.split)

lemma same_room_ask_rejoin [room]: "same_room s (fst (ask_rejoin now user s))"
  unfolding ask_rejoin_def Let_def
  by (auto intro!: room_step same_room_refl same_room_new_ask split: option.split)

lemma same_room_decide_rejoin [room]: "same_room s (decide_rejoin now p a accepted s)"
  unfolding decide_rejoin_def Let_def by (auto intro!: room_step same_room_refl)

lemma same_room_command_executed [room]: "same_room s (command_executed p c r s)"
  unfolding command_executed_def Let_def by (auto intro!: room_step same_room_refl)

lemma same_room_commit_ops: "commit_ops now os rs ds s = Some s' \<Longrightarrow> same_room s s'"
proof (induction os arbitrary: rs ds s)
  case (Cons o' os)
  then show ?case
    by (auto split: option.splits list.splits
        intro: same_room_trans[OF same_room_command_executed] same_room_trans[OF same_room_decide_rejoin])
qed (simp add: same_room_refl)

lemma same_room_acknowledge [room]: "same_room s (acknowledge work e s)"
proof -
  have a: "same_room s (fold set_ack as s)" for as s
    by (rule same_room_fold) (auto simp: set_ack_def room same_room_refl split: prod.split)
  have p: "same_room s (fold (show_player e) qs s)" for qs s
    by (rule same_room_fold) (rule room)
  have d: "same_room s (fold (show_admin e) qs s)" for qs s
    by (rule same_room_fold) (rule room)
  show ?thesis unfolding acknowledge_def Let_def
    by (rule same_room_after[OF d], rule same_room_after[OF p], rule a)
qed

lemma same_room_boundary [room]:
  "same_room s (fst (take_boundary F now s))" "same_room s (requeue work s)" "same_room s (acknowledge_only work s)"
  unfolding take_boundary_def requeue_def acknowledge_only_def Let_def
  by (auto intro!: room_step same_room_refl same_room_after[OF same_room_expire(2)] same_room_acknowledge simp: Let_def)

end
