(* ===== verification/LiveSamples.thy ===== *)
theory LiveSamples
  imports LiveController
begin

section \<open>A Session to evaluate\<close>

text \<open>
  A small game with two players, for the witnesses: requests handled one after the other reach the
  states they lead to.
\<close>

fun requests_ok :: "'f float_ops \<Rightarrow> instant \<Rightarrow> request list \<Rightarrow> 'f live \<Rightarrow> bool" where
  "requests_ok F now [] s = True"
| "requests_ok F now (r # rs) s = (admissible r s \<and> requests_ok F now rs (handle F now r s))"

definition handle_all :: "'f float_ops \<Rightarrow> instant \<Rightarrow> request list \<Rightarrow> 'f live \<Rightarrow> 'f live" where
  "handle_all F now rs s = fold (handle F now) rs s"

lemma reaches_requests:
  "reaches F c executed t \<Longrightarrow> t \<le> now \<Longrightarrow> requests_ok F now rs (co_live c)
    \<Longrightarrow> reaches F (c\<lparr>co_live := handle_all F now rs (co_live c)\<rparr>) executed (if rs = [] then t else now)"
proof (induction rs arbitrary: c t)
  case (Cons r rs)
  have "reaches F (c\<lparr>co_live := handle F now r (co_live c)\<rparr>) executed now"
    using reaches_turn[OF Cons.prems(1,2) turn_request] Cons.prems(3) by simp
  then have "reaches F (c\<lparr>co_live := handle F now r (co_live c), co_live := handle_all F now rs (handle F now r (co_live c))\<rparr>) executed
      (if rs = [] then now else now)"
    using Cons.IH[of "c\<lparr>co_live := handle F now r (co_live c)\<rparr>" now] Cons.prems by simp
  then show ?case by (simp add: handle_all_def)
qed (simp add: handle_all_def)

definition sample_rules :: "int rules" where
  "sample_rules = \<lparr>ru_min_players = 1, ru_max_players = 2, ru_inputs = sample_schema, ru_commands = sample_catalog,
     ru_update = False, ru_rejoin = True\<rparr>"

definition sample_limits :: live_limits where
  "sample_limits = \<lparr>ll_sample_transitions = [], ll_participant_commands = [], ll_session_commands = [], ll_pending_commands = 4,
     ll_processed_tokens = 4, ll_pending_per_participant = 4, ll_pending_per_session = 8, ll_boundary_operations = 4,
     ll_admins = 1, ll_pending_views = 4\<rparr>"

definition sample_controller :: "int controller" where
  "sample_controller = new_controller sample_rules 1000000000 sample_limits"

definition lobby_requests :: "request list" where
  "lobby_requests = [Rq_join_admin ''host'' None, Rq_join ''ana'' ''Ana'', Rq_join ''bob'' ''Bob'', Rq_join ''eve'' ''Eve'',
     Rq_join ''ana'' ''Ana'', Rq_begin_start]"

definition sample_game :: game where
  "sample_game = no_game\<lparr>gm_version := ''v1'', gm_state := Raw (JObj [])\<rparr>"

definition sample_roster :: "participant list" where
  "sample_roster = [\<lparr>pa_id = ''P1'', pa_user = ''ana'', pa_display = ''Ana''\<rparr>, \<lparr>pa_id = ''P2'', pa_user = ''bob'', pa_display = ''Bob''\<rparr>]"

definition start_requests :: "request list" where
  "start_requests = lobby_requests @ [Rq_complete_start 0 sample_roster sample_game [] (\<lambda>_. Raw (JObj [])) None]"

lemma lobby_requests_ok: "requests_ok whole_numbers 5 lobby_requests (co_live sample_controller)"
  by code_simp

lemma start_requests_ok: "requests_ok whole_numbers 5 start_requests (co_live sample_controller)"
  by code_simp

lemma reaches_lobby: "reaches whole_numbers (sample_controller\<lparr>co_live := handle_all whole_numbers 5 lobby_requests (co_live sample_controller)\<rparr>) [] 5"
  using reaches_requests[OF reaches_new[of whole_numbers sample_rules 1000000000 sample_limits 5], of 5 lobby_requests] lobby_requests_ok
  by (simp add: sample_controller_def lobby_requests_def)

lemma reaches_started: "reaches whole_numbers (sample_controller\<lparr>co_live := handle_all whole_numbers 5 start_requests (co_live sample_controller)\<rparr>) [] 5"
  using reaches_requests[OF reaches_new[of whole_numbers sample_rules 1000000000 sample_limits 5], of 5 start_requests] start_requests_ok
  by (simp add: sample_controller_def start_requests_def)

text \<open>A SAMPLE, a COMMAND and its retransmission, then a boundary taken while another SAMPLE arrives.\<close>

definition playing_requests :: "request list" where
  "playing_requests = start_requests @ [Rq_sample 4 1 (Raw (JObj [(''fire'', JBool True)])), Rq_command 2 ''t1'' ''buy'' Raw_empty,
     Rq_command 2 ''t1'' ''buy'' Raw_empty, Rq_drop_player 2]"

definition sample_playing :: "int controller" where
  "sample_playing = sample_controller\<lparr>co_live := handle_all whole_numbers 5 playing_requests (co_live sample_controller)\<rparr>"

definition sample_flight :: "int controller" where
  "sample_flight = start_boundary whole_numbers 7 True Db_failed sample_playing"

definition late_requests :: "request list" where
  "late_requests = [Rq_sample 4 2 (Raw (JObj []))]"

definition sample_waiting :: "int controller" where
  "sample_waiting = sample_flight\<lparr>co_live := handle_all whole_numbers 8 late_requests (co_live sample_flight)\<rparr>"

lemma reaches_sample_playing: "reaches whole_numbers sample_playing [] 5"
proof -
  have "requests_ok whole_numbers 5 playing_requests (co_live sample_controller)" by code_simp
  then show ?thesis unfolding sample_playing_def
    using reaches_requests[OF reaches_new[of whole_numbers sample_rules 1000000000 sample_limits 5], of 5 playing_requests]
    by (simp add: sample_controller_def playing_requests_def)
qed

lemma reaches_sample_flight: "reaches whole_numbers sample_flight [] 7"
  unfolding sample_flight_def using reaches_turn[OF reaches_sample_playing _ turn_start, of 7 True Db_failed] by simp

lemma reaches_sample_waiting: "reaches whole_numbers sample_waiting [] 8"
proof -
  have "requests_ok whole_numbers 8 late_requests (co_live sample_flight)" by code_simp
  then show ?thesis unfolding sample_waiting_def
    using reaches_requests[OF reaches_sample_flight, of 8 late_requests] by (simp add: late_requests_def)
qed

lemma waiting_runs:
  "lv_phase (co_live sample_waiting) = Running" "map lo_order (in_flight_ops sample_waiting) = [1, 2]" "map lo_order (lv_timeline (co_live sample_waiting)) = [3]"
  "lv_next_order (co_live sample_waiting) = 3"
  by code_simp+

end
