(* ===== verification/LiveLobby.thy ===== *)
theory LiveLobby
  imports LiveFrames LiveSamples
begin

section \<open>Who is in the room\<close>

text \<open>
  The lobby and the roster in every state a controller reaches: who the lobby holds and the players'
  connections agree, it never exceeds the manifest, and a Start numbers it without repeating anyone.
\<close>

definition room_ok :: "'f live \<Rightarrow> bool" where
  "room_ok s \<longleftrightarrow> distinct (map fst (lv_players s))
     \<and> (\<forall>(u, c) \<in> set (lv_players s). c < lv_next_conn s \<and> cn_user (lv_conns s c) = u)
     \<and> (lv_phase s \<in> {Lobby, Starting} \<longrightarrow> distinct (lv_lobby s) \<and> set (lv_lobby s) = fst ` set (lv_players s)
          \<and> int (length (lv_lobby s)) \<le> max 0 (ru_max_players (lv_rules s)))
     \<and> (lv_phase s = Starting \<longrightarrow> lv_participants s = numbered 0 (lv_lobby s) s)
     \<and> (lv_phase s \<in> {Running, Finishing} \<longrightarrow> roster_ok (lv_participants s)
          \<and> fst ` set (lv_players s) \<subseteq> pa_user ` set (lv_participants s))"

lemma room_okI:
  assumes "distinct (map fst (lv_players s))"
    and "\<And>u c. (u, c) \<in> set (lv_players s) \<Longrightarrow> c < lv_next_conn s \<and> cn_user (lv_conns s c) = u"
    and "lv_phase s \<in> {Lobby, Starting} \<Longrightarrow> distinct (lv_lobby s) \<and> set (lv_lobby s) = fst ` set (lv_players s)
          \<and> int (length (lv_lobby s)) \<le> max 0 (ru_max_players (lv_rules s))"
    and "lv_phase s = Starting \<Longrightarrow> lv_participants s = numbered 0 (lv_lobby s) s"
    and "lv_phase s \<in> {Running, Finishing} \<Longrightarrow> roster_ok (lv_participants s)
          \<and> fst ` set (lv_players s) \<subseteq> pa_user ` set (lv_participants s)"
  shows "room_ok s"
  unfolding room_ok_def using assms by blast

lemma room_okD:
  assumes "room_ok s"
  shows "distinct (map fst (lv_players s))"
    and "(u, c) \<in> set (lv_players s) \<Longrightarrow> c < lv_next_conn s"
    and "(u, c) \<in> set (lv_players s) \<Longrightarrow> cn_user (lv_conns s c) = u"
    and "lv_phase s \<in> {Lobby, Starting} \<Longrightarrow> distinct (lv_lobby s)"
    and "lv_phase s \<in> {Lobby, Starting} \<Longrightarrow> set (lv_lobby s) = fst ` set (lv_players s)"
    and "lv_phase s \<in> {Lobby, Starting} \<Longrightarrow> int (length (lv_lobby s)) \<le> max 0 (ru_max_players (lv_rules s))"
    and "lv_phase s = Starting \<Longrightarrow> lv_participants s = numbered 0 (lv_lobby s) s"
    and "lv_phase s \<in> {Running, Finishing} \<Longrightarrow> roster_ok (lv_participants s)"
    and "lv_phase s \<in> {Running, Finishing} \<Longrightarrow> fst ` set (lv_players s) \<subseteq> pa_user ` set (lv_participants s)"
  using assms unfolding room_ok_def by blast+

subsection \<open>The numbering of a Start\<close>

lemma numbered_cong:
  assumes "lv_players s' = lv_players s" "\<And>u c. player_of u s = Some c \<Longrightarrow> cn_display (lv_conns s' c) = cn_display (lv_conns s c)"
  shows "numbered n us s' = numbered n us s"
proof (induction us arbitrary: n)
  case (Cons u us)
  have "player_of u s' = player_of u s" using assms(1) by (simp add: player_of_def)
  then show ?case using Cons assms(2) by (simp split: option.split)
qed simp

lemma numbered_users [simp]: "map pa_user (numbered n us s) = us"
  by (induction us arbitrary: n) simp_all

lemma numbered_ids [simp]: "map pa_id (numbered n us s) = map (\<lambda>i. CHR ''P'' # itoa (i + 1)) [n..<n + length us]"
proof (induction us arbitrary: n)
  case (Cons u us)
  have "[n..<n + length (u # us)] = n # [Suc n..<Suc n + length us]" by (subst upt_conv_Cons) simp_all
  then show ?case using Cons[of "n + 1"] by (simp del: upt_Suc)
qed simp

lemma itoa_inj: "itoa m = itoa n \<longleftrightarrow> m = n"
  by (metis atoi_itoa of_nat_eq_iff option.inject)

lemma numbered_roster: "distinct us \<Longrightarrow> roster_ok (numbered n us s)"
proof -
  assume d: "distinct us"
  have i: "distinct (map pa_id (numbered n us s))"
    unfolding numbered_ids distinct_map by (auto simp: inj_on_def itoa_inj)
  have "[] \<notin> set (map pa_id (numbered n us s))" unfolding numbered_ids by auto
  then have "[] \<notin> pa_id ` set (numbered n us s)" unfolding set_map .
  then show ?thesis using d i by (simp add: roster_ok_def)
qed

subsection \<open>Steps that keep the room\<close>

lemma room_ok_same: "room_ok s \<Longrightarrow> same_room s s' \<Longrightarrow> room_ok s'"
proof -
  assume r: "room_ok s" and e: "same_room s s'"
  have c: "cn_user (lv_conns s' c) = cn_user (lv_conns s c)" "cn_display (lv_conns s' c) = cn_display (lv_conns s c)" for c
    using e unfolding same_room_def whose_def by auto
  have n: "numbered 0 (lv_lobby s) s' = numbered 0 (lv_lobby s) s"
    using e c by (intro numbered_cong) (auto simp: same_room_def)
  have f: "lv_players s' = lv_players s" "lv_phase s' = lv_phase s" "lv_lobby s' = lv_lobby s" "lv_rules s' = lv_rules s"
    "lv_participants s' = lv_participants s" "lv_next_conn s' = lv_next_conn s" using e unfolding same_room_def by blast+
  show ?thesis using r unfolding room_ok_def f c n .
qed

lemma player_of_in: "player_of u s = Some c \<Longrightarrow> (u, c) \<in> set (lv_players s)"
  by (simp add: player_of_def map_of_SomeD)

lemma player_of_room: "room_ok s \<Longrightarrow> (u, c) \<in> set (lv_players s) \<Longrightarrow> player_of u s = Some c"
  by (simp add: room_ok_def player_of_def map_of_is_SomeI)

lemma distinct_filter_fst: "distinct (map fst xs) \<Longrightarrow> distinct (map fst (filter P xs))"
  by (induction xs) auto

lemma room_ok_remove:
  assumes r: "room_ok s" and p: "lv_phase s' = lv_phase s" "lv_phase s = Lobby"
    and e: "lv_players s' = filter (\<lambda>(u, _). \<not> P u) (lv_players s)" "lv_lobby s' = filter (\<lambda>u. \<not> P u) (lv_lobby s)"
    "lv_rules s' = lv_rules s" "lv_conns s' = lv_conns s" "lv_next_conn s' = lv_next_conn s"
  shows "room_ok s'"
proof (rule room_okI)
  note d = room_okD[OF r]
  show "distinct (map fst (lv_players s'))" using d(1) by (simp add: e distinct_filter_fst)
  show "c < lv_next_conn s' \<and> cn_user (lv_conns s' c) = u" if "(u, c) \<in> set (lv_players s')" for u c
    using that d(2,3) by (auto simp: e)
  have "int (length (lv_lobby s')) \<le> int (length (lv_lobby s))" by (simp add: e)
  then have "int (length (lv_lobby s')) \<le> max 0 (ru_max_players (lv_rules s'))" using order_trans[OF _ d(6)] p unfolding e by simp
  moreover have "set (lv_lobby s') = fst ` set (lv_players s')" using d(5) p by (force simp: e)
  ultimately show "distinct (lv_lobby s') \<and> set (lv_lobby s') = fst ` set (lv_players s')
      \<and> int (length (lv_lobby s')) \<le> max 0 (ru_max_players (lv_rules s'))" using d(4) p by (simp add: e)
qed (use p in simp_all)

lemma room_ok_leave_lobby: "room_ok s \<Longrightarrow> lv_phase s = Lobby \<Longrightarrow> room_ok (leave_lobby conn s)"
  unfolding leave_lobby_def Let_def
  by (auto intro!: room_ok_same[OF _ same_room_tells[OF tells_broadcast_lobby]]
      room_ok_remove[where s = s and P = "\<lambda>u. u = cn_user (lv_conns s conn)"])

lemma same_room_on_conn: "(\<And>c. whose (f c) = whose c) \<Longrightarrow> same_room s (on_conn f a s)"
  by (rule same_room_tells, rule tells_on_conn)

lemma room_ok_on_conn:
  assumes r: "room_ok s" and f: "\<And>c. cn_user (f c) = cn_user c \<and> cn_display (f c) = cn_display c"
  shows "room_ok (on_conn f a s)"
proof -
  have "numbered 0 (lv_lobby s) (on_conn f a s) = numbered 0 (lv_lobby s) s"
    using f by (intro numbered_cong) (auto simp: on_conn_def set_conn_def)
  moreover have "cn_user (lv_conns (on_conn f a s) c) = cn_user (lv_conns s c)" for c
    using f by (simp add: on_conn_def set_conn_def)
  ultimately show ?thesis using room_okD[OF r] by (intro room_okI) (simp_all add: on_conn_def set_conn_def)
qed

lemma room_ok_fresh:
  assumes r: "room_ok s"
  shows "room_ok (snd (fresh_conn conn s))"
proof -
  have n: "numbered 0 (lv_lobby s) (snd (fresh_conn conn s)) = numbered 0 (lv_lobby s) s"
    using room_okD(2)[OF r] by (intro numbered_cong) (force simp: fresh_conn_def set_conn_def dest: player_of_in)+
  show ?thesis
  proof (rule room_okI)
    show "c < lv_next_conn (snd (fresh_conn conn s)) \<and> cn_user (lv_conns (snd (fresh_conn conn s)) c) = u"
      if "(u, c) \<in> set (lv_players (snd (fresh_conn conn s)))" for u c
      using that room_okD(2,3)[OF r] by (force simp: fresh_conn_def set_conn_def)
  qed (use room_okD[OF r] n in \<open>simp_all add: fresh_conn_def set_conn_def\<close>)
qed

subsection \<open>Every request keeps the room\<close>

lemma on_conn_fields [simp]:
  "lv_phase (on_conn f a s) = lv_phase s" "lv_players (on_conn f a s) = lv_players s" "lv_lobby (on_conn f a s) = lv_lobby s"
  "lv_participants (on_conn f a s) = lv_participants s" "lv_rules (on_conn f a s) = lv_rules s"
  "lv_next_conn (on_conn f a s) = lv_next_conn s" "lv_presence (on_conn f a s) = lv_presence s"
  "lv_inputs (on_conn f a s) = lv_inputs s" "lv_limits (on_conn f a s) = lv_limits s" "lv_timeline (on_conn f a s) = lv_timeline s"
  "lv_next_order (on_conn f a s) = lv_next_order s" "lv_game (on_conn f a s) = lv_game s" "lv_admins (on_conn f a s) = lv_admins s"
  by (simp_all add: on_conn_def set_conn_def)

lemma fresh_conn_fields [simp]:
  "lv_phase (snd (fresh_conn c s)) = lv_phase s" "lv_players (snd (fresh_conn c s)) = lv_players s"
  "lv_lobby (snd (fresh_conn c s)) = lv_lobby s" "lv_participants (snd (fresh_conn c s)) = lv_participants s"
  "lv_rules (snd (fresh_conn c s)) = lv_rules s" "lv_limits (snd (fresh_conn c s)) = lv_limits s"
  "lv_next_conn (snd (fresh_conn c s)) = lv_next_conn s + 1" "lv_admins (snd (fresh_conn c s)) = lv_admins s"
  "lv_conns (snd (fresh_conn c s)) (lv_next_conn s) = c" "fst (fresh_conn c s) = lv_next_conn s"
  by (simp_all add: fresh_conn_def set_conn_def)

lemma set_player_fields [simp]:
  "lv_phase (set_player u c s) = lv_phase s" "lv_lobby (set_player u c s) = lv_lobby s"
  "lv_participants (set_player u c s) = lv_participants s" "lv_rules (set_player u c s) = lv_rules s"
  "lv_limits (set_player u c s) = lv_limits s" "lv_next_conn (set_player u c s) = lv_next_conn s"
  "lv_conns (set_player u c s) = lv_conns s"
  "lv_players (set_player u c s) = (u, c) # filter (\<lambda>(v, _). v \<noteq> u) (lv_players s)"
  by (simp_all add: set_player_def)

text \<open>A user's connection: one that already plays is replaced, or a new one fits in.\<close>

lemma room_ok_set_player:
  assumes r: "room_ok s" and c: "c < lv_next_conn s" "cn_user (lv_conns s c) = u" and p: "lv_phase s \<noteq> Starting"
    and m: "lv_phase s = Lobby \<Longrightarrow> u \<in> set (lv_lobby s) \<and> l = lv_lobby s
        \<or> u \<notin> set (lv_lobby s) \<and> l = lv_lobby s @ [u] \<and> int (length (lv_lobby s)) < ru_max_players (lv_rules s)"
    and q: "lv_phase s \<in> {Running, Finishing} \<Longrightarrow> u \<in> pa_user ` set (lv_participants s)"
  shows "room_ok ((set_player u c s)\<lparr>lv_lobby := l\<rparr>)"
proof (rule room_okI)
  note d = room_okD[OF r]
  show "distinct (map fst (lv_players ((set_player u c s)\<lparr>lv_lobby := l\<rparr>)))"
    using d(1) by (auto simp: distinct_filter_fst)
  show "c' < lv_next_conn ((set_player u c s)\<lparr>lv_lobby := l\<rparr>) \<and> cn_user (lv_conns ((set_player u c s)\<lparr>lv_lobby := l\<rparr>) c') = u'"
    if "(u', c') \<in> set (lv_players ((set_player u c s)\<lparr>lv_lobby := l\<rparr>))" for u' c'
    using that d(2,3) c by auto
  show "distinct (lv_lobby ((set_player u c s)\<lparr>lv_lobby := l\<rparr>))
      \<and> set (lv_lobby ((set_player u c s)\<lparr>lv_lobby := l\<rparr>)) = fst ` set (lv_players ((set_player u c s)\<lparr>lv_lobby := l\<rparr>))
      \<and> int (length (lv_lobby ((set_player u c s)\<lparr>lv_lobby := l\<rparr>))) \<le> max 0 (ru_max_players (lv_rules ((set_player u c s)\<lparr>lv_lobby := l\<rparr>)))"
    if "lv_phase ((set_player u c s)\<lparr>lv_lobby := l\<rparr>) \<in> {Lobby, Starting}"
  proof -
    have ph: "lv_phase s = Lobby" using that p by simp
    have k: "insert u (fst ` set (filter (\<lambda>(v, _). v \<noteq> u) (lv_players s))) = insert u (fst ` set (lv_players s))" by force
    have l: "distinct (lv_lobby s)" "set (lv_lobby s) = fst ` set (lv_players s)" "int (length (lv_lobby s)) \<le> max 0 (ru_max_players (lv_rules s))"
      using d(4,5,6) ph by simp_all
    from m[OF ph] show ?thesis
    proof (elim disjE conjE)
      assume u: "u \<in> set (lv_lobby s)" "l = lv_lobby s"
      from u(1) have "insert u (fst ` set (lv_players s)) = fst ` set (lv_players s)" unfolding l(2) by (rule insert_absorb)
      then show ?thesis using l u(2) k by simp
    next
      assume "u \<notin> set (lv_lobby s)" "l = lv_lobby s @ [u]" "int (length (lv_lobby s)) < ru_max_players (lv_rules s)"
      then show ?thesis using l k by simp
    qed
  qed
  show "roster_ok (lv_participants ((set_player u c s)\<lparr>lv_lobby := l\<rparr>)) \<and> fst ` set (lv_players ((set_player u c s)\<lparr>lv_lobby := l\<rparr>)) \<subseteq> pa_user ` set (lv_participants ((set_player u c s)\<lparr>lv_lobby := l\<rparr>))"
    if "lv_phase ((set_player u c s)\<lparr>lv_lobby := l\<rparr>) \<in> {Running, Finishing}"
    using that q d(8,9) by auto
qed (use p in simp_all)

lemma room_ok_join: "room_ok s \<Longrightarrow> room_ok (fst (join_lobby user display s))"
proof -
  assume r: "room_ok s"
  define s0 where "s0 = snd (fresh_conn (new_connection user display) s)"
  define s1 where "s1 = s0\<lparr>lv_played_by := (lv_played_by s0)(user := True)\<rparr>"
  let ?c = "lv_next_conn s"
  have r0: "room_ok s0" unfolding s0_def by (rule room_ok_fresh[OF r])
  have e: "fresh_conn (new_connection user display) s = (?c, s0)" by (simp add: s0_def fresh_conn_def)
  have p1: "player_of user s1 = player_of user s" "lv_lobby s1 = lv_lobby s" "lv_phase s1 = lv_phase s" "lv_players s1 = lv_players s"
    "lv_rules s1 = lv_rules s" "lv_participants s1 = lv_participants s"
    by (simp_all add: s1_def s0_def player_of_def)
  have "numbered 0 (lv_lobby s0) s1 = numbered 0 (lv_lobby s0) s0" by (rule numbered_cong) (simp_all add: s1_def)
  then have r1: "room_ok s1" using r0 unfolding room_ok_def by (simp add: s1_def)
  have c1: "?c < lv_next_conn s1" "cn_user (lv_conns s1 ?c) = user" by (simp_all add: s1_def s0_def new_connection_def)
  have in1: "player_of user s1 = Some older \<Longrightarrow> lv_phase s = Lobby \<Longrightarrow> user \<in> set (lv_lobby s1)" for older
    using room_okD(5)[OF r] p1 by (force dest: player_of_in)
  have notin1: "player_of user s1 = None \<Longrightarrow> lv_phase s = Lobby \<Longrightarrow> user \<notin> set (lv_lobby s1)"
    using room_okD(5)[OF r] p1 by (simp add: player_of_def map_of_eq_None_iff)
  have replaced: "room_ok (on_conn (tell_lobby u) ?c (set_player user ?c (on_conn (end_connection End_replaced) older s1)))"
    if "player_of user s1 = Some older" "lv_phase s = Lobby" for u older
  proof -
    let ?s2 = "on_conn (end_connection End_replaced) older s1"
    have r2: "room_ok ?s2" by (rule room_ok_same[OF r1 same_room_on_conn]) simp
    have "cn_user (lv_conns ?s2 ?c) = cn_user (lv_conns s1 ?c)"
      by (simp add: on_conn_def set_conn_def end_connection_def end_with_def split: option.split)
    then have "room_ok ((set_player user ?c ?s2)\<lparr>lv_lobby := lv_lobby s1\<rparr>)"
      using in1[OF that] that c1 p1 by (intro room_ok_set_player[OF r2]) simp_all
    moreover have "(set_player user ?c ?s2)\<lparr>lv_lobby := lv_lobby s1\<rparr> = set_player user ?c ?s2"
      by (simp add: set_player_def on_conn_def set_conn_def)
    ultimately show ?thesis using room_ok_same[OF _ same_room_on_conn[where f = "tell_lobby u"]] by simp
  qed
  have added: "room_ok ((set_player user ?c s1)\<lparr>lv_lobby := lv_lobby s1 @ [user]\<rparr>)"
    if "player_of user s1 = None" "lv_phase s = Lobby" "int (length (lv_lobby s1)) < ru_max_players (lv_rules s1)"
    using notin1 that c1 p1 by (intro room_ok_set_player[OF r1]) simp_all
  show ?thesis
    unfolding join_lobby_def Let_def e prod.case s1_def[symmetric]
    using r0 r1 replaced added p1 room_ok_same[OF added same_room_tells[OF tells_broadcast_lobby]]
    by (auto simp: s0_def[symmetric] e split: phase.split option.split) (auto simp: s0_def)
qed

lemma room_ok_admins: "room_ok s \<Longrightarrow> room_ok (s\<lparr>lv_admins := as\<rparr>)"
proof -
  have "numbered 0 (lv_lobby s) (s\<lparr>lv_admins := as\<rparr>) = numbered 0 (lv_lobby s) s" by (rule numbered_cong) simp_all
  then show "room_ok s \<Longrightarrow> ?thesis" unfolding room_ok_def by simp
qed

lemma room_ok_told: "room_ok s \<Longrightarrow> (\<And>c. whose (f c) = whose c) \<Longrightarrow> room_ok (on_conn f a s)"
  by (rule room_ok_same[OF _ same_room_on_conn])

lemma room_ok_register: "room_ok s \<Longrightarrow> room_ok (fst (register_admin user signed s))"
  unfolding register_admin_def Let_def
  using room_ok_fresh[where s = s and conn = "new_connection user []"]
  by (auto simp: room_ok_told split: prod.split phase.split intro!: room_ok_admins)

lemma room_ok_drop_admin: "room_ok s \<Longrightarrow> room_ok (disconnect_admin a s)"
  unfolding disconnect_admin_def by (intro room_ok_told room_ok_admins) simp_all

lemma room_ok_drop_player: "room_ok s \<Longrightarrow> room_ok (disconnect_player F now conn s)"
  unfolding disconnect_player_def
  by (intro room_ok_told) (auto simp: room_ok_leave_lobby room_ok_same[OF _ same_room_detach] split: phase.split)

lemma room_ok_leave: "room_ok s \<Longrightarrow> room_ok (fst (leave_session F now conn s))"
  unfolding leave_session_def Let_def
  using room_ok_leave_lobby[of s conn] room_ok_same[OF _ same_room_disconnect, of s F now Cause_left "cn_participant (lv_conns s conn)"]
  by (auto intro!: room_ok_told split: phase.split option.split prod.split)

lemma room_ok_perspective: "room_ok s \<Longrightarrow> room_ok (fst (select_perspective admin p s))"
  unfolding select_perspective_def
  by (auto intro!: room_ok_same[OF _ same_room_tells[OF tells_send_full]] room_ok_on_conn)

lemma room_ok_begin: "room_ok s \<Longrightarrow> room_ok (fst (begin_start s))"
proof -
  have "numbered 0 (lv_lobby s) (s\<lparr>lv_phase := Starting, lv_participants := ps\<rparr>) = numbered 0 (lv_lobby s) s" for ps
    by (rule numbered_cong) simp_all
  then show "room_ok s \<Longrightarrow> ?thesis" unfolding begin_start_def Let_def room_ok_def by (simp split: phase.split)
qed

lemma room_ok_cancel: 
  assumes r: "room_ok s"
  shows "room_ok (cancel_start s)"
proof (cases "lv_phase s = Starting")
  case True
  let ?t = "s\<lparr>lv_phase := Lobby, lv_participants := []\<rparr>"
  let ?left = "filter (gone s) (lv_lobby s)"
  let ?s' = "s\<lparr>lv_phase := Lobby, lv_participants := [], lv_lobby := filter (\<lambda>u. \<not> gone s u) (lv_lobby s),
                   lv_players := filter (\<lambda>(u, _). u \<notin> set ?left) (lv_players s)\<rparr>"
  have t: "room_ok ?t" using room_okD[OF r] True by (intro room_okI) auto
  have "filter (\<lambda>u. \<not> gone s u) (lv_lobby s) = filter (\<lambda>u. \<not> u \<in> set ?left) (lv_lobby s)"
    by (rule filter_cong) auto
  then have "room_ok ?s'"
    by (intro room_ok_remove[OF t, where P = "\<lambda>u. u \<in> set ?left"]) simp_all
  moreover from this have "room_ok (broadcast_lobby ?s')" by (rule room_ok_same[OF _ same_room_tells[OF tells_broadcast_lobby]])
  ultimately show ?thesis using True unfolding cancel_start_def Let_def by simp
qed (simp add: cancel_start_def r)

lemma end_live_ended: "lv_phase (end_live ending s) = Ended" "lv_players (end_live ending s) = []" "lv_admins (end_live ending s) = []"
proof -
  define s1 where "s1 = recount (s\<lparr>lv_phase := Ended, lv_lobby := [], lv_timeline := []\<rparr>)"
  define s2 where "s2 = fold abandon_of (lv_participants s1) s1"
  define s3 where "s3 = fold (\<lambda>(_, a). resolve_rejoin a Rejoin_not_running) (lv_rejoins s2) s2"
  define s4 where "s4 = on_conns (end_with ending) (lv_admins s3 @ map snd (lv_players s3)) s3"
  have a: "same_room s (abandon_pending t s)" for t and s :: "'a live"
    unfolding abandon_pending_def by (rule same_room_fold) (auto intro: room)
  have "same_room s1 s2" unfolding s2_def
    by (rule same_room_fold) (auto simp: abandon_of_def same_room_refl split: option.split intro!: same_room_after[OF same_room_updates(3) a])
  moreover have "same_room s2 s3" unfolding s3_def by (rule same_room_fold) (auto intro: room)
  moreover have "same_room s3 s4" unfolding s4_def by (rule same_room_tells, rule tells_on_conns) simp
  ultimately have "lv_phase s4 = lv_phase s1" by (simp add: same_room_def)
  moreover have "lv_phase s1 = Ended" by (simp add: s1_def recount_def Let_def split: prod.split)
  moreover have "end_live ending s = s4\<lparr>lv_rejoins := [], lv_admins := [], lv_players := []\<rparr>"
    unfolding end_live_def Let_def s1_def[symmetric] s2_def[symmetric] s3_def[symmetric] s4_def[symmetric] ..
  ultimately show "lv_phase (end_live ending s) = Ended" "lv_players (end_live ending s) = []" "lv_admins (end_live ending s) = []"
    by simp_all
qed

lemma room_ok_end_live: "room_ok (end_live ending s)"
  by (intro room_okI) (simp_all add: end_live_ended)

lemma room_ok_end_session:
  "room_ok s \<Longrightarrow> room_ok (end_session answer f s)" "room_ok s \<Longrightarrow> room_ok (abort answer s)" "room_ok s \<Longrightarrow> room_ok (end_if_abandoned answer s)"
proof -
  show e: "room_ok s \<Longrightarrow> room_ok (end_session answer f s)" for f
    by (simp add: end_session_def room_ok_end_live split: db_end.split)
  show "room_ok s \<Longrightarrow> room_ok (abort answer s)" using e[of id]
    by (simp add: abort_def Let_def room_ok_end_live)
  show "room_ok s \<Longrightarrow> room_ok (end_if_abandoned answer s)" using e[of id] by (simp add: end_if_abandoned_def)
qed

subsection \<open>Completing a start\<close>

lemma same_room_enter_participant: "same_room s (enter_participant F previews ends cause kept views q s)"
  unfolding enter_participant_def Let_def by (simp add: same_room_def updates)

text \<open>Dropping connections: the rest of the room, which stays in the roster.\<close>

definition fewer :: "'f live \<Rightarrow> 'f live \<Rightarrow> bool" where
  "fewer s s' \<longleftrightarrow> lv_phase s' = lv_phase s \<and> lv_participants s' = lv_participants s \<and> lv_next_conn s' = lv_next_conn s
     \<and> lv_lobby s' = lv_lobby s \<and> (\<exists>P. lv_players s' = filter (\<lambda>(u, _). P u) (lv_players s)) 
     \<and> (\<forall>c. cn_user (lv_conns s' c) = cn_user (lv_conns s c))"

lemma fewer_trans: "fewer s s' \<Longrightarrow> fewer s' s'' \<Longrightarrow> fewer s s''"
proof -
  assume a: "fewer s s'" and b: "fewer s' s''"
  obtain P P' where "lv_players s' = filter (\<lambda>(u, _). P u) (lv_players s)" "lv_players s'' = filter (\<lambda>(u, _). P' u) (lv_players s')"
    using a b unfolding fewer_def by blast
  then have "lv_players s'' = filter (\<lambda>(u, _). P u \<and> P' u) (lv_players s)"
    by (simp add: case_prod_unfold conj_commute)
  then show ?thesis using a b unfolding fewer_def by auto
qed

lemma fewer_refl: "fewer s s"
  unfolding fewer_def by (auto intro!: exI[of _ "\<lambda>_. True"])

lemma fewer_fold: "(\<And>x s. fewer s (f x s)) \<Longrightarrow> fewer s (fold f xs s)"
proof (induction xs arbitrary: s)
  case (Cons x xs)
  then show ?case using fewer_trans by (metis fold_Cons comp_apply)
qed (simp add: fewer_refl)

lemma fewer_same_room: "same_room s s' \<Longrightarrow> fewer s s'"
  unfolding fewer_def same_room_def whose_def by (auto intro!: exI[of _ "\<lambda>_. True"])

lemma fewer_on_conn: "(\<And>c. cn_user (f c) = cn_user c) \<Longrightarrow> fewer s (on_conn f a s)"
  unfolding fewer_def by (auto intro!: exI[of _ "\<lambda>_. True"] simp: on_conn_def set_conn_def)

lemma fewer_remove: "fewer s (s\<lparr>lv_players := filter (\<lambda>(u, _). u \<noteq> v) (lv_players s)\<rparr>)"
  unfolding fewer_def by auto

lemma fewer_drop_outsider: "fewer s (drop_outsider roster player s)"
proof -
  have "cn_user (end_connection r c) = cn_user c" for r c using whose_end_connection[of r c] by (simp add: whose_def)
  then show ?thesis unfolding drop_outsider_def
    by (auto intro: fewer_refl fewer_trans[OF fewer_remove fewer_on_conn])
qed

lemma cn_user_told [simp]: "cn_user (end_connection r c) = cn_user c" "cn_user (mark_started st c) = cn_user c"
  using whose_end_connection[of r c] whose_mark_started[of st c] by (simp_all add: whose_def)

lemma fewer_enter_player: "fewer s (enter_player q s)"
proof -
  note t = fewer_trans
  have after: "fewer s' s'' \<Longrightarrow> fewer s s' \<Longrightarrow> fewer s s''" for s s' s'' :: "'a live" by (rule t)
  have m: "fewer s (on_conn (mark_started st) conn (send_full conn p (set_ingress p i (set_presence p r (on_conn (\<lambda>c. c\<lparr>cn_participant := p\<rparr>) conn s)))))"
    for st conn p i r
    by (rule after[OF fewer_on_conn], simp, rule after[OF fewer_same_room], rule same_room_tells, rule tells_send_full,
        rule after[OF fewer_same_room], rule room, rule after[OF fewer_same_room], rule room, rule fewer_on_conn, simp)
  then show ?thesis unfolding enter_player_def Let_def
    by (auto intro!: fewer_refl m t[OF fewer_remove fewer_on_conn] split: option.split)
qed

lemma dropped_outsiders:
  "(u, c) \<in> set (lv_players (fold (drop_outsider roster) xs s)) \<Longrightarrow> u \<in> fst ` set xs \<Longrightarrow> u \<in> pa_user ` set roster"
proof (induction xs arbitrary: s)
  case (Cons x xs)
  have sub: "(u, c) \<in> set (lv_players (fold (drop_outsider roster) xs s')) \<Longrightarrow> (u, c) \<in> set (lv_players s')" for s'
  proof -
    have "fewer s' (fold (drop_outsider roster) xs s')" by (rule fewer_fold) (rule fewer_drop_outsider)
    then show "(u, c) \<in> set (lv_players (fold (drop_outsider roster) xs s')) \<Longrightarrow> (u, c) \<in> set (lv_players s')"
      unfolding fewer_def by auto
  qed
  show ?case
  proof (cases "u = fst x")
    case True
    have "(u, c) \<in> set (lv_players (drop_outsider roster x s))" using Cons.prems(1) sub by simp
    then show ?thesis using True by (auto simp: drop_outsider_def split: if_splits)
  next
    case False
    then show ?thesis using Cons by simp
  qed
qed simp

text \<open>The steps of a completed start.\<close>

definition game_begins :: "instant \<Rightarrow> participant list \<Rightarrow> game \<Rightarrow> string \<Rightarrow> 'f live \<Rightarrow> 'f live" where
  "game_begins now participants game frontend s = s\<lparr>lv_phase := Running, lv_participants := participants, lv_game := game,
    lv_start := \<lparr>ss_participants = participants, ss_frontend = frontend\<rparr>, lv_lobby := [],
    lv_running_since := now, lv_base_time := gm_through game, lv_last_activity := now\<rparr>"

lemma complete_form:
  assumes "lv_phase s = Starting"
  obtains until cause kept s1 s2 s3 s4 where
    "s1 = fold (enter_participant F previews until cause kept views) participants (game_begins now participants game frontend s)"
    "s2 = fold (drop_outsider participants) (lv_players s1) s1"
    "s3 = on_conns (mark_started (lv_start s2)) (lv_admins s2) s2" "s4 = fold enter_player participants s3"
    "complete_start F previews window now participants game frontend views resumed s = broadcast_roster s4"
proof -
  define s0 where "s0 = game_begins now participants game frontend s"
  obtain until cause where w: "(case resumed of None \<Rightarrow> (now + lv_grace s0, Cause_grace_expired) | Some _ \<Rightarrow> (now + window, Cause_recovery_ended)) = (until, cause)"
    by force
  define kept where "kept = (case resumed of None \<Rightarrow> \<lparr>rs_processed = (\<lambda>_. []), rs_disconnected = []\<rparr> | Some r \<Rightarrow> r)"
  define s1 where "s1 = fold (enter_participant F previews until cause kept views) participants s0"
  define s2 where "s2 = fold (drop_outsider participants) (lv_players s1) s1"
  define s3 where "s3 = on_conns (mark_started (lv_start s2)) (lv_admins s2) s2"
  define s4 where "s4 = fold enter_player participants s3"
  have "complete_start F previews window now participants game frontend views resumed s = broadcast_roster s4"
    unfolding complete_start_def Let_def game_begins_def[symmetric] s0_def[symmetric] w kept_def[symmetric] prod.case
      s1_def[symmetric] s2_def[symmetric] s3_def[symmetric] s4_def[symmetric] using assms by simp
  then show ?thesis using that s0_def s1_def s2_def s3_def s4_def by blast
qed

lemma room_ok_complete:
  assumes r: "room_ok s" and ps: "lv_phase s = Starting \<Longrightarrow> roster_ok participants"
  shows "room_ok (complete_start F previews window now participants game frontend views resumed s)"
proof (cases "lv_phase s = Starting")
  case True
  define s0 where "s0 = game_begins now participants game frontend s"
  obtain until cause kept s1 s2 s3 s4 where
    s1_def: "s1 = fold (enter_participant F previews until cause kept views) participants s0" and
    s2_def: "s2 = fold (drop_outsider participants) (lv_players s1) s1" and
    s3_def: "s3 = on_conns (mark_started (lv_start s2)) (lv_admins s2) s2" and s4_def: "s4 = fold enter_player participants s3" and
    eq: "complete_start F previews window now participants game frontend views resumed s = broadcast_roster s4"
    unfolding s0_def by (rule complete_form[OF True])
  have "same_room s0 s1" unfolding s1_def by (rule same_room_fold) (rule same_room_enter_participant)
  moreover have "fewer s1 s2" unfolding s2_def by (rule fewer_fold) (rule fewer_drop_outsider)
  moreover have "same_room s2 s3" unfolding s3_def by (rule same_room_tells, rule tells_on_conns) simp
  moreover have "fewer s3 s4" unfolding s4_def by (rule fewer_fold) (rule fewer_enter_player)
  ultimately have f: "fewer s0 s4" and f2: "fewer s2 s4" by (metis fewer_trans fewer_same_room)+
  have k: "\<exists>P. lv_players s4 = filter (\<lambda>(u, _). P u) (lv_players s)" "lv_phase s4 = Running" "lv_participants s4 = participants"
    "lv_next_conn s4 = lv_next_conn s" "\<And>c. cn_user (lv_conns s4 c) = cn_user (lv_conns s c)"
    using f unfolding fewer_def by (auto simp: s0_def game_begins_def)
  have "u \<in> pa_user ` set participants" if "(u, c) \<in> set (lv_players s4)" for u c
  proof -
    have i: "(u, c) \<in> set (lv_players s2)" using that f2 unfolding fewer_def by auto
    moreover have "fewer s1 s2" by fact
    ultimately have "(u, c) \<in> set (lv_players s1)" unfolding fewer_def by auto
    then have "u \<in> fst ` set (lv_players s1)" by force
    then show ?thesis using dropped_outsiders i unfolding s2_def by blast
  qed
  then have sub: "fst ` set (lv_players s4) \<subseteq> pa_user ` set participants" by auto
  have "room_ok s4"
  proof (rule room_okI)
    obtain P where P: "lv_players s4 = filter (\<lambda>(u, _). P u) (lv_players s)" using k(1) by blast
    show "distinct (map fst (lv_players s4))" using room_okD(1)[OF r] unfolding P by (rule distinct_filter_fst)
    show "c < lv_next_conn s4 \<and> cn_user (lv_conns s4 c) = u" if "(u, c) \<in> set (lv_players s4)" for u c
      using that room_okD(2,3)[OF r] unfolding P k by auto
    show "roster_ok (lv_participants s4) \<and> fst ` set (lv_players s4) \<subseteq> pa_user ` set (lv_participants s4)"
      using sub ps[OF True] k by simp
  qed (use k in simp_all)
  then show ?thesis unfolding eq by (rule room_ok_same[OF _ same_room_tells[OF tells_broadcast_roster]])
qed (simp add: complete_start_def r)

text \<open>What a reattachment comes down to.\<close>

definition before_attach :: "'f float_ops \<Rightarrow> instant \<Rightarrow> string \<Rightarrow> string \<Rightarrow> 'f live \<Rightarrow> 'f live" where
  "before_attach F now user p s =
     (let s0 = (case player_of user s of None \<Rightarrow> s
            | Some older \<Rightarrow> if is_ended (lv_conns s older) then s else on_conn (end_connection End_replaced) older s);
          s1 = reset_inputs F now p s0
      in set_presence p (attach (presence_of s1 p)) s1)"

definition after_attach :: "string \<Rightarrow> string \<Rightarrow> string \<Rightarrow> session_start \<Rightarrow> 'f live \<Rightarrow> 'f live" where
  "after_attach user display p st s1 =
     (let conn = lv_next_conn s1
      in broadcast_roster (on_conn (mark_started st) conn (send_full conn p (set_ingress p (follow conn (ingress_of s1 p))
           (set_player user conn (snd (fresh_conn ((new_connection user display)\<lparr>cn_participant := p\<rparr>) s1)))))))"

lemma reattach_cases:
  obtains "fst (reattach_player F now user display signed s) = s"
  | p st where "lv_phase s = Running" "participant_of user s = Some p" "\<not> pr_disconnected (presence_of s p)"
      "fst (reattach_player F now user display signed s) = after_attach user display p st (before_attach F now user p s)"
proof (cases "lv_phase s \<noteq> Running \<or> participant_of user s = None \<or> pr_disconnected (presence_of s (the (participant_of user s)))")
  case True
  then have "fst (reattach_player F now user display signed s) = s"
    by (cases "participant_of user s") (auto simp: reattach_player_def)
  then show ?thesis by (rule that(1))
next
  case False
  then obtain p where g: "lv_phase s = Running" "participant_of user s = Some p" "\<not> pr_disconnected (presence_of s p)" by auto
  have i: "ingress_of (set_player user c (set_conn d e (t\<lparr>lv_next_conn := n\<rparr>))) p = ingress_of t p" for c d e n and t :: "'a live"
    by (simp add: ingress_of_def set_player_def set_conn_def)
  have "\<exists>st. fst (reattach_player F now user display signed s) = after_attach user display p st (before_attach F now user p s)"
    unfolding reattach_player_def before_attach_def after_attach_def Let_def g(2) option.case fresh_conn_def prod.case snd_conv i
    using g(1,3) by (simp only: not_True_eq_False if_False simp_thms fst_conv) blast
  then show ?thesis using that(2)[OF g] by blast
qed

lemma same_room_before_attach: "same_room s (before_attach F now user p s)"
  unfolding before_attach_def Let_def
  by (intro room_step same_room_after[OF same_room_reset_inputs])
    (auto simp: same_room_refl intro!: same_room_on_conn split: option.split)

lemma room_ok_after_attach:
  assumes r: "room_ok s" and u: "user \<in> pa_user ` set (lv_participants s)" and ph: "lv_phase s = Running"
  shows "room_ok (after_attach user display p st s)"
proof -
  define s2 where "s2 = snd (fresh_conn ((new_connection user display)\<lparr>cn_participant := p\<rparr>) s)"
  let ?c = "lv_next_conn s"
  have r2: "room_ok s2" unfolding s2_def by (rule room_ok_fresh[OF r])
  have "?c < lv_next_conn s2" "cn_user (lv_conns s2 ?c) = user" by (simp_all add: s2_def new_connection_def)
  moreover have "lv_phase s2 = Running" "lv_participants s2 = lv_participants s" using ph by (simp_all add: s2_def)
  ultimately have "room_ok ((set_player user ?c s2)\<lparr>lv_lobby := lv_lobby s2\<rparr>)"
    using u by (intro room_ok_set_player[OF r2]) simp_all
  moreover have "(set_player user ?c s2)\<lparr>lv_lobby := lv_lobby s2\<rparr> = set_player user ?c s2"
    by (simp add: set_player_def)
  ultimately have "room_ok (set_player user ?c s2)" by simp
  then show ?thesis unfolding after_attach_def Let_def s2_def[symmetric]
    by (rule room_ok_same) (intro room_step same_room_after[OF same_room_on_conn] same_room_refl, simp)
qed

lemma room_ok_reattach:
  assumes r: "room_ok s"
  shows "room_ok (fst (reattach_player F now user display signed s))"
proof (rule reattach_cases[of F now user display signed s])
  fix p st
  assume g: "lv_phase s = Running" "participant_of user s = Some p"
    "fst (reattach_player F now user display signed s) = after_attach user display p st (before_attach F now user p s)"
  note e = same_room_before_attach[of s F now user p]
  have "user \<in> pa_user ` set (lv_participants s)" using g(2) by (auto simp: participant_of_def find_Some_iff)
  then show ?thesis unfolding g(3)
    using e g(1) by (intro room_ok_after_attach room_ok_same[OF r e]) (simp_all add: same_room_def)
qed (simp add: r)

subsection \<open>Every state reached\<close>

lemma room_ok_handle: "room_ok s \<Longrightarrow> admissible r s \<Longrightarrow> room_ok (handle F now r s)"
proof (cases r)
  case (Rq_complete_start window participants game frontend views resumed)
  assume r: "room_ok s" and a: "admissible r s"
  have "lv_phase s = Starting \<Longrightarrow> roster_ok participants"
    using a r Rq_complete_start by (auto simp: room_ok_def numbered_roster split: option.splits)
  then show ?thesis using room_ok_complete[OF r] Rq_complete_start by simp
qed (auto simp: room_ok_join room_ok_register room_ok_drop_player room_ok_drop_admin room_ok_leave room_ok_reattach
    room_ok_perspective room_ok_begin room_ok_cancel room_ok_end_session retire_def room_ok_end_live
    intro: room room_ok_same[OF _ same_room_take_sample] room_ok_same[OF _ same_room_accept_command]
      room_ok_same[OF _ same_room_ask_rejoin] room_ok_same[OF _ same_room_tells[OF tells_resync]]
      room_ok_same[OF _ same_room_tells[OF tells_resync_admin]])

definition mirrored :: "live_boundary \<Rightarrow> execution \<Rightarrow> 'f live \<Rightarrow> 'f live" where
  "mirrored work e s = s\<lparr>lv_game := (ex_game e)\<lparr>gm_through := wb_time work\<rparr>,
     lv_views := fold (\<lambda>(p, v) views. views(p := v)) (ex_views e) (lv_views s)\<rparr>"

lemma commit_cases:
  obtains (refused) r where "commit_boundary now work e s = (s, r)" "r \<noteq> Committed"
  | (done') s2 where "lv_phase s = Running" "gm_revision (ex_game e) = gm_revision (lv_game s) + 1"
      "commit_ops now (wb_operations work) (ex_responses e) (ex_rejoins e) (mirrored work e s) = Some s2"
      "lv_phase s2 = Running"
      "commit_boundary now work e s = (if ex_finished e \<noteq> None then s2\<lparr>lv_phase := Finishing\<rparr> else acknowledge work e s2, Committed)"
proof (cases "lv_phase s = Running \<and> gm_revision (ex_game e) = gm_revision (lv_game s) + 1")
  case g: True
  show ?thesis
  proof (cases "commit_ops now (wb_operations work) (ex_responses e) (ex_rejoins e) (mirrored work e s)")
    case None
    then have "commit_boundary now work e s = (s, Commit_panics)" using g by (simp add: commit_boundary_def mirrored_def Let_def)
    then show ?thesis by (rule refused) simp
  next
    case (Some s2)
    have "lv_phase s2 = Running" using same_room_commit_ops[OF Some] g by (simp add: same_room_def mirrored_def)
    moreover have "commit_boundary now work e s = (if ex_finished e \<noteq> None then s2\<lparr>lv_phase := Finishing\<rparr> else acknowledge work e s2, Committed)"
      using g Some by (simp add: commit_boundary_def mirrored_def Let_def)
    ultimately show ?thesis using done' g Some by blast
  qed
next
  case False
  then have "\<exists>r. commit_boundary now work e s = (s, r) \<and> r \<noteq> Committed" by (auto simp: commit_boundary_def)
  then show ?thesis using refused by blast
qed

lemma room_ok_mirrored: "room_ok s \<Longrightarrow> room_ok (mirrored work e s)"
proof -
  have "numbered 0 (lv_lobby s) (mirrored work e s) = numbered 0 (lv_lobby s) s" by (rule numbered_cong) (simp_all add: mirrored_def)
  then show "room_ok s \<Longrightarrow> ?thesis" unfolding room_ok_def mirrored_def by simp
qed

lemma room_ok_finishing: "room_ok s \<Longrightarrow> lv_phase s = Running \<Longrightarrow> room_ok (s\<lparr>lv_phase := Finishing\<rparr>)"
  using room_okD[of s] by (intro room_okI) simp_all

lemma room_ok_commit: "room_ok s \<Longrightarrow> room_ok (fst (commit_boundary now work e s))"
proof (rule commit_cases[of now work e s])
  fix s2
  assume r: "room_ok s" and c: "commit_ops now (wb_operations work) (ex_responses e) (ex_rejoins e) (mirrored work e s) = Some s2"
    "lv_phase s2 = Running"
    "commit_boundary now work e s = (if ex_finished e \<noteq> None then s2\<lparr>lv_phase := Finishing\<rparr> else acknowledge work e s2, Committed)"
  have "room_ok s2" by (rule room_ok_same[OF room_ok_mirrored[OF r] same_room_commit_ops[OF c(1)]])
  then show ?thesis using c(2,3) by (auto intro: room_ok_finishing room_ok_same[OF _ same_room_acknowledge])
qed simp

lemma room_ok_finish_game: "room_ok (co_live c) \<Longrightarrow> room_ok (co_live (finish_game recorded answer c))"
  by (auto simp: finish_game_def Let_def room_ok_end_session split: option.split db_end.split)

lemma room_ok_start_boundary: "room_ok (co_live c) \<Longrightarrow> room_ok (co_live (start_boundary F now recorded answer c))"
  unfolding start_boundary_def
  using room_ok_same[OF _ same_room_boundary(1), of "co_live c" F now]
  by (auto simp: Let_def room_ok_finish_game split: prod.split option.split
      intro!: room_ok_end_session(3) intro: room_ok_same[OF _ same_room_boundary(3)])

lemma room_ok_failed: "room_ok (co_live c) \<Longrightarrow> room_ok (co_live (boundary_failed work answer c))"
  unfolding boundary_failed_def Let_def
  by (auto intro!: room_ok_end_session(2) intro: room_ok_same[OF _ same_room_boundary(2)])

lemma room_ok_executed: "room_ok (co_live c) \<Longrightarrow> room_ok (co_live (boundary_executed now recorded work e answer c))"
  unfolding boundary_executed_def Let_def
  using room_ok_commit[of "co_live c" now "reached e work" e]
  by (auto split: prod.split commit_result.split option.split intro!: room_ok_end_session(3) room_ok_failed room_ok_finish_game)

lemma room_ok_finish_boundary: "room_ok (co_live c) \<Longrightarrow> room_ok (co_live (finish_boundary now shutdown recorded r1 r2 answer c))"
  unfolding finish_boundary_def Let_def
  by (auto split: option.split prod.split sum.split intro!: room_ok_executed room_ok_failed room_ok_end_session(2)
      room_ok_same[OF _ same_room_boundary(2)])

lemma room_ok_new: "room_ok (new_live rules grace limits)"
  by (intro room_okI) (simp_all add: new_live_def)

lemma room_ok_turn: "turn F now c ops c' \<Longrightarrow> room_ok (co_live c) \<Longrightarrow> room_ok (co_live c')"
  by (erule turnE) (auto simp: room_ok_handle room_ok_start_boundary room_ok_finish_boundary)

lemma room_ok_reaches: "reaches F c executed now \<Longrightarrow> room_ok (co_live c)"
  by (induction rule: reaches.induct) (auto simp: new_controller_def room_ok_new intro: room_ok_turn)

text \<open>
  C16: the lobby and the roster. In every state a controller reaches, whoever is in the lobby is there
  once and has a connection of their own, nobody else has one, and there are never more than the
  manifest's maximum of players; a Start attempt numbers the lobby P1, P2, ... in the order they
  joined; and a running game's participants have distinct names and users, and only they have player
  connections.
\<close>

theorem lobby_and_roster:
  assumes "reaches F c executed now"
  shows "distinct (map fst (lv_players (co_live c)))
    \<and> (case lv_phase (co_live c) of
         Lobby \<Rightarrow> distinct (lv_lobby (co_live c)) \<and> set (lv_lobby (co_live c)) = fst ` set (lv_players (co_live c))
           \<and> int (length (lv_lobby (co_live c))) \<le> max 0 (ru_max_players (lv_rules (co_live c)))
       | Starting \<Rightarrow> map pa_user (lv_participants (co_live c)) = lv_lobby (co_live c)
           \<and> map pa_id (lv_participants (co_live c)) = map (\<lambda>i. CHR ''P'' # itoa (i + 1)) [0..<length (lv_lobby (co_live c))]
       | Ended \<Rightarrow> True
       | _ \<Rightarrow> distinct (map pa_id (lv_participants (co_live c))) \<and> distinct (map pa_user (lv_participants (co_live c)))
           \<and> fst ` set (lv_players (co_live c)) \<subseteq> pa_user ` set (lv_participants (co_live c)))"
proof -
  note d = room_okD[OF room_ok_reaches[OF assms]]
  show ?thesis using d(1,4,5,6,7,8,9) by (cases "lv_phase (co_live c)") (simp_all add: roster_ok_def)
qed

theorem lobby_and_roster_witness:
  "map pa_id (lv_participants (handle_all whole_numbers 5 lobby_requests (co_live sample_controller))) = [''P1'', ''P2'']
   \<and> map pa_user (lv_participants (handle_all whole_numbers 5 lobby_requests (co_live sample_controller))) = [''ana'', ''bob'']"
proof -
  have e: "lv_phase (handle_all whole_numbers 5 lobby_requests (co_live sample_controller)) = Starting"
    "lv_lobby (handle_all whole_numbers 5 lobby_requests (co_live sample_controller)) = [''ana'', ''bob'']" by code_simp+
  have i: "itoa (Suc 0) = ''1''" "itoa (Suc (Suc 0)) = ''2''" by code_simp+
  show ?thesis using lobby_and_roster[OF reaches_lobby] e i by simp
qed

end
