(* ===== verification/LiveTimeline.thy ===== *)
theory LiveTimeline
  imports LiveLobby
begin

section \<open>The timeline of a Session\<close>

text \<open>
  Every operation accepted into a Session's timeline is executed once, in the order and at the times
  they were accepted, whatever fails in between; the queues' counters are the counts of what waits; and
  what a boundary executes is what the timeline holds.
\<close>

definition ids :: "'f live \<Rightarrow> string set" where
  "ids s = pa_id ` set (lv_participants s)"

definition entries :: "'f live \<Rightarrow> string set \<Rightarrow> bool" where
  "entries s A \<longleftrightarrow> dom (lv_inputs s) = A \<and> dom (lv_presence s) = A \<and> dom (lv_tokens s) = A"

subsection \<open>Steps that add to the timeline\<close>

text \<open>
  \<open>grows now s s'\<close>: a step at \<open>now\<close> that keeps the room and adds operations of participants at the
  end of the timeline, numbered and timed, and counted if players sent them.
\<close>

definition added :: "instant \<Rightarrow> live_op list \<Rightarrow> 'f live \<Rightarrow> 'f live \<Rightarrow> bool" where
  "added now ops s s' \<longleftrightarrow> same_room s s'
     \<and> dom (lv_inputs s') = dom (lv_inputs s) \<and> dom (lv_presence s') = dom (lv_presence s) \<and> dom (lv_tokens s') = dom (lv_tokens s)
     \<and> lv_timeline s' = lv_timeline s @ ops \<and> lv_next_order s' = lv_next_order s + length ops
     \<and> map lo_order ops = [lv_next_order s + 1..<lv_next_order s' + 1]
     \<and> (\<forall>o'\<in>set ops. lo_time o' = session_time now s \<and> lo_participant o' \<in> ids s)
     \<and> fold count_op ops (lv_queued s, lv_queued_total s) = (lv_queued s', lv_queued_total s')"

definition grows :: "instant \<Rightarrow> 'f live \<Rightarrow> 'f live \<Rightarrow> bool" where
  "grows now s s' \<longleftrightarrow> (\<exists>ops. added now ops s s' \<and> list_all (\<lambda>o'. \<not> lo_from_player o') ops)"

lemma session_time_same: "same_room s s' \<Longrightarrow> session_time now s' = session_time now s"
  by (simp add: same_room_def session_time_def)

lemma ids_same: "same_room s s' \<Longrightarrow> ids s' = ids s"
  by (simp add: same_room_def ids_def)

lemma added_none:
  "same_room s s' \<Longrightarrow> dom (lv_inputs s') = dom (lv_inputs s) \<Longrightarrow> dom (lv_presence s') = dom (lv_presence s) \<Longrightarrow> dom (lv_tokens s') = dom (lv_tokens s)
   \<Longrightarrow> lv_timeline s' = lv_timeline s \<Longrightarrow> lv_next_order s' = lv_next_order s \<Longrightarrow> lv_queued s' = lv_queued s \<Longrightarrow> lv_queued_total s' = lv_queued_total s
   \<Longrightarrow> added now [] s s'"
  by (simp add: added_def)

lemma added_append: "added now xs s s' \<Longrightarrow> added now ys s' s'' \<Longrightarrow> added now (xs @ ys) s s''"
proof -
  assume a: "added now xs s s'" and b: "added now ys s' s''"
  have r: "same_room s s'" "same_room s' s''" using a b unfolding added_def by blast+
  have u: "[lv_next_order s + 1..<lv_next_order s'' + 1] = [lv_next_order s + 1..<lv_next_order s' + 1] @ [lv_next_order s' + 1..<lv_next_order s'' + 1]"
    using upt_add_eq_append[of "lv_next_order s + 1" "lv_next_order s' + 1" "length ys"] a b
    by (simp add: added_def del: upt_Suc)
  have t: "session_time now s' = session_time now s" "ids s' = ids s" using session_time_same[OF r(1)] ids_same[OF r(1)] by blast+
  have d: "dom (lv_inputs s'') = dom (lv_inputs s)" "dom (lv_presence s'') = dom (lv_presence s)" "dom (lv_tokens s'') = dom (lv_tokens s)"
    "lv_timeline s'' = lv_timeline s @ xs @ ys" "lv_next_order s'' = lv_next_order s + length (xs @ ys)"
    "map lo_order (xs @ ys) = [lv_next_order s + 1..<lv_next_order s'' + 1]"
    "fold count_op (xs @ ys) (lv_queued s, lv_queued_total s) = (lv_queued s'', lv_queued_total s'')"
    using a b u unfolding added_def by simp_all
  have o': "\<forall>o'\<in>set (xs @ ys). lo_time o' = session_time now s \<and> lo_participant o' \<in> ids s"
    using a b unfolding added_def t by auto
  show ?thesis unfolding added_def using same_room_trans[OF r] d o' by simp
qed

lemma grows_trans: "grows now s s' \<Longrightarrow> grows now s' s'' \<Longrightarrow> grows now s s''"
  unfolding grows_def using added_append by (metis list_all_append)

lemma grows_after: "grows now s' s'' \<Longrightarrow> grows now s s' \<Longrightarrow> grows now s s''"
  by (rule grows_trans)

lemma grows_none: "added now [] s s' \<Longrightarrow> grows now s s'"
  unfolding grows_def by (intro exI[of _ "[]"]) simp

lemma grows_refl: "grows now s s"
  by (rule grows_none, rule added_none) (simp_all add: same_room_refl)

lemma grows_room: "grows now s s' \<Longrightarrow> same_room s s'"
  unfolding grows_def added_def by blast

lemma grows_ids: "grows now s s' \<Longrightarrow> ids s' = ids s"
  by (rule ids_same) (rule grows_room)

lemma grows_doms:
  "grows now s s' \<Longrightarrow> dom (lv_inputs s') = dom (lv_inputs s)" "grows now s s' \<Longrightarrow> dom (lv_presence s') = dom (lv_presence s)"
  "grows now s s' \<Longrightarrow> dom (lv_tokens s') = dom (lv_tokens s)"
  unfolding grows_def added_def by blast+

named_theorems growing \<open>steps that grow the timeline\<close>

lemma grows_tells: "tells s s' \<Longrightarrow> grows now s s'"
  by (rule grows_none, rule added_none) (simp_all add: same_room_tells tells_fields)

lemmas grows_told [growing] = telling[THEN grows_tells]

lemma grows_on_conn: "(\<And>c. whose (f c) = whose c) \<Longrightarrow> grows now s (on_conn f a s)"
  by (rule grows_tells, rule tells_on_conn)

lemma added_updates:
  "p \<in> dom (lv_inputs s) \<Longrightarrow> added now [] s (set_ingress p i s)"
  "p \<in> dom (lv_presence s) \<Longrightarrow> added now [] s (set_presence p r s)"
  "p \<in> dom (lv_tokens s) \<Longrightarrow> added now [] s (set_tokens p t s)"
  "added now [] s (record_activity t' s)" "added now [] s (resolve_command c oc rs s)" "added now [] s (resolve_rejoin a ro s)"
  "added now [] s (s\<lparr>lv_rejoins := rj\<rparr>)" "added now [] s (s\<lparr>lv_command_rate := rate\<rparr>)"
  "added now [] s (s\<lparr>lv_next_cmd := n, lv_cmds := cs\<rparr>)"
  "added now [] s (s\<lparr>lv_next_ask := n, lv_asks := as, lv_rejoins := rj\<rparr>)"
  by (simp_all add: added_def same_room_def updates insert_absorb)

lemma grows_updates [growing]:
  "p \<in> dom (lv_inputs s) \<Longrightarrow> grows now s (set_ingress p i s)"
  "p \<in> dom (lv_presence s) \<Longrightarrow> grows now s (set_presence p r s)"
  "p \<in> dom (lv_tokens s) \<Longrightarrow> grows now s (set_tokens p t s)"
  "grows now s (record_activity t' s)" "grows now s (resolve_command c oc rs s)" "grows now s (resolve_rejoin a ro s)"
  "grows now s (s\<lparr>lv_rejoins := rj\<rparr>)" "grows now s (s\<lparr>lv_command_rate := rate\<rparr>)"
  "grows now s (s\<lparr>lv_next_cmd := n, lv_cmds := cs\<rparr>)"
  "grows now s (s\<lparr>lv_next_ask := n, lv_asks := as, lv_rejoins := rj\<rparr>)"
  by (simp_all only: grows_none added_updates)

lemma added_enqueue:
  assumes "lo_participant o' \<in> ids s" "\<not> lo_from_player o'"
  shows "added now [o'\<lparr>lo_time := session_time now s, lo_order := lv_next_order s + 1\<rparr>] s (enqueue_op now o' s)"
  using assms room(8) by (simp add: added_def same_room_updates) (simp add: enqueue_op_def count_op_def)

lemma grows_enqueue: "lo_participant o' \<in> ids s \<Longrightarrow> \<not> lo_from_player o' \<Longrightarrow> grows now s (enqueue_op now o' s)"
  unfolding grows_def by (intro exI conjI, rule added_enqueue) simp_all

lemma added_enqueue_player:
  assumes "lo_participant o' \<in> ids s"
  shows "added now [o'\<lparr>lo_from_player := True, lo_time := session_time now s, lo_order := lv_next_order s + 1\<rparr>] s (enqueue_player now o' s)"
  using assms by (simp add: added_def same_room_updates)
    (simp add: enqueue_player_def enqueue_op_def count_op_def session_time_def Let_def)

subsection \<open>The operations of a running game\<close>

lemma entries_grows: "entries s (ids s) \<Longrightarrow> grows now s s' \<Longrightarrow> entries s' (ids s')"
  by (simp add: entries_def grows_ids grows_doms)

lemma entries_in:
  "entries s (ids s) \<Longrightarrow> p \<in> ids s \<Longrightarrow> p \<in> dom (lv_inputs s) \<and> p \<in> dom (lv_presence s) \<and> p \<in> dom (lv_tokens s)"
  by (simp add: entries_def)

lemma grows_fold:
  assumes "entries s (ids s)" "\<And>x s'. x \<in> set xs \<Longrightarrow> entries s' (ids s') \<Longrightarrow> ids s' = ids s \<Longrightarrow> grows now s' (f x s')"
  shows "grows now s (fold f xs s)"
  using assms
proof (induction xs arbitrary: s)
  case (Cons x xs)
  have g: "grows now s (f x s)" using Cons.prems by simp
  have "grows now (f x s) (fold f xs (f x s))"
    using Cons.prems(2) grows_ids[OF g] by (intro Cons.IH entries_grows[OF Cons.prems(1) g]) simp_all
  then show ?case using grows_trans[OF g] by simp
qed (simp add: grows_refl)

lemma grows_reset_inputs:
  assumes e: "entries s (ids s)" and p: "p \<in> ids s"
  shows "grows now s (reset_inputs F now p s)"
proof -
  have "grows now s (enqueue_transition now p d s)" for d
  proof -
    let ?s = "set_ingress p ((ingress_of s p)\<lparr>pi_current := d\<rparr>) s"
    have g: "grows now s ?s" using entries_in[OF e p] by (intro grows_updates) simp
    have "grows now ?s (enqueue_op now ((plain_op p)\<lparr>lo_inputs := d\<rparr>) ?s)"
      using p grows_ids[OF g] by (intro grows_enqueue) (simp_all add: plain_op_def)
    then show ?thesis unfolding enqueue_transition_def by (rule grows_trans[OF g])
  qed
  then show ?thesis by (simp add: reset_inputs_def Let_def grows_refl split: option.split)
qed

lemma grows_presence: "entries s (ids s) \<Longrightarrow> p \<in> ids s \<Longrightarrow> grows now s (set_presence p r s)"
  using entries_in by (blast intro: grows_updates)

lemma grows_disconnect:
  assumes e: "entries s (ids s)" and p: "p \<in> ids s"
  shows "grows now s (disconnect F now cause p s)"
proof -
  let ?s1 = "set_presence p (attach ((presence_of s p)\<lparr>pr_disconnected := True, pr_cause := cause\<rparr>)) s"
  let ?s2 = "reset_inputs F now p ?s1"
  have g1: "grows now s ?s1" by (rule grows_presence[OF e p])
  have g2: "grows now s ?s2"
    using grows_ids[OF g1] p by (intro grows_trans[OF g1] grows_reset_inputs entries_grows[OF e g1]) simp
  have "grows now ?s2 (enqueue_op now ((plain_op p)\<lparr>lo_disconnected := True\<rparr>) ?s2)"
    using p grows_ids[OF g2] by (intro grows_enqueue) (simp_all add: plain_op_def)
  then show ?thesis unfolding disconnect_def Let_def
    by (intro grows_trans[OF _ grows_tells[OF tells_broadcast_roster]] grows_trans[OF g2])
qed

lemma grows_expire: "entries s (ids s) \<Longrightarrow> grows now s (expire_graces F now s)"
  unfolding expire_graces_def
proof (rule grows_fold)
  fix q and s' :: "'a live" assume q: "q \<in> set (lv_participants s)" and e: "entries s' (ids s')" "ids s' = ids s"
  have "pa_id q \<in> ids s'" using q e(2) by (auto simp: ids_def)
  then show "grows now s' (expire_grace F now q s')"
    using grows_disconnect[OF e(1)] by (simp add: expire_grace_def Let_def grows_refl)
qed

lemma grows_detach:
  assumes e: "entries s (ids s)"
  shows "grows now s (detach_player F now conn s)"
proof -
  let ?p = "cn_participant (lv_conns s conn)"
  have "grows now s (broadcast_roster (set_presence ?p r (reset_inputs F now ?p s)))" if "lv_presence s ?p \<noteq> None" for r
  proof -
    have p: "?p \<in> ids s" using e that by (auto simp: entries_def)
    note g = grows_reset_inputs[OF e p, of now F]
    have "grows now (reset_inputs F now ?p s) (set_presence ?p r (reset_inputs F now ?p s))"
      using p grows_ids[OF g] by (intro grows_presence entries_grows[OF e g]) simp
    then show ?thesis by (intro grows_trans[OF _ grows_tells[OF tells_broadcast_roster]] grows_trans[OF g])
  qed
  then show ?thesis unfolding detach_player_def Let_def by (auto simp: grows_refl split: option.split)
qed

lemma participant_of_ids: "participant_of user s = Some p \<Longrightarrow> p \<in> ids s"
  by (auto simp: participant_of_def ids_def find_Some_iff)

lemma grows_ask_rejoin: "grows now s (fst (ask_rejoin now user s))"
proof -
  have "grows now s (enqueue_op now ((plain_op p)\<lparr>lo_rejoin := a\<rparr>) (s\<lparr>lv_next_ask := n, lv_asks := as, lv_rejoins := rj\<rparr>))"
    if "participant_of user s = Some p" for p a n as rj
  proof -
    have g: "grows now s (s\<lparr>lv_next_ask := n, lv_asks := as, lv_rejoins := rj\<rparr>)" by (rule grows_updates)
    show ?thesis using participant_of_ids[OF that] grows_ids[OF g]
      by (intro grows_trans[OF g] grows_enqueue) (simp_all add: plain_op_def)
  qed
  then show ?thesis by (auto simp: ask_rejoin_def Let_def grows_refl split: option.split)
qed

lemma grows_decide_rejoin:
  assumes e: "entries s (ids s)" and p: "p \<in> ids s"
  shows "grows now s (decide_rejoin t p a accepted s)"
proof -
  let ?s = "s\<lparr>lv_rejoins := filter (\<lambda>(k, _). k \<noteq> p) (lv_rejoins s)\<rparr>"
  have g: "grows now s ?s" by (rule grows_updates)
  have "grows now ?s (set_presence p r ?s)" for r
    using p grows_ids[OF g] by (intro grows_presence entries_grows[OF e g]) simp
  then show ?thesis unfolding decide_rejoin_def Let_def
    by (auto intro!: grows_after[OF grows_tells[OF tells_broadcast_roster]] grows_after[OF grows_updates(6)] grows_trans[OF g] simp: grows_refl)
qed

lemma grows_command_executed:
  assumes e: "entries s (ids s)" and p: "p \<in> ids s"
  shows "grows now s (command_executed p c r s)"
  unfolding command_executed_def Let_def using entries_in[OF e p]
  by (intro grows_after[OF grows_updates(5)] grows_updates(3)) simp

lemma grows_commit_ops:
  "commit_ops t os rs ds s = Some s' \<Longrightarrow> entries s (ids s) \<Longrightarrow> \<forall>o'\<in>set os. lo_participant o' \<in> ids s \<Longrightarrow> grows now s s'"
proof (induction os arbitrary: rs ds s)
  case (Cons o' os)
  have e: "grows now s (command_executed (lo_participant o') c r s)" "grows now s (decide_rejoin t (lo_participant o') a d s)" for c r a d
    using Cons.prems(2,3) by (simp_all add: grows_command_executed grows_decide_rejoin)
  have step: "grows now s s'" if "commit_ops t os rs' ds' s1 = Some s'" "grows now s s1" for rs' ds' s1
    using Cons.IH[OF that(1) entries_grows[OF Cons.prems(2) that(2)]] Cons.prems(3) grows_ids[OF that(2)] grows_trans[OF that(2)] by simp
  show ?case using Cons.prems(1) by (auto split: option.splits list.splits intro: step e grows_refl)
qed (simp add: grows_refl)

lemma grows_acknowledge:
  assumes e: "entries s (ids s)" and a: "fst ` set (wb_acks work) \<subseteq> ids s"
  shows "grows now s (acknowledge work e' s)"
proof -
  let ?s1 = "fold set_ack (wb_acks work) s"
  have g1: "grows now s ?s1"
  proof (rule grows_fold[OF e])
    fix x and s' :: "'a live" assume x: "x \<in> set (wb_acks work)" and e': "entries s' (ids s')" "ids s' = ids s"
    obtain p st th where x': "x = (p, st, th)" by (cases x)
    have "p \<in> ids s'" using x x' a e'(2) by auto
    then have "p \<in> dom (lv_inputs s')" using e'(1) by (simp add: entries_def)
    then show "grows now s' (set_ack x s')" by (simp add: set_ack_def x' grows_refl grows_updates(1))
  qed
  have g2: "grows now s2 (fold (show_player e') qs s2)" if "entries s2 (ids s2)" for s2 :: "'a live" and qs
    by (rule grows_fold[OF that]) (rule grows_tells, rule tells_show_player)
  have g3: "grows now s2 (fold (show_admin e') qs s2)" if "entries s2 (ids s2)" for s2 :: "'a live" and qs
    by (rule grows_fold[OF that]) (rule grows_tells, rule tells_show_admin)
  show ?thesis unfolding acknowledge_def Let_def
    by (meson g1 g2 g3 e entries_grows grows_trans)
qed

lemma grows_before_attach:
  assumes e: "entries s (ids s)" and p: "p \<in> ids s"
  shows "grows now s (before_attach F now user p s)"
proof -
  define s0 where "s0 = (case player_of user s of None \<Rightarrow> s
            | Some older \<Rightarrow> if is_ended (lv_conns s older) then s else on_conn (end_connection End_replaced) older s)"
  have g0: "grows now s s0" by (auto simp: s0_def grows_refl intro!: grows_on_conn split: option.split)
  have g1: "grows now s (reset_inputs F now p s0)"
    using p grows_ids[OF g0] by (intro grows_trans[OF g0] grows_reset_inputs entries_grows[OF e g0]) simp
  have "grows now (reset_inputs F now p s0) (set_presence p r (reset_inputs F now p s0))" for r
    using p grows_ids[OF g1] by (intro grows_presence entries_grows[OF e g1]) simp
  then show ?thesis unfolding before_attach_def Let_def s0_def[symmetric] by (rule grows_trans[OF g1])
qed

text \<open>
  A SAMPLE and a COMMAND add at most one operation of their player, and only when the queues have room.
\<close>

definition accepts :: "instant \<Rightarrow> 'f live \<Rightarrow> 'f live \<Rightarrow> bool" where
  "accepts now s s' \<longleftrightarrow> (\<exists>ops. added now ops s s' \<and> (ops = [] \<or> (\<exists>o'. ops = [o'] \<and> timeline_room (lo_participant o') s = None)))"

lemma accepts_none: "added now [] s s' \<Longrightarrow> accepts now s s'"
  unfolding accepts_def by blast

lemma accepts_enqueue:
  assumes a: "added now [] s s'" and p: "lo_participant o' \<in> ids s" and r: "timeline_room (lo_participant o') s = None"
  shows "accepts now s (record_activity now (enqueue_player now o' s'))"
proof -
  have "same_room s s'" using a unfolding added_def by blast
  then have "lo_participant o' \<in> ids s'" using p ids_same by blast
  from added_append[OF added_append[OF a added_enqueue_player[OF this]] added_updates(4)]
  show ?thesis unfolding accepts_def using r by fastforce
qed

lemma accepts_sample:
  assumes e: "entries s (ids s)" and p: "plays conn s \<Longrightarrow> cn_participant (lv_conns s conn) \<in> ids s"
  shows "accepts now s (fst (take_sample F now conn sequence inputs s))"
proof (cases "plays conn s")
  case True
  let ?p = "cn_participant (lv_conns s conn)"
  have i: "added now [] s (set_ingress ?p i s)" for i using entries_in[OF e p[OF True]] by (intro added_updates) simp
  have q: "lo_participant ((plain_op ?p)\<lparr>lo_inputs := x, lo_stream := y, lo_sequence := z\<rparr>) = ?p" for x y z
    by (simp add: plain_op_def)
  have r: "added now [] s s" by (rule added_none) (simp_all add: same_room_refl)
  show ?thesis unfolding take_sample_def Let_def
    using p[OF True] by (auto split: sum.split option.split prod.split intro!: accepts_none[OF i] accepts_none[OF r] accepts_enqueue[OF i] simp: q)
next
  case False
  have "added now [] s s" by (rule added_none) (simp_all add: same_room_refl)
  then show ?thesis using False by (simp add: take_sample_def accepts_none)
qed

lemma added_command_room: "entries s (ids s) \<Longrightarrow> p \<in> ids s \<Longrightarrow> added now [] s (fst (command_room now p s))"
proof -
  assume e: "entries s (ids s)" "p \<in> ids s"
  have r: "added now [] s s" by (rule added_none) (simp_all add: same_room_refl)
  have i: "added now [] s (set_tokens p t s)" for t using entries_in[OF e] by (intro added_updates) simp
  have c: "added now [] s ((set_tokens p t s)\<lparr>lv_command_rate := rate\<rparr>)" for t rate
    using added_append[OF i added_updates(8)] by simp
  show ?thesis unfolding command_room_def Let_def using r i c by (auto split: option.split prod.split)
qed

lemma command_room_room: "command_room now p s = (s', None) \<Longrightarrow> timeline_room p s = None"
  by (auto simp: command_room_def Let_def split: if_splits option.splits prod.splits)

lemma accepts_command:
  assumes e: "entries s (ids s)" and p: "plays conn s \<Longrightarrow> cn_participant (lv_conns s conn) \<in> ids s"
  shows "accepts now s (fst (accept_command F now conn token name payload s))"
proof (cases "plays conn s")
  case True
  let ?p = "cn_participant (lv_conns s conn)"
  note c = added_command_room[OF e p[OF True], of now]
  have k: "accepts now s (record_activity now (enqueue_player now ((plain_op ?p)\<lparr>lo_command := x\<rparr>)
      (set_tokens ?p t (s1\<lparr>lv_next_cmd := n, lv_cmds := cs\<rparr>))))" if "command_room now ?p s = (s1, None)" for s1 x t n cs
  proof (rule accepts_enqueue)
    have a: "added now [] s s1" using c that by simp
    let ?s2 = "s1\<lparr>lv_next_cmd := n, lv_cmds := cs\<rparr>"
    have b: "added now [] s ?s2" using added_append[OF a added_updates(9)] by simp
    have "?p \<in> dom (lv_tokens ?s2)" using b entries_in[OF e p[OF True]] unfolding added_def by blast
    from added_append[OF b added_updates(3)[OF this]]
    show "added now [] s (set_tokens ?p t ?s2)" by simp
  qed (use p[OF True] command_room_room[OF that] in \<open>simp_all add: plain_op_def\<close>)
  have r: "accepts now s s" by (intro accepts_none added_none) (simp_all add: same_room_refl)
  have d: "command_room now ?p s = (s1, Some l) \<Longrightarrow> accepts now s s1" for s1 l using c by (auto intro: accepts_none)
  show ?thesis unfolding accept_command_def Let_def
    by (auto split: sum.split option.split prod.split intro: r d k)
next
  case False
  have "added now [] s s" by (rule added_none) (simp_all add: same_room_refl)
  then show ?thesis using False by (simp add: accept_command_def accepts_none)
qed

subsection \<open>Seats\<close>

text \<open>A connection plays as nobody but the participant its user is.\<close>

definition seats :: "'f live \<Rightarrow> bool" where
  "seats s \<longleftrightarrow> (\<forall>c. cn_participant (lv_conns s c) \<noteq> [] \<longrightarrow> participant_of (cn_user (lv_conns s c)) s = Some (cn_participant (lv_conns s c)))
     \<and> (lv_phase s \<in> {Lobby, Starting} \<longrightarrow> (\<forall>c. cn_participant (lv_conns s c) = []))"

lemma seats_same:
  assumes "seats s" "\<And>c. cn_participant (lv_conns s' c) = cn_participant (lv_conns s c)" "\<And>c. cn_user (lv_conns s' c) = cn_user (lv_conns s c)"
    "lv_participants s' = lv_participants s" "lv_phase s' \<in> {Lobby, Starting} \<Longrightarrow> lv_phase s \<in> {Lobby, Starting}"
  shows "seats s'"
  using assms unfolding seats_def participant_of_def by auto

lemma seats_room: "seats s \<Longrightarrow> same_room s s' \<Longrightarrow> seats s'"
  by (rule seats_same) (auto simp: same_room_def whose_def)

lemma seats_on_conn:
  "seats s \<Longrightarrow> (\<And>c. cn_participant (f c) = cn_participant c \<and> cn_user (f c) = cn_user c) \<Longrightarrow> seats (on_conn f a s)"
  by (rule seats_same[of s]) (auto simp: on_conn_def set_conn_def)

lemma seats_told: "seats s \<Longrightarrow> (\<And>c. whose (f c) = whose c) \<Longrightarrow> seats (on_conn f a s)"
  by (rule seats_room[OF _ same_room_on_conn])

lemma seats_fresh:
  assumes "seats s" "cn_participant e \<noteq> [] \<Longrightarrow> participant_of (cn_user e) s = Some (cn_participant e)"
    "lv_phase s \<in> {Lobby, Starting} \<Longrightarrow> cn_participant e = []"
  shows "seats (snd (fresh_conn e s))"
  using assms by (auto simp: seats_def fresh_conn_def set_conn_def participant_of_def)

lemma seats_new_connection: "seats s \<Longrightarrow> seats (snd (fresh_conn (new_connection user display) s))"
  by (rule seats_fresh) (simp_all add: new_connection_def)

lemma seats_simple:
  "seats (s\<lparr>lv_played_by := pb\<rparr>) = seats s" "seats (s\<lparr>lv_admins := as\<rparr>) = seats s" "seats (set_player u c s) = seats s"
  "seats (s\<lparr>lv_players := ps\<rparr>) = seats s" "seats (s\<lparr>lv_lobby := l\<rparr>) = seats s" "seats (s\<lparr>lv_game := g, lv_views := v\<rparr>) = seats s"
  by (simp_all add: seats_def participant_of_def set_player_def)

lemma seats_tells: "seats s \<Longrightarrow> tells s s' \<Longrightarrow> seats s'"
  by (rule seats_room[OF _ same_room_tells])

lemma seats_join: "seats s \<Longrightarrow> seats (fst (join_lobby user display s))"
  unfolding join_lobby_def Let_def
  using seats_new_connection[of s user display]
  by (auto split: prod.split phase.split option.split simp: seats_simple seats_told intro!: seats_tells[OF _ tells_broadcast_lobby])

lemma seats_register: "seats s \<Longrightarrow> seats (fst (register_admin user signed s))"
  unfolding register_admin_def Let_def
  using seats_new_connection[of s user "[]"]
  by (auto split: prod.split phase.split simp: seats_simple seats_told)

lemma seats_leave_lobby: "seats s \<Longrightarrow> seats (leave_lobby conn s)"
  unfolding leave_lobby_def Let_def
  by (auto intro!: seats_tells[OF _ tells_broadcast_lobby] simp: seats_def participant_of_def)

lemma seats_begin: "seats s \<Longrightarrow> seats (fst (begin_start s))"
  unfolding begin_start_def by (auto simp: seats_def Let_def participant_of_def split: phase.split)

lemma seats_cancel: "seats s \<Longrightarrow> seats (cancel_start s)"
  unfolding cancel_start_def Let_def
  by (auto intro!: seats_tells[OF _ tells_broadcast_lobby] simp: seats_def participant_of_def)

lemma seats_enter_player:
  assumes s: "seats s" and r: "lv_phase s = Running" "\<And>u c. (u, c) \<in> set (lv_players s) \<Longrightarrow> cn_user (lv_conns s c) = u"
    and q: "participant_of (pa_user q) s = Some (pa_id q)"
  shows "seats (enter_player q s)"
proof -
  have m: "seats (on_conn (mark_started st) c (send_full c (pa_id q) (set_ingress (pa_id q) i (set_presence (pa_id q) pr
      (on_conn (\<lambda>c. c\<lparr>cn_participant := pa_id q\<rparr>) c s)))))" if "player_of (pa_user q) s = Some c" for c st i pr
  proof -
    have "cn_user (lv_conns s c) = pa_user q" using r(2) player_of_in[OF that] by simp
    then have "seats (on_conn (\<lambda>c. c\<lparr>cn_participant := pa_id q\<rparr>) c s)"
      using s q r(1) by (auto simp: seats_def on_conn_def set_conn_def participant_of_def)
    then have "seats (set_ingress (pa_id q) i (set_presence (pa_id q) pr (on_conn (\<lambda>c. c\<lparr>cn_participant := pa_id q\<rparr>) c s)))"
      by (rule seats_room) (intro room_step same_room_refl)
    then show ?thesis by (intro seats_told seats_tells[OF _ tells_send_full]) simp_all
  qed
  show ?thesis unfolding enter_player_def Let_def
    by (auto split: option.split intro!: m s seats_told simp: seats_simple)
qed

text \<open>Steps of a start that leave the timeline alone.\<close>

definition idle :: "'f live \<Rightarrow> 'f live \<Rightarrow> bool" where
  "idle s s' \<longleftrightarrow> lv_timeline s' = lv_timeline s \<and> lv_next_order s' = lv_next_order s \<and> lv_queued s' = lv_queued s
     \<and> lv_queued_total s' = lv_queued_total s \<and> lv_paused s' = lv_paused s \<and> lv_phase s' = lv_phase s
     \<and> lv_participants s' = lv_participants s \<and> lv_limits s' = lv_limits s \<and> lv_game s' = lv_game s"

lemma idle_trans: "idle s s' \<Longrightarrow> idle s' s'' \<Longrightarrow> idle s s''"
  by (simp add: idle_def)

lemma idle_fold: "(\<And>x s. idle s (f x s)) \<Longrightarrow> idle s (fold f xs s)"
proof (induction xs arbitrary: s)
  case (Cons x xs)
  then show ?case using idle_trans by (metis fold_Cons comp_apply)
qed (simp add: idle_def)

lemma idle_tells: "tells s s' \<Longrightarrow> idle s s'"
  by (simp add: idle_def tells_fields)

lemma idle_on_conn: "idle s (on_conn f c s)"
  by (simp add: idle_def on_conn_def set_conn_def)

lemma idle_enter_participant: "idle s (enter_participant F pv ends cause kept views q s)"
  by (simp add: enter_participant_def Let_def idle_def updates)

lemma idle_drop_outsider: "idle s (drop_outsider roster pl s)"
  by (simp add: drop_outsider_def idle_def on_conn_def set_conn_def)

lemma idle_enter_player: "idle s (enter_player q s)"
proof -
  have "idle s (on_conn f c (send_full c p (set_ingress p i (set_presence p r (on_conn g c s)))))" for f c p i r g
    by (rule idle_trans[OF _ idle_on_conn], rule idle_trans[OF _ idle_tells[OF tells_send_full]])
      (simp add: idle_def updates on_conn_def set_conn_def)
  then show ?thesis unfolding enter_player_def Let_def
    by (auto split: option.split simp: idle_def on_conn_def set_conn_def)
qed

lemma idle_on_conns: "idle s (on_conns f cs s)"
  unfolding on_conns_def by (rule idle_fold) (rule idle_on_conn)

text \<open>A start gives every participant their inputs, tokens and presence.\<close>

lemma entries_enter_participants:
  "entries s A \<Longrightarrow> entries (fold (enter_participant F pv ends cause kept views) ps s) (A \<union> pa_id ` set ps)"
proof (induction ps arbitrary: s A)
  case (Cons q ps)
  have "entries (enter_participant F pv ends cause kept views q s) (insert (pa_id q) A)"
    using Cons.prems by (auto simp: entries_def enter_participant_def Let_def updates)
  from Cons.IH[OF this] show ?case by simp
qed simp

lemma entries_on_conn: "entries (on_conn f c s) A = entries s A"
  by (simp add: entries_def on_conn_def set_conn_def)

lemma entries_on_conns: "entries s A \<Longrightarrow> entries (on_conns f cs s) A"
  unfolding on_conns_def by (induction cs arbitrary: s) (simp_all add: entries_on_conn)

lemma entries_drop_outsider: "entries s A \<Longrightarrow> entries (fold (drop_outsider roster) xs s) A"
proof (induction xs arbitrary: s)
  case (Cons x xs)
  have "entries (drop_outsider roster x s) A" using Cons.prems by (simp add: drop_outsider_def entries_on_conn) (simp add: entries_def)
  then show ?case using Cons.IH by simp
qed simp

lemma entries_tells: "tells s s' \<Longrightarrow> entries s' A = entries s A"
  by (simp add: entries_def tells_fields)

lemma entries_enter_player: "entries s A \<Longrightarrow> pa_id q \<in> A \<Longrightarrow> entries (enter_player q s) A"
proof -
  assume e: "entries s A" and q: "pa_id q \<in> A"
  have "entries (set_ingress (pa_id q) i (set_presence (pa_id q) r (on_conn f c s))) A" for i r f c
    using e q by (auto simp: entries_def updates on_conn_def set_conn_def)
  then show ?thesis unfolding enter_player_def Let_def
    using e by (auto split: option.split simp: entries_on_conn entries_tells[OF tells_send_full]) (simp_all add: entries_def)
qed

lemma participant_of_roster:
  assumes "q \<in> set (lv_participants s)" "distinct (map pa_user (lv_participants s))"
  shows "participant_of (pa_user q) s = Some (pa_id q)"
proof -
  have "find (\<lambda>p. pa_user p = pa_user q) ps = Some q" if "q \<in> set ps" "distinct (map pa_user ps)" for ps
    using that
  proof (induction ps)
    case (Cons p ps)
    then show ?case by (cases "p = q") auto
  qed simp
  then show ?thesis using assms by (simp add: participant_of_def)
qed

lemma seats_drop_outsiders: "seats s \<Longrightarrow> seats (fold (drop_outsider roster) xs s)"
proof (induction xs arbitrary: s)
  case (Cons x xs)
  have "seats (drop_outsider roster x s)" using Cons.prems by (simp add: drop_outsider_def seats_told seats_simple)
  then show ?case using Cons.IH by simp
qed simp

lemma seats_enter_players:
  assumes "seats s" "lv_phase s = Running" "\<And>u c. (u, c) \<in> set (lv_players s) \<Longrightarrow> cn_user (lv_conns s c) = u"
    "set qs \<subseteq> set (lv_participants s)" "distinct (map pa_user (lv_participants s))"
  shows "seats (fold enter_player qs s)"
  using assms
proof (induction qs arbitrary: s)
  case (Cons q qs)
  have f: "fewer s (enter_player q s)" by (rule fewer_enter_player)
  have "seats (enter_player q s)"
    using Cons.prems by (intro seats_enter_player participant_of_roster) auto
  moreover have "cn_user (lv_conns (enter_player q s) c) = u" if "(u, c) \<in> set (lv_players (enter_player q s))" for u c
    using f that Cons.prems(3) unfolding fewer_def by auto
  ultimately show ?case using Cons.prems f unfolding fewer_def by (simp add: Cons.IH)
qed simp

lemma completed:
  assumes ph: "lv_phase s = Starting" and r: "room_ok s" and st: "seats s" and ps: "roster_ok participants" and e: "entries s {}"
    and c: "s' = complete_start F previews window now participants game frontend views resumed s"
  shows "idle (game_begins now participants game frontend s) s'" "entries s' (ids s')" "seats s'"
proof -
  define s0 where "s0 = game_begins now participants game frontend s"
  obtain until cause kept s1 s2 s3 s4 where
    s1: "s1 = fold (enter_participant F previews until cause kept views) participants s0" and
    s2: "s2 = fold (drop_outsider participants) (lv_players s1) s1" and
    s3: "s3 = on_conns (mark_started (lv_start s2)) (lv_admins s2) s2" and s4: "s4 = fold enter_player participants s3" and
    eq: "complete_start F previews window now participants game frontend views resumed s = broadcast_roster s4"
    unfolding s0_def by (rule complete_form[OF ph])
  have i1: "idle s0 s1" unfolding s1 by (rule idle_fold) (rule idle_enter_participant)
  have i2: "idle s1 s2" unfolding s2 by (rule idle_fold) (rule idle_drop_outsider)
  have i3: "idle s2 s3" unfolding s3 by (rule idle_on_conns)
  have i4: "idle s3 s4" unfolding s4 by (rule idle_fold) (rule idle_enter_player)
  have i: "idle s0 s3" "idle s0 s'" using i1 i2 i3 i4 idle_tells[OF tells_broadcast_roster] c eq by (metis idle_trans)+
  then show "idle (game_begins now participants game frontend s) s'" unfolding s0_def by blast
  have p3: "lv_participants s3 = participants" "lv_phase s3 = Running" using i(1) by (simp_all add: idle_def s0_def game_begins_def)
  have "entries s0 {}" using e by (simp add: s0_def entries_def game_begins_def)
  then have "entries s1 (pa_id ` set participants)" using entries_enter_participants[of s0 "{}"] s1 by simp
  then have "entries s3 (pa_id ` set participants)" unfolding s3 s2 by (intro entries_on_conns entries_drop_outsider)
  moreover have "entries (fold enter_player qs t) A" if "entries t A" "pa_id ` set qs \<subseteq> A" for qs A and t :: "'a live"
    using that by (induction qs arbitrary: t) (simp_all add: entries_enter_player)
  ultimately have "entries s4 (pa_id ` set participants)" unfolding s4 by simp
  moreover have "ids s' = pa_id ` set participants" using i(2) by (simp add: idle_def ids_def s0_def game_begins_def)
  ultimately show "entries s' (ids s')" using c eq by (simp add: entries_tells[OF tells_broadcast_roster])
  have "seats s0" using st ph by (simp add: seats_def s0_def game_begins_def participant_of_def)
  moreover have "same_room s0 s1" unfolding s1 by (rule same_room_fold) (rule same_room_enter_participant)
  ultimately have "seats s1" by (rule seats_room)
  then have "seats s2" unfolding s2 by (rule seats_drop_outsiders)
  then have z3: "seats s3" unfolding s3 by (rule seats_tells, intro tells_on_conns) simp
  have f: "fewer s1 s2" unfolding s2 by (rule fewer_fold) (rule fewer_drop_outsider)
  have f3: "fewer s0 s3" using fewer_trans[OF fewer_trans[OF fewer_same_room[OF \<open>same_room s0 s1\<close>] f]] s3
    by (metis fewer_same_room same_room_tells tells_on_conns whose_mark_started)
  have "cn_user (lv_conns s3 c) = u" if "(u, c) \<in> set (lv_players s3)" for u c
    using f3 that room_okD(3)[OF r] unfolding fewer_def by (auto simp: s0_def game_begins_def)
  then have "seats s4" unfolding s4 using z3 p3 ps by (intro seats_enter_players) (simp_all add: roster_ok_def)
  then show "seats s'" unfolding c eq by (rule seats_tells) (rule tells_broadcast_roster)
qed

subsection \<open>The invariant\<close>

definition running_ok :: "instant \<Rightarrow> live_op list \<Rightarrow> live_op list \<Rightarrow> 'f live \<Rightarrow> bool" where
  "running_ok t executed flying s \<longleftrightarrow> entries s (ids s)
     \<and> map lo_order (executed @ flying @ lv_timeline s) = [1..<lv_next_order s + 1]
     \<and> sorted (map lo_time (flying @ lv_timeline s))
     \<and> (\<forall>o'\<in>set (flying @ lv_timeline s). lo_time o' \<le> session_time t s \<and> lo_participant o' \<in> ids s)
     \<and> fold count_op (lv_timeline s) (\<lambda>_. 0, 0) = (lv_queued s, lv_queued_total s)"

definition unplayed :: "'f live \<Rightarrow> bool" where
  "unplayed s \<longleftrightarrow> entries s {} \<and> lv_timeline s = [] \<and> lv_next_order s = 0 \<and> lv_queued s = (\<lambda>_. 0) \<and> lv_queued_total s = 0"

definition flight_ok :: "live_boundary \<Rightarrow> 'f live \<Rightarrow> bool" where
  "flight_ok w s \<longleftrightarrow> wb_game w = lv_game s \<and> wb_participants w = map pa_id (lv_participants s) \<and> map fst (wb_acks w) = map pa_id (lv_participants s)"

definition phase_ok :: "instant \<Rightarrow> live_op list \<Rightarrow> 'f controller \<Rightarrow> bool" where
  "phase_ok t executed c \<longleftrightarrow> (let s = co_live c in case lv_phase s of
       Running \<Rightarrow> running_ok t executed (in_flight_ops c) s \<and> (\<forall>w. co_in_flight c = Some w \<longrightarrow> flight_ok w s)
     | Finishing \<Rightarrow> co_in_flight c = None
     | Ended \<Rightarrow> True
     | _ \<Rightarrow> executed = [] \<and> co_in_flight c = None \<and> unplayed s)"

definition timeline_inv :: "instant \<Rightarrow> live_op list \<Rightarrow> 'f controller \<Rightarrow> bool" where
  "timeline_inv t executed c \<longleftrightarrow> map lo_order executed = [1..<length executed + 1]
     \<and> (lv_phase (co_live c) \<noteq> Ended \<longrightarrow> room_ok (co_live c) \<and> seats (co_live c) \<and> \<not> lv_paused (co_live c))
     \<and> phase_ok t executed c"

lemma session_time_mono: "t \<le> now \<Longrightarrow> \<not> lv_paused s \<Longrightarrow> session_time t s \<le> session_time now s"
  unfolding session_time_def Let_def
  by (simp add: go_div_mono time_sub_mono millisecond_def)

lemma running_ok_later: "running_ok t ex fl s \<Longrightarrow> t \<le> now \<Longrightarrow> \<not> lv_paused s \<Longrightarrow> running_ok now ex fl s"
  unfolding running_ok_def using session_time_mono by (meson order_trans)

lemma running_ok_added:
  assumes r: "running_ok t ex fl s" and t: "t \<le> now" "\<not> lv_paused s" and a: "added now ops s s'"
  shows "running_ok now ex fl s'"
proof -
  have m: "same_room s s'" using a unfolding added_def by blast
  have i: "ids s' = ids s" "session_time now s' = session_time now s" using ids_same[OF m] session_time_same[OF m] by blast+
  note r' = running_ok_later[OF r t]
  have tl: "lv_timeline s' = lv_timeline s @ ops" using a unfolding added_def by blast
  have "entries s' (ids s')" using a r i unfolding added_def running_ok_def entries_def by simp
  moreover have "map lo_order (ex @ fl @ lv_timeline s') = [1..<lv_next_order s' + 1]"
  proof -
    have "map lo_order (ex @ fl @ lv_timeline s') = [1..<lv_next_order s + 1] @ [lv_next_order s + 1..<lv_next_order s' + 1]"
      using a r unfolding added_def running_ok_def tl by (simp del: upt_Suc)
    also have "... = [1..<lv_next_order s' + 1]"
      using upt_add_eq_append[of 1 "lv_next_order s + 1" "length ops"] a unfolding added_def by (simp del: upt_Suc)
    finally show ?thesis .
  qed
  moreover have "sorted (map lo_time (fl @ lv_timeline s'))"
  proof -
    have "\<forall>x\<in>set (fl @ lv_timeline s). lo_time x \<le> session_time now s" "\<forall>x\<in>set ops. lo_time x = session_time now s"
      using r' a unfolding running_ok_def added_def by blast+
    moreover have "sorted (map lo_time ops)"
      using \<open>\<forall>x\<in>set ops. lo_time x = session_time now s\<close> by (induction ops) auto
    moreover have "sorted (map lo_time (fl @ lv_timeline s))" using r unfolding running_ok_def by blast
    ultimately show ?thesis unfolding tl by (auto simp: sorted_append)
  qed
  moreover have "\<forall>o'\<in>set (fl @ lv_timeline s'). lo_time o' \<le> session_time now s' \<and> lo_participant o' \<in> ids s'"
    using r' a unfolding running_ok_def added_def tl i by auto
  moreover have "fold count_op (lv_timeline s') (\<lambda>_. 0, 0) = (lv_queued s', lv_queued_total s')"
    using r a unfolding running_ok_def added_def by simp
  ultimately show ?thesis unfolding running_ok_def by blast
qed

lemma flight_ok_same: "flight_ok w s \<Longrightarrow> same_room s s' \<Longrightarrow> flight_ok w s'"
  by (simp add: flight_ok_def same_room_def ids_def)

lemma inv_added:
  assumes i: "timeline_inv t ex c" and ph: "lv_phase (co_live c) = Running" and t: "t \<le> now" and a: "added now ops (co_live c) s'"
  shows "timeline_inv now ex (c\<lparr>co_live := s'\<rparr>)"
proof -
  have m: "same_room (co_live c) s'" using a unfolding added_def by blast
  have p: "lv_phase s' = Running" "\<not> lv_paused s'" using m ph i unfolding same_room_def timeline_inv_def by auto
  have np: "\<not> lv_paused (co_live c)" using i ph unfolding timeline_inv_def by simp
  have "running_ok t ex (in_flight_ops c) (co_live c)" "\<And>w. co_in_flight c = Some w \<Longrightarrow> flight_ok w (co_live c)"
    using i ph unfolding timeline_inv_def phase_ok_def by (simp_all add: Let_def)
  then have "phase_ok now ex (c\<lparr>co_live := s'\<rparr>)"
    using running_ok_added[OF _ t np a] flight_ok_same[OF _ m] p unfolding phase_ok_def by (simp add: in_flight_ops_def)
  then show ?thesis using i ph p room_ok_same[OF _ m] seats_room[OF _ m] unfolding timeline_inv_def by simp
qed

lemma inv_grows:
  "timeline_inv t ex c \<Longrightarrow> lv_phase (co_live c) = Running \<Longrightarrow> t \<le> now \<Longrightarrow> grows now (co_live c) s' \<Longrightarrow> timeline_inv now ex (c\<lparr>co_live := s'\<rparr>)"
  unfolding grows_def by (blast intro: inv_added)

lemma inv_accepts:
  "timeline_inv t ex c \<Longrightarrow> lv_phase (co_live c) = Running \<Longrightarrow> t \<le> now \<Longrightarrow> accepts now (co_live c) s' \<Longrightarrow> timeline_inv now ex (c\<lparr>co_live := s'\<rparr>)"
  unfolding accepts_def by (blast intro: inv_added)

lemma inv_later: "timeline_inv t ex c \<Longrightarrow> t \<le> now \<Longrightarrow> timeline_inv now ex c"
  unfolding timeline_inv_def phase_ok_def
  using running_ok_later[of t ex "in_flight_ops c" "co_live c" now] by (auto simp: Let_def split: phase.splits)

text \<open>Steps that play nothing: who is here may change, the game does not.\<close>

definition calm :: "'f live \<Rightarrow> 'f live \<Rightarrow> bool" where
  "calm s s' \<longleftrightarrow> lv_timeline s' = lv_timeline s \<and> lv_next_order s' = lv_next_order s \<and> lv_queued s' = lv_queued s
     \<and> lv_queued_total s' = lv_queued_total s \<and> dom (lv_inputs s') = dom (lv_inputs s) \<and> dom (lv_presence s') = dom (lv_presence s)
     \<and> dom (lv_tokens s') = dom (lv_tokens s) \<and> lv_paused s' = lv_paused s \<and> lv_paused_at s' = lv_paused_at s
     \<and> lv_running_since s' = lv_running_since s \<and> lv_base_time s' = lv_base_time s \<and> lv_game s' = lv_game s
     \<and> lv_limits s' = lv_limits s"

definition same_stage :: "'f live \<Rightarrow> 'f live \<Rightarrow> bool" where
  "same_stage s s' \<longleftrightarrow> lv_phase s' = lv_phase s \<and> lv_participants s' = lv_participants s
     \<or> lv_phase s \<in> {Lobby, Starting} \<and> lv_phase s' \<in> {Lobby, Starting}"

lemma inv_calm:
  assumes i: "timeline_inv t ex c" and t: "t \<le> now" and k: "calm (co_live c) s'" "same_stage (co_live c) s'"
    and o': "room_ok s'" "seats s'"
  shows "timeline_inv now ex (c\<lparr>co_live := s'\<rparr>)"
proof -
  have j: "timeline_inv now ex c" by (rule inv_later[OF i t])
  have e: "entries s' A = entries (co_live c) A" for A using k(1) by (simp add: entries_def calm_def)
  have u: "unplayed s' = unplayed (co_live c)" using k(1) unfolding unplayed_def e calm_def by simp
  show ?thesis
  proof (cases "lv_phase (co_live c) \<in> {Lobby, Starting}")
    case True
    then have "lv_phase s' \<in> {Lobby, Starting}" using k(2) by (auto simp: same_stage_def)
    then show ?thesis using j True k(1) u o' unfolding timeline_inv_def phase_ok_def calm_def Let_def by auto
  next
    case False
    then have s': "lv_phase s' = lv_phase (co_live c)" "lv_participants s' = lv_participants (co_live c)" using k(2) by (auto simp: same_stage_def)
    have s2: "session_time now s' = session_time now (co_live c)" "ids s' = ids (co_live c)"
      using k(1) s' by (simp_all add: session_time_def ids_def calm_def)
    have "running_ok now ex fl s' = running_ok now ex fl (co_live c)" "flight_ok w s' = flight_ok w (co_live c)" for fl w
      using k(1) unfolding running_ok_def flight_ok_def e s2 s' calm_def by simp_all
    then show ?thesis using j o' k(1) unfolding timeline_inv_def phase_ok_def s'(1) calm_def
      by (auto simp: Let_def in_flight_ops_def s' u split: phase.split)
  qed
qed

lemma calm_tells: "tells s s' \<Longrightarrow> calm s s'" and stage_tells: "tells s s' \<Longrightarrow> same_stage s s'"
  by (simp_all add: calm_def same_stage_def tells_fields)

lemma calm_trans: "calm s s' \<Longrightarrow> calm s' s'' \<Longrightarrow> calm s s''"
  by (simp add: calm_def)

lemma calm_on_conn: "calm s s' \<Longrightarrow> calm s (on_conn f a s')"
  by (simp add: calm_def on_conn_def set_conn_def)

lemma stage_on_conn: "same_stage s s' \<Longrightarrow> same_stage s (on_conn f a s')"
  by (simp add: same_stage_def on_conn_def set_conn_def)

lemma calm_after_tells: "tells s' s'' \<Longrightarrow> calm s s' \<Longrightarrow> calm s s''" and stage_after_tells: "tells s' s'' \<Longrightarrow> same_stage s s' \<Longrightarrow> same_stage s s''"
  by (simp_all add: calm_def same_stage_def tells_fields)

text \<open>Rewriting the fields that only say who is here.\<close>

lemma calm_fields [simp]:
  "calm s (s'\<lparr>lv_players := ps\<rparr>) = calm s s'" "calm s (s'\<lparr>lv_lobby := l\<rparr>) = calm s s'" "calm s (s'\<lparr>lv_admins := as\<rparr>) = calm s s'"
  "calm s (s'\<lparr>lv_played_by := pb\<rparr>) = calm s s'" "calm s (set_player u d s') = calm s s'" "calm s (snd (fresh_conn e s')) = calm s s'"
  "calm s (s'\<lparr>lv_phase := ph\<rparr>) = calm s s'" "calm s (s'\<lparr>lv_participants := qs\<rparr>) = calm s s'" "calm s s"
  by (simp_all add: calm_def set_player_def fresh_conn_def set_conn_def)

lemma stage_fields [simp]:
  "same_stage s (s'\<lparr>lv_players := ps\<rparr>) = same_stage s s'" "same_stage s (s'\<lparr>lv_lobby := l\<rparr>) = same_stage s s'"
  "same_stage s (s'\<lparr>lv_admins := as\<rparr>) = same_stage s s'" "same_stage s (s'\<lparr>lv_played_by := pb\<rparr>) = same_stage s s'"
  "same_stage s (set_player u d s') = same_stage s s'" "same_stage s (snd (fresh_conn e s')) = same_stage s s'" "same_stage s s"
  by (simp_all add: same_stage_def set_player_def fresh_conn_def set_conn_def)

lemmas calm_step = calm_on_conn stage_on_conn calm_after_tells[OF tells_broadcast_lobby] stage_after_tells[OF tells_broadcast_lobby]
  calm_after_tells[OF tells_send_full] stage_after_tells[OF tells_send_full]

lemma fresh_conn_eq: "fresh_conn e s = (lv_next_conn s, snd (fresh_conn e s))"
  by (simp add: fresh_conn_def)

lemma calm_join: "calm s (fst (join_lobby user display s))" "same_stage s (fst (join_lobby user display s))"
  unfolding join_lobby_def Let_def
  by (subst fresh_conn_eq; auto split: phase.split option.split intro!: calm_step)+

lemma calm_register: "calm s (fst (register_admin user signed s))" "same_stage s (fst (register_admin user signed s))"
  unfolding register_admin_def Let_def
  by (subst fresh_conn_eq; auto split: phase.split intro!: calm_step)+

lemma calm_leave_lobby: "calm s (leave_lobby conn s)" "same_stage s (leave_lobby conn s)"
  unfolding leave_lobby_def Let_def by (auto intro!: calm_step)

lemma calm_drop_admin: "calm s (disconnect_admin a s)" "same_stage s (disconnect_admin a s)"
  unfolding disconnect_admin_def by (auto intro!: calm_step)

lemma calm_perspective: "calm s (fst (select_perspective a p s))" "same_stage s (fst (select_perspective a p s))"
  unfolding select_perspective_def by (auto intro!: calm_step)

lemma calm_begin: "calm s (fst (begin_start s))" "same_stage s (fst (begin_start s))"
  unfolding begin_start_def Let_def by (auto split: phase.split simp: same_stage_def)

lemma calm_cancel: "calm s (cancel_start s)" "same_stage s (cancel_start s)"
  unfolding cancel_start_def Let_def
  by (auto intro!: calm_after_tells[OF tells_broadcast_lobby] stage_after_tells[OF tells_broadcast_lobby] simp: same_stage_def)

lemma seats_perspective: "seats s \<Longrightarrow> seats (fst (select_perspective a p s))"
  unfolding select_perspective_def by (auto intro!: seats_tells[OF _ tells_send_full] seats_on_conn)

lemma seats_drop_admin: "seats s \<Longrightarrow> seats (disconnect_admin a s)"
  unfolding disconnect_admin_def by (auto intro!: seats_told simp: seats_simple)

text \<open>A Session that ended stays ended.\<close>

lemma ended_told [simp]: "lv_phase (end_live e s) = Ended"
  by (rule end_live_ended)

lemma ended_handle: "lv_phase s = Ended \<Longrightarrow> lv_phase (handle F now r s) = Ended"
  by (cases r)
    (auto simp: join_lobby_def register_admin_def disconnect_player_def disconnect_admin_def leave_session_def take_sample_def accept_command_def
      ask_rejoin_def reattach_player_def resync_def resync_admin_def select_perspective_def begin_start_def cancel_start_def complete_start_def
      end_session_def retire_def Let_def fresh_conn_def set_conn_def on_conn_def split: option.split db_end.split)

lemma inv_ended: "map lo_order ex = [1..<length ex + 1] \<Longrightarrow> lv_phase (co_live c) = Ended \<Longrightarrow> timeline_inv t ex c"
  by (simp add: timeline_inv_def phase_ok_def Let_def)

lemma inv_orders: "timeline_inv t ex c \<Longrightarrow> map lo_order ex = [1..<length ex + 1]"
  by (simp add: timeline_inv_def)

lemma calm_after_attach:
  assumes p: "p \<in> dom (lv_inputs s)"
  shows "calm s (after_attach user display p st s)" "same_stage s (after_attach user display p st s)"
proof -
  have k: "calm s (set_ingress p i t)" if "calm s t" for i and t :: "'a live"
    using that p by (auto simp: calm_def updates)
  have k': "same_stage s (set_ingress p i t)" if "same_stage s t" for i and t :: "'a live"
    using that by (simp add: same_stage_def updates)
  show "calm s (after_attach user display p st s)" "same_stage s (after_attach user display p st s)"
    unfolding after_attach_def Let_def
    by (intro calm_after_tells[OF tells_broadcast_roster] calm_step k; simp)
      (intro stage_after_tells[OF tells_broadcast_roster] calm_step k'; simp)
qed

lemma seats_after_attach:
  assumes s: "seats s" and p: "participant_of user s = Some p" and ph: "lv_phase s = Running"
  shows "seats (after_attach user display p st s)"
proof -
  have "seats (snd (fresh_conn ((new_connection user display)\<lparr>cn_participant := p\<rparr>) s))"
    using p ph by (intro seats_fresh[OF s]) (simp_all add: new_connection_def)
  then have "seats (set_ingress p i (set_player user c (snd (fresh_conn ((new_connection user display)\<lparr>cn_participant := p\<rparr>) s))))" for i c
    by (intro seats_room[OF _ same_room_updates(1)]) (simp add: seats_simple)
  then show ?thesis unfolding after_attach_def Let_def
    by (intro seats_tells[OF _ tells_broadcast_roster] seats_told seats_tells[OF _ tells_send_full]) simp_all
qed

text \<open>A player who plays is a participant.\<close>

lemma plays_ids: "seats s \<Longrightarrow> plays conn s \<Longrightarrow> cn_participant (lv_conns s conn) \<in> ids s"
  unfolding seats_def plays_def using participant_of_ids by blast

lemma inv_reattach:
  assumes i: "timeline_inv t ex c" and t: "t \<le> now"
  shows "timeline_inv now ex (c\<lparr>co_live := fst (reattach_player F now user display signed (co_live c))\<rparr>)"
proof (rule reattach_cases[of F now user display signed "co_live c"])
  assume "fst (reattach_player F now user display signed (co_live c)) = co_live c"
  then show ?thesis using inv_later[OF i t] by simp
next
  fix p st
  assume g: "lv_phase (co_live c) = Running" "participant_of user (co_live c) = Some p"
    "fst (reattach_player F now user display signed (co_live c)) = after_attach user display p st (before_attach F now user p (co_live c))"
  let ?b = "before_attach F now user p (co_live c)"
  have p: "p \<in> ids (co_live c)" by (rule participant_of_ids[OF g(2)])
  have e: "entries (co_live c) (ids (co_live c))" using i g(1) by (simp add: timeline_inv_def phase_ok_def running_ok_def Let_def)
  have gb: "grows now (co_live c) ?b" by (rule grows_before_attach[OF e p])
  have ib: "timeline_inv now ex (c\<lparr>co_live := ?b\<rparr>)" by (rule inv_grows[OF i g(1) t gb])
  have pb: "lv_phase ?b = Running" "participant_of user ?b = Some p" "user \<in> pa_user ` set (lv_participants ?b)"
    using grows_room[OF gb] g(1,2) by (auto simp: same_room_def participant_of_def find_Some_iff)
  have sb: "room_ok ?b" "seats ?b" using ib pb by (simp_all add: timeline_inv_def)
  have "p \<in> dom (lv_inputs ?b)" using entries_grows[OF e gb] grows_ids[OF gb] p by (simp add: entries_def)
  from calm_after_attach[OF this] have "timeline_inv now ex (c\<lparr>co_live := ?b, co_live := after_attach user display p st ?b\<rparr>)"
    using inv_calm[OF ib] sb room_ok_after_attach[OF sb(1) pb(3,1)] seats_after_attach[OF sb(2) pb(2,1)] by simp
  then show ?thesis unfolding g(3) by simp
qed

lemma inv_complete:
  assumes i: "timeline_inv t ex c" and t: "t \<le> now" and a: "lv_phase (co_live c) = Starting \<Longrightarrow> roster_ok participants"
    and s': "s' = complete_start F previews window now participants game frontend views resumed (co_live c)"
  shows "timeline_inv now ex (c\<lparr>co_live := s'\<rparr>)"
proof (cases "lv_phase (co_live c) = Starting")
  case True
  have r: "room_ok (co_live c)" "seats (co_live c)" "\<not> lv_paused (co_live c)" and u: "ex = []" "co_in_flight c = None" "unplayed (co_live c)"
    using i True by (simp_all add: timeline_inv_def phase_ok_def Let_def)
  have e: "entries (co_live c) {}" using u by (simp add: unplayed_def)
  note k = completed[OF True r(1,2) a[OF True] e s']
  have f: "lv_phase s' = Running" "\<not> lv_paused s'" "lv_timeline s' = []" "lv_next_order s' = 0" "lv_queued s' = (\<lambda>_. 0)" "lv_queued_total s' = 0"
    using k(1) u r(3) by (simp_all add: idle_def game_begins_def unplayed_def)
  then show ?thesis using k u room_ok_complete[OF r(1) a] s' inv_orders[OF i]
    by (simp add: timeline_inv_def phase_ok_def running_ok_def in_flight_ops_def)
next
  case False
  then show ?thesis using inv_later[OF i t] s' by (simp add: complete_start_def)
qed

lemma inv_end: 
  assumes i: "timeline_inv t ex c" and t: "t \<le> now"
  shows "timeline_inv now ex (c\<lparr>co_live := end_session answer f (co_live c)\<rparr>)" "timeline_inv now ex (c\<lparr>co_live := retire (co_live c)\<rparr>)"
    "timeline_inv now ex (c\<lparr>co_live := end_if_abandoned answer (co_live c)\<rparr>)" "timeline_inv now ex (c\<lparr>co_live := abort answer (co_live c)\<rparr>)"
proof -
  have e: "timeline_inv now ex (c\<lparr>co_live := end_live ending s\<rparr>)" for ending s
    using inv_orders[OF i] by (rule inv_ended) simp
  have l: "timeline_inv now ex (c\<lparr>co_live := co_live c\<rparr>)" using inv_later[OF i t] by simp
  show s: "timeline_inv now ex (c\<lparr>co_live := end_session answer f (co_live c)\<rparr>)" for f
    unfolding end_session_def using e l by (auto split: db_end.split)
  show "timeline_inv now ex (c\<lparr>co_live := retire (co_live c)\<rparr>)" unfolding retire_def by (rule e)
  show "timeline_inv now ex (c\<lparr>co_live := end_if_abandoned answer (co_live c)\<rparr>)" unfolding end_if_abandoned_def using s l by simp
  show "timeline_inv now ex (c\<lparr>co_live := abort answer (co_live c)\<rparr>)" unfolding abort_def Let_def using s[of id] e by simp
qed

lemma inv_running: "timeline_inv t ex c \<Longrightarrow> lv_phase (co_live c) = Running \<Longrightarrow> entries (co_live c) (ids (co_live c)) \<and> seats (co_live c)"
  by (simp add: timeline_inv_def phase_ok_def running_ok_def Let_def)

lemma inv_stays:
  assumes "timeline_inv t ex c" "t \<le> now"
  shows "timeline_inv now ex (c\<lparr>co_live := co_live c\<rparr>)"
  using inv_later[OF assms] by simp

lemma inv_handle:
  assumes i: "timeline_inv t ex c" and t: "t \<le> now" and a: "admissible r (co_live c)"
  shows "timeline_inv now ex (c\<lparr>co_live := handle F now r (co_live c)\<rparr>)"
proof (cases "lv_phase (co_live c) = Ended")
  case True
  then show ?thesis using inv_orders[OF i] ended_handle[OF True] by (intro inv_ended) simp_all
next
  case False
  then have o': "room_ok (co_live c)" "seats (co_live c)" using i by (simp_all add: timeline_inv_def)
  note calm = inv_calm[OF i t]
  have run: "timeline_inv now ex (c\<lparr>co_live := s'\<rparr>)" if "lv_phase (co_live c) = Running \<Longrightarrow> grows now (co_live c) s'"
    "lv_phase (co_live c) \<noteq> Running \<Longrightarrow> s' = co_live c" for s'
    using that inv_grows[OF i _ t] inv_stays[OF i t] by (cases "lv_phase (co_live c) = Running") simp_all
  have told: "timeline_inv now ex (c\<lparr>co_live := s'\<rparr>)" if "tells (co_live c) s'" for s'
    using calm[OF calm_tells[OF that] stage_tells[OF that]] o' that room_ok_same seats_tells same_room_tells by blast
  have e: "entries (co_live c) (ids (co_live c))" if "lv_phase (co_live c) = Running" using inv_running[OF i that] by blast
  show ?thesis
  proof (cases r)
    case (Rq_join user display)
    show ?thesis unfolding Rq_join handle.simps by (rule calm[OF calm_join room_ok_join[OF o'(1)] seats_join[OF o'(2)]])
  next
    case (Rq_join_admin user signed)
    show ?thesis unfolding Rq_join_admin handle.simps by (rule calm[OF calm_register room_ok_register[OF o'(1)] seats_register[OF o'(2)]])
  next
    case (Rq_drop_player conn)
    show ?thesis
    proof (cases "lv_phase (co_live c) = Running")
      case True
      show ?thesis unfolding Rq_drop_player handle.simps disconnect_player_def
        using True grows_trans[OF grows_detach[OF e[OF True]] grows_on_conn] by (intro run) simp_all
    next
      case False
      have "calm (co_live c) (disconnect_player F now conn (co_live c))" "same_stage (co_live c) (disconnect_player F now conn (co_live c))"
        using False calm_leave_lobby unfolding disconnect_player_def by (auto intro!: calm_step split: phase.split)
      moreover have "seats (disconnect_player F now conn (co_live c))"
        using False seats_leave_lobby[OF o'(2)] o'(2) unfolding disconnect_player_def by (auto intro!: seats_told split: phase.split)
      ultimately show ?thesis unfolding Rq_drop_player handle.simps by (intro calm room_ok_drop_player[OF o'(1)])
    qed
  next
    case (Rq_drop_admin a)
    show ?thesis unfolding Rq_drop_admin handle.simps by (rule calm[OF calm_drop_admin room_ok_drop_admin[OF o'(1)] seats_drop_admin[OF o'(2)]])
  next
    case (Rq_leave conn)
    show ?thesis
    proof (cases "lv_phase (co_live c) = Running")
      case True
      have "cn_participant (lv_conns (co_live c) conn) \<in> ids (co_live c)" if "lv_presence (co_live c) (cn_participant (lv_conns (co_live c) conn)) \<noteq> None"
        using e[OF True] that by (auto simp: entries_def)
      then have "grows now (co_live c) (fst (leave_session F now conn (co_live c)))"
        using True grows_trans[OF grows_disconnect[OF e[OF True]] grows_on_conn[where f = "end_connection End_left"]]
          grows_on_conn[where f = "end_connection End_left"]
        unfolding leave_session_def Let_def by (auto split: option.split)
      then show ?thesis unfolding Rq_leave handle.simps by (rule inv_grows[OF i True t])
    next
      case False
      have "calm (co_live c) (fst (leave_session F now conn (co_live c)))" "same_stage (co_live c) (fst (leave_session F now conn (co_live c)))"
        using False calm_leave_lobby unfolding leave_session_def Let_def by (auto intro!: calm_step split: phase.split)
      moreover have "seats (fst (leave_session F now conn (co_live c)))"
        using False seats_leave_lobby[OF o'(2)] o'(2) unfolding leave_session_def Let_def by (auto intro!: seats_told split: phase.split)
      ultimately show ?thesis unfolding Rq_leave handle.simps by (intro calm room_ok_leave[OF o'(1)])
    qed
  next
    case (Rq_sample conn sequence inputs)
    show ?thesis
    proof (cases "lv_phase (co_live c) = Running")
      case True
      show ?thesis unfolding Rq_sample handle.simps
        by (rule inv_accepts[OF i True t accepts_sample[OF e[OF True] plays_ids[OF o'(2)]]])
    qed (use Rq_sample inv_stays[OF i t] in \<open>simp add: take_sample_def\<close>)
  next
    case (Rq_command conn token name payload)
    show ?thesis
    proof (cases "lv_phase (co_live c) = Running")
      case True
      show ?thesis unfolding Rq_command handle.simps
        by (rule inv_accepts[OF i True t accepts_command[OF e[OF True] plays_ids[OF o'(2)]]])
    qed (use Rq_command inv_stays[OF i t] in \<open>simp add: accept_command_def\<close>)
  next
    case (Rq_rejoin user)
    show ?thesis unfolding Rq_rejoin handle.simps by (rule run[OF grows_ask_rejoin]) (simp add: ask_rejoin_def split: option.split)
  next
    case (Rq_reattach user display signed)
    show ?thesis unfolding Rq_reattach handle.simps by (rule inv_reattach[OF i t])
  next
    case (Rq_perspective a p)
    show ?thesis unfolding Rq_perspective handle.simps
      by (rule calm[OF calm_perspective room_ok_perspective[OF o'(1)] seats_perspective[OF o'(2)]])
  next
    case Rq_begin_start
    show ?thesis unfolding Rq_begin_start handle.simps by (rule calm[OF calm_begin room_ok_begin[OF o'(1)] seats_begin[OF o'(2)]])
  next
    case Rq_cancel_start
    show ?thesis unfolding Rq_cancel_start handle.simps by (rule calm[OF calm_cancel room_ok_cancel[OF o'(1)] seats_cancel[OF o'(2)]])
  next
    case (Rq_complete_start window participants game frontend views resumed)
    have "lv_phase (co_live c) = Starting \<Longrightarrow> roster_ok participants"
      using a o'(1) Rq_complete_start by (auto simp: room_ok_def numbered_roster split: option.splits)
    then show ?thesis unfolding Rq_complete_start handle.simps by (rule inv_complete[OF i t _ refl])
  qed (simp_all add: told tells_resync tells_resync_admin inv_end[OF i t])
qed

subsection \<open>Boundaries\<close>

text \<open>What an execution that succeeded fits: the game it ran on and the operations it reached.\<close>

definition fits :: "live_boundary \<Rightarrow> execution \<Rightarrow> bool" where
  "fits work e \<longleftrightarrow> gm_revision (ex_game e) = gm_revision (wb_game work) + 1
     \<and> length (ex_responses e) = count_commands (wb_operations (reached e work))
     \<and> length (ex_rejoins e) = count_rejoins (wb_operations (reached e work))
     \<and> map fst (ex_views e) = wb_participants work"

lemma project_all_ids: "project_all project ps = Inr views \<Longrightarrow> map fst views = ps"
  by (induction ps arbitrary: views) (auto split: sandbox_reply.splits sum.splits)

lemma accept_result_fits:
  assumes "accept_result work ops b fin r project = Inr e" "sr_revision r = gm_revision (wb_game work) + 1"
  shows "gm_revision (ex_game e) = gm_revision (wb_game work) + 1 \<and> length (ex_responses e) = count_commands ops
    \<and> length (ex_rejoins e) = count_rejoins ops \<and> map fst (ex_views e) = wb_participants work \<and> ex_finished e = fin"
  using assms project_all_ids unfolding accept_result_def by (auto split: if_splits sum.splits)

lemma attempt_fits: "attempt s work reply project = Inr e \<Longrightarrow> fits work e"
proof -
  assume a: "attempt s work reply project = Inr e"
  then obtain ops orders r where b: "batch_of s work = Some (ops, orders)" "reply = Succeeded r" "sr_revision r = gm_revision (wb_game work) + 1"
    by (auto simp: attempt_def split: option.splits prod.splits sandbox_reply.splits if_splits)
  show ?thesis
  proof (cases "sr_finished r")
    case None
    then have "accept_result work (wb_operations work) (ops, orders) None r project = Inr e" using a b by (simp add: attempt_def)
    from accept_result_fits[OF this b(3)] show ?thesis by (simp add: fits_def reached_def)
  next
    case (Some i)
    then obtain n t where "finished_at (planned s (wb_operations work)) ops orders i = Some (n, t)"
      "accept_result work (take n (wb_operations work)) (take (nat i + 1) ops, take (nat i + 1) orders) (Some (n, t)) r project = Inr e"
      using a b by (auto simp: attempt_def split: option.splits)
    from accept_result_fits[OF this(2) b(3)] show ?thesis by (simp add: fits_def reached_def)
  qed
qed

lemma execute_fits: "execute s work context shutdown r1 r2 = (context', Inr e) \<Longrightarrow> fits work e"
  by (auto simp: execute_def execution_run_def split: if_splits sum.splits prod.splits dest: attempt_fits)

lemma commit_ops_total:
  "count_commands os \<le> length rs \<Longrightarrow> count_rejoins os \<le> length ds \<Longrightarrow> \<exists>s'. commit_ops now os rs ds s = Some s'"
proof (induction os arbitrary: rs ds s)
  case (Cons o' os)
  show ?case
  proof (cases "lo_command o'")
    case None
    show ?thesis
    proof (cases "lo_rejoin o'")
      case None
      then show ?thesis using Cons \<open>lo_command o' = None\<close> by (simp add: count_commands_def count_rejoins_def)
    next
      case (Some a)
      then obtain d ds' where "ds = d # ds'" using Cons.prems(2) by (cases ds) (auto simp: count_rejoins_def)
      then show ?thesis using Cons \<open>lo_command o' = None\<close> Some by (simp add: count_commands_def count_rejoins_def)
    qed
  next
    case (Some a)
    then obtain r rs' where "rs = r # rs'" using Cons.prems(1) by (cases rs) (auto simp: count_commands_def)
    moreover have "count_rejoins os \<le> length ds" using Cons.prems(2) by (simp add: count_rejoins_def split: if_splits)
    ultimately show ?thesis using Cons Some by (simp add: count_commands_def)
  qed
qed simp

text \<open>So committing it can only be refused because the game no longer runs here.\<close>

lemma commit_accepted:
  assumes "fits work e" "lv_phase s = Running" "wb_game work = lv_game s"
  shows "snd (commit_boundary now (reached e work) e s) = Committed"
proof -
  have "\<exists>s2. commit_ops now (wb_operations (reached e work)) (ex_responses e) (ex_rejoins e) (mirrored (reached e work) e s) = Some s2"
    using assms(1) by (intro commit_ops_total) (simp_all add: fits_def)
  then show ?thesis using assms by (auto simp: commit_boundary_def fits_def mirrored_def Let_def)
qed

lemma running_ok_recount:
  assumes r: "running_ok t ex fl s" and e: "fl' @ rest = fl @ lv_timeline s"
  shows "running_ok t ex fl' (recount (s\<lparr>lv_timeline := rest\<rparr>))"
proof -
  let ?s = "recount (s\<lparr>lv_timeline := rest\<rparr>)"
  have f: "lv_timeline ?s = rest" "lv_next_order ?s = lv_next_order s" "lv_inputs ?s = lv_inputs s" "lv_presence ?s = lv_presence s"
    "lv_tokens ?s = lv_tokens s" "ids ?s = ids s" "session_time t ?s = session_time t s"
    "fold count_op rest (\<lambda>_. 0, 0) = (lv_queued ?s, lv_queued_total ?s)"
    by (simp_all add: recount_def ids_def session_time_def Let_def split: prod.split)
  show ?thesis using r unfolding running_ok_def entries_def f e by simp
qed

lemma in_flight_none: "co_in_flight c = None \<Longrightarrow> in_flight_ops c = []"
  by (simp add: in_flight_ops_def)

lemma in_flight_some: "co_in_flight c = Some w \<Longrightarrow> in_flight_ops c = wb_operations w"
  by (simp add: in_flight_ops_def)

definition planned_end :: "instant \<Rightarrow> 'f live \<Rightarrow> boundary_plan" where
  "planned_end now s = plan (planned s (lv_timeline s)) (session_time now s) (gm_through (lv_game s)) (ru_update (lv_rules s)) (ll_boundary_operations (lv_limits s))"

definition work_taken :: "instant \<Rightarrow> 'f live \<Rightarrow> live_boundary" where
  "work_taken now s = (let p = planned_end now s; taken = take (bp_taken p) (lv_timeline s); rest = drop (bp_taken p) (lv_timeline s);
     names = map pa_id (lv_participants s)
     in \<lparr>wb_operations = taken, wb_time = bp_time p, wb_game = lv_game s, wb_participants = names,
          wb_acks = map (\<lambda>q. (q, pi_stream (ingress_of s q), ack_through (ingress_of s q) taken rest q)) names, wb_update = bp_update p\<rparr>)"

definition left_waiting :: "instant \<Rightarrow> 'f live \<Rightarrow> 'f live" where
  "left_waiting now s = recount (s\<lparr>lv_timeline := drop (bp_taken (planned_end now s)) (lv_timeline s)\<rparr>)"

lemma take_boundary_eq:
  assumes "lv_phase s = Running" "\<not> lv_paused s"
  shows "take_boundary F now s = (let s1 = expire_graces F now s
    in (left_waiting now s1, Some (work_taken now s1, drop (bp_taken (planned_end now s1)) (lv_timeline s1) \<noteq> [])))"
  using assms unfolding take_boundary_def Let_def left_waiting_def work_taken_def planned_end_def by simp

lemma take_boundary_not_running: "lv_phase s \<noteq> Running \<Longrightarrow> take_boundary F now s = (s, None)"
  by (simp add: take_boundary_def)

lemma work_taken_flight: "flight_ok (work_taken now s) (left_waiting now s)"
  by (simp add: flight_ok_def work_taken_def left_waiting_def recount_def Let_def comp_def split: prod.split)

lemma waiting_room: "same_room s (left_waiting now s)"
  unfolding left_waiting_def by (intro room_step same_room_refl)

lemma inv_taken:
  assumes i: "timeline_inv t ex c" and t: "t \<le> now" and ph: "lv_phase (co_live c) = Running" and n: "co_in_flight c = None"
    and s1: "s1 = expire_graces F now (co_live c)"
  shows "timeline_inv now ex (c\<lparr>co_live := left_waiting now s1, co_in_flight := Some (work_taken now s1)\<rparr>)"
proof -
  have e: "entries (co_live c) (ids (co_live c))" using inv_running[OF i ph] by blast
  have i1: "timeline_inv now ex (c\<lparr>co_live := s1\<rparr>)" unfolding s1 by (rule inv_grows[OF i ph t grows_expire[OF e]])
  have r: "same_room (co_live c) s1" unfolding s1 by (rule grows_room[OF grows_expire[OF e]])
  have p: "lv_phase s1 = Running" using r ph by (simp add: same_room_def)
  note w = waiting_room[of s1 now]
  have "running_ok now ex [] s1" using i1 p n by (simp add: timeline_inv_def phase_ok_def in_flight_ops_def)
  then have "running_ok now ex (wb_operations (work_taken now s1)) (left_waiting now s1)"
    unfolding left_waiting_def by (rule running_ok_recount) (simp add: work_taken_def Let_def)
  then show ?thesis using i1 p w work_taken_flight[of now s1] room_ok_same[OF _ w] seats_room[OF _ w]
    by (simp add: timeline_inv_def phase_ok_def in_flight_ops_def same_room_def)
qed

lemma inv_drop_flight:
  "timeline_inv t ex c \<Longrightarrow> lv_phase (co_live c) \<noteq> Running \<Longrightarrow> timeline_inv t ex (c\<lparr>co_in_flight := None\<rparr>)"
  by (auto simp: timeline_inv_def phase_ok_def Let_def split: phase.splits)

lemma inv_cong:
  "co_live c' = co_live c \<Longrightarrow> co_in_flight c' = co_in_flight c \<Longrightarrow> timeline_inv t ex c' = timeline_inv t ex c"
  by (simp only: timeline_inv_def phase_ok_def in_flight_ops_def)

lemma inv_irrelevant:
  "timeline_inv t ex (c\<lparr>co_failures := f\<rparr>) = timeline_inv t ex c" "timeline_inv t ex (c\<lparr>co_context := x\<rparr>) = timeline_inv t ex c"
  "timeline_inv t ex (c\<lparr>co_flush := b\<rparr>) = timeline_inv t ex c" "timeline_inv t ex (c\<lparr>co_finishing := g\<rparr>) = timeline_inv t ex c"
  by (rule inv_cong; simp)+

lemma inv_flush:
  "timeline_inv t ex (c\<lparr>co_flush := b, co_live := s\<rparr>) = timeline_inv t ex (c\<lparr>co_live := s\<rparr>)"
  "timeline_inv t ex (c\<lparr>co_flush := b, co_live := s, co_in_flight := w\<rparr>) = timeline_inv t ex (c\<lparr>co_live := s, co_in_flight := w\<rparr>)"
  by (rule inv_cong; simp)+

lemma inv_finish_game: "timeline_inv t ex c \<Longrightarrow> t \<le> now \<Longrightarrow> timeline_inv now ex (finish_game recorded answer c)"
  unfolding finish_game_def Let_def
  using inv_end(1)[of t ex c now] inv_later[of t ex c now]
  by (auto simp: inv_irrelevant split: option.split db_end.split)

lemma grows_acknowledge_only: "entries s (ids s) \<Longrightarrow> flight_ok work s \<Longrightarrow> grows now s (acknowledge_only work s)"
proof -
  assume e: "entries s (ids s)" and f: "flight_ok work s"
  have "fst ` set (wb_acks work) = set (map fst (wb_acks work))" by simp
  also have "... = ids s" using f unfolding flight_ok_def ids_def by simp
  finally show ?thesis using grows_acknowledge[OF e] by (simp add: acknowledge_only_def grows_refl)
qed

lemma inv_start_boundary:
  assumes i: "timeline_inv t ex c" and t: "t \<le> now"
  shows "timeline_inv now ex (start_boundary F now recorded answer c)"
proof -
  consider "co_in_flight c \<noteq> None" | "co_in_flight c = None" "co_finishing c \<noteq> None"
    | "co_in_flight c = None" "co_finishing c = None" "lv_phase (co_live c) \<noteq> Running"
    | "co_in_flight c = None" "co_finishing c = None" "lv_phase (co_live c) = Running" by blast
  then show ?thesis
  proof cases
    case 1
    then show ?thesis using inv_later[OF i t] by (simp add: start_boundary_def)
  next
    case 2
    then show ?thesis using inv_finish_game[OF i t] by (simp add: start_boundary_def)
  next
    case 3
    then show ?thesis using inv_later[OF i t] by (simp add: start_boundary_def take_boundary_not_running)
  next
    case 4
    define s1 where "s1 = expire_graces F now (co_live c)"
    have np: "\<not> lv_paused (co_live c)" using i 4 by (simp add: timeline_inv_def)
    note k = inv_taken[OF i t 4(3,1) s1_def]
    define c' where "c' = c\<lparr>co_live := left_waiting now s1, co_in_flight := Some (work_taken now s1)\<rparr>"
    have p': "lv_phase (left_waiting now s1) = Running"
      using waiting_room[of s1 now] same_room_expire(2)[of "co_live c" F now] 4 by (simp add: s1_def same_room_def)
    have idle: "timeline_inv now ex (c\<lparr>co_live := left_waiting now s1, co_in_flight := None\<rparr>)" if "wb_operations (work_taken now s1) = []"
      using k that p' by (simp add: timeline_inv_def phase_ok_def in_flight_ops_def Let_def)
    have e: "entries (left_waiting now s1) (ids (left_waiting now s1))" using inv_running[OF k] p' by simp
    have "timeline_inv now ex (c\<lparr>co_live := end_if_abandoned answer (acknowledge_only (work_taken now s1) (left_waiting now s1))\<rparr>)"
      if "wb_operations (work_taken now s1) = []"
    proof -
      have "timeline_inv now ex (c\<lparr>co_live := left_waiting now s1, co_in_flight := None, co_live := acknowledge_only (work_taken now s1) (left_waiting now s1)\<rparr>)"
        using p' by (intro inv_grows[OF idle[OF that]]) (simp_all add: grows_acknowledge_only[OF e work_taken_flight])
      from inv_end(3)[OF this order_refl, of answer] show ?thesis using 4(1) by (subst (asm) inv_cong[where c = "c\<lparr>co_live := end_if_abandoned answer (acknowledge_only (work_taken now s1) (left_waiting now s1))\<rparr>"]) simp_all
    qed
    then show ?thesis using 4 k unfolding start_boundary_def take_boundary_eq[OF 4(3) np] Let_def s1_def[symmetric]
      by (simp add: inv_flush)
  qed
qed

lemma inv_requeue:
  assumes i: "timeline_inv t ex c" and t: "t \<le> now" and w: "co_in_flight c = Some work"
  shows "timeline_inv now ex (c\<lparr>co_live := requeue work (co_live c), co_in_flight := None\<rparr>)"
proof (cases "lv_phase (co_live c) = Running")
  case True
  note j = inv_later[OF i t]
  have r: "running_ok now ex (wb_operations work) (co_live c)" using j True w by (simp add: timeline_inv_def phase_ok_def in_flight_ops_def Let_def)
  have "running_ok now ex [] (requeue work (co_live c))"
    using running_ok_recount[OF r, of "[]" "wb_operations work @ lv_timeline (co_live c)"] True by (simp add: requeue_def)
  moreover have m: "same_room (co_live c) (requeue work (co_live c))" by (rule same_room_boundary)
  ultimately show ?thesis using j True room_ok_same[OF _ m] seats_room[OF _ m]
    by (simp add: timeline_inv_def phase_ok_def in_flight_ops_def same_room_def Let_def)
next
  case False
  have "timeline_inv now ex (c\<lparr>co_in_flight := None\<rparr>)" by (rule inv_drop_flight[OF inv_later[OF i t] False])
  then show ?thesis using False by (simp add: requeue_def timeline_inv_def phase_ok_def in_flight_ops_def Let_def)
qed

lemma inv_failed:
  assumes i: "timeline_inv t ex c" and t: "t \<le> now" and w: "co_in_flight c = Some work"
  shows "timeline_inv now ex (boundary_failed work answer c)"
proof -
  let ?c = "c\<lparr>co_live := requeue work (co_live c), co_in_flight := None\<rparr>"
  let ?d = "c\<lparr>co_live := requeue work (co_live c), co_failures := co_failures c + 1, co_in_flight := None\<rparr>"
  have "timeline_inv now ex ?d" using inv_requeue[OF i t w] by (subst inv_cong[where c = ?c]) simp_all
  then show ?thesis using inv_end(4)[of now ex ?d now answer] unfolding boundary_failed_def Let_def by simp
qed

lemma orders_prefix: "map f (xs @ ys) = [1..<n + 1] \<Longrightarrow> map f xs = [1..<length xs + 1]"
proof -
  assume e: "map f (xs @ ys) = [1..<n + 1]"
  have "length (map f (xs @ ys)) = n" unfolding e by simp
  then have l: "length xs \<le> n" by simp
  have "map f xs = take (length xs) (map f (xs @ ys))" by simp
  also have "... = [1..<length xs + 1]" unfolding e by (subst take_upt) (use l in simp_all)
  finally show ?thesis .
qed

lemma running_ok_mirrored: "running_ok t ex fl s \<Longrightarrow> running_ok t ex fl (mirrored w e s)"
proof -
  have "session_time t (mirrored w e s) = session_time t s" "ids (mirrored w e s) = ids s" "entries (mirrored w e s) A = entries s A"
    "lv_timeline (mirrored w e s) = lv_timeline s" "lv_next_order (mirrored w e s) = lv_next_order s"
    "lv_queued (mirrored w e s) = lv_queued s" "lv_queued_total (mirrored w e s) = lv_queued_total s" for A
    by (simp_all add: session_time_def mirrored_def ids_def entries_def Let_def)
  then show "running_ok t ex fl s \<Longrightarrow> ?thesis" unfolding running_ok_def by simp
qed

lemma reached_prefix: "\<exists>rest. wb_operations work = wb_operations (reached e work) @ rest \<and> (ex_finished e = None \<longrightarrow> rest = [])"
proof (cases "ex_finished e")
  case (Some f)
  obtain n t where f: "ex_finished e = Some (n, t)" using Some by (cases f) simp
  have "wb_operations (reached e work) = take n (wb_operations work)" by (simp add: reached_def f)
  then have "wb_operations work = wb_operations (reached e work) @ drop n (wb_operations work)" by (simp only: append_take_drop_id)
  then show ?thesis by (intro exI[of _ "drop n (wb_operations work)"] conjI) (simp_all only: f option.distinct simp_thms)
qed (simp add: reached_def)

lemma reached_same [simp]: "wb_acks (reached e w) = wb_acks w" "wb_game (reached e w) = wb_game w" "wb_participants (reached e w) = wb_participants w"
  by (simp_all add: reached_def split: option.split prod.split)

lemma inv_commit:
  assumes i: "timeline_inv t ex c" and t: "t \<le> now" and w: "co_in_flight c = Some work" and f: "fits work e"
    and ph: "lv_phase (co_live c) = Running" and k: "commit_boundary now (reached e work) e (co_live c) = (s', r)"
  shows "r = Committed" and "timeline_inv now (ex @ wb_operations (reached e work)) (c\<lparr>co_live := s', co_in_flight := None\<rparr>)"
proof -
  note j = inv_later[OF i t]
  have fl: "running_ok now ex (wb_operations work) (co_live c)" "flight_ok work (co_live c)"
    using j ph w by (simp_all add: timeline_inv_def phase_ok_def in_flight_ops_def Let_def)
  have ro: "room_ok (co_live c)" "seats (co_live c)" "\<not> lv_paused (co_live c)" using j ph by (simp_all add: timeline_inv_def)
  let ?ops = "wb_operations (reached e work)"
  obtain rest where rest: "wb_operations work = ?ops @ rest" "ex_finished e = None \<longrightarrow> rest = []" using reached_prefix by blast
  show rc: "r = Committed" using commit_accepted[OF f ph, of now] fl(2) k by (simp add: flight_ok_def)
  obtain s2 where c: "commit_ops now ?ops (ex_responses e) (ex_rejoins e) (mirrored (reached e work) e (co_live c)) = Some s2"
      "lv_phase s2 = Running" "s' = (if ex_finished e \<noteq> None then s2\<lparr>lv_phase := Finishing\<rparr> else acknowledge (reached e work) e s2)"
    by (rule commit_cases[of now "reached e work" e "co_live c"]) (use k rc in auto)
  let ?m = "mirrored (reached e work) e (co_live c)"
  have rm: "running_ok now ex (wb_operations work) ?m" by (rule running_ok_mirrored[OF fl(1)])
  have em: "entries ?m (ids ?m)" "\<forall>o'\<in>set ?ops. lo_participant o' \<in> ids ?m"
    using rm unfolding running_ok_def rest(1) by (simp_all add: ball_Un)
  have g2: "grows now ?m s2" by (rule grows_commit_ops[OF c(1) em])
  have np: "\<not> lv_paused ?m" using ro(3) by (simp add: mirrored_def)
  obtain ad where ad: "added now ad ?m s2" using g2 unfolding grows_def by blast
  have r2: "running_ok now ex (wb_operations work) s2" by (rule running_ok_added[OF rm order_refl np ad])
  have ro2: "room_ok s2" "seats s2" "\<not> lv_paused s2"
    using room_ok_same[OF room_ok_mirrored[OF ro(1)] grows_room[OF g2]] seats_room[OF _ grows_room[OF g2]] ro(2) np grows_room[OF g2]
    by (simp_all add: seats_simple mirrored_def same_room_def)
  have o2: "map lo_order (ex @ ?ops) = [1..<length (ex @ ?ops) + 1]"
    using orders_prefix[of lo_order "ex @ ?ops" "rest @ lv_timeline s2"] r2 unfolding running_ok_def rest(1) by (simp del: upt_Suc)
  show "timeline_inv now (ex @ ?ops) (c\<lparr>co_live := s', co_in_flight := None\<rparr>)"
  proof (cases "ex_finished e = None")
    case True
    have "running_ok now (ex @ ?ops) [] s2" using r2 rest True unfolding running_ok_def by (simp add: sorted_append)
    then have "timeline_inv now (ex @ ?ops) (c\<lparr>co_live := s2, co_in_flight := None\<rparr>)"
      using o2 c(2) ro2 by (simp add: timeline_inv_def phase_ok_def in_flight_ops_def Let_def del: upt_Suc)
    moreover have "grows now s2 (acknowledge (reached e work) e s2)"
    proof -
      have "fst ` set (wb_acks work) = set (map fst (wb_acks work))" by simp
      also have "... = ids ?m" using fl(2) by (simp add: flight_ok_def ids_def mirrored_def)
      finally have "fst ` set (wb_acks (reached e work)) = ids s2" using grows_ids[OF g2] by simp
      then show ?thesis by (intro grows_acknowledge entries_grows[OF em(1) g2]) simp
    qed
    ultimately have "timeline_inv now (ex @ ?ops) (c\<lparr>co_live := s2, co_in_flight := None, co_live := acknowledge (reached e work) e s2\<rparr>)"
      using c(2) by (intro inv_grows[where t = now]) simp_all
    then show ?thesis using c True
      by (subst (asm) inv_cong[where c = "c\<lparr>co_live := acknowledge (reached e work) e s2, co_in_flight := None\<rparr>"]) simp_all
  next
    case False
    then show ?thesis using c o2 ro2 by (simp add: timeline_inv_def phase_ok_def room_ok_finishing seats_def participant_of_def Let_def del: upt_Suc)
  qed
qed

lemma inv_finish_boundary:
  assumes i: "timeline_inv t ex c" and t: "t \<le> now"
  shows "timeline_inv now (ex @ committed now shutdown r1 r2 c) (finish_boundary now shutdown recorded r1 r2 answer c)"
proof (cases "co_in_flight c")
  case None
  then show ?thesis using inv_later[OF i t] by (simp add: finish_boundary_def committed_def)
next
  case w: (Some work)
  obtain ctx res where x: "execute (co_live c) work (co_context c) shutdown r1 r2 = (ctx, res)" by force
  let ?d = "c\<lparr>co_context := ctx\<rparr>"
  have id: "timeline_inv t ex ?d" "co_in_flight ?d = Some work" using i w by (simp_all add: inv_irrelevant)
  show ?thesis
  proof (cases res)
    case (Inl err)
    have "timeline_inv now ex (c\<lparr>co_context := ctx, co_live := requeue work (co_live c), co_in_flight := None\<rparr>)"
      using inv_requeue[OF id(1) t id(2)] by simp
    moreover have "timeline_inv now ex (c\<lparr>co_context := ctx, co_live := abort answer (co_live c), co_in_flight := None\<rparr>)"
    proof -
      have a: "timeline_inv now ex (?d\<lparr>co_live := abort answer (co_live ?d)\<rparr>)" by (rule inv_end(4)[OF id(1) t])
      have n: "lv_phase (abort answer s) \<noteq> Running" for s :: "'a live"
        by (auto simp: abort_def Let_def)
      show ?thesis using inv_drop_flight[OF a] n by simp
    qed
    ultimately show ?thesis using w x Inl inv_failed[OF id(1) t id(2)] by (simp add: finish_boundary_def committed_def Let_def)
  next
    case (Inr e)
    have f: "fits work e" using x Inr execute_fits by metis
    obtain s' r where k: "commit_boundary now (reached e work) e (co_live c) = (s', r)" by force
    have fin: "finish_boundary now shutdown recorded r1 r2 answer c = boundary_executed now recorded work e answer ?d"
      using w x Inr by (simp add: finish_boundary_def)
    show ?thesis
    proof (cases "lv_phase (co_live c) = Running")
      case True
      have "commit_boundary now (reached e work) e (co_live ?d) = (s', r)" "lv_phase (co_live ?d) = Running" using k True by simp_all
      note m = inv_commit[OF id(1) t id(2) f this(2,1)]
      have com: "committed now shutdown r1 r2 c = wb_operations (reached e work)" using w x Inr k m(1) by (simp add: committed_def)
      let ?e = "c\<lparr>co_context := ctx, co_live := s', co_in_flight := None\<rparr>"
      have ie: "timeline_inv now (ex @ wb_operations (reached e work)) ?e" using m(2) by simp
      show ?thesis
      proof (cases "ex_finished e")
        case None
        have "timeline_inv now (ex @ wb_operations (reached e work)) (c\<lparr>co_context := ctx, co_live := end_if_abandoned answer s', co_in_flight := None, co_failures := 0\<rparr>)"
          using inv_end(3)[OF ie order_refl, of answer] by (subst inv_cong[where c = "?e\<lparr>co_live := end_if_abandoned answer s'\<rparr>"]) simp_all
        then show ?thesis using None k m(1) unfolding fin com boundary_executed_def Let_def by simp
      next
        case (Some p)
        have "timeline_inv now (ex @ wb_operations (reached e work)) (?e\<lparr>co_failures := 0, co_context := False,
             co_finishing := Some \<lparr>fg_work = reached e work, fg_executed = e, fg_recorded = False, fg_failures = 0\<rparr>\<rparr>)"
          using ie by (simp only: inv_irrelevant)
        from inv_finish_game[OF this order_refl] show ?thesis using Some k m(1) unfolding fin com boundary_executed_def Let_def by simp
      qed
    next
      case False
      then have "commit_boundary now (reached e work) e (co_live c) = (co_live c, Commit_not_running)" by (simp add: commit_boundary_def)
      moreover have "timeline_inv now ex (?d\<lparr>co_in_flight := None\<rparr>)" using inv_drop_flight[OF inv_later[OF id(1) t]] False by simp
      ultimately show ?thesis using w x Inr unfolding fin committed_def boundary_executed_def Let_def by simp
    qed
  qed
qed

lemma unplayed_new: "unplayed (new_live rules grace limits)"
  by (simp add: unplayed_def entries_def new_live_def)

lemma inv_new: "timeline_inv now [] (new_controller rules grace limits)"
proof -
  have "lv_phase (new_live rules grace limits) = Lobby" "seats (new_live rules grace limits)" "\<not> lv_paused (new_live rules grace limits)"
    by (simp_all add: new_live_def seats_def new_connection_def)
  then show ?thesis using unplayed_new[of rules grace limits] room_ok_new[of rules grace limits] by (simp add: timeline_inv_def phase_ok_def new_controller_def Let_def)
qed

lemma inv_turn: "turn F now c ops c' \<Longrightarrow> timeline_inv t ex c \<Longrightarrow> t \<le> now \<Longrightarrow> timeline_inv now (ex @ ops) c'"
  by (erule turnE) (auto simp: inv_handle inv_start_boundary inv_finish_boundary)

lemma inv_reaches: "reaches F c executed now \<Longrightarrow> timeline_inv now executed c"
  by (induction rule: reaches.induct) (auto intro: inv_new inv_turn)

end
