(* ===== verification/LiveQueue.thy ===== *)
theory LiveQueue
  imports LiveTimeline
begin

section \<open>The timeline as a queue\<close>

text \<open>
  What is outstanding leaves at the front only by being executed and joins at the end, and what joins is
  bounded: the properties of the timeline a Session rests on.
\<close>

subsection \<open>How a turn changes the timeline\<close>

lemma taken_few:
  "0 < ll_boundary_operations (lv_limits s) \<Longrightarrow> int (bp_taken (planned_end now s)) \<le> ll_boundary_operations (lv_limits s)"
  by (auto simp: planned_end_def plan_def Let_def)

text \<open>
  \<open>extends s s'\<close>: operations joined at the end, either the platform's own or one a player sent while the
  queues had room.
\<close>

definition admitted :: "live_op list \<Rightarrow> 'f live \<Rightarrow> bool" where
  "admitted ops s \<longleftrightarrow> list_all (\<lambda>o'. \<not> lo_from_player o') ops
     \<or> (\<exists>o'. ops = [o'] \<and> timeline_room (lo_participant o') s = None)"

definition extends :: "'f live \<Rightarrow> 'f live \<Rightarrow> bool" where
  "extends s s' \<longleftrightarrow> lv_limits s' = lv_limits s \<and> (\<exists>ops. lv_timeline s' = lv_timeline s @ ops \<and> admitted ops s)"

lemma extends_refl: "extends s s"
  by (simp add: extends_def admitted_def)

lemma extends_grows: "grows now s s' \<Longrightarrow> extends s s'"
  unfolding grows_def added_def extends_def admitted_def same_room_def by blast

lemma grows_new:
  assumes "grows now s s'"
  obtains ops where "lv_timeline s' = lv_timeline s @ ops" "list_all (\<lambda>o'. \<not> lo_from_player o') ops" "lv_limits s' = lv_limits s"
  using assms unfolding grows_def added_def same_room_def by blast

lemma extends_accepts: "accepts now s s' \<Longrightarrow> extends s s'"
  unfolding accepts_def added_def extends_def admitted_def same_room_def by fastforce

lemma extends_calm: "calm s s' \<Longrightarrow> extends s s'"
  unfolding calm_def extends_def admitted_def by simp

lemma extends_calm_after: "extends s s' \<Longrightarrow> calm s' s'' \<Longrightarrow> extends s s''"
  unfolding calm_def extends_def by simp

lemma ended_end_session: "lv_phase (end_session answer f s) \<noteq> Ended \<Longrightarrow> end_session answer f s = s"
  by (auto simp: end_session_def split: db_end.splits if_splits)

lemma handle_extends:
  assumes i: "timeline_inv t ex c" and ph: "lv_phase (co_live c) = Running" and n: "lv_phase (handle F now r (co_live c)) = Running"
  shows "extends (co_live c) (handle F now r (co_live c))"
proof -
  have e: "entries (co_live c) (ids (co_live c))" and s: "seats (co_live c)" using inv_running[OF i ph] by blast+
  have gone: "lv_presence (co_live c) p \<noteq> None \<Longrightarrow> p \<in> ids (co_live c)" for p using e by (auto simp: entries_def)
  show ?thesis
  proof (cases r)
    case (Rq_drop_player conn)
    then show ?thesis using ph extends_grows[OF grows_trans[OF grows_detach[OF e] grows_on_conn]] by (simp add: disconnect_player_def)
  next
    case (Rq_leave conn)
    have "grows now (co_live c) (fst (leave_session F now conn (co_live c)))"
      using ph grows_trans[OF grows_disconnect[OF e gone] grows_on_conn[where f = "end_connection End_left"]]
        grows_on_conn[where f = "end_connection End_left"]
      unfolding leave_session_def Let_def by (auto split: option.split)
    then show ?thesis using Rq_leave by (simp add: extends_grows)
  next
    case (Rq_sample conn sequence inputs)
    then show ?thesis using extends_accepts[OF accepts_sample[OF e plays_ids[OF s]]] by simp
  next
    case (Rq_command conn token name payload)
    then show ?thesis using extends_accepts[OF accepts_command[OF e plays_ids[OF s]]] by simp
  next
    case (Rq_rejoin user)
    then show ?thesis using extends_grows[OF grows_ask_rejoin] by simp
  next
    case (Rq_reattach user display signed)
    show ?thesis
    proof (rule reattach_cases[of F now user display signed "co_live c"])
      fix p st
      assume g: "participant_of user (co_live c) = Some p"
        "fst (reattach_player F now user display signed (co_live c)) = after_attach user display p st (before_attach F now user p (co_live c))"
      have p: "p \<in> ids (co_live c)" by (rule participant_of_ids[OF g(1)])
      note b = grows_before_attach[OF e p, of now F user]
      have "p \<in> dom (lv_inputs (before_attach F now user p (co_live c)))"
        using entries_grows[OF e b] grows_ids[OF b] p by (simp add: entries_def)
      then show ?thesis using Rq_reattach g(2) extends_calm_after[OF extends_grows[OF b] calm_after_attach(1)] by simp
    qed (use Rq_reattach in \<open>simp add: extends_refl\<close>)
  next
    case (Rq_end answer)
    then have "handle F now r (co_live c) = co_live c" using n ended_end_session[of answer id "co_live c"] by simp
    then show ?thesis by (simp add: extends_refl)
  qed (use ph n in \<open>auto simp: extends_calm extends_refl calm_tells tells_resync tells_resync_admin
      calm_join calm_register calm_drop_admin calm_perspective calm_begin calm_cancel complete_start_def retire_def\<close>)
qed

text \<open>
  \<open>queues c ops c'\<close>: the operations \<open>ops\<close> left at the front of what was outstanding and others, admitted,
  joined at the end; \<open>light c\<close>: what is in flight is one boundary.
\<close>

definition light :: "'f controller \<Rightarrow> bool" where
  "light c \<longleftrightarrow> (0 < ll_boundary_operations (lv_limits (co_live c)) \<longrightarrow> int (length (in_flight_ops c)) \<le> ll_boundary_operations (lv_limits (co_live c)))"

definition queues :: "'f controller \<Rightarrow> live_op list \<Rightarrow> 'f controller \<Rightarrow> bool" where
  "queues c ops c' \<longleftrightarrow> lv_limits (co_live c') = lv_limits (co_live c) \<and> (in_flight_ops c' = in_flight_ops c \<or> light c')
     \<and> (\<exists>new. ops @ outstanding c' = outstanding c @ new \<and> admitted new (co_live c))"

lemma queuesI:
  "lv_limits (co_live c') = lv_limits (co_live c) \<Longrightarrow> in_flight_ops c' = in_flight_ops c \<or> light c'
   \<Longrightarrow> ops @ outstanding c' = outstanding c @ new \<Longrightarrow> admitted new (co_live c) \<Longrightarrow> queues c ops c'"
  unfolding queues_def by blast

lemma light_none: "in_flight_ops c = [] \<Longrightarrow> light c"
  by (simp add: light_def)

lemma admitted_none: "list_all (\<lambda>o'. \<not> lo_from_player o') ops \<Longrightarrow> admitted ops s"
  by (simp add: admitted_def)

lemma queues_extends: "extends (co_live c) s' \<Longrightarrow> queues c [] (c\<lparr>co_live := s'\<rparr>)"
  by (auto simp: extends_def queues_def outstanding_def in_flight_ops_def)

lemma queues_refl: "queues c [] c"
  by (rule queuesI[where new = "[]"]) (simp_all add: admitted_none)

lemma outstanding_cong: "lv_timeline (co_live c') = lv_timeline (co_live c) \<Longrightarrow> co_in_flight c' = co_in_flight c \<Longrightarrow> outstanding c' = outstanding c"
  by (simp add: outstanding_def in_flight_ops_def)

lemma running_abandoned: "lv_phase (end_if_abandoned answer s) = Running \<Longrightarrow> end_if_abandoned answer s = s"
  by (auto simp: end_if_abandoned_def end_session_def split: db_end.splits if_splits)

lemma running_abort: "lv_phase (abort answer s) \<noteq> Running"
  by (auto simp: abort_def Let_def)

lemma queues_finish_game: "lv_phase (co_live (finish_game recorded answer c)) = Running \<Longrightarrow> queues c [] (finish_game recorded answer c)"
  by (auto simp: admitted_none finish_game_def Let_def queues_def outstanding_def in_flight_ops_def end_session_def split: option.splits db_end.splits if_splits)

lemma queues_start:
  assumes i: "timeline_inv t ex c" and ph: "lv_phase (co_live c) = Running"
    and n: "lv_phase (co_live (start_boundary F now recorded answer c)) = Running"
  shows "queues c [] (start_boundary F now recorded answer c)"
proof (cases "co_in_flight c = None \<and> co_finishing c = None")
  case False
  then show ?thesis using n queues_finish_game[of recorded answer c] queues_refl[of c] by (auto simp: start_boundary_def split: if_splits)
next
  case True
  define s1 where "s1 = expire_graces F now (co_live c)"
  have np: "\<not> lv_paused (co_live c)" using i ph by (simp add: timeline_inv_def)
  have e: "entries (co_live c) (ids (co_live c))" using inv_running[OF i ph] by blast
  have "grows now (co_live c) s1" unfolding s1_def by (rule grows_expire[OF e])
  then obtain new where new: "lv_timeline s1 = lv_timeline (co_live c) @ new" "list_all (\<lambda>o'. \<not> lo_from_player o') new"
      "lv_limits s1 = lv_limits (co_live c)" by (rule grows_new)
  let ?w = "work_taken now s1"
  let ?s2 = "left_waiting now s1"
  have split: "wb_operations ?w @ lv_timeline ?s2 = lv_timeline s1"
    by (simp add: work_taken_def left_waiting_def recount_def Let_def split: prod.split)
  have lim: "lv_limits ?s2 = lv_limits s1" using waiting_room[of s1 now] by (simp add: same_room_def)
  have few: "0 < ll_boundary_operations (lv_limits s1) \<Longrightarrow> int (length (wb_operations ?w)) \<le> ll_boundary_operations (lv_limits s1)"
    using taken_few[of s1 now] by (simp add: work_taken_def Let_def)
  have k: "start_boundary F now recorded answer c =
      (if wb_operations ?w = [] \<and> \<not> wb_update ?w
       then c\<lparr>co_flush := drop (bp_taken (planned_end now s1)) (lv_timeline s1) \<noteq> [], co_live := end_if_abandoned answer (acknowledge_only ?w ?s2)\<rparr>
       else c\<lparr>co_flush := drop (bp_taken (planned_end now s1)) (lv_timeline s1) \<noteq> [], co_live := ?s2, co_in_flight := Some ?w\<rparr>)"
    using True unfolding start_boundary_def take_boundary_eq[OF ph np] Let_def s1_def[symmetric] by simp
  show ?thesis
  proof (cases "wb_operations ?w = [] \<and> \<not> wb_update ?w")
    case idle: True
    have "entries s1 (ids s1)" unfolding s1_def by (rule entries_grows[OF e grows_expire[OF e]])
    then have e2: "entries ?s2 (ids ?s2)" by (simp add: entries_def left_waiting_def recount_def ids_def Let_def split: prod.split)
    have "grows now ?s2 (acknowledge_only ?w ?s2)" by (rule grows_acknowledge_only[OF e2 work_taken_flight])
    then obtain new2 where n2: "lv_timeline (acknowledge_only ?w ?s2) = lv_timeline ?s2 @ new2" "list_all (\<lambda>o'. \<not> lo_from_player o') new2"
        "lv_limits (acknowledge_only ?w ?s2) = lv_limits ?s2" by (rule grows_new)
    have "end_if_abandoned answer (acknowledge_only ?w ?s2) = acknowledge_only ?w ?s2"
      using n k idle by (intro running_abandoned) simp
    then show ?thesis using True idle split new n2 lim unfolding k
      by (intro queuesI[where new = "new @ new2"]) (simp_all add: outstanding_def in_flight_ops_def admitted_none)
  next
    case False
    then show ?thesis using True split new lim few unfolding k
      by (intro queuesI[where new = new]) (auto simp: outstanding_def in_flight_ops_def admitted_none light_def)
  qed
qed

lemma queues_requeue: "co_in_flight c = Some work \<Longrightarrow> lv_phase (co_live c) = Running \<Longrightarrow> outstanding (c\<lparr>co_live := requeue work (co_live c), co_in_flight := None\<rparr>) = outstanding c"
  by (simp add: requeue_def recount_def outstanding_def in_flight_ops_def Let_def split: prod.split)

lemma running_requeue: "lv_phase (requeue work s) = lv_phase s" "lv_limits (requeue work s) = lv_limits s"
  using same_room_boundary(2)[of s work] by (simp_all add: same_room_def)

lemma queues_back:
  assumes "co_in_flight c = Some work" "lv_phase (co_live c) = Running" "co_live c' = requeue work (co_live c)" "co_in_flight c' = None"
  shows "queues c [] c'"
proof (rule queuesI[where new = "[]"])
  have "outstanding c' = outstanding (c\<lparr>co_live := requeue work (co_live c), co_in_flight := None\<rparr>)"
    using assms by (simp add: outstanding_def in_flight_ops_def)
  then show "[] @ outstanding c' = outstanding c @ []" using queues_requeue[OF assms(1,2)] by simp
qed (use assms in \<open>simp_all add: running_requeue admitted_none light_none in_flight_ops_def\<close>)

lemma queues_failed:
  assumes "co_in_flight c = Some work" "lv_phase (co_live (boundary_failed work answer c)) = Running"
  shows "queues c [] (boundary_failed work answer c)"
proof -
  have "lv_phase (co_live c) = Running \<and> co_live (boundary_failed work answer c) = requeue work (co_live c) \<and> co_in_flight (boundary_failed work answer c) = None"
    using assms(2) by (auto simp: boundary_failed_def Let_def running_abort running_requeue split: if_splits)
  then show ?thesis using queues_back[OF assms(1)] by blast
qed

lemma queues_executed:
  assumes i: "timeline_inv t ex c" and t: "t \<le> now" and w: "co_in_flight c = Some work" and f: "fits work e"
    and n: "lv_phase (co_live (boundary_executed now recorded work e answer c)) = Running"
  shows "queues c (wb_operations (reached e work)) (boundary_executed now recorded work e answer c)"
    and "snd (commit_boundary now (reached e work) e (co_live c)) = Committed"
    and "in_flight_ops (boundary_executed now recorded work e answer c) = []"
proof -
  obtain s' r where k: "commit_boundary now (reached e work) e (co_live c) = (s', r)" by force
  have ph: "lv_phase (co_live c) = Running"
  proof (rule ccontr)
    assume "lv_phase (co_live c) \<noteq> Running"
    then show False using n by (simp add: boundary_executed_def commit_boundary_def)
  qed
  have rc: "r = Committed" by (rule inv_commit(1)[OF i t w f ph k])
  then show "snd (commit_boundary now (reached e work) e (co_live c)) = Committed" using k by simp
  obtain s2 where c: "commit_ops now (wb_operations (reached e work)) (ex_responses e) (ex_rejoins e) (mirrored (reached e work) e (co_live c)) = Some s2"
      "lv_phase s2 = Running" "s' = (if ex_finished e \<noteq> None then s2\<lparr>lv_phase := Finishing\<rparr> else acknowledge (reached e work) e s2)"
    by (rule commit_cases[of now "reached e work" e "co_live c"]) (use k rc in auto)
  have none: "ex_finished e = None"
  proof (rule ccontr)
    assume "ex_finished e \<noteq> None"
    then show False using n k rc c(2,3)
      by (auto simp: boundary_executed_def Let_def finish_game_def end_session_def split: db_end.splits if_splits)
  qed
  have b: "boundary_executed now recorded work e answer c = c\<lparr>co_live := s', co_in_flight := None, co_failures := 0\<rparr>"
    using n none k rc running_abandoned[of answer s'] by (simp add: boundary_executed_def Let_def)
  then show "in_flight_ops (boundary_executed now recorded work e answer c) = []" by (simp add: in_flight_ops_def)
  have full: "wb_operations (reached e work) = wb_operations work" using none by (simp add: reached_def)
  have j: "running_ok t ex (wb_operations work) (co_live c)" "flight_ok work (co_live c)"
    using i ph w by (simp_all add: timeline_inv_def phase_ok_def in_flight_ops_def Let_def)
  let ?m = "mirrored (reached e work) e (co_live c)"
  have rm: "running_ok t ex (wb_operations work) ?m" by (rule running_ok_mirrored[OF j(1)])
  have em: "entries ?m (ids ?m)" "\<forall>o'\<in>set (wb_operations (reached e work)). lo_participant o' \<in> ids ?m"
    using rm unfolding running_ok_def full by (simp_all add: ball_Un)
  note g2 = grows_commit_ops[OF c(1) em, of now]
  have "fst ` set (wb_acks work) = set (map fst (wb_acks work))" by simp
  also have "... = ids ?m" using j(2) by (simp add: flight_ok_def ids_def mirrored_def)
  finally have a: "fst ` set (wb_acks (reached e work)) \<subseteq> ids s2" using grows_ids[OF g2] by simp
  have "grows now s2 (acknowledge (reached e work) e s2)" by (rule grows_acknowledge[OF entries_grows[OF em(1) g2] a])
  then have "grows now ?m s'" using grows_trans[OF g2] c(3) none by simp
  then obtain new where new: "lv_timeline s' = lv_timeline ?m @ new" "list_all (\<lambda>o'. \<not> lo_from_player o') new" "lv_limits s' = lv_limits ?m"
    by (rule grows_new)
  then show "queues c (wb_operations (reached e work)) (boundary_executed now recorded work e answer c)"
    unfolding b full using w
    by (intro queuesI[where new = new]) (simp_all add: outstanding_def in_flight_ops_def admitted_none mirrored_def light_none)
qed

lemma queues_cong:
  "co_live d = co_live c \<Longrightarrow> co_in_flight d = co_in_flight c \<Longrightarrow> queues d ops c' = queues c ops c'"
  by (simp add: queues_def outstanding_def in_flight_ops_def)

lemma queues_finish:
  assumes i: "timeline_inv t ex c" and t: "t \<le> now"
    and n: "lv_phase (co_live (finish_boundary now shutdown recorded r1 r2 answer c)) = Running"
  shows "queues c (committed now shutdown r1 r2 c) (finish_boundary now shutdown recorded r1 r2 answer c)"
proof (cases "co_in_flight c")
  case None
  then show ?thesis by (simp add: finish_boundary_def committed_def queues_refl)
next
  case w: (Some work)
  obtain ctx res where x: "execute (co_live c) work (co_context c) shutdown r1 r2 = (ctx, res)" by force
  let ?d = "c\<lparr>co_context := ctx\<rparr>"
  have q: "queues ?d ops c' = queues c ops c'" for ops c' by (rule queues_cong) simp_all
  show ?thesis
  proof (cases res)
    case (Inl err)
    have com: "committed now shutdown r1 r2 c = []" using w x Inl by (simp add: committed_def)
    have fin: "finish_boundary now shutdown recorded r1 r2 answer c =
      (if shutdown then ?d\<lparr>co_live := requeue work (co_live c), co_in_flight := None\<rparr>
       else if err = Failed_script then ?d\<lparr>co_live := abort answer (co_live c), co_in_flight := None\<rparr>
       else boundary_failed work answer ?d)"
      using w x Inl by (simp add: finish_boundary_def Let_def)
    have "shutdown \<Longrightarrow> lv_phase (co_live c) = Running" using n fin by (simp add: running_requeue)
    then have "shutdown \<Longrightarrow> queues c [] (?d\<lparr>co_live := requeue work (co_live c), co_in_flight := None\<rparr>)"
      using queues_back[OF w] by simp
    moreover have "\<not> shutdown \<Longrightarrow> err \<noteq> Failed_script \<Longrightarrow> queues c [] (boundary_failed work answer ?d)"
      using queues_failed[of ?d work answer] n fin w q by simp
    ultimately show ?thesis using n unfolding com fin by (auto simp: running_abort)
  next
    case (Inr e)
    have f: "fits work e" using x Inr execute_fits by metis
    have fin: "finish_boundary now shutdown recorded r1 r2 answer c = boundary_executed now recorded work e answer ?d"
      using w x Inr by (simp add: finish_boundary_def)
    have d: "timeline_inv t ex ?d" "co_in_flight ?d = Some work" using i w by (simp_all add: inv_irrelevant)
    note qe = queues_executed[OF d(1) t d(2) f n[unfolded fin]]
    have "committed now shutdown r1 r2 c = wb_operations (reached e work)"
      using w x Inr qe(2) by (auto simp: committed_def split: prod.split)
    then show ?thesis using qe(1) q unfolding fin by simp
  qed
qed

lemma turn_queues:
  assumes "timeline_inv t ex c" "t \<le> now" "turn F now c ops c'" "lv_phase (co_live c) = Running" "lv_phase (co_live c') = Running"
  shows "queues c ops c'"
  using assms(3)
proof (cases rule: turn.cases)
  case (turn_request r)
  then show ?thesis using queues_extends[OF handle_extends[OF assms(1,4)]] assms(5) by simp
next
  case (turn_start recorded answer)
  then show ?thesis using queues_start[OF assms(1,4)] assms(5) by simp
next
  case (turn_finish shutdown r1 r2 recorded answer)
  then show ?thesis using queues_finish[OF assms(1,2)] assms(5) by simp
qed

lemma reaches_running:
  assumes "reaches F c executed now" "lv_phase (co_live c) = Running"
  shows "running_ok now executed (in_flight_ops c) (co_live c)" "\<And>w. co_in_flight c = Some w \<Longrightarrow> flight_ok w (co_live c)"
    "room_ok (co_live c)" "seats (co_live c)" "\<not> lv_paused (co_live c)"
  using inv_reaches[OF assms(1)] assms(2) by (simp_all add: timeline_inv_def phase_ok_def Let_def)

text \<open>
  C2: the timeline is a queue, and nothing in it is lost, repeated or reordered. While a game runs, any
  turn of its controller only takes executed operations off the front of what is outstanding, whether a
  boundary is in flight, failed and was put back, or was retried, and adds new ones at the end; and the
  operations executed since the game started, followed by those outstanding, are all those ever accepted,
  in the order they were accepted.
\<close>

theorem timeline_exactly_once:
  assumes "reaches F c executed now" "lv_phase (co_live c) = Running"
  shows "map lo_order (executed @ outstanding c) = [1..<lv_next_order (co_live c) + 1]
    \<and> (\<forall>later ops c'. now \<le> later \<and> turn F later c ops c' \<and> lv_phase (co_live c') = Running
      \<longrightarrow> (\<exists>new. ops @ outstanding c' = outstanding c @ new))"
proof -
  have "map lo_order (executed @ outstanding c) = [1..<lv_next_order (co_live c) + 1]"
    using reaches_running(1)[OF assms] unfolding running_ok_def outstanding_def by blast
  then show ?thesis using turn_queues[OF inv_reaches[OF assms(1)] _ _ assms(2)] unfolding queues_def by blast
qed

theorem timeline_exactly_once_witness:
  "map lo_order ([] @ outstanding sample_waiting) = [1..<4] \<and> [] @ outstanding sample_waiting = outstanding sample_waiting @ []"
  using timeline_exactly_once[OF reaches_sample_waiting waiting_runs(1)] waiting_runs(4) by simp

subsection \<open>What a boundary in flight executes\<close>

text \<open>
  C8: the boundary in flight can always be executed: the batch of its operations exists (building it never
  panics), calls the game for exactly those operations, in order, then \<open>update()\<close> if it ends with it, at
  times that never go back behind the confirmed game; whatever the sandbox answers, an execution that
  succeeds follows the confirmed game and is committed, never refused as out of step.
\<close>

theorem flight_executes:
  assumes "reaches F c executed now" "lv_phase (co_live c) = Running" "co_in_flight c = Some work"
  shows "(\<exists>ops orders. batch_of (co_live c) work = Some (ops, orders)
      \<and> concat (map calls_of ops) = map call_of (planned (co_live c) (wb_operations work)) @ (if wb_update work then [Call_update] else [])
      \<and> sorted (gm_through (lv_game (co_live c)) # map so_time ops))
    \<and> (\<forall>shutdown r1 r2 later e. snd (execute (co_live c) work (co_context c) shutdown r1 r2) = Inr e
        \<longrightarrow> gm_revision (ex_game e) = gm_revision (lv_game (co_live c)) + 1
          \<and> snd (commit_boundary later (reached e work) e (co_live c)) = Committed)"
proof -
  note r = reaches_running[OF assms(1,2)]
  have g: "wb_game work = lv_game (co_live c)" using r(2)[OF assms(3)] by (simp add: flight_ok_def)
  have "[] \<notin> ids (co_live c)" using room_okD(8)[OF r(3)] assms(2) by (simp add: roster_ok_def ids_def)
  moreover have "\<forall>o'\<in>set (wb_operations work). lo_participant o' \<in> ids (co_live c)"
    using r(1) assms(3) unfolding running_ok_def by (simp add: in_flight_ops_def)
  ultimately have n: "list_all named (planned (co_live c) (wb_operations work))"
    by (auto simp: list_all_iff named_def planned_def planned_op_def)
  have e: "gm_revision (ex_game e) = gm_revision (lv_game (co_live c)) + 1 \<and> snd (commit_boundary later (reached e work) e (co_live c)) = Committed"
    if "snd (execute (co_live c) work (co_context c) shutdown r1 r2) = Inr e" for shutdown r1 r2 later e
  proof -
    have f: "fits work e" using execute_fits that by (metis prod.collapse)
    then show ?thesis using commit_accepted[OF f assms(2) g] g by (simp add: fits_def)
  qed
  show ?thesis using batch_of_timeline[OF n, of "\<lparr>bp_taken = length (wb_operations work), bp_time = wb_time work, bp_update = wb_update work\<rparr>"
      "gm_through (lv_game (co_live c))"] e unfolding batch_of_def g by auto
qed

theorem flight_executes_witness:
  "\<exists>work ops orders. co_in_flight sample_waiting = Some work \<and> batch_of (co_live sample_waiting) work = Some (ops, orders)
    \<and> concat (map calls_of ops) = map call_of (planned (co_live sample_waiting) (wb_operations work)) @ (if wb_update work then [Call_update] else [])"
proof -
  have "co_in_flight sample_waiting \<noteq> None" by code_simp
  then obtain work where w: "co_in_flight sample_waiting = Some work" by blast
  show ?thesis using flight_executes[OF reaches_sample_waiting waiting_runs(1) w] w by blast
qed

subsection \<open>Bounds of the queue\<close>

definition player_ops :: "live_op list \<Rightarrow> int" where
  "player_ops ops = int (length (filter lo_from_player ops))"

definition player_ops_of :: "string \<Rightarrow> live_op list \<Rightarrow> int" where
  "player_ops_of p ops = int (length (filter (\<lambda>o'. lo_from_player o' \<and> lo_participant o' = p) ops))"

lemma count_ops: "fold count_op ops (q, n) = (\<lambda>p. q p + player_ops_of p ops, n + player_ops ops)"
  by (induction ops arbitrary: q n) (auto simp: count_op_def player_ops_def player_ops_of_def)

lemma player_ops_append [simp]: "player_ops (xs @ ys) = player_ops xs + player_ops ys" "player_ops_of p (xs @ ys) = player_ops_of p xs + player_ops_of p ys"
  by (simp_all add: player_ops_def player_ops_of_def)

lemma player_ops_nonneg: "0 \<le> player_ops xs" "0 \<le> player_ops_of p xs"
  by (simp_all add: player_ops_def player_ops_of_def)

lemma player_ops_length: "player_ops xs \<le> int (length xs)" "player_ops_of p xs \<le> int (length xs)"
  by (simp_all add: player_ops_def player_ops_of_def)

lemma running_counts:
  "running_ok t ex fl s \<Longrightarrow> lv_queued_total s = player_ops (lv_timeline s) \<and> lv_queued s p = player_ops_of p (lv_timeline s)"
proof -
  assume "running_ok t ex fl s"
  then have "lv_queued s = (\<lambda>p. player_ops_of p (lv_timeline s)) \<and> lv_queued_total s = player_ops (lv_timeline s)"
    unfolding running_ok_def count_ops by auto
  then show ?thesis by simp
qed

text \<open>A game begins with nothing outstanding.\<close>

lemma stage_running: "same_stage s s' \<Longrightarrow> lv_phase s \<noteq> Running \<Longrightarrow> lv_phase s' \<noteq> Running"
  by (auto simp: same_stage_def)

lemma stage_disconnect: "lv_phase s \<noteq> Running \<Longrightarrow> same_stage s (disconnect_player F now conn s)"
  unfolding disconnect_player_def using calm_leave_lobby(2)[of s conn]
  by (intro stage_on_conn) (auto simp: same_stage_def split: phase.split)

lemma leave_stays: "lv_phase s \<noteq> Running \<Longrightarrow> lv_phase (fst (leave_session F now conn s)) \<noteq> Running"
  using stage_running[OF stage_on_conn[OF calm_leave_lobby(2)[of s conn]]]
  by (auto simp: leave_session_def on_conn_def set_conn_def Let_def split: phase.splits option.splits)

lemma handle_starting:
  assumes n: "lv_phase s \<noteq> Running" and r: "lv_phase (handle F now r s) = Running"
  shows "lv_phase s = Starting \<and> (\<exists>w ps g f v res. r = Rq_complete_start w ps g f v res)"
proof (cases r)
  case (Rq_complete_start w ps g f v res)
  then show ?thesis using n r by (auto simp: complete_start_def split: if_splits)
qed (use n r in \<open>auto simp: stage_running[OF calm_join(2)] stage_running[OF calm_register(2)] stage_running[OF calm_drop_admin(2)]
      stage_running[OF stage_disconnect] stage_running[OF calm_perspective(2)] stage_running[OF calm_begin(2)] stage_running[OF calm_cancel(2)]
      leave_stays take_sample_def accept_command_def ask_rejoin_def reattach_player_def
      resync_def resync_admin_def retire_def end_session_def Let_def split: option.splits db_end.splits if_splits\<close>)

lemma handle_begins:
  assumes n: "lv_phase s \<noteq> Running" and r: "lv_phase (handle F now r s) = Running" and k: "unplayed s" "room_ok s" "seats s" and a: "admissible r s"
    and st: "lv_phase s = Starting \<Longrightarrow> roster_ok (lv_participants s)"
  shows "lv_timeline (handle F now r s) = []"
proof -
  obtain w ps g f v res where q: "lv_phase s = Starting" "r = Rq_complete_start w ps g f v res" using handle_starting[OF n r] by blast
  have "roster_ok ps" using a st[OF q(1)] q(2) by (auto split: option.splits)
  from completed(1)[OF q(1) k(2,3) this _ refl] k(1) show ?thesis
    unfolding q by (simp add: unplayed_def idle_def game_begins_def)
qed

lemma start_stays: "lv_phase (co_live c) \<noteq> Running \<Longrightarrow> lv_phase (co_live (start_boundary F now recorded answer c)) \<noteq> Running"
  by (auto simp: start_boundary_def take_boundary_not_running finish_game_def end_session_def Let_def split: option.splits db_end.splits if_splits)

lemma finish_stays:
  assumes "lv_phase (co_live c) \<noteq> Running"
  shows "lv_phase (co_live (finish_boundary now shutdown recorded r1 r2 answer c)) \<noteq> Running"
proof -
  have c: "commit_boundary now w e (co_live c) = (co_live c, Commit_not_running)" for w e using assms by (simp add: commit_boundary_def)
  show ?thesis using assms
    by (auto simp: finish_boundary_def boundary_executed_def boundary_failed_def c running_requeue running_abort Let_def
        split: option.splits prod.splits sum.splits)
qed

definition bounded :: "'f controller \<Rightarrow> bool" where
  "bounded c \<longleftrightarrow> (let l = lv_limits (co_live c) in
     int (length (in_flight_ops c)) \<le> ll_boundary_operations l
     \<and> player_ops (outstanding c) \<le> max 0 (ll_pending_per_session l) + ll_boundary_operations l
     \<and> (\<forall>p. player_ops_of p (outstanding c) \<le> max 0 (ll_pending_per_participant l) + ll_boundary_operations l))"

lemma boundedI:
  assumes "int (length (in_flight_ops c)) \<le> ll_boundary_operations (lv_limits (co_live c))"
    "player_ops (outstanding c) \<le> max 0 (ll_pending_per_session (lv_limits (co_live c))) + ll_boundary_operations (lv_limits (co_live c))"
    "\<And>p. player_ops_of p (outstanding c) \<le> max 0 (ll_pending_per_participant (lv_limits (co_live c))) + ll_boundary_operations (lv_limits (co_live c))"
  shows "bounded c"
  using assms by (simp add: bounded_def Let_def)

lemma admitted_bounds:
  assumes r: "running_ok t ex (in_flight_ops c) (co_live c)" and b: "bounded c" and a: "admitted new (co_live c)"
  defines "l \<equiv> lv_limits (co_live c)"
  shows "player_ops (outstanding c @ new) \<le> max 0 (ll_pending_per_session l) + ll_boundary_operations l"
    "player_ops_of p (outstanding c @ new) \<le> max 0 (ll_pending_per_participant l) + ll_boundary_operations l"
proof -
  note q = running_counts[OF r]
  have f: "player_ops (in_flight_ops c) \<le> ll_boundary_operations l" "player_ops_of p (in_flight_ops c) \<le> ll_boundary_operations l" for p
    using b by (auto simp: bounded_def l_def Let_def intro: order_trans[OF player_ops_length(1)] order_trans[OF player_ops_length(2)])
  have o': "player_ops (outstanding c) \<le> max 0 (ll_pending_per_session l) + ll_boundary_operations l"
    "player_ops_of p (outstanding c) \<le> max 0 (ll_pending_per_participant l) + ll_boundary_operations l" for p
    using b by (simp_all add: bounded_def l_def Let_def)
  have k: "player_ops (outstanding c @ new) \<le> max 0 (ll_pending_per_session l) + ll_boundary_operations l
    \<and> player_ops_of p (outstanding c @ new) \<le> max 0 (ll_pending_per_participant l) + ll_boundary_operations l"
  proof (cases "list_all (\<lambda>o'. \<not> lo_from_player o') new")
    case True
    then have "player_ops new = 0" "player_ops_of p new = 0" by (auto simp: player_ops_def player_ops_of_def list_all_iff)
    then show ?thesis using o' by simp
  next
    case False
    then obtain o1 where "new = [o1]" "timeline_room (lo_participant o1) (co_live c) = None" using a by (auto simp: admitted_def)
    then have n: "new = [o1]" "player_ops (lv_timeline (co_live c)) < ll_pending_per_session l"
      "player_ops_of (lo_participant o1) (lv_timeline (co_live c)) < ll_pending_per_participant l"
      using q by (auto simp: timeline_room_def l_def split: if_splits)
    have "player_ops_of p new \<le> (if lo_participant o1 = p then 1 else 0)" "player_ops new \<le> 1"
      by (simp_all add: n(1) player_ops_def player_ops_of_def)
    then show ?thesis using n f(1) f(2)[of p] o'(1) o'(2)[of p]
      by (cases "lo_participant o1 = p") (auto simp: outstanding_def)
  qed
  then show "player_ops (outstanding c @ new) \<le> max 0 (ll_pending_per_session l) + ll_boundary_operations l"
    "player_ops_of p (outstanding c @ new) \<le> max 0 (ll_pending_per_participant l) + ll_boundary_operations l" by blast+
qed

lemma bounded_queues:
  assumes r: "running_ok t ex (in_flight_ops c) (co_live c)" and b: "bounded c" and k: "queues c ops c'"
    and p: "0 < ll_boundary_operations (lv_limits (co_live c))"
  shows "bounded c'"
proof -
  obtain new where n: "lv_limits (co_live c') = lv_limits (co_live c)" "in_flight_ops c' = in_flight_ops c \<or> light c'"
    "ops @ outstanding c' = outstanding c @ new" "admitted new (co_live c)" using k unfolding queues_def by blast
  note a = admitted_bounds[OF r b n(4), folded n(3)]
  show ?thesis
  proof (rule boundedI)
    show "int (length (in_flight_ops c')) \<le> ll_boundary_operations (lv_limits (co_live c'))"
      using n(1,2) b p by (auto simp: light_def bounded_def Let_def)
    show "player_ops (outstanding c') \<le> max 0 (ll_pending_per_session (lv_limits (co_live c'))) + ll_boundary_operations (lv_limits (co_live c'))"
      using a(1) player_ops_nonneg(1)[of ops] n(1) by simp
    show "player_ops_of p (outstanding c') \<le> max 0 (ll_pending_per_participant (lv_limits (co_live c'))) + ll_boundary_operations (lv_limits (co_live c'))" for p
      using a(2)[where p = p] player_ops_nonneg(2)[where p = p and xs = ops] n(1) by simp
  qed
qed

lemma bounded_empty: "outstanding c = [] \<Longrightarrow> 0 < ll_boundary_operations (lv_limits (co_live c)) \<Longrightarrow> bounded c"
  by (auto simp: bounded_def outstanding_def Let_def player_ops_def player_ops_of_def)

lemma limits_turn:
  assumes "timeline_inv t ex c" "t \<le> now" "turn F now c ops c'" "lv_phase (co_live c') = Running"
  shows "lv_phase (co_live c) = Running \<or> lv_phase (co_live c) \<noteq> Running \<and> outstanding c' = []"
  using assms(3)
proof (cases rule: turn.cases)
  case (turn_request r)
  show ?thesis
  proof (cases "lv_phase (co_live c) = Running")
    case False
    have "lv_phase (co_live c) \<noteq> Ended" using ended_handle assms(4) turn_request by fastforce
    moreover have "lv_phase (co_live c) \<noteq> Finishing" using handle_starting[OF False, of F now r] assms(4) turn_request by auto
    ultimately have u: "unplayed (co_live c)" "room_ok (co_live c)" "seats (co_live c)" "co_in_flight c = None"
      using assms(1) False by (cases "lv_phase (co_live c)"; simp add: timeline_inv_def phase_ok_def Let_def)+
    have "lv_phase (co_live c) = Starting \<Longrightarrow> roster_ok (lv_participants (co_live c))"
      using u(2) by (auto simp: room_ok_def numbered_roster)
    then have "lv_timeline (handle F now r (co_live c)) = []"
      using handle_begins[OF False _ u(1,2,3)] turn_request assms(4) by simp
    then show ?thesis using u(4) turn_request False by (simp add: outstanding_def in_flight_ops_def)
  qed simp
next
  case (turn_start recorded answer)
  then show ?thesis using start_stays assms(4) by blast
next
  case (turn_finish shutdown r1 r2 recorded answer)
  then show ?thesis using finish_stays assms(4) by blast
qed

lemma reaches_bounded:
  "reaches F c executed now \<Longrightarrow> lv_phase (co_live c) = Running \<Longrightarrow> 0 < ll_boundary_operations (lv_limits (co_live c)) \<Longrightarrow> bounded c"
proof (induction rule: reaches.induct)
  case (reaches_turn c executed t now ops c')
  note i = inv_reaches[OF reaches_turn.hyps(1)]
  show ?case
  proof (cases "lv_phase (co_live c) = Running")
    case True
    have q: "queues c ops c'" by (rule turn_queues[OF i reaches_turn.hyps(2,3) True reaches_turn.prems(1)])
    then have "lv_limits (co_live c') = lv_limits (co_live c)" by (simp add: queues_def)
    then show ?thesis using bounded_queues[OF reaches_running(1)[OF reaches_turn.hyps(1) True] _ q] reaches_turn True by simp
  next
    case False
    then show ?thesis using limits_turn[OF i reaches_turn.hyps(2,3) reaches_turn.prems(1)] bounded_empty reaches_turn.prems(2) by blast
  qed
qed (simp add: new_controller_def new_live_def)

text \<open>
  C10: what players have waiting is bounded. The counters the limits are checked against are the numbers of
  operations they stand for; a boundary takes at most its limit; and as a boundary that failed goes back
  ahead of what was accepted meanwhile, a participant's and the Session's outstanding operations may
  exceed their limits, but never by more than one boundary takes.
\<close>

theorem queue_bounds:
  assumes "reaches F c executed now" "lv_phase (co_live c) = Running" "0 < ll_boundary_operations (lv_limits (co_live c))"
  shows "lv_queued_total (co_live c) = player_ops (lv_timeline (co_live c)) \<and> lv_queued (co_live c) p = player_ops_of p (lv_timeline (co_live c))
    \<and> int (length (in_flight_ops c)) \<le> ll_boundary_operations (lv_limits (co_live c))
    \<and> player_ops (outstanding c) \<le> max 0 (ll_pending_per_session (lv_limits (co_live c))) + ll_boundary_operations (lv_limits (co_live c))
    \<and> player_ops_of p (outstanding c) \<le> max 0 (ll_pending_per_participant (lv_limits (co_live c))) + ll_boundary_operations (lv_limits (co_live c))"
  using reaches_bounded[OF assms] running_counts[OF reaches_running(1)[OF assms(1,2)]] by (simp add: bounded_def Let_def)

theorem queue_bounds_witness:
  "lv_queued_total (co_live sample_waiting) = 1 \<and> lv_queued_total (co_live sample_waiting) = player_ops (lv_timeline (co_live sample_waiting))
    \<and> player_ops (outstanding sample_waiting) \<le> 8 + 4"
proof -
  have "0 < ll_boundary_operations (lv_limits (co_live sample_waiting))" "lv_queued_total (co_live sample_waiting) = 1"
    "ll_pending_per_session (lv_limits (co_live sample_waiting)) = 8" "ll_boundary_operations (lv_limits (co_live sample_waiting)) = 4"
    by code_simp+
  then show ?thesis using queue_bounds[OF reaches_sample_waiting waiting_runs(1), of "''P1''"] by simp
qed

end
