(* ===== verification/LiveKept.thy ===== *)
theory LiveKept
  imports LiveQueue
begin

section \<open>SAMPLEs and requests that wait, unchanged\<close>

text \<open>
  Most operations neither accept a SAMPLE nor answer a request that waits. \<open>marks_kept\<close>: every
  participant's stream, and how far its SAMPLEs were accepted and consumed, are as they were, and what
  joined the timeline is not a SAMPLE; \<open>calls_kept\<close>: the commands and rejoins that wait are as they were,
  and what joined the timeline is none of them.
\<close>

definition marks :: "'f live \<Rightarrow> string \<Rightarrow> nat option \<times> int \<times> int" where
  "marks s p = (let i = ingress_of s p in (pi_stream i, pi_max_accepted i, pi_consumed i))"

definition quiet :: "live_op \<Rightarrow> bool" where
  "quiet o' \<longleftrightarrow> lo_sequence o' = 0 \<and> lo_stream o' = None"

definition marks_kept :: "'f live \<Rightarrow> 'f live \<Rightarrow> bool" where
  "marks_kept s s' \<longleftrightarrow> marks s' = marks s \<and> lv_next_conn s \<le> lv_next_conn s'
     \<and> (\<exists>ops. lv_timeline s' = lv_timeline s @ ops \<and> list_all quiet ops)"

definition pending_of :: "'f live \<Rightarrow> string \<Rightarrow> (string \<times> nat) list" where
  "pending_of s p = tk_pending (tokens_of s p)"

definition calls :: "'f live \<Rightarrow> (string \<Rightarrow> (string \<times> nat) list) \<times> (nat \<Rightarrow> pending_command) \<times> nat
    \<times> (string \<times> nat) list \<times> (nat \<Rightarrow> rejoin_outcome option) \<times> nat" where
  "calls s = (pending_of s, lv_cmds s, lv_next_cmd s, lv_rejoins s, lv_asks s, lv_next_ask s)"

definition callless :: "live_op \<Rightarrow> bool" where
  "callless o' \<longleftrightarrow> lo_command o' = None \<and> lo_rejoin o' = None"

definition calls_kept :: "'f live \<Rightarrow> 'f live \<Rightarrow> bool" where
  "calls_kept s s' \<longleftrightarrow> calls s' = calls s \<and> (\<exists>ops. lv_timeline s' = lv_timeline s @ ops \<and> list_all callless ops)"

definition kept :: "'f live \<Rightarrow> 'f live \<Rightarrow> bool" where
  "kept s s' \<longleftrightarrow> marks_kept s s' \<and> calls_kept s s'"

lemma marks_kept_refl [simp]: "marks_kept s s" and calls_kept_refl [simp]: "calls_kept s s" and kept_refl [simp]: "kept s s"
  by (simp_all add: marks_kept_def calls_kept_def kept_def)

lemma marks_kept_trans: "marks_kept s s' \<Longrightarrow> marks_kept s' s'' \<Longrightarrow> marks_kept s s''"
  unfolding marks_kept_def by fastforce

lemma calls_kept_trans: "calls_kept s s' \<Longrightarrow> calls_kept s' s'' \<Longrightarrow> calls_kept s s''"
  unfolding calls_kept_def by fastforce

lemma kept_trans: "kept s s' \<Longrightarrow> kept s' s'' \<Longrightarrow> kept s s''"
  unfolding kept_def using marks_kept_trans calls_kept_trans by blast

lemma kept_marks: "kept s s' \<Longrightarrow> marks_kept s s'" and kept_calls: "kept s s' \<Longrightarrow> calls_kept s s'"
  by (simp_all add: kept_def)

lemma kept_after: "kept s' s'' \<Longrightarrow> kept s s' \<Longrightarrow> kept s s''" and marks_kept_after: "marks_kept s' s'' \<Longrightarrow> marks_kept s s' \<Longrightarrow> marks_kept s s''"
  and calls_kept_after: "calls_kept s' s'' \<Longrightarrow> calls_kept s s' \<Longrightarrow> calls_kept s s''"
  using kept_trans marks_kept_trans calls_kept_trans by blast+

lemma kept_fold: "(\<And>x s. kept s (f x s)) \<Longrightarrow> kept s (fold f xs s)"
  by (induction xs arbitrary: s) (auto intro: kept_trans)

lemma kept_fields:
  assumes "lv_inputs s' = lv_inputs s" "lv_next_conn s \<le> lv_next_conn s'" "lv_tokens s' = lv_tokens s" "lv_cmds s' = lv_cmds s" "lv_next_cmd s' = lv_next_cmd s"
    "lv_rejoins s' = lv_rejoins s" "lv_asks s' = lv_asks s" "lv_next_ask s' = lv_next_ask s" "lv_timeline s' = lv_timeline s"
  shows "kept s s'"
proof -
  have "marks s' = marks s" "pending_of s' = pending_of s"
    using assms by (simp_all add: marks_def ingress_of_def pending_of_def tokens_of_def fun_eq_iff)
  then show ?thesis using assms by (simp add: kept_def marks_kept_def calls_kept_def calls_def)
qed

lemma kept_tells: "tells s s' \<Longrightarrow> kept s s'"
  by (rule kept_fields) (simp_all add: tells_fields)

named_theorems keeping \<open>steps that keep the SAMPLEs and the requests that wait\<close>

lemmas kept_told [keeping] = telling[THEN kept_tells]

lemma kept_updates [keeping]:
  "kept s (set_presence p r s)" "kept s (record_activity now s)" "kept s (on_conn f c s)" "kept s (snd (fresh_conn e s))" "kept s (set_player u c s)"
  "kept s (s\<lparr>lv_players := ps\<rparr>)" "kept s (s\<lparr>lv_lobby := l\<rparr>)" "kept s (s\<lparr>lv_admins := as\<rparr>)" "kept s (s\<lparr>lv_played_by := pb\<rparr>)"
  "kept s (s\<lparr>lv_phase := ph\<rparr>)" "kept s (s\<lparr>lv_participants := roster\<rparr>)" "kept s (s\<lparr>lv_views := v\<rparr>)" "kept s (s\<lparr>lv_command_rate := rate\<rparr>)"
  "kept s (recount s)"
  by (rule kept_fields; simp add: updates on_conn_def set_conn_def fresh_conn_def set_player_def Let_def split: prod.split)+

lemma kept_ingress: "(pi_stream i, pi_max_accepted i, pi_consumed i) = marks s p \<Longrightarrow> kept s (set_ingress p i s)"
  by (auto simp: kept_def marks_kept_def calls_kept_def calls_def pending_of_def tokens_of_def marks_def ingress_of_def set_ingress_def fun_eq_iff Let_def)

lemma kept_tokens: "tk_pending t = pending_of s p \<Longrightarrow> kept s (set_tokens p t s)"
  by (auto simp: kept_def marks_kept_def calls_kept_def calls_def pending_of_def tokens_of_def marks_def ingress_of_def set_tokens_def fun_eq_iff Let_def)

lemma marks_kept_enqueue: "quiet o' \<Longrightarrow> marks_kept s (enqueue_op now o' s)"
  by (auto simp: marks_kept_def enqueue_op_def marks_def ingress_of_def quiet_def fun_eq_iff)

lemma calls_kept_enqueue: "callless o' \<Longrightarrow> calls_kept s (enqueue_op now o' s)"
  by (auto simp: calls_kept_def enqueue_op_def calls_def pending_of_def tokens_of_def callless_def fun_eq_iff)

lemma kept_enqueue: "quiet o' \<Longrightarrow> callless o' \<Longrightarrow> kept s (enqueue_op now o' s)"
  by (simp add: kept_def marks_kept_enqueue calls_kept_enqueue)

lemma kept_count: "marks_kept s (s\<lparr>lv_queued := q, lv_queued_total := n\<rparr>)" "calls_kept s (s\<lparr>lv_queued := q, lv_queued_total := n\<rparr>)"
  using kept_fields[of "s\<lparr>lv_queued := q, lv_queued_total := n\<rparr>" s] by (simp_all add: kept_def)

lemma kept_enqueue_player:
  "quiet o' \<Longrightarrow> marks_kept s (enqueue_player now o' s)" "callless o' \<Longrightarrow> calls_kept s (enqueue_player now o' s)"
  unfolding enqueue_player_def
  by (auto intro!: marks_kept_after[OF marks_kept_enqueue] calls_kept_after[OF calls_kept_enqueue] kept_count simp: quiet_def callless_def)

lemma plain_kinds:
  "quiet (plain_op p)" "callless (plain_op p)" "quiet (o'\<lparr>lo_inputs := r\<rparr>) = quiet o'" "callless (o'\<lparr>lo_inputs := r\<rparr>) = callless o'"
  "quiet (o'\<lparr>lo_disconnected := d\<rparr>) = quiet o'" "callless (o'\<lparr>lo_disconnected := d\<rparr>) = callless o'"
  "quiet (o'\<lparr>lo_command := c\<rparr>) = quiet o'" "quiet (o'\<lparr>lo_rejoin := a\<rparr>) = quiet o'"
  "callless (o'\<lparr>lo_stream := st\<rparr>) = callless o'" "callless (o'\<lparr>lo_sequence := n\<rparr>) = callless o'"
  by (simp_all add: quiet_def callless_def plain_op_def)

lemmas keep_step = keeping[THEN kept_after]

lemma kept_reset_inputs [keeping]: "kept s (reset_inputs F now p s)"
proof -
  have "kept s (enqueue_transition now p d s)" for d
    unfolding enqueue_transition_def
    by (intro kept_after[OF kept_enqueue] kept_ingress) (simp_all add: plain_kinds marks_def Let_def)
  then show ?thesis by (simp add: reset_inputs_def Let_def split: option.split)
qed

lemma kept_disconnect [keeping]: "kept s (disconnect F now cause p s)"
  unfolding disconnect_def Let_def
  by (intro keep_step kept_after[OF kept_enqueue] kept_after[OF kept_reset_inputs]) (simp_all add: plain_kinds)

lemma kept_expire [keeping]: "kept s (expire_graces F now s)"
proof -
  have "kept s (expire_grace F now q s)" for s q
    by (simp add: expire_grace_def Let_def kept_disconnect)
  then show ?thesis unfolding expire_graces_def by (rule kept_fold)
qed

lemma kept_detach [keeping]: "kept s (detach_player F now conn s)"
  unfolding detach_player_def Let_def
  by (auto intro!: keep_step kept_after[OF kept_reset_inputs] split: option.split)

lemma kept_leave_lobby [keeping]: "kept s (leave_lobby conn s)"
  unfolding leave_lobby_def Let_def
  by (auto intro!: keep_step kept_after[OF kept_updates(7)] kept_updates(6))

lemma kept_disconnect_player [keeping]: "kept s (disconnect_player F now conn s)"
  unfolding disconnect_player_def
  by (intro kept_after[OF kept_updates(3)]) (simp add: kept_leave_lobby kept_detach split: phase.split)

lemma kept_leave [keeping]: "kept s (fst (leave_session F now conn s))"
  unfolding leave_session_def Let_def
  by (auto intro!: kept_after[OF kept_updates(3)] simp: kept_leave_lobby kept_disconnect split: phase.split option.split)

lemma kept_join [keeping]: "kept s (fst (join_lobby user display s))"
  unfolding join_lobby_def Let_def
  by (subst fresh_conn_eq, auto split: phase.split option.split intro!: keep_step kept_updates(4))

lemma kept_register [keeping]: "kept s (fst (register_admin user signed s))"
  unfolding register_admin_def Let_def
  by (subst fresh_conn_eq, auto split: phase.split intro!: keep_step kept_updates(4))

lemma kept_drop_admin [keeping]: "kept s (disconnect_admin a s)"
  unfolding disconnect_admin_def by (intro keep_step kept_refl)

lemma kept_perspective [keeping]: "kept s (fst (select_perspective a p s))"
  unfolding select_perspective_def by (auto intro!: keep_step)

lemma kept_before_attach [keeping]: "kept s (before_attach F now user p s)"
  unfolding before_attach_def Let_def
  by (auto intro!: keep_step kept_after[OF kept_reset_inputs] split: option.split)

lemma kept_shows: "kept s (fold (show_player e) ps s)" "kept s (fold (show_admin e) as s)"
  by (intro kept_fold kept_tells tells_show_player tells_show_admin)+

end
