(* ===== verification/LiveTurns.thy ===== *)
theory LiveTurns
  imports LiveKept
begin

section \<open>The turns of a running game\<close>

text \<open>
  What a turn does while the game runs, case by case, for the invariants that follow: a request, nothing,
  a boundary with nothing to execute, a boundary taken, one put back, or one committed.
\<close>

lemma finish_game_running:
  "lv_phase (co_live (finish_game recorded answer c)) = Running \<Longrightarrow>
   co_live (finish_game recorded answer c) = co_live c \<and> co_in_flight (finish_game recorded answer c) = co_in_flight c"
  by (auto simp: finish_game_def Let_def end_session_def split: option.splits db_end.splits if_splits)

lemma running_start:
  assumes ph: "lv_phase (co_live c) = Running" and np: "\<not> lv_paused (co_live c)"
    and n: "lv_phase (co_live (start_boundary F now recorded answer c)) = Running"
  defines "c' \<equiv> start_boundary F now recorded answer c" and "s1 \<equiv> expire_graces F now (co_live c)"
  obtains "co_live c' = co_live c" "co_in_flight c' = co_in_flight c"
    | "co_in_flight c = None" "co_in_flight c' = None" "wb_operations (work_taken now s1) = []"
      "co_live c' = acknowledge (work_taken now s1) (no_execution (lv_game s1)) (left_waiting now s1)"
    | "co_in_flight c = None" "co_in_flight c' = Some (work_taken now s1)" "co_live c' = left_waiting now s1"
proof (cases "co_in_flight c = None \<and> co_finishing c = None")
  case False
  then show ?thesis using n finish_game_running[of recorded answer c] that(1)
    by (auto simp: c'_def start_boundary_def split: if_splits)
next
  case True
  let ?w = "work_taken now s1"
  let ?s2 = "left_waiting now s1"
  have k: "c' = (if wb_operations ?w = [] \<and> \<not> wb_update ?w
       then c\<lparr>co_flush := drop (bp_taken (planned_end now s1)) (lv_timeline s1) \<noteq> [], co_live := end_if_abandoned answer (acknowledge_only ?w ?s2)\<rparr>
       else c\<lparr>co_flush := drop (bp_taken (planned_end now s1)) (lv_timeline s1) \<noteq> [], co_live := ?s2, co_in_flight := Some ?w\<rparr>)"
    using True unfolding c'_def start_boundary_def take_boundary_eq[OF ph np] Let_def s1_def[symmetric] by simp
  show ?thesis
  proof (cases "wb_operations ?w = [] \<and> \<not> wb_update ?w")
    case idle: True
    then have e: "co_live c' = end_if_abandoned answer (acknowledge_only ?w ?s2)" using k by simp
    then have e2: "co_live c' = acknowledge_only ?w ?s2" using n running_abandoned unfolding c'_def by fastforce
    moreover have "lv_phase ?s2 = Running"
      using same_room_expire(2)[of "co_live c" F now] waiting_room[of s1 now] ph by (simp add: s1_def same_room_def)
    moreover have "lv_game ?s2 = lv_game s1" using waiting_room[of s1 now] by (simp add: same_room_def)
    ultimately show ?thesis using that(2) idle True k by (simp add: acknowledge_only_def)
  next
    case False
    then have "co_live c' = ?s2" "co_in_flight c' = Some ?w" using k by auto
    with True show ?thesis by (intro that(3)) auto
  qed
qed

lemma running_executed:
  assumes i: "timeline_inv t ex c" and t: "t \<le> now" and w: "co_in_flight c = Some work" and f: "fits work e"
    and ph: "lv_phase (co_live c) = Running"
    and n: "lv_phase (co_live (boundary_executed now recorded work e answer c)) = Running"
  obtains s2 where "ex_finished e = None" "commit_ops now (wb_operations work) (ex_responses e) (ex_rejoins e) (mirrored work e (co_live c)) = Some s2"
    "boundary_executed now recorded work e answer c = c\<lparr>co_live := acknowledge work e s2, co_in_flight := None, co_failures := 0\<rparr>"
proof -
  obtain s' r where k: "commit_boundary now (reached e work) e (co_live c) = (s', r)" by force
  have rc: "r = Committed" by (rule inv_commit(1)[OF i t w f ph k])
  obtain s2 where c: "commit_ops now (wb_operations (reached e work)) (ex_responses e) (ex_rejoins e) (mirrored (reached e work) e (co_live c)) = Some s2"
      "lv_phase s2 = Running" "s' = (if ex_finished e \<noteq> None then s2\<lparr>lv_phase := Finishing\<rparr> else acknowledge (reached e work) e s2)"
    by (rule commit_cases[of now "reached e work" e "co_live c"]) (use k rc in auto)
  have none: "ex_finished e = None"
  proof (rule ccontr)
    assume "ex_finished e \<noteq> None"
    then show False using n k rc c(2,3)
      by (auto simp: boundary_executed_def Let_def finish_game_def end_session_def split: db_end.splits if_splits)
  qed
  then have full: "reached e work = work" by (simp add: reached_def)
  have "boundary_executed now recorded work e answer c = c\<lparr>co_live := s', co_in_flight := None, co_failures := 0\<rparr>"
    using n none k rc running_abandoned[of answer s'] by (simp add: boundary_executed_def Let_def)
  then show ?thesis using that[OF none] c none unfolding full by simp
qed

lemma running_failed:
  "lv_phase (co_live (boundary_failed work answer c)) = Running \<Longrightarrow>
   co_live (boundary_failed work answer c) = requeue work (co_live c) \<and> co_in_flight (boundary_failed work answer c) = None"
  by (auto simp: boundary_failed_def Let_def running_abort running_requeue split: if_splits)

lemma running_finish:
  assumes i: "timeline_inv t ex c" and t: "t \<le> now" and ph: "lv_phase (co_live c) = Running"
    and n: "lv_phase (co_live (finish_boundary now shutdown recorded r1 r2 answer c)) = Running"
  defines "c' \<equiv> finish_boundary now shutdown recorded r1 r2 answer c" and "ops \<equiv> committed now shutdown r1 r2 c"
  obtains "ops = []" "co_live c' = co_live c" "co_in_flight c' = co_in_flight c"
    | work where "co_in_flight c = Some work" "ops = []" "co_live c' = requeue work (co_live c)" "co_in_flight c' = None"
    | work e s2 where "co_in_flight c = Some work" "ops = wb_operations work" "fits work e" "ex_finished e = None"
      "snd (execute (co_live c) work (co_context c) shutdown r1 r2) = Inr e"
      "commit_ops now (wb_operations work) (ex_responses e) (ex_rejoins e) (mirrored work e (co_live c)) = Some s2"
      "co_live c' = acknowledge work e s2" "co_in_flight c' = None"
proof (cases "co_in_flight c")
  case None
  then show ?thesis using that(1) by (simp add: c'_def ops_def finish_boundary_def committed_def)
next
  case w: (Some work)
  obtain ctx res where x: "execute (co_live c) work (co_context c) shutdown r1 r2 = (ctx, res)" by force
  let ?d = "c\<lparr>co_context := ctx\<rparr>"
  show ?thesis
  proof (cases res)
    case (Inl err)
    have com: "ops = []" using w x Inl by (simp add: ops_def committed_def)
    have fin: "c' = (if shutdown then ?d\<lparr>co_live := requeue work (co_live c), co_in_flight := None\<rparr>
       else if err = Failed_script then ?d\<lparr>co_live := abort answer (co_live c), co_in_flight := None\<rparr>
       else boundary_failed work answer ?d)"
      using w x Inl by (simp add: c'_def finish_boundary_def Let_def)
    show ?thesis
    proof (cases "shutdown \<or> err \<noteq> Failed_script")
      case True
      then have "co_live c' = requeue work (co_live c) \<and> co_in_flight c' = None"
        using n running_failed[of work answer ?d] unfolding c'_def[symmetric] fin by (auto split: if_splits)
      then show ?thesis using that(2)[OF w com] by blast
    next
      case False
      then show ?thesis using n unfolding c'_def[symmetric] fin by (simp add: running_abort)
    qed
  next
    case (Inr e)
    have f: "fits work e" using x Inr execute_fits by metis
    have fin: "c' = boundary_executed now recorded work e answer ?d"
      using w x Inr by (simp add: c'_def finish_boundary_def)
    have d: "timeline_inv t ex ?d" "co_in_flight ?d = Some work" "lv_phase (co_live ?d) = Running" using i w ph by (simp_all add: inv_irrelevant)
    obtain s2 where s2: "ex_finished e = None" "commit_ops now (wb_operations work) (ex_responses e) (ex_rejoins e) (mirrored work e (co_live ?d)) = Some s2"
      "boundary_executed now recorded work e answer ?d = ?d\<lparr>co_live := acknowledge work e s2, co_in_flight := None, co_failures := 0\<rparr>"
      by (rule running_executed[OF d(1) t d(2) f d(3)]) (use n fin c'_def in auto)
    have "snd (commit_boundary now (reached e work) e (co_live c)) = Committed"
      using commit_accepted[OF f ph] i ph w by (simp add: timeline_inv_def phase_ok_def flight_ok_def Let_def)
    then have "ops = wb_operations work" using w x Inr s2(1) by (auto simp: ops_def committed_def reached_def split: prod.split)
    then show ?thesis using that(3)[OF w _ f s2(1)] s2 x Inr unfolding fin by simp
  qed
qed

lemma running_turn:
  assumes k: "turn F now c ops c'" and i: "timeline_inv t ex c" and t: "t \<le> now"
    and ph: "lv_phase (co_live c) = Running" and n: "lv_phase (co_live c') = Running"
  obtains (request) r where "ops = []" "c' = c\<lparr>co_live := handle F now r (co_live c)\<rparr>" "admissible r (co_live c)"
    | (nothing) "ops = []" "co_live c' = co_live c" "co_in_flight c' = co_in_flight c"
    | (idle) s1 where "s1 = expire_graces F now (co_live c)" "ops = []" "co_in_flight c = None" "co_in_flight c' = None"
      "wb_operations (work_taken now s1) = []"
      "co_live c' = acknowledge (work_taken now s1) (no_execution (lv_game s1)) (left_waiting now s1)"
    | (taken) s1 where "s1 = expire_graces F now (co_live c)" "ops = []" "co_in_flight c = None" "co_in_flight c' = Some (work_taken now s1)"
      "co_live c' = left_waiting now s1"
    | (returned) work where "co_in_flight c = Some work" "ops = []" "co_live c' = requeue work (co_live c)" "co_in_flight c' = None"
    | (commit) work e s2 shutdown r1 r2 where "co_in_flight c = Some work" "ops = wb_operations work" "fits work e" "ex_finished e = None"
      "snd (execute (co_live c) work (co_context c) shutdown r1 r2) = Inr e"
      "commit_ops now (wb_operations work) (ex_responses e) (ex_rejoins e) (mirrored work e (co_live c)) = Some s2"
      "co_live c' = acknowledge work e s2" "co_in_flight c' = None"
  using k
proof (cases rule: turn.cases)
  case (turn_request r)
  then show ?thesis using request by simp
next
  case (turn_start recorded answer)
  have np: "\<not> lv_paused (co_live c)" using i ph by (simp add: timeline_inv_def)
  note c' = turn_start(2)[symmetric]
  from ph np n show ?thesis
  proof (rule running_start[of c F now recorded answer, unfolded c'])
    assume "co_live c' = co_live c" "co_in_flight c' = co_in_flight c"
    with turn_start(1) show ?thesis by (rule nothing)
  next
    assume "co_in_flight c = None" "co_in_flight c' = None" "wb_operations (work_taken now (expire_graces F now (co_live c))) = []"
      "co_live c' = acknowledge (work_taken now (expire_graces F now (co_live c))) (no_execution (lv_game (expire_graces F now (co_live c))))
        (left_waiting now (expire_graces F now (co_live c)))"
    with refl turn_start(1) show ?thesis by (rule idle)
  next
    assume "co_in_flight c = None" "co_in_flight c' = Some (work_taken now (expire_graces F now (co_live c)))"
      "co_live c' = left_waiting now (expire_graces F now (co_live c))"
    with refl turn_start(1) show ?thesis by (rule taken)
  qed
next
  case (turn_finish shutdown r1 r2 recorded answer)
  note c' = turn_finish(1)[symmetric] turn_finish(2)[symmetric]
  from i t ph n show ?thesis
  proof (rule running_finish[of t ex c now shutdown recorded r1 r2 answer, unfolded c'])
    assume "ops = []" "co_live c' = co_live c" "co_in_flight c' = co_in_flight c"
    then show ?thesis by (rule nothing)
  next
    fix work
    assume "co_in_flight c = Some work" "ops = []" "co_live c' = requeue work (co_live c)" "co_in_flight c' = None"
    then show ?thesis by (rule returned)
  next
    fix work e s2
    assume "co_in_flight c = Some work" "ops = wb_operations work" "fits work e" "ex_finished e = None"
      "snd (execute (co_live c) work (co_context c) shutdown r1 r2) = Inr e"
      "commit_ops now (wb_operations work) (ex_responses e) (ex_rejoins e) (mirrored work e (co_live c)) = Some s2"
      "co_live c' = acknowledge work e s2" "co_in_flight c' = None"
    then show ?thesis by (rule commit)
  qed
qed

text \<open>The turn with which a game begins.\<close>

lemma beginning_turn:
  assumes k: "turn F now c ops c'" and i: "timeline_inv t ex c"
    and ph: "lv_phase (co_live c) \<noteq> Running" and n: "lv_phase (co_live c') = Running"
  obtains w ps g f v res where "ops = []" "ex = []" "co_in_flight c = None" "lv_phase (co_live c) = Starting" "unplayed (co_live c)"
    "room_ok (co_live c)" "seats (co_live c)" "roster_ok ps"
    "c' = c\<lparr>co_live := complete_start F False w now ps g f v res (co_live c)\<rparr>"
  using k
proof (cases rule: turn.cases)
  case (turn_request r)
  obtain w ps g f v res where q: "lv_phase (co_live c) = Starting" "r = Rq_complete_start w ps g f v res"
    using handle_starting[OF ph, of F now r] n turn_request by auto
  have j: "ex = []" "co_in_flight c = None" "unplayed (co_live c)" "room_ok (co_live c)" "seats (co_live c)"
    using i q(1) by (simp_all add: timeline_inv_def phase_ok_def Let_def)
  have "roster_ok (lv_participants (co_live c))" using room_okD(4,7)[OF j(4)] q(1) by (simp add: numbered_roster)
  then have "roster_ok ps" using turn_request q(2) by (auto split: option.splits)
  then show ?thesis using that j q turn_request by simp
next
  case (turn_start recorded answer)
  then show ?thesis using start_stays[OF ph] n by blast
next
  case (turn_finish shutdown r1 r2 recorded answer)
  then show ?thesis using finish_stays[OF ph] n by blast
qed

end
