(* ===== verification/LiveAcks.thy ===== *)
theory LiveAcks
  imports LiveTurns
begin

section \<open>What a player is told was consumed\<close>

text \<open>
  Every SAMPLE a connection sends is numbered, and the controller acknowledges how far it consumed them.
  The acknowledgement is exact: it covers every SAMPLE the game executed and none that still waits.
\<close>

definition mine :: "string \<Rightarrow> nat option \<Rightarrow> live_op \<Rightarrow> bool" where
  "mine p st o' \<longleftrightarrow> lo_participant o' = p \<and> lo_stream o' = st"

lemma sampled_mine: "sampled p i o' = mine p (pi_stream i) o'"
  by (simp add: sampled_def mine_def)

text \<open>Streams are numbered by their connections, so a new one is not any that was.\<close>

definition known :: "nat \<Rightarrow> nat option \<Rightarrow> bool" where
  "known n st = (case st of None \<Rightarrow> True | Some k \<Rightarrow> k < n)"

lemma known_later: "known n st \<Longrightarrow> n \<le> m \<Longrightarrow> known m st"
  by (cases st) (simp_all add: known_def)

definition later :: "live_op \<Rightarrow> live_op \<Rightarrow> bool" where
  "later a b \<longleftrightarrow> (lo_participant a = lo_participant b \<and> lo_stream a = lo_stream b \<and> 0 < lo_sequence a \<and> 0 < lo_sequence b
     \<longrightarrow> lo_sequence a < lo_sequence b)"

definition owns :: "live_op list \<Rightarrow> live_op list \<Rightarrow> nat \<Rightarrow> string \<Rightarrow> nat option \<times> int \<times> int \<Rightarrow> bool" where
  "owns ex os n p m = (case m of (st, accepted, consumed) \<Rightarrow> 0 \<le> consumed \<and> consumed \<le> accepted \<and> known n st
     \<and> (\<forall>o'\<in>set ex. mine p st o' \<longrightarrow> lo_sequence o' \<le> consumed)
     \<and> (\<forall>o'\<in>set os. mine p st o' \<and> 0 < lo_sequence o' \<longrightarrow> consumed < lo_sequence o' \<and> lo_sequence o' \<le> accepted))"

definition acked :: "live_op list \<Rightarrow> live_op list \<Rightarrow> 'f live \<Rightarrow> bool" where
  "acked ex fl s \<longleftrightarrow> (\<forall>p. owns ex (fl @ lv_timeline s) (lv_next_conn s) p (marks s p))
     \<and> (\<forall>o'\<in>set (ex @ fl @ lv_timeline s). known (lv_next_conn s) (lo_stream o'))
     \<and> sorted_wrt later (fl @ lv_timeline s)"

text \<open>What the acknowledgements of a boundary in flight say.\<close>

definition ack_fits :: "live_op list \<Rightarrow> 'f live \<Rightarrow> string \<times> nat option \<times> int \<Rightarrow> bool" where
  "ack_fits fl s a = (case (a, marks s (fst a)) of ((p, stream, through), (st, accepted, consumed)) \<Rightarrow>
     known (lv_next_conn s) stream
     \<and> (if st = stream then consumed \<le> through \<and> through \<le> accepted
            \<and> (\<forall>o'\<in>set fl. mine p st o' \<longrightarrow> lo_sequence o' \<le> through)
            \<and> (\<forall>o'\<in>set (lv_timeline s). mine p st o' \<and> 0 < lo_sequence o' \<longrightarrow> through < lo_sequence o')
        else \<forall>o'\<in>set fl. mine p st o' \<longrightarrow> lo_sequence o' \<le> 0))"

definition acks_fit :: "live_boundary \<Rightarrow> 'f live \<Rightarrow> bool" where
  "acks_fit w s \<longleftrightarrow> (\<forall>a\<in>set (wb_acks w). ack_fits (wb_operations w) s a)"

subsection \<open>Steps that accept no SAMPLE\<close>

lemma known_quiet: "quiet o' \<Longrightarrow> known n (lo_stream o')"
  by (simp add: quiet_def known_def)

lemma later_quiet: "quiet b \<Longrightarrow> later a b"
  by (simp add: later_def quiet_def)

lemma acked_kept:
  assumes a: "acked ex fl s" and k: "marks_kept s s'"
  shows "acked ex fl s'"
proof -
  obtain ops where o': "marks s' = marks s" "lv_next_conn s \<le> lv_next_conn s'" "lv_timeline s' = lv_timeline s @ ops" "list_all quiet ops"
    using k unfolding marks_kept_def by blast
  have q: "\<And>x. x \<in> set ops \<Longrightarrow> quiet x" using o'(4) by (simp add: list_all_iff)
  have "owns ex (fl @ lv_timeline s') (lv_next_conn s') p (marks s' p)" for p
  proof -
    obtain st mx cs where m: "marks s p = (st, mx, cs)" by (cases "marks s p")
    have "owns ex (fl @ lv_timeline s) (lv_next_conn s) p (st, mx, cs)" using a m unfolding acked_def by metis
    then show ?thesis unfolding o' m using known_later[OF _ o'(2)] q by (auto simp: owns_def quiet_def)
  qed
  moreover have "sorted_wrt later (fl @ lv_timeline s')"
    using a later_quiet[OF q] unfolding o' acked_def
    by (auto simp: sorted_wrt_append intro: sorted_wrt_mono_rel[where P = "\<lambda>_ _. True"] sorted_wrt_iff_nth_less[THEN iffD2])
  moreover have "\<forall>x\<in>set (ex @ fl @ lv_timeline s'). known (lv_next_conn s') (lo_stream x)"
    using a known_later[OF _ o'(2)] known_quiet[OF q] unfolding o' acked_def by auto
  ultimately show ?thesis unfolding acked_def by blast
qed

lemma ack_fits_kept: "ack_fits fl s a \<Longrightarrow> marks_kept s s' \<Longrightarrow> ack_fits fl s' a"
  unfolding marks_kept_def ack_fits_def
  by (cases a) (auto split: prod.splits if_splits simp: list_all_iff quiet_def intro: known_later)

lemma acks_fit_kept: "acks_fit w s \<Longrightarrow> marks_kept s s' \<Longrightarrow> acks_fit w s'"
  unfolding acks_fit_def using ack_fits_kept by blast

subsection \<open>A SAMPLE\<close>

lemma marks_set: "marks (set_ingress p i s) = (marks s)(p := (pi_stream i, pi_max_accepted i, pi_consumed i))"
  by (auto simp: marks_def ingress_of_def set_ingress_def fun_eq_iff)

lemma marks_of: "(pi_stream (ingress_of s p), pi_max_accepted (ingress_of s p), pi_consumed (ingress_of s p)) = marks s p"
  by (simp add: marks_def Let_def)

text \<open>A number accepted, with at most one operation that carries it.\<close>

definition accepts_next :: "string \<Rightarrow> int \<Rightarrow> 'f live \<Rightarrow> 'f live \<Rightarrow> bool" where
  "accepts_next p n s s' \<longleftrightarrow> lv_next_conn s' = lv_next_conn s \<and> (case marks s p of (st, mx, cs) \<Rightarrow> mx < n \<and> marks s' = (marks s)(p := (st, n, cs))
     \<and> (\<exists>ops. lv_timeline s' = lv_timeline s @ ops \<and> (ops = [] \<or> (\<exists>o'. ops = [o'] \<and> mine p st o' \<and> lo_sequence o' = n))))"

lemma sample_marks:
  "kept s (fst (take_sample F now conn sequence inputs s))
   \<or> accepts_next (cn_participant (lv_conns s conn)) sequence s (fst (take_sample F now conn sequence inputs s))"
proof -
  let ?p = "cn_participant (lv_conns s conn)"
  let ?i = "ingress_of s ?p"
  obtain st mx cs where m: "marks s ?p = (st, mx, cs)" by (cases "marks s ?p")
  then have f: "pi_stream ?i = st" "pi_max_accepted ?i = mx" "pi_consumed ?i = cs" by (simp_all add: marks_def Let_def)
  have k: "kept s (set_ingress ?p (?i\<lparr>pi_transitions := rate\<rparr>) s)" for rate by (rule kept_ingress) (simp add: m f)
  have t: "marks (record_activity now (enqueue_player now o' s1)) = marks s1" "lv_next_conn (record_activity now (enqueue_player now o' s1)) = lv_next_conn s1"
    "lv_timeline (record_activity now (enqueue_player now o' s1)) =
       lv_timeline s1 @ [o'\<lparr>lo_from_player := True, lo_time := session_time now s1, lo_order := lv_next_order s1 + 1\<rparr>]" for o' and s1 :: "'a live"
    by (simp_all add: record_activity_def enqueue_player_def enqueue_op_def marks_def ingress_of_def fun_eq_iff session_time_def Let_def)
  have n: "accepts_next ?p sequence s (set_ingress ?p (?i\<lparr>pi_max_accepted := sequence\<rparr>) s)" if "mx < sequence"
    using that by (simp add: accepts_next_def marks_set m f) (simp add: set_ingress_def)
  have a: "accepts_next ?p sequence s (record_activity now (enqueue_player now ((plain_op ?p)\<lparr>lo_inputs := x, lo_stream := st, lo_sequence := sequence\<rparr>)
       (set_ingress ?p (?i\<lparr>pi_transitions := rate, pi_max_accepted := sequence, pi_current := x\<rparr>) s)))" if "mx < sequence" for x rate
    using that by (simp add: accepts_next_def t marks_set m f) (simp add: set_ingress_def mine_def plain_op_def)
  show ?thesis unfolding take_sample_def Let_def using f n a k by (auto split: sum.split option.split prod.split)
qed

lemma acked_next:
  assumes a: "acked ex fl s" and n: "accepts_next p n s s'"
  shows "acked ex fl s'"
proof -
  obtain st mx cs where m: "marks s p = (st, mx, cs)" by (cases "marks s p")
  obtain ops where o': "lv_next_conn s' = lv_next_conn s" "mx < n" "marks s' = (marks s)(p := (st, n, cs))" "lv_timeline s' = lv_timeline s @ ops"
    "ops = [] \<or> (\<exists>x. ops = [x] \<and> mine p st x \<and> lo_sequence x = n)" using n m unfolding accepts_next_def by auto
  have w: "owns ex (fl @ lv_timeline s) (lv_next_conn s) p (st, mx, cs)" using a m unfolding acked_def by metis
  have "owns ex (fl @ lv_timeline s') (lv_next_conn s') q (marks s' q)" for q
  proof (cases "q = p")
    case True
    then show ?thesis using w o' by (auto simp: owns_def)
  next
    case False
    have "owns ex (fl @ lv_timeline s) (lv_next_conn s) q (marks s q)" using a unfolding acked_def by blast
    then show ?thesis using False o' by (auto simp: owns_def mine_def split: prod.splits)
  qed
  moreover have "sorted_wrt later (fl @ lv_timeline s')"
  proof -
    have "later y x" if "y \<in> set (fl @ lv_timeline s)" "mine p st x" "lo_sequence x = n" for x y
      using w o'(2) that by (auto simp: later_def owns_def mine_def)
    then show ?thesis using a o'(5) unfolding o'(4) acked_def append_assoc[symmetric] by (auto simp only: sorted_wrt_append sorted_wrt.simps append_Nil2 set_simps)
  qed
  moreover have "\<forall>x\<in>set (ex @ fl @ lv_timeline s'). known (lv_next_conn s') (lo_stream x)"
    using a w o'(5) unfolding o'(1,4) acked_def by (auto simp: owns_def mine_def)
  ultimately show ?thesis unfolding acked_def by blast
qed

lemma ack_fits_next:
  assumes a: "acked ex fl s" and n: "accepts_next p n s s'" and f: "ack_fits fl s a"
  shows "ack_fits fl s' a"
proof -
  obtain st mx cs where m: "marks s p = (st, mx, cs)" by (cases "marks s p")
  obtain ops where o': "lv_next_conn s' = lv_next_conn s" "mx < n" "marks s' = (marks s)(p := (st, n, cs))" "lv_timeline s' = lv_timeline s @ ops"
    "ops = [] \<or> (\<exists>x. ops = [x] \<and> mine p st x \<and> lo_sequence x = n)" using n m unfolding accepts_next_def by auto
  show ?thesis using f o' m unfolding ack_fits_def
    by (cases "fst a = p") (auto split: prod.splits if_splits simp: mine_def)
qed

subsection \<open>A connection that starts its stream\<close>

definition starts_stream :: "string \<Rightarrow> 'f live \<Rightarrow> 'f live \<Rightarrow> bool" where
  "starts_stream p s s' \<longleftrightarrow> marks s' = (marks s)(p := (Some (lv_next_conn s), 0, 0)) \<and> lv_next_conn s' = lv_next_conn s + 1 \<and> lv_timeline s' = lv_timeline s"

lemma after_attach_stream: "starts_stream p s (after_attach user display p st s)"
proof -
  have m: "marks (set_player user c (snd (fresh_conn e s))) = marks s" for c e
    by (simp add: marks_def ingress_of_def fresh_conn_def set_player_def set_conn_def fun_eq_iff)
  have t: "tells t t' \<Longrightarrow> marks t' = marks t" for t t' :: "'a live" using kept_tells by (auto simp: kept_def marks_kept_def)
  have c: "marks (on_conn f a t) = marks t" for f a and t :: "'a live" using kept_updates(3) by (auto simp: kept_def marks_kept_def)
  show ?thesis unfolding starts_stream_def after_attach_def Let_def
    by (simp add: t[OF tells_broadcast_roster] t[OF tells_send_full] c marks_set m)
      (simp add: follow_def set_ingress_def set_player_def fresh_conn_def on_conn_def set_conn_def)
qed

lemma acked_stream:
  assumes a: "acked ex fl s" and n: "starts_stream p s s'"
  shows "acked ex fl s'"
proof -
  have k: "\<forall>x\<in>set (ex @ fl @ lv_timeline s). known (lv_next_conn s) (lo_stream x)" using a unfolding acked_def by blast
  have none: "\<not> mine p (Some (lv_next_conn s)) x" if "x \<in> set (ex @ fl @ lv_timeline s)" for x
    using k that by (auto simp: mine_def known_def split: option.splits)
  have "owns ex (fl @ lv_timeline s') (lv_next_conn s') q (marks s' q)" for q
  proof (cases "q = p")
    case True
    then show ?thesis using none n by (auto simp: owns_def starts_stream_def known_def)
  next
    case False
    have "owns ex (fl @ lv_timeline s) (lv_next_conn s) q (marks s q)" using a unfolding acked_def by blast
    then show ?thesis using False n by (auto simp: owns_def starts_stream_def split: prod.splits intro: known_later)
  qed
  then show ?thesis using a n by (auto simp: acked_def starts_stream_def intro: known_later)
qed

lemma ack_fits_stream:
  assumes a: "acked ex fl s" and n: "starts_stream p s s'" and f: "ack_fits fl s a"
  shows "ack_fits fl s' a"
proof -
  obtain q stream through where q: "a = (q, stream, through)" by (cases a)
  have "known (lv_next_conn s) stream" using f q by (auto simp: ack_fits_def split: prod.splits)
  then have ne: "stream \<noteq> Some (lv_next_conn s)" by (auto simp: known_def)
  have none: "\<not> mine p (Some (lv_next_conn s)) x" if "x \<in> set fl" for x
  proof -
    have "known (lv_next_conn s) (lo_stream x)" using a that unfolding acked_def by simp
    then show ?thesis by (auto simp: mine_def known_def)
  qed
  show ?thesis using f n ne none unfolding ack_fits_def q starts_stream_def
    by (cases "q = p") (auto split: prod.splits if_splits intro: known_later)
qed

subsection \<open>A boundary taken, put back or committed\<close>

lemma furthest:
  fixes z :: int and P :: "live_op \<Rightarrow> bool" and xs :: "live_op list"
  defines "r == fold (\<lambda>o' t. if P o' then max t (lo_sequence o') else t) xs z"
  shows "z \<le> r" "\<And>x. x \<in> set xs \<Longrightarrow> P x \<Longrightarrow> lo_sequence x \<le> r" "r = z \<or> (\<exists>x\<in>set xs. P x \<and> r = lo_sequence x)"
proof -
  have "z \<le> fold (\<lambda>o' t. if P o' then max t (lo_sequence o') else t) xs z
      \<and> (\<forall>x\<in>set xs. P x \<longrightarrow> lo_sequence x \<le> fold (\<lambda>o' t. if P o' then max t (lo_sequence o') else t) xs z)
      \<and> (fold (\<lambda>o' t. if P o' then max t (lo_sequence o') else t) xs z = z
         \<or> (\<exists>x\<in>set xs. P x \<and> fold (\<lambda>o' t. if P o' then max t (lo_sequence o') else t) xs z = lo_sequence x))" for z
  proof (induction xs arbitrary: z)
    case (Cons y ys)
    show ?case using Cons[of "if P y then max z (lo_sequence y) else z"] by (auto simp: max_def split: if_splits)
  qed simp
  then show "z \<le> r" "\<And>x. x \<in> set xs \<Longrightarrow> P x \<Longrightarrow> lo_sequence x \<le> r" "r = z \<or> (\<exists>x\<in>set xs. P x \<and> r = lo_sequence x)"
    unfolding r_def by blast+
qed

lemma ack_through_bounds:
  assumes a: "acked ex [] s" and tl: "lv_timeline s = taken @ rest" and m: "marks s p = (st, mx, cs)"
  defines "th \<equiv> ack_through (ingress_of s p) taken rest p"
  shows "cs \<le> th" "th \<le> mx" "\<And>x. x \<in> set taken \<Longrightarrow> mine p st x \<Longrightarrow> lo_sequence x \<le> th"
    "\<And>x. x \<in> set rest \<Longrightarrow> mine p st x \<Longrightarrow> 0 < lo_sequence x \<Longrightarrow> th < lo_sequence x"
proof -
  have f: "pi_stream (ingress_of s p) = st" "pi_max_accepted (ingress_of s p) = mx" "pi_consumed (ingress_of s p) = cs" using m by (simp_all add: marks_def Let_def)
  have "owns ex (taken @ rest) (lv_next_conn s) p (st, mx, cs)" using a m tl unfolding acked_def by (metis append_Nil)
  then have o': "0 \<le> cs" "cs \<le> mx" "\<And>x. x \<in> set (taken @ rest) \<Longrightarrow> mine p st x \<Longrightarrow> 0 < lo_sequence x \<Longrightarrow> cs < lo_sequence x \<and> lo_sequence x \<le> mx"
    by (auto simp: owns_def)
  have so: "later x y" if "x \<in> set taken" "y \<in> set rest" for x y using a that unfolding acked_def tl by (simp add: sorted_wrt_append)
  have k: "cs \<le> th \<and> th \<le> mx \<and> (\<forall>x\<in>set taken. mine p st x \<longrightarrow> lo_sequence x \<le> th)
    \<and> (\<forall>x\<in>set rest. mine p st x \<and> 0 < lo_sequence x \<longrightarrow> th < lo_sequence x)"
  proof (cases "list_ex (\<lambda>o'. mine p st o' \<and> lo_sequence o' > 0) rest")
    case False
    have "th = mx" unfolding th_def ack_through_def sampled_mine f if_P[OF False] by simp
    moreover have "lo_sequence x \<le> mx" if "x \<in> set taken" "mine p st x" for x
      using o'(1,2) o'(3)[of x] that by (cases "0 < lo_sequence x") auto
    ultimately show ?thesis using False o'(2) by (auto simp: list_ex_iff)
  next
    case True
    then obtain y where y: "y \<in> set rest" "mine p st y" "0 < lo_sequence y" by (auto simp: list_ex_iff)
    have th: "th = fold (\<lambda>o' t. if mine p st o' then max t (lo_sequence o') else t) taken cs"
      using True by (simp add: th_def ack_through_def sampled_mine f)
    note fu = furthest[where z = cs and P = "mine p st" and xs = taken, folded th]
    have lt: "lo_sequence x < lo_sequence z" if "x \<in> set taken" "mine p st x" "z \<in> set rest" "mine p st z" "0 < lo_sequence z" for x z
      using so[OF that(1,3)] that by (cases "0 < lo_sequence x") (auto simp: later_def mine_def)
    have "th < lo_sequence z" if "z \<in> set rest" "mine p st z" "0 < lo_sequence z" for z
      using fu(3) lt[OF _ _ that] o'(3)[of z] that by auto
    then show ?thesis using fu(1,2) o'(3)[of y] y by fastforce
  qed
  then show "cs \<le> th" "th \<le> mx" "\<And>x. x \<in> set taken \<Longrightarrow> mine p st x \<Longrightarrow> lo_sequence x \<le> th"
    "\<And>x. x \<in> set rest \<Longrightarrow> mine p st x \<Longrightarrow> 0 < lo_sequence x \<Longrightarrow> th < lo_sequence x" by blast+
qed

lemma work_taken_fields:
  "wb_operations (work_taken now s) = take (bp_taken (planned_end now s)) (lv_timeline s)"
  "wb_acks (work_taken now s) = map (\<lambda>q. (q, pi_stream (ingress_of s q),
      ack_through (ingress_of s q) (take (bp_taken (planned_end now s)) (lv_timeline s)) (drop (bp_taken (planned_end now s)) (lv_timeline s)) q)) (map pa_id (lv_participants s))"
  by (simp_all add: work_taken_def Let_def)

lemma left_waiting_fields:
  "lv_timeline (left_waiting now s) = drop (bp_taken (planned_end now s)) (lv_timeline s)" "marks (left_waiting now s) = marks s"
  "lv_next_conn (left_waiting now s) = lv_next_conn s"
  by (simp_all add: left_waiting_def recount_def marks_def ingress_of_def Let_def fun_eq_iff split: prod.split)

lemma acked_taken:
  assumes a: "acked ex [] s"
  shows "acked ex (wb_operations (work_taken now s)) (left_waiting now s)" "acks_fit (work_taken now s) (left_waiting now s)"
proof -
  let ?n = "bp_taken (planned_end now s)"
  have split: "lv_timeline s = take ?n (lv_timeline s) @ drop ?n (lv_timeline s)" by simp
  show "acked ex (wb_operations (work_taken now s)) (left_waiting now s)"
    using a unfolding acked_def work_taken_fields left_waiting_fields by (simp del: set_append)
  have "ack_fits (take ?n (lv_timeline s)) (left_waiting now s) (q, pi_stream (ingress_of s q),
      ack_through (ingress_of s q) (take ?n (lv_timeline s)) (drop ?n (lv_timeline s)) q)" for q
  proof -
    obtain st mx cs where m: "marks s q = (st, mx, cs)" by (cases "marks s q")
    then have f: "pi_stream (ingress_of s q) = st" by (simp add: marks_def Let_def)
    have "owns ex ([] @ lv_timeline s) (lv_next_conn s) q (st, mx, cs)" using a m unfolding acked_def by metis
    then have "known (lv_next_conn s) st" by (simp add: owns_def)
    then show ?thesis using ack_through_bounds[OF a split m] unfolding ack_fits_def left_waiting_fields f by (simp add: m)
  qed
  then show "acks_fit (work_taken now s) (left_waiting now s)"
    unfolding acks_fit_def work_taken_fields by simp
qed

lemma set_ack_fields: "lv_timeline (set_ack a s) = lv_timeline s" "lv_next_conn (set_ack a s) = lv_next_conn s"
  by (simp_all add: set_ack_def set_ingress_def split: prod.split)

lemma marks_set_ack:
  "marks (set_ack (p, stream, through) s) q =
     (case marks s q of (st, mx, cs) \<Rightarrow> if q = p \<and> st = stream then (st, mx, through) else (st, mx, cs))"
  by (auto simp: set_ack_def set_ingress_def marks_def ingress_of_def Let_def)

lemma marks_set_acks:
  "distinct (map fst as) \<Longrightarrow> marks (fold set_ack as s) q =
     (case map_of as q of None \<Rightarrow> marks s q | Some (stream, through) \<Rightarrow>
        case marks s q of (st, mx, cs) \<Rightarrow> if st = stream then (st, mx, through) else (st, mx, cs))"
proof (induction as arbitrary: s)
  case (Cons a as)
  obtain p stream through where a: "a = (p, stream, through)" by (cases a)
  have "p \<notin> fst ` set as" using Cons.prems a by auto
  then have "map_of as p = None" by (simp add: map_of_eq_None_iff)
  then show ?case using Cons by (auto simp: a marks_set_ack split: option.splits prod.splits)
qed simp

lemma set_acks_fields: "lv_timeline (fold set_ack as s) = lv_timeline s" "lv_next_conn (fold set_ack as s) = lv_next_conn s"
  by (induction as arbitrary: s) (simp_all add: set_ack_fields)

lemma acked_committed:
  assumes a: "acked ex (wb_operations w) s" and f: "acks_fit w s" and d: "distinct (map fst (wb_acks w))"
    and o': "\<forall>x\<in>set (wb_operations w). lo_participant x \<in> fst ` set (wb_acks w)"
  shows "acked (ex @ wb_operations w) [] (acknowledge w e s)"
proof -
  let ?s = "fold set_ack (wb_acks w) s"
  have "owns (ex @ wb_operations w) (lv_timeline s) (lv_next_conn s) q (marks ?s q)" for q
  proof -
    obtain st mx cs where m: "marks s q = (st, mx, cs)" by (cases "marks s q")
    have "owns ex (wb_operations w @ lv_timeline s) (lv_next_conn s) q (st, mx, cs)" using a m unfolding acked_def by metis
    note ow = this[unfolded owns_def prod.case]
    show ?thesis
    proof (cases "map_of (wb_acks w) q")
      case None
      then have "q \<notin> fst ` set (wb_acks w)" by (simp add: map_of_eq_None_iff)
      then have "\<not> mine q st x" if "x \<in> set (wb_operations w)" for x using o' that by (auto simp: mine_def)
      then show ?thesis using ow None by (auto simp: marks_set_acks[OF d] m owns_def)
    next
      case (Some y)
      obtain stream through where y: "y = (stream, through)" by (cases y)
      have "(q, stream, through) \<in> set (wb_acks w)" using Some y by (simp add: map_of_SomeD)
      then have k: "ack_fits (wb_operations w) s (q, stream, through)" using f unfolding acks_fit_def by blast
      show ?thesis
      proof (cases "st = stream")
        case True
        then show ?thesis using ow k Some y by (fastforce simp: marks_set_acks[OF d] m owns_def ack_fits_def)
      next
        case False
        then show ?thesis using ow k Some y by (fastforce simp: marks_set_acks[OF d] m owns_def ack_fits_def)
      qed
    qed
  qed
  then have "acked (ex @ wb_operations w) [] ?s"
    using a unfolding acked_def set_acks_fields by (auto simp: sorted_wrt_append)
  then show ?thesis unfolding acknowledge_def Let_def
    using acked_kept kept_shows by (metis kept_def)
qed

subsection \<open>The invariant\<close>

definition ack_inv :: "live_op list \<Rightarrow> 'f controller \<Rightarrow> bool" where
  "ack_inv ex c \<longleftrightarrow> acked ex (in_flight_ops c) (co_live c) \<and> (\<forall>w. co_in_flight c = Some w \<longrightarrow> acks_fit w (co_live c))"

lemma ack_inv_kept: "ack_inv ex c \<Longrightarrow> marks_kept (co_live c) s' \<Longrightarrow> ack_inv ex (c\<lparr>co_live := s'\<rparr>)"
  unfolding ack_inv_def in_flight_ops_def by (auto intro: acked_kept acks_fit_kept)

lemma ack_inv_next: "ack_inv ex c \<Longrightarrow> accepts_next p n (co_live c) s' \<Longrightarrow> ack_inv ex (c\<lparr>co_live := s'\<rparr>)"
  unfolding ack_inv_def in_flight_ops_def acks_fit_def
  by (cases "co_in_flight c") (auto intro: acked_next ack_fits_next)

lemma ack_inv_stream: "ack_inv ex c \<Longrightarrow> starts_stream p (co_live c) s' \<Longrightarrow> ack_inv ex (c\<lparr>co_live := s'\<rparr>)"
  unfolding ack_inv_def in_flight_ops_def acks_fit_def
  by (cases "co_in_flight c") (auto intro: acked_stream ack_fits_stream)

lemma marks_kept_command: "marks_kept s (fst (accept_command F now conn token name payload s))"
proof -
  let ?p = "cn_participant (lv_conns s conn)"
  have f: "marks_kept t (set_tokens p x (t\<lparr>lv_next_cmd := n, lv_cmds := cs\<rparr>))" "marks_kept t (set_tokens p x t)" "marks_kept t ((set_tokens p x t)\<lparr>lv_command_rate := r\<rparr>)"
    for p x n cs r and t :: "'a live"
    by (auto simp: marks_kept_def marks_def ingress_of_def set_tokens_def fun_eq_iff)
  have r: "marks_kept s (fst (command_room now ?p s))" unfolding command_room_def Let_def by (auto simp: f split: option.split prod.split)
  have e: "marks_kept t (record_activity now (enqueue_player now ((plain_op ?p)\<lparr>lo_command := x\<rparr>) t))" for x and t :: "'a live"
    by (rule marks_kept_trans[OF kept_enqueue_player(1) kept_marks[OF kept_updates(2)]]) (simp add: plain_kinds)
  show ?thesis unfolding accept_command_def Let_def using r
    by (auto split: sum.split option.split prod.split intro: marks_kept_trans marks_kept_trans[OF _ marks_kept_trans[OF f(1) e]])
qed

lemma marks_kept_rejoin: "marks_kept s (fst (ask_rejoin now user s))"
proof -
  have "marks_kept s (enqueue_op now ((plain_op p)\<lparr>lo_rejoin := a\<rparr>) (s\<lparr>lv_next_ask := n, lv_asks := as, lv_rejoins := rj\<rparr>))" for p a n as rj
    by (rule marks_kept_after[OF marks_kept_enqueue]) (simp_all add: plain_kinds, simp add: marks_kept_def marks_def ingress_of_def fun_eq_iff)
  then show ?thesis by (auto simp: ask_rejoin_def Let_def split: option.split)
qed

lemma marks_kept_commit_ops: "commit_ops now os rs ds s = Some s' \<Longrightarrow> marks_kept s s'"
proof (induction os arbitrary: rs ds s)
  case (Cons o' os)
  have c: "marks_kept s (command_executed p c r s)" for p c r and s :: "'a live"
    by (simp add: command_executed_def resolve_command_def set_tokens_def marks_kept_def marks_def ingress_of_def fun_eq_iff Let_def)
  have b: "marks_kept t (broadcast_roster t)" for t :: "'a live" by (intro kept_marks kept_tells tells_broadcast_roster)
  have d: "marks_kept s (decide_rejoin now p a acc s)" for p a acc and s :: "'a live"
    unfolding decide_rejoin_def Let_def
    by (auto intro!: marks_kept_after[OF b] simp: resolve_rejoin_def set_presence_def marks_kept_def marks_def ingress_of_def fun_eq_iff)
  show ?case using Cons.prems by (auto split: option.splits list.splits dest!: Cons.IH intro: marks_kept_trans[OF c] marks_kept_trans[OF d])
qed simp

lemma ack_inv_handle:
  assumes i: "ack_inv ex c" and ph: "lv_phase (handle F now r (co_live c)) = Running" "lv_phase (co_live c) = Running"
  shows "ack_inv ex (c\<lparr>co_live := handle F now r (co_live c)\<rparr>)"
proof -
  have k: "kept (co_live c) s' \<Longrightarrow> ack_inv ex (c\<lparr>co_live := s'\<rparr>)" for s' using ack_inv_kept[OF i] by (simp add: kept_def)
  have same: "ack_inv ex (c\<lparr>co_live := co_live c\<rparr>)" by (rule k) simp
  show ?thesis
  proof (cases r)
    case (Rq_sample conn sequence inputs)
    then show ?thesis using sample_marks[of "co_live c" F now conn sequence inputs] k ack_inv_next[OF i] by auto
  next
    case (Rq_command conn token name payload)
    then show ?thesis using ack_inv_kept[OF i marks_kept_command] by simp
  next
    case (Rq_rejoin user)
    then show ?thesis using ack_inv_kept[OF i marks_kept_rejoin] by simp
  next
    case (Rq_reattach user display signed)
    show ?thesis
    proof (rule reattach_cases[of F now user display signed "co_live c"])
      fix p st
      assume g: "fst (reattach_player F now user display signed (co_live c)) = after_attach user display p st (before_attach F now user p (co_live c))"
      have "ack_inv ex (c\<lparr>co_live := before_attach F now user p (co_live c)\<rparr>)" by (rule k) (rule kept_before_attach)
      then have "ack_inv ex (c\<lparr>co_live := before_attach F now user p (co_live c), co_live := after_attach user display p st (before_attach F now user p (co_live c))\<rparr>)"
        by (rule ack_inv_stream[where p = p]) (simp add: after_attach_stream)
      then show ?thesis using Rq_reattach g by simp
    qed (use Rq_reattach same in simp)
  next
    case (Rq_end answer)
    then have "handle F now r (co_live c) = co_live c" using ph(1) ended_end_session[of answer id "co_live c"] by simp
    then show ?thesis using same by simp
  qed (use ph i in \<open>auto intro!: k keeping simp: begin_start_def cancel_start_def complete_start_def retire_def\<close>)
qed

subsection \<open>The beginning\<close>

definition young :: "'f live \<Rightarrow> bool" where
  "young s \<longleftrightarrow> (\<forall>p. \<exists>st. marks s p = (st, 0, 0) \<and> known (lv_next_conn s) st)"

lemma marks_cong: "lv_inputs s' = lv_inputs s \<Longrightarrow> marks s' = marks s"
  by (simp add: marks_def ingress_of_def fun_eq_iff)

lemma young_kept: "young s \<Longrightarrow> marks s' = marks s \<Longrightarrow> lv_next_conn s' = lv_next_conn s \<Longrightarrow> young s'"
  by (simp add: young_def)

lemma young_enter_participant: "young s \<Longrightarrow> young (enter_participant F previews until cause rg views q s)"
  by (auto simp: young_def enter_participant_def Let_def marks_def ingress_of_def set_ingress_def set_tokens_def set_presence_def
      new_participant_inputs_def known_def)

lemma young_enter_player:
  fixes s :: "'f live"
  assumes y: "young s" and c: "\<And>u c. (u, c) \<in> set (lv_players s) \<Longrightarrow> c < lv_next_conn s"
  shows "young (enter_player q s)"
proof -
  have m: "marks (on_conn f c t) = marks t" "lv_next_conn (on_conn f c t) = lv_next_conn t" "marks (set_presence p r t) = marks t"
    "lv_next_conn (set_presence p r t) = lv_next_conn t" "marks (t\<lparr>lv_players := ps\<rparr>) = marks t" "marks (send_full c p t) = marks t"
    "lv_next_conn (set_ingress p i t) = lv_next_conn t" for f c p r ps i and t :: "'f live"
    by (simp_all add: marks_def ingress_of_def on_conn_def set_conn_def set_presence_def set_ingress_def fun_eq_iff Let_def)
  have n: "young (on_conn (mark_started st) conn (send_full conn (pa_id q) (set_ingress (pa_id q) ((ingress_of s1 (pa_id q))\<lparr>pi_stream := Some conn\<rparr>) s1)))"
    if "marks s1 = marks s" "lv_next_conn s1 = lv_next_conn s" "conn < lv_next_conn s" for s1 :: "'f live" and st conn
  proof -
    obtain st' where "marks s (pa_id q) = (st', 0, 0)" using y unfolding young_def by blast
    then have "pi_max_accepted (ingress_of s1 (pa_id q)) = 0" "pi_consumed (ingress_of s1 (pa_id q)) = 0"
      using that(1) marks_of[of s1 "pa_id q"] by simp_all
    then show ?thesis using y that by (simp add: young_def m marks_set known_def)
  qed
  show ?thesis unfolding enter_player_def Let_def
    using y c by (auto simp: m player_of_def dest!: map_of_SomeD split: option.split intro!: n intro: young_kept)
qed

lemma young_begins:
  fixes s :: "'f live"
  assumes ph: "lv_phase s = Starting" and u: "unplayed s" and r: "room_ok s"
  shows "young (complete_start F False window now ps game frontend views res s)"
proof -
  define s0 where "s0 = game_begins now ps game frontend s"
  obtain until cause rg s1 s2 s3 s4 where
    s1: "s1 = fold (enter_participant F False until cause rg views) ps s0" and
    s2: "s2 = fold (drop_outsider ps) (lv_players s1) s1" and
    s3: "s3 = on_conns (mark_started (lv_start s2)) (lv_admins s2) s2" and s4: "s4 = fold enter_player ps s3" and
    eq: "complete_start F False window now ps game frontend views res s = broadcast_roster s4"
    unfolding s0_def by (rule complete_form[OF ph])
  have "lv_inputs s0 = (\<lambda>_. None)" using u by (simp add: unplayed_def entries_def s0_def game_begins_def)
  then have y0: "young s0" by (simp add: young_def marks_def ingress_of_def zero_ingress_def known_def)
  have "young t \<Longrightarrow> young (fold (enter_participant F False until cause rg views) qs t)" for qs and t :: "'f live"
    by (induction qs arbitrary: t) (simp_all add: young_enter_participant)
  then have y1: "young s1" using y0 s1 by blast
  have tell: "young t \<Longrightarrow> tells t t' \<Longrightarrow> young t'" for t t' :: "'f live"
    by (rule young_kept, assumption, rule marks_cong) (simp_all add: tells_fields)
  have drop: "young t \<Longrightarrow> young (fold (drop_outsider ps) xs t)" for xs and t :: "'f live"
  proof (induction xs arbitrary: t)
    case (Cons x xs)
    have "marks (drop_outsider ps x t) = marks t" "lv_next_conn (drop_outsider ps x t) = lv_next_conn t"
      by (auto intro!: marks_cong simp: drop_outsider_def on_conn_def set_conn_def)
    then show ?case using Cons young_kept by fastforce
  qed simp
  have y3: "young s3" unfolding s3 by (rule tell[OF drop[OF y1, of "lv_players s1", folded s2]], intro tells_on_conns) simp
  have f: "fewer s0 s3"
  proof -
    have "same_room s0 s1" unfolding s1 by (rule same_room_fold) (rule same_room_enter_participant)
    moreover have "fewer s1 s2" unfolding s2 by (rule fewer_fold) (rule fewer_drop_outsider)
    moreover have "same_room s2 s3" unfolding s3 by (rule same_room_tells, intro tells_on_conns) simp
    ultimately show ?thesis using fewer_trans fewer_same_room by blast
  qed
  have c: "c < lv_next_conn s3" if "(u, c) \<in> set (lv_players s3)" for u c
    using f that room_okD(2)[OF r] unfolding fewer_def by (auto simp: s0_def game_begins_def)
  have "young (fold enter_player qs t)" if "young t" "\<And>u c. (u, c) \<in> set (lv_players t) \<Longrightarrow> c < lv_next_conn t" for qs and t :: "'f live"
    using that
  proof (induction qs arbitrary: t)
    case (Cons q qs)
    have e: "(u, c) \<in> set (lv_players (enter_player q t)) \<Longrightarrow> c < lv_next_conn (enter_player q t)" for u c
      using fewer_enter_player[of t q] Cons.prems(2) unfolding fewer_def by auto
    show ?case using Cons.IH[OF young_enter_player[OF Cons.prems] e] by simp
  qed simp
  then have "young s4" using y3 c s4 by blast
  then show ?thesis unfolding eq by (rule tell) (rule tells_broadcast_roster)
qed

lemma acked_begins:
  assumes y: "young s" and tl: "lv_timeline s = []"
  shows "acked [] [] s"
proof -
  have "owns [] [] (lv_next_conn s) p (marks s p)" for p
  proof -
    obtain st where "marks s p = (st, 0, 0)" "known (lv_next_conn s) st" using y unfolding young_def by blast
    then show ?thesis by (simp add: owns_def)
  qed
  then show ?thesis using tl by (simp add: acked_def)
qed

subsection \<open>Every state reached\<close>

lemma flight_acks:
  assumes r: "running_ok t ex (wb_operations w) s" and f: "flight_ok w s'" and i: "ids s' = ids s" and ro: "roster_ok (lv_participants s')"
  shows "distinct (map fst (wb_acks w))" "\<forall>x\<in>set (wb_operations w). lo_participant x \<in> fst ` set (wb_acks w)"
proof -
  show "distinct (map fst (wb_acks w))" using f ro by (simp add: flight_ok_def roster_ok_def)
  have "fst ` set (wb_acks w) = set (map fst (wb_acks w))" by simp
  also have "... = ids s" using f i by (simp add: flight_ok_def ids_def)
  finally show "\<forall>x\<in>set (wb_operations w). lo_participant x \<in> fst ` set (wb_acks w)" using r unfolding running_ok_def by simp
qed

lemma ack_inv_turn:
  assumes k: "turn F now c ops c'" and i: "timeline_inv t ex c" and t: "t \<le> now"
    and ph: "lv_phase (co_live c) = Running" and n: "lv_phase (co_live c') = Running" and a: "ack_inv ex c"
  shows "ack_inv (ex @ ops) c'"
proof -
  have "room_ok (co_live c)" using i ph by (simp add: timeline_inv_def)
  then have ro: "roster_ok (lv_participants (co_live c))" using ph by (simp add: room_okD(8))
  have rf: "running_ok t ex (in_flight_ops c) (co_live c)" "\<And>w. co_in_flight c = Some w \<Longrightarrow> flight_ok w (co_live c)"
    using i ph by (simp_all add: timeline_inv_def phase_ok_def Let_def)
  show ?thesis using k i t ph n
  proof (cases rule: running_turn)
    case (request r)
    then show ?thesis using ack_inv_handle[OF a, of F now r] n ph by simp
  next
    case nothing
    then show ?thesis using a by (simp add: ack_inv_def in_flight_ops_def)
  next
    case (idle s1)
    have ak: "acked ex [] s1" using a idle acked_kept[OF _ kept_marks[OF kept_expire]] by (simp add: ack_inv_def in_flight_ops_def)
    let ?w = "work_taken now s1"
    have w: "distinct (map fst (wb_acks ?w))"
      using ro same_room_expire(2)[of "co_live c" F now] by (simp add: work_taken_fields idle(1) same_room_def roster_ok_def comp_def)
    have "acked (ex @ wb_operations ?w) [] (acknowledge ?w (no_execution (lv_game s1)) (left_waiting now s1))"
      by (rule acked_committed[OF acked_taken(1)[OF ak] acked_taken(2)[OF ak] w]) (simp add: idle(5))
    then show ?thesis using idle by (simp add: ack_inv_def in_flight_ops_def)
  next
    case (taken s1)
    have ak: "acked ex [] s1" using a taken acked_kept[OF _ kept_marks[OF kept_expire]] by (simp add: ack_inv_def in_flight_ops_def)
    then show ?thesis using taken acked_taken[OF ak] by (simp add: ack_inv_def in_flight_ops_def)
  next
    case (returned work)
    have "marks (requeue work (co_live c)) = marks (co_live c)" "lv_next_conn (requeue work (co_live c)) = lv_next_conn (co_live c)"
      "lv_timeline (requeue work (co_live c)) = wb_operations work @ lv_timeline (co_live c)"
      using ph by (auto simp: requeue_def recount_def Let_def intro!: marks_cong split: prod.split)
    then show ?thesis using a returned by (simp add: ack_inv_def in_flight_ops_def acked_def)
  next
    case (commit work e s2 shutdown r1 r2)
    have "marks_kept (co_live c) (mirrored work e (co_live c))" by (auto simp: marks_kept_def mirrored_def intro!: marks_cong)
    then have m: "marks_kept (co_live c) s2" using marks_kept_commit_ops[OF commit(6)] marks_kept_trans by blast
    have a2: "acked ex (wb_operations work) s2" "acks_fit work s2"
      using a commit(1) acked_kept[OF _ m] acks_fit_kept[OF _ m] by (simp_all add: ack_inv_def in_flight_ops_def)
    have w: "running_ok t ex (wb_operations work) (co_live c)" using rf(1) commit(1) by (simp add: in_flight_ops_def)
    from acked_committed[OF a2 flight_acks[OF w rf(2)[OF commit(1)] refl ro], of e]
    show ?thesis using commit by (simp add: ack_inv_def in_flight_ops_def)
  qed
qed

lemma reaches_acks: "reaches F c executed now \<Longrightarrow> lv_phase (co_live c) = Running \<Longrightarrow> ack_inv executed c"
proof (induction rule: reaches.induct)
  case (reaches_turn c executed t now ops c')
  note i = inv_reaches[OF reaches_turn.hyps(1)]
  show ?case
  proof (cases "lv_phase (co_live c) = Running")
    case True
    then show ?thesis using ack_inv_turn[OF reaches_turn.hyps(3) i reaches_turn.hyps(2)] reaches_turn by blast
  next
    case False
    show ?thesis using reaches_turn.hyps(3) i False reaches_turn.prems
    proof (cases rule: beginning_turn)
      case (1 w ps g f v res)
      have "young (co_live c')" using young_begins[OF 1(4,5,6)] 1(9) by simp
      moreover have "lv_timeline (co_live c') = []"
        using completed(1)[OF 1(4,6,7,8) _ refl] 1(5,9) by (simp add: unplayed_def idle_def game_begins_def)
      ultimately show ?thesis using acked_begins 1 by (simp add: ack_inv_def in_flight_ops_def)
    qed
  qed
qed (simp add: new_controller_def new_live_def)



end
