(* ===== verification/LiveCalls.thy ===== *)
theory LiveCalls
  imports LiveTurns
begin

section \<open>Nobody waits for nothing\<close>

text \<open>
  A COMMAND and a rejoin wait until the game executed them, or the Session ended. Here: each request that
  waits stands for exactly one operation outstanding, what the game executed is answered as such, and once
  the Session ended nothing waits.
\<close>

definition commands_in :: "live_op list \<Rightarrow> (string \<times> nat) list" where
  "commands_in os = List.map_filter (\<lambda>o'. map_option (Pair (lo_participant o')) (lo_command o')) os"

definition rejoins_in :: "live_op list \<Rightarrow> (string \<times> nat) list" where
  "rejoins_in os = List.map_filter (\<lambda>o'. map_option (Pair (lo_participant o')) (lo_rejoin o')) os"

lemma calls_in_simps [simp]:
  "commands_in [] = []" "rejoins_in [] = []"
  "commands_in (o' # os) = (case lo_command o' of None \<Rightarrow> commands_in os | Some c \<Rightarrow> (lo_participant o', c) # commands_in os)"
  "rejoins_in (o' # os) = (case lo_rejoin o' of None \<Rightarrow> rejoins_in os | Some a \<Rightarrow> (lo_participant o', a) # rejoins_in os)"
  by (simp_all add: commands_in_def rejoins_in_def List.map_filter_simps split: option.split)

lemma calls_in_append [simp]:
  "commands_in (xs @ ys) = commands_in xs @ commands_in ys" "rejoins_in (xs @ ys) = rejoins_in xs @ rejoins_in ys"
  by (induction xs) (simp_all split: option.split)

lemma callless_in: "list_all callless ops \<Longrightarrow> commands_in ops = [] \<and> rejoins_in ops = []"
  by (induction ops) (simp_all add: callless_def)

definition pends :: "'f live \<Rightarrow> string \<Rightarrow> nat set" where
  "pends s p = snd ` set (pending_of s p)"

definition asked :: "'f live \<Rightarrow> nat set" where
  "asked s = snd ` set (lv_rejoins s)"

lemma pendsI: "(tok, c) \<in> set (pending_of s p) \<Longrightarrow> c \<in> pends s p"
  by (force simp: pends_def)

lemma pendsE: "c \<in> pends s p \<Longrightarrow> (\<And>tok. (tok, c) \<in> set (pending_of s p) \<Longrightarrow> thesis) \<Longrightarrow> thesis"
  by (auto simp: pends_def)

lemma pends_cong: "pending_of s' = pending_of s \<Longrightarrow> pends s' p = pends s p" and asked_cong: "lv_rejoins s' = lv_rejoins s \<Longrightarrow> asked s' = asked s"
  by (simp_all add: pends_def asked_def)

definition waits :: "live_op list \<Rightarrow> 'f live \<Rightarrow> bool" where
  "waits os s \<longleftrightarrow> distinct (commands_in os) \<and> set (commands_in os) = {(p, c). c \<in> pends s p}
     \<and> distinct (rejoins_in os) \<and> set (rejoins_in os) = set (lv_rejoins s)
     \<and> (\<forall>o'\<in>set os. lo_command o' = None \<or> lo_rejoin o' = None)"

definition commands_ok :: "'f live \<Rightarrow> bool" where
  "commands_ok s \<longleftrightarrow> (\<forall>c < lv_next_cmd s. pc_answer (lv_cmds s c) = None \<longleftrightarrow> (\<exists>p. c \<in> pends s p))
     \<and> (\<forall>p tok c. (tok, c) \<in> set (pending_of s p) \<longrightarrow> c < lv_next_cmd s \<and> pc_token (lv_cmds s c) = tok)
     \<and> (\<forall>p. distinct (map fst (pending_of s p)))
     \<and> (\<forall>p q c. c \<in> pends s p \<and> c \<in> pends s q \<longrightarrow> p = q)"

definition asks_ok :: "'f live \<Rightarrow> bool" where
  "asks_ok s \<longleftrightarrow> (\<forall>a < lv_next_ask s. lv_asks s a = None \<longleftrightarrow> a \<in> asked s)
     \<and> distinct (map fst (lv_rejoins s)) \<and> distinct (map snd (lv_rejoins s)) \<and> (\<forall>a \<in> asked s. a < lv_next_ask s)"

definition pending_ok :: "'f live \<Rightarrow> bool" where
  "pending_ok s \<longleftrightarrow> commands_ok s \<and> asks_ok s"

lemma commands_okD:
  assumes "commands_ok s"
  shows "c < lv_next_cmd s \<Longrightarrow> pc_answer (lv_cmds s c) = None \<longleftrightarrow> (\<exists>p. c \<in> pends s p)"
    and "(tok, c) \<in> set (pending_of s p) \<Longrightarrow> c < lv_next_cmd s" and "(tok, c) \<in> set (pending_of s p) \<Longrightarrow> pc_token (lv_cmds s c) = tok"
    and "distinct (map fst (pending_of s p))"
    and "c \<in> pends s p \<Longrightarrow> c \<in> pends s q \<Longrightarrow> p = q"
    and "c \<in> pends s p \<Longrightarrow> c < lv_next_cmd s"
  using assms unfolding commands_ok_def by (blast, blast, blast, blast, blast, blast elim: pendsE)

lemma commands_okI:
  assumes "\<And>c. c < lv_next_cmd s \<Longrightarrow> pc_answer (lv_cmds s c) = None \<longleftrightarrow> (\<exists>p. c \<in> pends s p)"
    and "\<And>p tok c. (tok, c) \<in> set (pending_of s p) \<Longrightarrow> c < lv_next_cmd s \<and> pc_token (lv_cmds s c) = tok"
    and "\<And>p. distinct (map fst (pending_of s p))"
    and "\<And>p q c. c \<in> pends s p \<Longrightarrow> c \<in> pends s q \<Longrightarrow> p = q"
  shows "commands_ok s"
  using assms unfolding commands_ok_def by blast

lemma commands_ok_cong:
  "pending_of s' = pending_of s \<Longrightarrow> lv_cmds s' = lv_cmds s \<Longrightarrow> lv_next_cmd s' = lv_next_cmd s \<Longrightarrow> commands_ok s' = commands_ok s"
  by (simp add: commands_ok_def pends_cong[of s' s])

lemma asks_ok_cong:
  "lv_rejoins s' = lv_rejoins s \<Longrightarrow> lv_asks s' = lv_asks s \<Longrightarrow> lv_next_ask s' = lv_next_ask s \<Longrightarrow> asks_ok s' = asks_ok s"
  by (simp add: asks_ok_def asked_cong[of s' s])

definition in_game :: "'f live \<Rightarrow> bool" where
  "in_game s \<longleftrightarrow> lv_phase s \<in> {Running, Finishing}"

definition waiters_here :: "'f live \<Rightarrow> bool" where
  "waiters_here s \<longleftrightarrow> (\<forall>p. pending_of s p \<noteq> [] \<longrightarrow> in_game s \<and> p \<in> ids s) \<and> (lv_rejoins s \<noteq> [] \<longrightarrow> in_game s)"

definition told_executed :: "live_op list \<Rightarrow> 'f live \<Rightarrow> bool" where
  "told_executed ex s \<longleftrightarrow> (\<forall>(p, c) \<in> set (commands_in ex). c < lv_next_cmd s)
     \<and> (\<forall>c < lv_next_cmd s. (\<exists>r. pc_answer (lv_cmds s c) = Some (Command_executed, r)) \<longleftrightarrow> c \<in> snd ` set (commands_in ex))"

definition calls_ok :: "live_op list \<Rightarrow> 'f live \<Rightarrow> bool" where
  "calls_ok ex s \<longleftrightarrow> pending_ok s \<and> waiters_here s \<and> told_executed ex s"

subsection \<open>Steps that keep who waits\<close>

lemma calls_kept_fields:
  assumes "calls_kept s s'"
  shows "pending_of s' = pending_of s" "lv_cmds s' = lv_cmds s" "lv_next_cmd s' = lv_next_cmd s" "lv_rejoins s' = lv_rejoins s"
    "lv_asks s' = lv_asks s" "lv_next_ask s' = lv_next_ask s"
  using assms by (simp_all add: calls_kept_def calls_def)

lemma pending_ok_kept: "pending_ok s \<Longrightarrow> calls_kept s s' \<Longrightarrow> pending_ok s'"
  by (simp add: pending_ok_def commands_ok_cong[of s' s] asks_ok_cong[of s' s] calls_kept_fields[of s s'])

lemma told_executed_kept: "told_executed ex s \<Longrightarrow> calls_kept s s' \<Longrightarrow> told_executed ex s'"
  by (simp add: told_executed_def calls_kept_fields[of s s'])

lemma calls_ok_kept:
  "calls_ok ex s \<Longrightarrow> calls_kept s s' \<Longrightarrow> (in_game s \<Longrightarrow> in_game s' \<and> ids s' = ids s) \<Longrightarrow> calls_ok ex s'"
  unfolding calls_ok_def waiters_here_def using pending_ok_kept told_executed_kept calls_kept_fields(1,4)[of s s'] by metis

lemma waits_kept: "waits (fl @ lv_timeline s) s \<Longrightarrow> calls_kept s s' \<Longrightarrow> waits (fl @ lv_timeline s') s'"
proof -
  assume w: "waits (fl @ lv_timeline s) s" and k: "calls_kept s s'"
  obtain ops where o': "lv_timeline s' = lv_timeline s @ ops" "list_all callless ops" using k unfolding calls_kept_def by blast
  have "\<forall>x\<in>set ops. lo_command x = None \<or> lo_rejoin x = None" using o'(2) by (auto simp: list_all_iff callless_def)
  then show ?thesis using w callless_in[OF o'(2)] unfolding o'(1) by (simp add: waits_def calls_kept_fields[OF k] pends_cong[of s' s] ball_Un)
qed

lemma calls_kept_plain:
  "lv_tokens s' = lv_tokens s \<Longrightarrow> lv_cmds s' = lv_cmds s \<Longrightarrow> lv_next_cmd s' = lv_next_cmd s \<Longrightarrow> lv_rejoins s' = lv_rejoins s
   \<Longrightarrow> lv_asks s' = lv_asks s \<Longrightarrow> lv_next_ask s' = lv_next_ask s \<Longrightarrow> lv_timeline s' = lv_timeline s \<Longrightarrow> calls_kept s s'"
  by (simp add: calls_kept_def calls_def pending_of_def tokens_of_def fun_eq_iff)

lemma calls_kept_set_acks: "calls_kept s (fold set_ack as s)"
proof (induction as arbitrary: s)
  case (Cons a as)
  have "calls_kept s (set_ack a s)" by (rule calls_kept_plain) (simp_all add: set_ack_def set_ingress_def split: prod.split)
  then show ?case using Cons calls_kept_trans by fastforce
qed simp

lemma calls_kept_acknowledge: "calls_kept s (acknowledge w e s)"
  unfolding acknowledge_def Let_def
  by (rule calls_kept_after[OF kept_calls[OF kept_shows(2)]], rule calls_kept_after[OF kept_calls[OF kept_shows(1)]], rule calls_kept_set_acks)

lemma calls_kept_sample:
  fixes s :: "'f live"
  shows "calls_kept s (fst (take_sample F now conn sequence inputs s))"
proof -
  have i: "calls_kept t (set_ingress p i t)" for p i and t :: "'f live"
    by (rule calls_kept_plain) (simp_all add: set_ingress_def)
  have e: "calls_kept t (record_activity now (enqueue_player now ((plain_op p)\<lparr>lo_inputs := x, lo_stream := y, lo_sequence := z\<rparr>) t))" for p x y z and t :: "'f live"
    by (rule calls_kept_trans[OF kept_enqueue_player(2) kept_calls[OF kept_updates(2)]]) (simp add: plain_kinds)
  show ?thesis unfolding take_sample_def Let_def
    by (auto split: sum.split option.split prod.split intro: i calls_kept_trans[OF i e])
qed

subsection \<open>A COMMAND and a rejoin asked for\<close>

lemma command_room_calls: "calls_kept s (fst (command_room now p s))"
proof -
  have f: "calls_kept s (set_tokens p ((tokens_of s p)\<lparr>tk_rate := r\<rparr>) s)" for r
    by (rule kept_calls[OF kept_tokens]) (simp add: pending_of_def)
  have g: "calls_kept s ((set_tokens p ((tokens_of s p)\<lparr>tk_rate := r\<rparr>) s)\<lparr>lv_command_rate := x\<rparr>)" for r x
    by (rule calls_kept_trans[OF f kept_calls[OF kept_updates(13)]])
  show ?thesis unfolding command_room_def Let_def using f g by (auto split: option.split prod.split)
qed

text \<open>A new command waits, with an operation that carries it.\<close>

definition newly_waits :: "string \<Rightarrow> 'f live \<Rightarrow> 'f live \<Rightarrow> bool" where
  "newly_waits p s s' \<longleftrightarrow> (\<exists>tok o'. let c = lv_next_cmd s in
     tok \<notin> fst ` set (pending_of s p) \<and> pending_of s' = (pending_of s)(p := (tok, c) # pending_of s p)
     \<and> lv_next_cmd s' = c + 1 \<and> (\<forall>i < c. lv_cmds s' i = lv_cmds s i) \<and> pc_token (lv_cmds s' c) = tok \<and> pc_answer (lv_cmds s' c) = None
     \<and> lv_rejoins s' = lv_rejoins s \<and> lv_asks s' = lv_asks s \<and> lv_next_ask s' = lv_next_ask s
     \<and> lv_timeline s' = lv_timeline s @ [o'] \<and> lo_command o' = Some c \<and> lo_participant o' = p \<and> lo_rejoin o' = None)"

lemma accept_command_calls:
  assumes "lv_phase s = Running"
  shows "calls_kept s (fst (accept_command F now conn token name payload s))
   \<or> plays conn s \<and> newly_waits (cn_participant (lv_conns s conn)) s (fst (accept_command F now conn token name payload s))"
proof -
  let ?p = "cn_participant (lv_conns s conn)"
  have n: "newly_waits ?p s (record_activity now (enqueue_player now ((plain_op ?p)\<lparr>lo_command := Some (lv_next_cmd s1)\<rparr>)
      (set_tokens ?p ((tokens_of s1 ?p)\<lparr>tk_pending := (token, lv_next_cmd s1) # tk_pending (tokens_of s1 ?p)\<rparr>)
        (s1\<lparr>lv_next_cmd := lv_next_cmd s1 + 1, lv_cmds := (lv_cmds s1)(lv_next_cmd s1 := \<lparr>pc_token = token, pc_name = name, pc_payload = Raw pl, pc_answer = None\<rparr>)\<rparr>))))"
    if r: "command_room now ?p s = (s1, None)" and t: "map_of (tk_pending (tokens_of s ?p)) token = None" for s1 pl
  proof -
    have k: "calls_kept s s1" using command_room_calls[of s now ?p] r by simp
    have tl: "lv_timeline s1 = lv_timeline s"
      using r by (auto simp: command_room_def set_tokens_def Let_def split: if_splits option.splits prod.splits)
    have tok: "token \<notin> fst ` set (pending_of s ?p)" using t by (simp add: map_of_eq_None_iff pending_of_def)
    show ?thesis unfolding newly_waits_def Let_def
      using tok calls_kept_fields[OF k] tl
      by (intro exI[of _ token] exI[of _ "(plain_op ?p)\<lparr>lo_command := Some (lv_next_cmd s1), lo_from_player := True, lo_time := session_time now s1, lo_order := lv_next_order s1 + 1\<rparr>"])
        (auto simp: record_activity_def enqueue_player_def enqueue_op_def set_tokens_def pending_of_def tokens_of_def fun_eq_iff plain_op_def session_time_def Let_def)
  qed
  have k: "command_room now ?p s = (s1, Some l) \<Longrightarrow> calls_kept s s1" for s1 l using command_room_calls[of s now ?p] by simp
  show ?thesis using assms unfolding accept_command_def Let_def
    by (auto split: sum.split option.split prod.split simp del: fun_upd_apply intro: n[unfolded Suc_eq_plus1[symmetric]] k)
qed

lemma pending_ok_command:
  assumes p: "pending_ok s" and n: "newly_waits p s s'"
  shows "pending_ok s'"
proof -
  let ?c = "lv_next_cmd s"
  obtain tok where f: "tok \<notin> fst ` set (pending_of s p)" "pending_of s' = (pending_of s)(p := (tok, ?c) # pending_of s p)"
     "lv_next_cmd s' = ?c + 1" "\<And>i. i < ?c \<Longrightarrow> lv_cmds s' i = lv_cmds s i" "pc_token (lv_cmds s' ?c) = tok" "pc_answer (lv_cmds s' ?c) = None"
     "lv_rejoins s' = lv_rejoins s" "lv_asks s' = lv_asks s" "lv_next_ask s' = lv_next_ask s"
    using n unfolding newly_waits_def Let_def by blast
  have c: "commands_ok s" and a: "asks_ok s" using p unfolding pending_ok_def by blast+
  note k = commands_okD[OF c]
  have w: "i \<in> pends s' q \<longleftrightarrow> i \<in> pends s q \<or> q = p \<and> i = ?c" for i q
    by (auto simp: f(2) pends_def)
  have "commands_ok s'"
  proof (rule commands_okI)
    show "pc_answer (lv_cmds s' i) = None \<longleftrightarrow> (\<exists>q. i \<in> pends s' q)" if "i < lv_next_cmd s'" for i
    proof (cases "i = ?c")
      case False
      then have "i < ?c" using that f(3) by simp
      then show ?thesis using k(1)[of i] f(4)[of i] False unfolding w by simp
    qed (use w f(6) in blast)
    show "i < lv_next_cmd s' \<and> pc_token (lv_cmds s' i) = t" if "(t, i) \<in> set (pending_of s' q)" for q t i
    proof (cases "(t, i) \<in> set (pending_of s q)")
      case True
      then show ?thesis using k(2,3)[OF True] f(3) f(4)[of i] by simp
    next
      case False
      then show ?thesis using that f(2,3,5) by (auto split: if_splits)
    qed
    show "distinct (map fst (pending_of s' q))" for q using k(4) f(1,2) by simp
    show "q = r" if "i \<in> pends s' q" "i \<in> pends s' r" for q r i
      using that k(5)[of i q r] k(6)[of i] unfolding w by blast
  qed
  then show ?thesis using a asks_ok_cong[OF f(7,8,9)] unfolding pending_ok_def by simp
qed

lemma told_executed_command:
  assumes e: "told_executed ex s" and n: "newly_waits p s s'"
  shows "told_executed ex s'"
proof -
  let ?c = "lv_next_cmd s"
  have f: "lv_next_cmd s' = ?c + 1" "\<And>i. i < ?c \<Longrightarrow> lv_cmds s' i = lv_cmds s i" "pc_answer (lv_cmds s' ?c) = None"
    using n unfolding newly_waits_def Let_def by blast+
  have k: "(q, i) \<in> set (commands_in ex) \<Longrightarrow> i < ?c" for q i using e unfolding told_executed_def by blast
  have "(\<exists>r. pc_answer (lv_cmds s' i) = Some (Command_executed, r)) \<longleftrightarrow> i \<in> snd ` set (commands_in ex)" if "i < ?c + 1" for i
  proof (cases "i = ?c")
    case True
    then show ?thesis using f(3) k by fastforce
  next
    case False
    then show ?thesis using that e f(2)[of i] unfolding told_executed_def by simp
  qed
  then show ?thesis using k unfolding told_executed_def f(1) by fastforce
qed

lemma waits_command:
  assumes p: "pending_ok s" and w: "waits (fl @ lv_timeline s) s" and n: "newly_waits p s s'"
  shows "waits (fl @ lv_timeline s') s'"
proof -
  let ?c = "lv_next_cmd s"
  obtain tok o' where f: "pending_of s' = (pending_of s)(p := (tok, ?c) # pending_of s p)" "lv_rejoins s' = lv_rejoins s"
     "lv_timeline s' = lv_timeline s @ [o']" "lo_command o' = Some ?c" "lo_participant o' = p" "lo_rejoin o' = None"
    using n unfolding newly_waits_def Let_def by blast
  have old: "?c \<notin> pends s q" for q using p commands_okD(6)[of s ?c q] unfolding pending_ok_def by blast
  have i: "{(q, c). c \<in> pends s' q} = insert (p, ?c) {(q, c). c \<in> pends s q}"
    by (auto simp: f(1) pends_def split: if_splits)
  have "(p, ?c) \<notin> {(q, c). c \<in> pends s q}" using old by simp
  then have "(p, ?c) \<notin> set (commands_in (fl @ lv_timeline s))" using w unfolding waits_def by blast
  then show ?thesis using w unfolding waits_def i f(2) by (simp add: f(3,4,5,6) ball_Un insert_commute)
qed

text \<open>The same for a rejoin.\<close>

definition newly_asks :: "string \<Rightarrow> 'f live \<Rightarrow> 'f live \<Rightarrow> bool" where
  "newly_asks p s s' \<longleftrightarrow> (\<exists>o'. let a = lv_next_ask s in
     p \<notin> fst ` set (lv_rejoins s) \<and> lv_rejoins s' = (p, a) # lv_rejoins s \<and> lv_next_ask s' = a + 1
     \<and> lv_asks s' = (lv_asks s)(a := None) \<and> pending_of s' = pending_of s \<and> lv_cmds s' = lv_cmds s \<and> lv_next_cmd s' = lv_next_cmd s
     \<and> lv_timeline s' = lv_timeline s @ [o'] \<and> lo_rejoin o' = Some a \<and> lo_participant o' = p \<and> lo_command o' = None)"

lemma ask_rejoin_calls:
  "calls_kept s (fst (ask_rejoin now user s)) \<or> lv_phase s = Running \<and> (\<exists>p. newly_asks p s (fst (ask_rejoin now user s)))"
proof (cases "participant_of user s")
  case (Some p)
  have "newly_asks p s (enqueue_op now ((plain_op p)\<lparr>lo_rejoin := Some (lv_next_ask s)\<rparr>)
      (s\<lparr>lv_next_ask := Suc (lv_next_ask s), lv_asks := (lv_asks s)(lv_next_ask s := None), lv_rejoins := (p, lv_next_ask s) # lv_rejoins s\<rparr>))"
    if "map_of (lv_rejoins s) p = None"
    using that by (auto simp: newly_asks_def enqueue_op_def plain_op_def pending_of_def tokens_of_def map_of_eq_None_iff Let_def fun_eq_iff)
  then show ?thesis using Some by (auto simp: ask_rejoin_def Let_def simp del: fun_upd_apply split: option.split)
qed (simp add: ask_rejoin_def)

lemma pending_ok_ask:
  assumes p: "pending_ok s" and n: "newly_asks p s s'"
  shows "pending_ok s'"
proof -
  let ?a = "lv_next_ask s"
  have f: "p \<notin> fst ` set (lv_rejoins s)" "lv_rejoins s' = (p, ?a) # lv_rejoins s" "lv_next_ask s' = ?a + 1" "lv_asks s' = (lv_asks s)(?a := None)"
    "pending_of s' = pending_of s" "lv_cmds s' = lv_cmds s" "lv_next_cmd s' = lv_next_cmd s"
    using n unfolding newly_asks_def Let_def by blast+
  have c: "commands_ok s" and a: "asks_ok s" using p unfolding pending_ok_def by blast+
  have n': "?a \<notin> asked s" using a unfolding asks_ok_def by blast
  have w: "b \<in> asked s' \<longleftrightarrow> b \<in> asked s \<or> b = ?a" for b by (auto simp: f(2) asked_def)
  have "lv_asks s' b = None \<longleftrightarrow> b \<in> asked s'" if "b < ?a + 1" for b
    using a that unfolding w f(4) asks_ok_def by (cases "b = ?a") auto
  moreover have "distinct (map fst (lv_rejoins s'))" "distinct (map snd (lv_rejoins s'))" using a f(1) n'[unfolded asked_def] unfolding asks_ok_def f(2) by simp_all
  moreover have "\<forall>b \<in> asked s'. b < ?a + 1" using a unfolding asks_ok_def Ball_def w by fastforce
  ultimately have "asks_ok s'" unfolding asks_ok_def f(3) by blast
  then show ?thesis using c commands_ok_cong[OF f(5,6,7)] unfolding pending_ok_def by simp
qed

lemma told_executed_ask: "told_executed ex s \<Longrightarrow> newly_asks p s s' \<Longrightarrow> told_executed ex s'"
  unfolding told_executed_def newly_asks_def Let_def by auto

lemma waits_ask:
  assumes p: "pending_ok s" and w: "waits (fl @ lv_timeline s) s" and n: "newly_asks p s s'"
  shows "waits (fl @ lv_timeline s') s'"
proof -
  let ?a = "lv_next_ask s"
  obtain o' where f: "lv_rejoins s' = (p, ?a) # lv_rejoins s" "pending_of s' = pending_of s"
     "lv_timeline s' = lv_timeline s @ [o']" "lo_rejoin o' = Some ?a" "lo_participant o' = p" "lo_command o' = None"
    using n unfolding newly_asks_def Let_def by blast
  have "?a \<notin> asked s" using p unfolding pending_ok_def asks_ok_def by blast
  then have "(p, ?a) \<notin> set (lv_rejoins s)" by (force simp: asked_def)
  then have "(p, ?a) \<notin> set (rejoins_in (fl @ lv_timeline s))" using w unfolding waits_def by blast
  then show ?thesis using w unfolding waits_def f(1) pends_cong[OF f(2)] by (simp add: f(3,4,5,6) ball_Un insert_commute)
qed

subsection \<open>What the game executed is answered\<close>

lemma command_executed_fields:
  "pending_of (command_executed p c r s) = (pending_of s)(p := filter (\<lambda>(k, _). k \<noteq> pc_token (lv_cmds s c)) (pending_of s p))"
  "lv_cmds (command_executed p c r s) = (lv_cmds s)(c := (lv_cmds s c)\<lparr>pc_answer := Some (Command_executed, r)\<rparr>)"
  "lv_next_cmd (command_executed p c r s) = lv_next_cmd s" "lv_rejoins (command_executed p c r s) = lv_rejoins s"
  "lv_asks (command_executed p c r s) = lv_asks s" "lv_next_ask (command_executed p c r s) = lv_next_ask s"
  "lv_timeline (command_executed p c r s) = lv_timeline s"
proof -
  have "tk_pending (remember tok t) = tk_pending t" for tok t by (simp add: remember_def Let_def split: prod.split)
  then show "pending_of (command_executed p c r s) = (pending_of s)(p := filter (\<lambda>(k, _). k \<noteq> pc_token (lv_cmds s c)) (pending_of s p))"
    by (simp add: command_executed_def resolve_command_def set_tokens_def pending_of_def tokens_of_def fun_eq_iff Let_def)
qed (simp_all add: command_executed_def resolve_command_def set_tokens_def Let_def)

lemma decide_rejoin_fields:
  "pending_of (decide_rejoin now p a acc s) = pending_of s" "lv_cmds (decide_rejoin now p a acc s) = lv_cmds s"
  "lv_next_cmd (decide_rejoin now p a acc s) = lv_next_cmd s" "lv_next_ask (decide_rejoin now p a acc s) = lv_next_ask s"
  "lv_rejoins (decide_rejoin now p a acc s) = filter (\<lambda>(k, _). k \<noteq> p) (lv_rejoins s)"
  "lv_asks (decide_rejoin now p a acc s) = (lv_asks s)(a := Some (if acc then Rejoin_accepted else Rejoin_rejected))"
  "lv_timeline (decide_rejoin now p a acc s) = lv_timeline s"
  by (simp_all add: decide_rejoin_def resolve_rejoin_def set_presence_def pending_of_def tokens_of_def fun_eq_iff Let_def)

lemma filter_key:
  assumes "distinct (map fst xs)" "(k, v) \<in> set xs"
  shows "set (filter (\<lambda>(k', _). k' \<noteq> k) xs) = set xs - {(k, v)}"
  using assms by (auto dest: eq_key_imp_eq_value)

lemma snd_minus:
  assumes "\<And>k'. (k', v) \<in> A \<Longrightarrow> k' = k"
  shows "snd ` (A - {(k, v)}) = snd ` A - {v}"
proof
  show "snd ` (A - {(k, v)}) \<subseteq> snd ` A - {v}" by (auto dest: assms)
  show "snd ` A - {v} \<subseteq> snd ` (A - {(k, v)})"
  proof
    fix x assume "x \<in> snd ` A - {v}"
    then obtain k' where "(k', x) \<in> A - {(k, v)}" by auto
    then show "x \<in> snd ` (A - {(k, v)})" by force
  qed
qed

lemma command_waits:
  fixes r :: raw
  assumes p: "pending_ok s" and w: "waits (o' # os) s" and c: "lo_command o' = Some c"
  defines "s' \<equiv> command_executed (lo_participant o') c r s"
  shows "pending_ok s'" "waits os s'" "told_executed ex s \<Longrightarrow> told_executed (ex @ [o']) s'"
proof -
  let ?p = "lo_participant o'"
  have wc: "set (commands_in (o' # os)) = {(q, i). i \<in> pends s q}" "distinct (commands_in (o' # os))" using w unfolding waits_def by blast+
  moreover have "(?p, c) \<in> set (commands_in (o' # os))" using c by simp
  ultimately have "(?p, c) \<in> {(q, i). i \<in> pends s q}" by blast
  then obtain tok where tok: "(tok, c) \<in> set (pending_of s ?p)" by (auto elim: pendsE)
  have co: "commands_ok s" and as: "asks_ok s" using p unfolding pending_ok_def by blast+
  note k = commands_okD[OF co]
  note t = k(3)[OF tok] k(2)[OF tok]
  note f = command_executed_fields[of ?p c r s, folded s'_def]
  have g: "set (pending_of s' q) = set (pending_of s q) - (if q = ?p then {(tok, c)} else {})" for q
    using filter_key[OF k(4) tok] by (simp add: f(1) t(1))
  have here: "c \<in> pends s ?p" using tok by (rule pendsI)
  have one: "\<And>q. c \<in> pends s q \<Longrightarrow> q = ?p" using k(5)[OF _ here] by blast
  have w': "i \<in> pends s' q \<longleftrightarrow> i \<in> pends s q \<and> i \<noteq> c" for i q
  proof (cases "q = ?p")
    case True
    have "snd ` (set (pending_of s ?p) - {(tok, c)}) = snd ` set (pending_of s ?p) - {c}"
    proof (rule snd_minus)
      show "t' = tok" if "(t', c) \<in> set (pending_of s ?p)" for t' using k(3)[OF that] t(1) by simp
    qed
    then show ?thesis using g[of q] True by (simp add: pends_def)
  next
    case False
    then show ?thesis using one[of q] g[of q] by (auto simp: pends_def)
  qed
  have ans: "pc_answer (lv_cmds s c) = None" using k(1)[OF t(2)] here by blast
  have "commands_ok s'"
  proof (rule commands_okI)
    show "pc_answer (lv_cmds s' i) = None \<longleftrightarrow> (\<exists>q. i \<in> pends s' q)" if "i < lv_next_cmd s'" for i
      using k(1)[of i] that unfolding w' f(3) by (cases "i = c") (simp_all add: f(2))
    show "i < lv_next_cmd s' \<and> pc_token (lv_cmds s' i) = t'" if "(t', i) \<in> set (pending_of s' q)" for q t' i
    proof -
      have "(t', i) \<in> set (pending_of s q)" using that unfolding g by blast
      from k(2,3)[OF this] show ?thesis by (cases "i = c") (simp_all add: f(2,3))
    qed
    show "distinct (map fst (pending_of s' q))" for q using k(4)[of q] k(4)[of ?p] by (simp add: f(1) distinct_map_filter)
    show "q = q'" if "i \<in> pends s' q" "i \<in> pends s' q'" for q q' i
      using that k(5)[of i q q'] unfolding w' by blast
  qed
  then show "pending_ok s'" using as asks_ok_cong[OF f(4,5,6)] unfolding pending_ok_def by simp
  have "{(q, i). i \<in> pends s' q} = {(q, i). i \<in> pends s q} - {(?p, c)}"
    unfolding w' using one by blast
  also have "... = set (commands_in os)" using wc c by auto
  finally have "set (commands_in os) = {(q, i). i \<in> pends s' q}" by simp
  then show "waits os s'" using w c unfolding waits_def f(4) by (auto split: option.splits)
  show "told_executed (ex @ [o']) s'" if e: "told_executed ex s"
    using e t(2) ans c unfolding told_executed_def f(3) by (auto simp: f(2))
qed

lemma rejoin_waits:
  fixes now :: instant and acc :: bool
  assumes p: "pending_ok s" and w: "waits (o' # os) s" and c: "lo_command o' = None" "lo_rejoin o' = Some a"
  defines "s' \<equiv> decide_rejoin now (lo_participant o') a acc s"
  shows "pending_ok s'" "waits os s'" "told_executed ex s \<Longrightarrow> told_executed (ex @ [o']) s'"
proof -
  let ?p = "lo_participant o'"
  have i: "(?p, a) \<in> set (lv_rejoins s)" using w c unfolding waits_def by auto
  have co: "commands_ok s" and as: "asks_ok s" using p unfolding pending_ok_def by blast+
  then have d: "distinct (map fst (lv_rejoins s))" "distinct (map snd (lv_rejoins s))" unfolding asks_ok_def by blast+
  note f = decide_rejoin_fields[of now ?p a acc s, folded s'_def]
  have g: "set (lv_rejoins s') = set (lv_rejoins s) - {(?p, a)}" unfolding f(5) by (rule filter_key[OF d(1) i])
  have "inj_on snd (set (lv_rejoins s))" using d(2) by (simp add: distinct_map)
  from inj_onD[OF this, of "(_, a)" "(?p, a)"] i have one: "(q, a) \<in> set (lv_rejoins s) \<Longrightarrow> q = ?p" for q by simp
  have m: "b \<in> asked s' \<longleftrightarrow> b \<in> asked s \<and> b \<noteq> a" for b
  proof -
    have "snd ` (set (lv_rejoins s) - {(?p, a)}) = snd ` set (lv_rejoins s) - {a}" by (rule snd_minus) (rule one)
    then show ?thesis using g unfolding asked_def by simp
  qed
  have "lv_asks s' b = None \<longleftrightarrow> b \<in> asked s'" if "b < lv_next_ask s" for b
    using as that unfolding m f(6) asks_ok_def by (cases "b = a") simp_all
  moreover have "\<forall>b \<in> asked s'. b < lv_next_ask s" using as unfolding Ball_def m asks_ok_def by blast
  moreover have "distinct (map fst (lv_rejoins s'))" "distinct (map snd (lv_rejoins s'))"
    using d unfolding f(5) by (simp_all add: distinct_map_filter)
  ultimately have "asks_ok s'" unfolding asks_ok_def f(4) by blast
  then show "pending_ok s'" using co commands_ok_cong[OF f(1,2,3)] unfolding pending_ok_def by simp
  show "waits os s'" using w c one unfolding waits_def g pends_cong[OF f(1)] by (auto split: option.splits)
  show "told_executed (ex @ [o']) s'" if e: "told_executed ex s"
    using e c unfolding told_executed_def f(2,3) by simp
qed

lemma commit_ops_waits:
  "commit_ops now os rs ds s = Some s' \<Longrightarrow> pending_ok s \<Longrightarrow> waits (os @ rest) s
   \<Longrightarrow> pending_ok s' \<and> waits rest s' \<and> lv_timeline s' = lv_timeline s \<and> (told_executed ex s \<longrightarrow> told_executed (ex @ os) s')"
proof (induction os arbitrary: rs ds s ex)
  case (Cons o' os)
  show ?case
  proof (cases "lo_command o'")
    case (Some c)
    then obtain r rs' where r: "rs = r # rs'" "commit_ops now os rs' ds (command_executed (lo_participant o') c r s) = Some s'"
      using Cons.prems(1) by (auto split: list.splits)
    note k = command_waits[OF Cons.prems(2) Cons.prems(3)[unfolded append_Cons] Some, where r = r]
    show ?thesis using Cons.IH[OF r(2) k(1,2), of "ex @ [o']"] k(3)[of ex] by (simp add: command_executed_fields)
  next
    case none: None
    show ?thesis
    proof (cases "lo_rejoin o'")
      case (Some a)
      then obtain d ds' where r: "ds = d # ds'" "commit_ops now os rs ds' (decide_rejoin now (lo_participant o') a d s) = Some s'"
        using Cons.prems(1) none by (auto split: list.splits)
      note k = rejoin_waits[OF Cons.prems(2) Cons.prems(3)[unfolded append_Cons] none Some, where now = now and acc = d]
      show ?thesis using Cons.IH[OF r(2) k(1,2), of "ex @ [o']"] k(3)[of ex] by (simp add: decide_rejoin_fields)
    next
      case None
      have w: "waits (os @ rest) s" using Cons.prems(3) none None by (simp add: waits_def)
      have e: "told_executed ex s \<Longrightarrow> told_executed (ex @ [o']) s" using none by (simp add: told_executed_def)
      show ?thesis using Cons.IH[of rs ds s "ex @ [o']"] Cons.prems(1,2) w e none None by simp
    qed
  qed
qed simp

subsection \<open>The end answers everyone\<close>

lemma resolve_fold:
  "lv_cmds (fold (\<lambda>(_, c) s. resolve_command c oc r s) xs s) i = (if i \<in> snd ` set xs then (lv_cmds s i)\<lparr>pc_answer := Some (oc, r)\<rparr> else lv_cmds s i)"
  "lv_tokens (fold (\<lambda>(_, c) s. resolve_command c oc r s) xs s) = lv_tokens s"
  "lv_next_cmd (fold (\<lambda>(_, c) s. resolve_command c oc r s) xs s) = lv_next_cmd s"
  "lv_rejoins (fold (\<lambda>(_, c) s. resolve_command c oc r s) xs s) = lv_rejoins s"
  "lv_asks (fold (\<lambda>(_, c) s. resolve_command c oc r s) xs s) = lv_asks s"
  "lv_next_ask (fold (\<lambda>(_, c) s. resolve_command c oc r s) xs s) = lv_next_ask s"
  by (induction xs arbitrary: s) (auto simp: resolve_command_def)

lemma abandon_of_fields:
  "pending_of (abandon_of q s) = (pending_of s)(pa_id q := [])"
  "lv_cmds (abandon_of q s) i = (if i \<in> pends s (pa_id q) then (lv_cmds s i)\<lparr>pc_answer := Some (Command_not_running, Raw_empty)\<rparr> else lv_cmds s i)"
  "lv_next_cmd (abandon_of q s) = lv_next_cmd s" "lv_rejoins (abandon_of q s) = lv_rejoins s" "lv_asks (abandon_of q s) = lv_asks s"
  "lv_next_ask (abandon_of q s) = lv_next_ask s"
  by (auto simp: abandon_of_def abandon_pending_def set_tokens_def pends_def pending_of_def tokens_of_def zero_tokens_def resolve_fold fun_eq_iff
      split: option.split)

lemma pends_abandon: "pends (abandon_of q s) p = (if p = pa_id q then {} else pends s p)"
  by (simp add: pends_def abandon_of_fields)

lemma abandon_fold:
  "pending_of (fold abandon_of qs s) p = (if p \<in> pa_id ` set qs then [] else pending_of s p)"
  "lv_cmds (fold abandon_of qs s) i = (if \<exists>q\<in>set qs. i \<in> pends s (pa_id q) then (lv_cmds s i)\<lparr>pc_answer := Some (Command_not_running, Raw_empty)\<rparr> else lv_cmds s i)"
  "lv_next_cmd (fold abandon_of qs s) = lv_next_cmd s" "lv_rejoins (fold abandon_of qs s) = lv_rejoins s" "lv_asks (fold abandon_of qs s) = lv_asks s"
  "lv_next_ask (fold abandon_of qs s) = lv_next_ask s"
proof (induction qs arbitrary: s)
  case (Cons q qs)
  case 1 show ?case by (simp add: Cons(1) abandon_of_fields)
  case 2
  have "(\<exists>r\<in>set (q # qs). i \<in> pends s (pa_id r)) \<longleftrightarrow> (\<exists>r\<in>set qs. i \<in> pends (abandon_of q s) (pa_id r)) \<or> i \<in> pends s (pa_id q)"
    by (auto simp: pends_abandon) (metis (no_types))
  then show ?case by (simp add: Cons(2) abandon_of_fields)
  case 3 show ?case by (simp add: Cons(3) abandon_of_fields)
  case 4 show ?case by (simp add: Cons(4) abandon_of_fields)
  case 5 show ?case by (simp add: Cons(5) abandon_of_fields)
  case 6 show ?case by (simp add: Cons(6) abandon_of_fields)
qed simp_all

lemma resolve_rejoins:
  "lv_asks (fold (\<lambda>(_, a). resolve_rejoin a oc) xs s) i = (if i \<in> snd ` set xs then Some oc else lv_asks s i)"
  "pending_of (fold (\<lambda>(_, a). resolve_rejoin a oc) xs s) = pending_of s" "lv_cmds (fold (\<lambda>(_, a). resolve_rejoin a oc) xs s) = lv_cmds s"
  "lv_next_cmd (fold (\<lambda>(_, a). resolve_rejoin a oc) xs s) = lv_next_cmd s" "lv_next_ask (fold (\<lambda>(_, a). resolve_rejoin a oc) xs s) = lv_next_ask s"
  by (induction xs arbitrary: s) (auto simp: resolve_rejoin_def pending_of_def tokens_of_def fun_eq_iff)

lemma end_live_fields:
  "pending_of (end_live e s) p = (if p \<in> ids s then [] else pending_of s p)" "lv_rejoins (end_live e s) = []"
  "lv_cmds (end_live e s) i = (if \<exists>p\<in>ids s. i \<in> pends s p then (lv_cmds s i)\<lparr>pc_answer := Some (Command_not_running, Raw_empty)\<rparr> else lv_cmds s i)"
  "lv_next_cmd (end_live e s) = lv_next_cmd s" "lv_next_ask (end_live e s) = lv_next_ask s"
  "lv_asks (end_live e s) a = (if a \<in> asked s then Some Rejoin_not_running else lv_asks s a)"
proof -
  define s0 where "s0 = recount (s\<lparr>lv_phase := Ended, lv_lobby := [], lv_timeline := []\<rparr>)"
  have z: "pending_of s0 = pending_of s" "lv_cmds s0 = lv_cmds s" "lv_next_cmd s0 = lv_next_cmd s" "lv_rejoins s0 = lv_rejoins s" "lv_asks s0 = lv_asks s"
    "lv_next_ask s0 = lv_next_ask s" "lv_participants s0 = lv_participants s"
    by (simp_all add: s0_def recount_def pending_of_def tokens_of_def fun_eq_iff Let_def split: prod.split)
  have pe: "pends s0 p = pends s p" for p by (rule pends_cong) (rule z)
  define s1 where "s1 = fold abandon_of (lv_participants s0) s0"
  define s2 where "s2 = fold (\<lambda>(_, a). resolve_rejoin a Rejoin_not_running) (lv_rejoins s1) s1"
  define s3 where "s3 = on_conns (end_with e) (lv_admins s2 @ map snd (lv_players s2)) s2"
  have t: "tells s2 s3" unfolding s3_def by (intro tells_on_conns) simp
  have e: "end_live e s = s3\<lparr>lv_rejoins := [], lv_admins := [], lv_players := []\<rparr>"
    by (simp add: end_live_def s0_def s1_def s2_def s3_def Let_def)
  have po: "pending_of (end_live e s) = pending_of s2" by (simp add: e pending_of_def tokens_of_def tells_fields[OF t] fun_eq_iff)
  show "pending_of (end_live e s) p = (if p \<in> ids s then [] else pending_of s p)"
    by (simp add: po s2_def resolve_rejoins s1_def abandon_fold z ids_def)
  show "lv_rejoins (end_live e s) = []" by (simp add: e)
  show "lv_cmds (end_live e s) i = (if \<exists>p\<in>ids s. i \<in> pends s p then (lv_cmds s i)\<lparr>pc_answer := Some (Command_not_running, Raw_empty)\<rparr> else lv_cmds s i)"
    by (simp add: e tells_fields[OF t] s2_def resolve_rejoins s1_def abandon_fold z pe ids_def)
  show "lv_next_cmd (end_live e s) = lv_next_cmd s" "lv_next_ask (end_live e s) = lv_next_ask s"
    by (simp_all add: e tells_fields[OF t] s2_def resolve_rejoins s1_def abandon_fold z)
  show "lv_asks (end_live e s) a = (if a \<in> asked s then Some Rejoin_not_running else lv_asks s a)"
    by (simp add: e tells_fields[OF t] s2_def resolve_rejoins s1_def abandon_fold z asked_def)
qed

lemma calls_ok_end:
  assumes k: "calls_ok ex s"
  shows "calls_ok ex (end_live e s)"
proof -
  have c: "commands_ok s" "asks_ok s" "waiters_here s" "told_executed ex s" using k by (simp_all add: calls_ok_def pending_ok_def)
  have out: "pending_of s p = []" if "p \<notin> ids s" for p using c(3) that unfolding waiters_here_def by blast
  have po: "pending_of (end_live e s) p = []" for p using out by (simp add: end_live_fields)
  then have pe: "pends (end_live e s) p = {}" for p by (simp add: pends_def)
  have any: "(\<exists>p\<in>ids s. i \<in> pends s p) \<longleftrightarrow> (\<exists>p. i \<in> pends s p)" for i
  proof -
    have "i \<in> pends s p \<Longrightarrow> p \<in> ids s" for p using out[of p] by (cases "p \<in> ids s") (auto simp: pends_def)
    then show ?thesis by blast
  qed
  note cm = end_live_fields(3)[of e s, unfolded any]
  have "commands_ok (end_live e s)"
  proof (rule commands_okI)
    show "pc_answer (lv_cmds (end_live e s) i) = None \<longleftrightarrow> (\<exists>p. i \<in> pends (end_live e s) p)" if "i < lv_next_cmd (end_live e s)" for i
      using commands_okD(1)[OF c(1), of i] that by (cases "pc_answer (lv_cmds s i)") (auto simp: cm pe end_live_fields(4))
  qed (simp_all add: po pe)
  moreover have "asks_ok (end_live e s)"
    using c(2) by (auto simp: asks_ok_def asked_def[of "end_live e s"] end_live_fields)
  moreover have "waiters_here (end_live e s)" by (simp add: waiters_here_def po end_live_fields(2))
  moreover have "told_executed ex (end_live e s)"
  proof -
    have "(\<exists>r. pc_answer (lv_cmds (end_live e s) i) = Some (Command_executed, r)) \<longleftrightarrow> i \<in> snd ` set (commands_in ex)" if i: "i < lv_next_cmd s" for i
    proof -
      have "(\<exists>r. pc_answer (lv_cmds s i) = Some (Command_executed, r)) \<longleftrightarrow> i \<in> snd ` set (commands_in ex)" using c(4) i unfolding told_executed_def by blast
      then show ?thesis using commands_okD(1)[OF c(1) i] by (auto simp: cm)
    qed
    then show ?thesis using c(4) unfolding told_executed_def end_live_fields(4) by blast
  qed
  ultimately show ?thesis by (simp add: calls_ok_def pending_ok_def)
qed

lemma calls_ok_end_session:
  "calls_ok ex s \<Longrightarrow> calls_ok ex (f s) \<Longrightarrow> calls_ok ex (end_session answer f s)"
  by (auto simp: end_session_def calls_ok_end split: db_end.split)

lemma calls_ok_abort: "calls_ok ex s \<Longrightarrow> calls_ok ex (abort answer s)"
  unfolding abort_def Let_def using calls_ok_end_session[of ex s id answer] by (simp add: calls_ok_end)

lemma calls_ok_abandoned: "calls_ok ex s \<Longrightarrow> calls_ok ex (end_if_abandoned answer s)"
  unfolding end_if_abandoned_def by (auto intro: calls_ok_end_session)

lemma in_game_room: "same_room s s' \<Longrightarrow> in_game s' = in_game s \<and> ids s' = ids s"
  by (simp add: same_room_def in_game_def ids_def)

lemma calls_ok_room: "calls_ok ex s \<Longrightarrow> calls_kept s s' \<Longrightarrow> same_room s s' \<Longrightarrow> calls_ok ex s'"
  by (rule calls_ok_kept) (simp_all add: in_game_room)

lemma calls_ok_acknowledge: "calls_ok ex s \<Longrightarrow> calls_ok ex (acknowledge w e s)"
  by (rule calls_ok_room[OF _ calls_kept_acknowledge same_room_acknowledge])

subsection \<open>Every turn\<close>

lemma handle_in_game:
  assumes "in_game s" "\<And>answer. r \<noteq> Rq_end answer" "r \<noteq> Rq_retire"
  shows "in_game (handle F now r s) \<and> ids (handle F now r s) = ids s"
proof -
  have st: "same_stage s s' \<Longrightarrow> in_game s' \<and> ids s' = ids s" for s'
    using assms(1) by (auto simp: same_stage_def in_game_def ids_def)
  have rm: "same_room s s' \<Longrightarrow> in_game s' \<and> ids s' = ids s" for s' using assms(1) in_game_room by blast
  have on: "in_game (on_conn f a s') = in_game s'" "ids (on_conn f a s') = ids s'" for f a and s' :: "'a live"
    by (simp_all add: in_game_def ids_def on_conn_def set_conn_def)
  show ?thesis
  proof (cases r)
    case (Rq_reattach user display signed)
    show ?thesis
    proof (rule reattach_cases[of F now user display signed s])
      fix p st'
      assume g: "participant_of user s = Some p"
        "fst (reattach_player F now user display signed s) = after_attach user display p st' (before_attach F now user p s)"
      have "in_game (after_attach user display p st' t) = in_game t \<and> ids (after_attach user display p st' t) = ids t" for t :: "'a live"
        by (simp add: after_attach_def in_game_def ids_def on_conn_def set_conn_def fresh_conn_def set_player_def set_ingress_def Let_def)
      then show ?thesis using rm[OF same_room_before_attach, of F now user p] g(2) Rq_reattach by simp
    qed (use assms(1) Rq_reattach in simp)
  next
    case (Rq_drop_player conn)
    have d: "in_game (detach_player F now conn s) \<and> ids (detach_player F now conn s) = ids s" by (rule rm) (rule same_room_detach)
    have "disconnect_player F now conn s = on_conn (end_connection End_disconnected) conn s
        \<or> disconnect_player F now conn s = on_conn (end_connection End_disconnected) conn (detach_player F now conn s)"
      using assms(1) by (cases "lv_phase s") (simp_all add: disconnect_player_def in_game_def)
    then show ?thesis
    proof
      assume "disconnect_player F now conn s = on_conn (end_connection End_disconnected) conn s"
      then show ?thesis using Rq_drop_player assms(1) by (simp add: on)
    next
      assume "disconnect_player F now conn s = on_conn (end_connection End_disconnected) conn (detach_player F now conn s)"
      then show ?thesis using Rq_drop_player d by (simp add: on)
    qed
  next
    case (Rq_leave conn)
    have d: "in_game (disconnect F now Cause_left p s) \<and> ids (disconnect F now Cause_left p s) = ids s" for p
      by (rule rm) (rule same_room_disconnect)
    have "\<exists>p a. fst (leave_session F now conn s) = on_conn (end_connection End_left) a s
        \<or> fst (leave_session F now conn s) = on_conn (end_connection End_left) a (disconnect F now Cause_left p s)"
      using assms(1) by (cases "lv_phase s") (auto simp: leave_session_def in_game_def Let_def split: option.split)
    then show ?thesis using Rq_leave d assms(1) by (auto simp: on)
  next
    case (Rq_join user display)
    then show ?thesis using st[OF calm_join(2)] by simp
  next
    case (Rq_join_admin user signed)
    then show ?thesis using st[OF calm_register(2)] by simp
  next
    case (Rq_drop_admin admin)
    then show ?thesis using st[OF calm_drop_admin(2)] by simp
  next
    case (Rq_sample conn sequence inputs)
    then show ?thesis using rm[OF same_room_take_sample] by simp
  next
    case (Rq_command conn token name payload)
    then show ?thesis using rm[OF same_room_accept_command] by simp
  next
    case (Rq_rejoin user)
    then show ?thesis using rm[OF same_room_ask_rejoin] by simp
  next
    case (Rq_resync conn)
    then show ?thesis using rm[OF same_room_tells[OF tells_resync]] by simp
  next
    case (Rq_resync_admin admin)
    then show ?thesis using rm[OF same_room_tells[OF tells_resync_admin]] by simp
  next
    case (Rq_perspective admin p)
    then show ?thesis using st[OF calm_perspective(2)] by simp
  next
    case Rq_begin_start
    then show ?thesis using st[OF calm_begin(2)] by simp
  next
    case Rq_cancel_start
    then show ?thesis using st[OF calm_cancel(2)] by simp
  next
    case (Rq_complete_start window participants game frontend views resumed)
    then show ?thesis using assms(1) by (auto simp: complete_start_def in_game_def)
  qed (use assms in simp_all)
qed

text \<open>Starting a game makes nobody wait.\<close>

definition nobody_new :: "'f live \<Rightarrow> 'f live \<Rightarrow> bool" where
  "nobody_new s s' \<longleftrightarrow> (pending_of s = (\<lambda>_. []) \<longrightarrow> calls s' = calls s)"

lemma nobody_new_trans: "nobody_new s s' \<Longrightarrow> nobody_new s' s'' \<Longrightarrow> nobody_new s s''"
  by (auto simp: nobody_new_def calls_def)

lemma nobody_new_fold: "(\<And>x s. nobody_new s (f x s)) \<Longrightarrow> nobody_new s (fold f xs s)"
proof (induction xs arbitrary: s)
  case (Cons x xs)
  show ?case using nobody_new_trans[OF Cons.prems Cons.IH[OF Cons.prems]] by simp
qed (simp add: nobody_new_def)

lemma nobody_new_calls: "calls s' = calls s \<Longrightarrow> nobody_new s s'"
  by (simp add: nobody_new_def)

lemma calls_same:
  "calls (on_conn f c s) = calls s" "calls (set_presence p r s) = calls s" "calls (set_ingress p i s) = calls s"
  "calls (send_full c p s) = calls s" "calls (s\<lparr>lv_players := pl\<rparr>) = calls s" "calls (s\<lparr>lv_views := vs\<rparr>) = calls s"
  "calls (game_begins now ps game frontend s) = calls s"
  by (simp_all add: calls_def on_conn_def set_conn_def set_presence_def set_ingress_def game_begins_def pending_of_def tokens_of_def fun_eq_iff)

lemma nobody_new_enter: "nobody_new s (enter_participant F previews until cause rg views q s)"
proof -
  have kc: "tk_pending (fold remember xs t) = tk_pending t" for xs t
    by (induction xs arbitrary: t) (simp_all add: remember_def Let_def split: prod.split)
  show ?thesis unfolding nobody_new_def enter_participant_def Let_def
    by (auto simp: calls_same) (auto simp: calls_def set_tokens_def pending_of_def tokens_of_def set_ingress_def new_participant_commands_def kc fun_eq_iff)
qed

lemma nobody_new_player: "nobody_new s (enter_player q s)" and nobody_new_outsider: "nobody_new s (drop_outsider ps x s)"
  by (rule nobody_new_calls, simp add: enter_player_def drop_outsider_def calls_same Let_def split: option.split)+

lemma complete_start_calls:
  assumes "lv_phase s = Starting" "pending_of s = (\<lambda>_. [])"
  shows "calls (complete_start F previews window now ps game frontend views res s) = calls s"
proof -
  obtain until cause rg s1 s2 s3 s4 where
    s1: "s1 = fold (enter_participant F previews until cause rg views) ps (game_begins now ps game frontend s)" and
    s2: "s2 = fold (drop_outsider ps) (lv_players s1) s1" and
    s3: "s3 = on_conns (mark_started (lv_start s2)) (lv_admins s2) s2" and s4: "s4 = fold enter_player ps s3" and
    eq: "complete_start F previews window now ps game frontend views res s = broadcast_roster s4"
    by (rule complete_form[OF assms(1)])
  have "nobody_new s (game_begins now ps game frontend s)" by (rule nobody_new_calls) (rule calls_same)
  moreover have "nobody_new (game_begins now ps game frontend s) s1" unfolding s1 by (rule nobody_new_fold) (rule nobody_new_enter)
  moreover have "nobody_new s1 s2" unfolding s2 by (rule nobody_new_fold) (rule nobody_new_outsider)
  moreover have "nobody_new s2 s3" unfolding s3 on_conns_def by (rule nobody_new_fold) (simp add: nobody_new_def calls_same)
  moreover have "nobody_new s3 s4" unfolding s4 by (rule nobody_new_fold) (rule nobody_new_player)
  moreover have "nobody_new s4 (broadcast_roster s4)"
    using kept_calls[OF kept_tells[OF tells_broadcast_roster[of s4]]] by (simp add: nobody_new_def calls_kept_def)
  ultimately have "nobody_new s (broadcast_roster s4)" using nobody_new_trans by blast
  then show ?thesis using assms(2) unfolding eq nobody_new_def by blast
qed

lemma calls_kept_handle:
  assumes "\<And>conn token name payload. r \<noteq> Rq_command conn token name payload" "\<And>user. r \<noteq> Rq_rejoin user"
    "\<And>user display signed. r \<noteq> Rq_reattach user display signed" "\<And>answer. r \<noteq> Rq_end answer" "r \<noteq> Rq_retire"
    "\<And>w ps g f v res. r \<noteq> Rq_complete_start w ps g f v res"
  shows "calls_kept s (handle F now r s)"
proof (cases r)
  case Rq_begin_start
  have "kept s (fst (begin_start s))"
    by (rule kept_fields) (simp_all add: begin_start_def Let_def split: phase.split)
  then show ?thesis using Rq_begin_start by (simp add: kept_calls)
next
  case Rq_cancel_start
  have "kept s (cancel_start s)"
    by (rule kept_fields) (simp_all add: cancel_start_def Let_def)
  then show ?thesis using Rq_cancel_start by (simp add: kept_calls)
qed (use assms in \<open>simp_all add: kept_calls keeping calls_kept_sample\<close>)

lemma calls_ok_handle:
  fixes s :: "'f live"
  assumes k: "calls_ok ex s" and w: "lv_phase s = Running \<Longrightarrow> waits (fl @ lv_timeline s) s" and se: "lv_phase s = Running \<Longrightarrow> seats s"
  shows "calls_ok ex (handle F now r s)"
    and "lv_phase s = Running \<Longrightarrow> lv_phase (handle F now r s) = Running \<Longrightarrow> waits (fl @ lv_timeline (handle F now r s)) (handle F now r s)"
proof -
  have p: "pending_ok s" and e: "told_executed ex s" and h: "waiters_here s" using k by (simp_all add: calls_ok_def)
  have goal: "calls_ok ex s' \<and> (lv_phase s = Running \<and> lv_phase s' = Running \<longrightarrow> waits (fl @ lv_timeline s') s')"
    if kept: "calls_kept s s'" "in_game s \<Longrightarrow> in_game s' \<and> ids s' = ids s" for s'
    using calls_ok_kept[OF k kept] waits_kept[OF w kept(1)] by blast
  note g = handle_in_game[of s r F now]
  have "calls_ok ex (handle F now r s)
     \<and> (lv_phase s = Running \<and> lv_phase (handle F now r s) = Running \<longrightarrow> waits (fl @ lv_timeline (handle F now r s)) (handle F now r s))"
  proof (cases r)
    case (Rq_command conn token name payload)
    let ?s = "handle F now r s"
    have i: "in_game s \<Longrightarrow> in_game ?s \<and> ids ?s = ids s" using g Rq_command by simp
    show ?thesis
    proof (cases "lv_phase s = Running")
      case True
      from accept_command_calls[OF True, of F now conn token name payload] show ?thesis
      proof
        assume "calls_kept s (fst (accept_command F now conn token name payload s))"
        then show ?thesis using goal[of ?s] i Rq_command by simp
      next
        assume n: "plays conn s \<and> newly_waits (cn_participant (lv_conns s conn)) s (fst (accept_command F now conn token name payload s))"
        let ?p = "cn_participant (lv_conns s conn)"
        have nw: "newly_waits ?p s ?s" using n Rq_command by simp
        have ig: "in_game s" using True by (simp add: in_game_def)
        have pp: "?p \<in> ids s" using plays_ids[OF se[OF True]] n by blast
        have po: "pending_of ?s q \<noteq> [] \<longrightarrow> pending_of s q \<noteq> [] \<or> q = ?p" for q
          using nw unfolding newly_waits_def Let_def by (auto simp: fun_upd_def split: if_splits)
        have rj: "lv_rejoins ?s = lv_rejoins s" using nw unfolding newly_waits_def Let_def by blast
        have "waiters_here ?s" using h i[OF ig] pp po unfolding waiters_here_def rj by metis
        then show ?thesis using pending_ok_command[OF p nw] told_executed_command[OF e nw] waits_command[OF p w[OF True] nw]
          by (simp add: calls_ok_def)
      qed
    next
      case False
      then have "?s = s" using Rq_command by (simp add: accept_command_def)
      then show ?thesis using k False by simp
    qed
  next
    case (Rq_rejoin user)
    let ?s = "handle F now r s"
    have i: "in_game s \<Longrightarrow> in_game ?s \<and> ids ?s = ids s" using g Rq_rejoin by simp
    from ask_rejoin_calls[of s now user] show ?thesis
    proof
      assume "calls_kept s (fst (ask_rejoin now user s))"
      then show ?thesis using goal[of ?s] i Rq_rejoin by simp
    next
      assume n: "lv_phase s = Running \<and> (\<exists>p. newly_asks p s (fst (ask_rejoin now user s)))"
      then obtain q where nw: "newly_asks q s ?s" using Rq_rejoin by auto
      have ig: "in_game s" using n by (simp add: in_game_def)
      have "pending_of ?s = pending_of s" using nw unfolding newly_asks_def Let_def by blast
      then have "waiters_here ?s" using h i[OF ig] unfolding waiters_here_def by simp
      then show ?thesis using pending_ok_ask[OF p nw] told_executed_ask[OF e nw] waits_ask[OF p w nw] n by (simp add: calls_ok_def)
    qed
  next
    case (Rq_reattach user display signed)
    have "calls_kept s (handle F now r s)"
    proof (rule reattach_cases[of F now user display signed s])
      fix p st
      assume a: "fst (reattach_player F now user display signed s) = after_attach user display p st (before_attach F now user p s)"
      have at: "calls_kept t (after_attach user display p st t)" for t :: "'f live"
        unfolding after_attach_def Let_def
        by (rule calls_kept_after[OF kept_calls[OF kept_tells[OF tells_broadcast_roster]]], rule calls_kept_after[OF kept_calls[OF kept_updates(3)]],
            rule calls_kept_after[OF kept_calls[OF kept_tells[OF tells_send_full]]])
          (rule calls_kept_plain; simp add: set_ingress_def set_player_def fresh_conn_def set_conn_def)
      have "calls_kept s (before_attach F now user p s)" by (rule kept_calls[OF kept_before_attach])
      from calls_kept_trans[OF this at] show ?thesis using a Rq_reattach by simp
    qed (use Rq_reattach in simp)
    then show ?thesis using goal g Rq_reattach by simp
  next
    case (Rq_end answer)
    show ?thesis
    proof (cases "lv_phase (handle F now r s) = Running")
      case True
      then have "handle F now r s = s" using ended_end_session[of answer id s] Rq_end by simp
      then show ?thesis using k w by simp
    next
      case False
      then show ?thesis using calls_ok_end_session[OF k, of id answer] k Rq_end by simp
    qed
  next
    case Rq_retire
    then show ?thesis using calls_ok_end[OF k] by (simp add: retire_def)
  next
    case (Rq_complete_start window participants game frontend views resumed)
    show ?thesis
    proof (cases "lv_phase s = Starting")
      case True
      have po: "pending_of s = (\<lambda>_. [])" "lv_rejoins s = []" using h True by (auto simp: waiters_here_def in_game_def)
      let ?s = "handle F now r s"
      have c: "calls ?s = calls s" using complete_start_calls[OF True po(1)] Rq_complete_start by simp
      then have f: "pending_of ?s = pending_of s" "lv_cmds ?s = lv_cmds s" "lv_next_cmd ?s = lv_next_cmd s" "lv_rejoins ?s = lv_rejoins s"
        "lv_asks ?s = lv_asks s" "lv_next_ask ?s = lv_next_ask s" by (simp_all add: calls_def)
      have "pending_ok ?s" using p commands_ok_cong[OF f(1,2,3)] asks_ok_cong[OF f(4,5,6)] unfolding pending_ok_def by simp
      moreover have "told_executed ex ?s" using e unfolding told_executed_def f by simp
      moreover have "waiters_here ?s" using po by (simp add: waiters_here_def f)
      ultimately show ?thesis using True by (simp add: calls_ok_def)
    next
      case False
      then show ?thesis using goal[of s] Rq_complete_start by (simp add: complete_start_def)
    qed
  qed (use goal[of "handle F now r s"] g calls_kept_handle[of r s F now] in simp_all)
  then show "calls_ok ex (handle F now r s)"
    and "lv_phase s = Running \<Longrightarrow> lv_phase (handle F now r s) = Running \<Longrightarrow> waits (fl @ lv_timeline (handle F now r s)) (handle F now r s)"
    by blast+
qed

lemma calls_ok_finish_game: "calls_ok ex (co_live c) \<Longrightarrow> calls_ok ex (co_live (finish_game recorded answer c))"
  by (auto simp: finish_game_def Let_def calls_ok_end_session calls_ok_acknowledge split: option.split db_end.split)

lemma calls_ok_waiting: "calls_ok ex s \<Longrightarrow> calls_ok ex (recount (s\<lparr>lv_timeline := os\<rparr>))"
proof -
  assume k: "calls_ok ex s"
  have f: "pending_of (recount (s\<lparr>lv_timeline := os\<rparr>)) = pending_of s" "lv_cmds (recount (s\<lparr>lv_timeline := os\<rparr>)) = lv_cmds s"
    "lv_next_cmd (recount (s\<lparr>lv_timeline := os\<rparr>)) = lv_next_cmd s" "lv_rejoins (recount (s\<lparr>lv_timeline := os\<rparr>)) = lv_rejoins s"
    "lv_asks (recount (s\<lparr>lv_timeline := os\<rparr>)) = lv_asks s" "lv_next_ask (recount (s\<lparr>lv_timeline := os\<rparr>)) = lv_next_ask s"
    "in_game (recount (s\<lparr>lv_timeline := os\<rparr>)) = in_game s" "ids (recount (s\<lparr>lv_timeline := os\<rparr>)) = ids s"
    by (simp_all add: recount_def pending_of_def tokens_of_def in_game_def ids_def fun_eq_iff Let_def split: prod.split)
  show ?thesis using k commands_ok_cong[OF f(1,2,3)] asks_ok_cong[OF f(4,5,6)]
    by (simp add: calls_ok_def pending_ok_def waiters_here_def told_executed_def f)
qed

lemma calls_ok_requeue: "calls_ok ex s \<Longrightarrow> calls_ok ex (requeue work s)"
  by (simp add: requeue_def calls_ok_waiting)

lemma calls_ok_expire: "calls_ok ex s \<Longrightarrow> calls_ok ex (expire_graces F now s)"
  by (rule calls_ok_room[OF _ kept_calls[OF kept_expire] same_room_expire(2)])

lemma calls_ok_start:
  assumes k: "calls_ok ex (co_live c)"
  shows "calls_ok ex (co_live (start_boundary F now recorded answer c))"
proof -
  have t: "calls_ok ex (fst (take_boundary F now (co_live c)))"
    using k calls_ok_waiting[OF calls_ok_expire[OF k]] by (simp add: take_boundary_def Let_def)
  then have "calls_ok ex (acknowledge_only w (fst (take_boundary F now (co_live c))))" for w
    by (simp add: acknowledge_only_def calls_ok_acknowledge)
  then show ?thesis using k t calls_ok_finish_game[OF k]
    by (auto simp: start_boundary_def Let_def calls_ok_abandoned split: prod.split option.split)
qed

lemma calls_ok_mirrored: "calls_ok ex s \<Longrightarrow> calls_ok ex (mirrored w e s)" and waits_mirrored: "waits os s \<Longrightarrow> waits os (mirrored w e s)"
proof -
  have k: "calls_kept s (mirrored w e s)" by (rule calls_kept_plain) (simp_all add: mirrored_def)
  show "calls_ok ex s \<Longrightarrow> calls_ok ex (mirrored w e s)" by (rule calls_ok_kept[OF _ k]) (simp_all add: mirrored_def in_game_def ids_def)
  show "waits os s \<Longrightarrow> waits os (mirrored w e s)" using calls_kept_fields[OF k] pends_cong[OF calls_kept_fields(1)[OF k]] by (simp add: waits_def)
qed

lemma commit_ops_calls:
  fixes s :: "'f live"
  assumes c: "commit_ops now os rs ds s = Some s'" and k: "calls_ok ex s" and w: "waits (os @ rest) s"
  shows "calls_ok (ex @ os) s'" "waits rest s'" "lv_timeline s' = lv_timeline s"
proof -
  have p: "pending_ok s" "told_executed ex s" "waiters_here s" using k by (simp_all add: calls_ok_def)
  note r = commit_ops_waits[OF c p(1) w, of ex]
  show "waits rest s'" "lv_timeline s' = lv_timeline s" using r by blast+
  have fewer: "commit_ops now os rs ds s = Some s' \<Longrightarrow> (\<forall>p. pending_of s' p \<noteq> [] \<longrightarrow> pending_of s p \<noteq> []) \<and> (lv_rejoins s' \<noteq> [] \<longrightarrow> lv_rejoins s \<noteq> [])"
    for os rs ds and s :: "'f live"
  proof (induction os arbitrary: rs ds s)
    case (Cons o' os)
    have "(\<forall>q. pending_of (command_executed p c r s) q \<noteq> [] \<longrightarrow> pending_of s q \<noteq> []) \<and> (lv_rejoins (decide_rejoin now p a acc s) \<noteq> [] \<longrightarrow> lv_rejoins s \<noteq> [])"
      for p c r a acc by (auto simp: command_executed_fields decide_rejoin_fields)
    then show ?case using Cons.prems
      by (auto split: option.splits list.splits dest!: Cons.IH simp: command_executed_fields decide_rejoin_fields)
  qed simp
  have "same_room s s'" by (rule same_room_commit_ops[OF c])
  then have "waiters_here s'" using p(3) fewer[OF c] in_game_room[of s s'] unfolding waiters_here_def by metis
  then show "calls_ok (ex @ os) s'" using r p(2) by (simp add: calls_ok_def)
qed

lemma work_taken_queue: "wb_operations (work_taken now s) = take (bp_taken (planned_end now s)) (lv_timeline s)"
  and left_waiting_queue: "lv_timeline (left_waiting now s) = drop (bp_taken (planned_end now s)) (lv_timeline s)"
  and requeue_queue: "lv_phase s = Running \<Longrightarrow> lv_timeline (requeue work s) = wb_operations work @ lv_timeline s"
  by (simp_all add: work_taken_def left_waiting_def requeue_def recount_def Let_def split: prod.split)

lemma waits_cong: "pending_of s' = pending_of s \<Longrightarrow> lv_rejoins s' = lv_rejoins s \<Longrightarrow> waits os s' = waits os s"
  using pends_cong[of s' s] by (simp add: waits_def)

lemma waits_left: "waits os (left_waiting now s) = waits os s" and waits_requeue: "waits os (requeue work s) = waits os s"
  by (rule waits_cong; simp add: left_waiting_def requeue_def recount_def pending_of_def tokens_of_def fun_eq_iff Let_def split: prod.split)+

definition call_inv :: "live_op list \<Rightarrow> 'f controller \<Rightarrow> bool" where
  "call_inv ex c \<longleftrightarrow> calls_ok ex (co_live c) \<and> (lv_phase (co_live c) = Running \<longrightarrow> waits (outstanding c) (co_live c))"

lemma calls_ok_finish:
  assumes i: "timeline_inv t ex c" and t: "t \<le> now" and k: "call_inv ex c"
  shows "calls_ok (ex @ committed now shutdown r1 r2 c) (co_live (finish_boundary now shutdown recorded r1 r2 answer c))"
proof (cases "co_in_flight c")
  case None
  then show ?thesis using k by (simp add: finish_boundary_def committed_def call_inv_def)
next
  case w: (Some work)
  have ok: "calls_ok ex (co_live c)" using k by (simp add: call_inv_def)
  obtain ctx res where x: "execute (co_live c) work (co_context c) shutdown r1 r2 = (ctx, res)" by force
  have failed: "calls_ok ex (co_live (boundary_failed work answer d))" if "co_live d = co_live c" for d
    using that calls_ok_requeue[OF ok] by (simp add: boundary_failed_def Let_def calls_ok_abort)
  show ?thesis
  proof (cases res)
    case (Inl err)
    then show ?thesis using w x ok failed calls_ok_requeue[OF ok]
      by (simp add: committed_def finish_boundary_def Let_def calls_ok_abort)
  next
    case (Inr e)
    have f: "fits work e" using x Inr execute_fits by metis
    obtain s' r where com: "commit_boundary now (reached e work) e (co_live c) = (s', r)" by force
    have ops: "committed now shutdown r1 r2 c = (if r = Committed then wb_operations (reached e work) else [])"
      using w x Inr com by (auto simp: committed_def split: commit_result.split)
    have fin: "finish_boundary now shutdown recorded r1 r2 answer c = boundary_executed now recorded work e answer (c\<lparr>co_context := ctx\<rparr>)"
      using w x Inr by (simp add: finish_boundary_def)
    show ?thesis
    proof (cases "lv_phase (co_live c) = Running")
      case False
      then have "s' = co_live c" "r = Commit_not_running" using com by (simp_all add: commit_boundary_def)
      then show ?thesis using ok ops com unfolding fin by (simp add: boundary_executed_def Let_def)
    next
      case True
      have rc: "r = Committed" by (rule inv_commit(1)[OF i t w f True com])
      obtain s2 where c: "commit_ops now (wb_operations (reached e work)) (ex_responses e) (ex_rejoins e) (mirrored (reached e work) e (co_live c)) = Some s2"
          "lv_phase s2 = Running" "s' = (if ex_finished e \<noteq> None then s2\<lparr>lv_phase := Finishing\<rparr> else acknowledge (reached e work) e s2)"
        by (rule commit_cases[of now "reached e work" e "co_live c"]) (use com rc in auto)
      obtain rest where rest: "wb_operations work = wb_operations (reached e work) @ rest" using reached_prefix by blast
      have "waits (wb_operations (reached e work) @ rest @ lv_timeline (co_live c)) (mirrored (reached e work) e (co_live c))"
        using k True w rest by (intro waits_mirrored) (simp add: call_inv_def outstanding_def in_flight_ops_def)
      from commit_ops_calls(1)[OF c(1) calls_ok_mirrored[OF ok] this] have k2: "calls_ok (ex @ wb_operations (reached e work)) s2" .
      have "calls_ok (ex @ wb_operations (reached e work)) (s2\<lparr>lv_phase := Finishing\<rparr>)"
        by (rule calls_ok_kept[OF k2 kept_calls[OF kept_updates(10)]]) (simp add: in_game_def ids_def)
      then have "calls_ok (ex @ wb_operations (reached e work)) s'" using c(3) k2 by (simp add: calls_ok_acknowledge)
      then show ?thesis unfolding fin ops
        using com rc by (auto simp: boundary_executed_def Let_def calls_ok_abandoned calls_ok_finish_game split: option.split)
    qed
  qed
qed

lemma call_inv_turn:
  assumes k: "turn F now c ops c'" and i: "timeline_inv t ex c" and t: "t \<le> now" and a: "call_inv ex c"
  shows "call_inv (ex @ ops) c'"
proof -
  have ok: "calls_ok ex (co_live c)" and w: "lv_phase (co_live c) = Running \<Longrightarrow> waits (in_flight_ops c @ lv_timeline (co_live c)) (co_live c)"
    using a by (simp_all add: call_inv_def outstanding_def)
  have se: "lv_phase (co_live c) = Running \<Longrightarrow> seats (co_live c)" using i by (simp add: timeline_inv_def)
  have "calls_ok (ex @ ops) (co_live c')"
    using k
  proof (cases rule: turn.cases)
    case (turn_request r)
    then show ?thesis using calls_ok_handle(1)[OF ok w se] by simp
  next
    case (turn_start recorded answer)
    then show ?thesis using calls_ok_start[OF ok] by simp
  next
    case (turn_finish shutdown r1 r2 recorded answer)
    then show ?thesis using calls_ok_finish[OF i t a] by simp
  qed
  moreover have "waits (outstanding c') (co_live c')" if n: "lv_phase (co_live c') = Running"
  proof (cases "lv_phase (co_live c) = Running")
    case False
    from k i False n show ?thesis
    proof (cases rule: beginning_turn)
      case (1 w ps g f v res)
      have po: "pending_of (co_live c) = (\<lambda>_. [])" "lv_rejoins (co_live c) = []"
        using ok 1(4) by (auto simp: calls_ok_def waiters_here_def in_game_def)
      have "calls (co_live c') = calls (co_live c)" using complete_start_calls[OF 1(4) po(1)] 1(9) by simp
      then have "pending_of (co_live c') = (\<lambda>_. [])" "lv_rejoins (co_live c') = []" using po by (simp_all add: calls_def)
      moreover have "outstanding c' = []" using limits_turn[OF i t k n] False by blast
      ultimately show ?thesis by (simp add: waits_def pends_def)
    qed
  next
    case ph: True
    from k i t ph n show ?thesis
    proof (cases rule: running_turn)
      case (request r)
      then show ?thesis using calls_ok_handle(2)[OF ok w se ph] n by (simp add: outstanding_def in_flight_ops_def)
    next
      case nothing
      then show ?thesis using a n by (simp add: call_inv_def outstanding_def in_flight_ops_def)
    next
      case (idle s1)
      have w1: "waits (lv_timeline s1) s1"
        using waits_kept[OF w[OF ph] kept_calls[OF kept_expire[of "co_live c" F now]]] idle(1,3) by (simp add: in_flight_ops_def)
      have "lv_timeline (left_waiting now s1) = lv_timeline s1"
        using idle(5) by (auto simp: work_taken_queue left_waiting_queue)
      then have "waits ([] @ lv_timeline (left_waiting now s1)) (left_waiting now s1)" using w1 by (simp add: waits_left)
      from waits_kept[OF this calls_kept_acknowledge]
      show ?thesis using idle(4,6) by (simp add: outstanding_def in_flight_ops_def)
    next
      case (taken s1)
      have "waits (lv_timeline s1) s1"
        using waits_kept[OF w[OF ph] kept_calls[OF kept_expire[of "co_live c" F now]]] taken(1,3) by (simp add: in_flight_ops_def)
      moreover have "outstanding c' = lv_timeline s1" using taken(4,5) by (simp add: outstanding_def in_flight_ops_def work_taken_queue left_waiting_queue)
      ultimately show ?thesis using taken(5) by (simp add: waits_left)
    next
      case (returned work)
      have "outstanding c' = outstanding c" using returned ph by (simp add: outstanding_def in_flight_ops_def requeue_queue)
      then show ?thesis using w[OF ph] returned ph by (simp add: waits_requeue outstanding_def)
    next
      case (commit work e s2 shutdown r1 r2)
      have "waits (wb_operations work @ lv_timeline (co_live c)) (mirrored work e (co_live c))"
        using w[OF ph] commit(1) by (intro waits_mirrored) (simp add: in_flight_ops_def)
      note m = commit_ops_calls[OF commit(6) calls_ok_mirrored[OF ok] this]
      have "waits ([] @ lv_timeline s2) s2" using m(2,3) by (simp add: mirrored_def)
      from waits_kept[OF this calls_kept_acknowledge]
      show ?thesis using commit(7,8) by (simp add: outstanding_def in_flight_ops_def)
    qed
  qed
  ultimately show ?thesis by (simp add: call_inv_def)
qed

lemma reaches_calls: "reaches F c executed now \<Longrightarrow> call_inv executed c"
proof (induction rule: reaches.induct)
  case (reaches_new rules grace limits now)
  have "pending_of (new_live rules grace limits) = (\<lambda>_. [])"
    by (simp add: pending_of_def tokens_of_def new_live_def zero_tokens_def fun_eq_iff)
  then show ?case
    by (simp add: call_inv_def calls_ok_def pending_ok_def commands_ok_def asks_ok_def asked_def pends_def waiters_here_def told_executed_def
        new_controller_def) (simp add: new_live_def)
next
  case (reaches_turn c executed t now ops c')
  then show ?case using call_inv_turn[OF reaches_turn.hyps(3) inv_reaches[OF reaches_turn.hyps(1)]] by simp
qed

text \<open>
  C9: every request is answered once, and truthfully. While the game runs, a COMMAND or a rejoin is
  unanswered exactly when one operation outstanding carries it; a COMMAND is told it was executed exactly
  when the game executed it; and once the Session ended, however it ended, every COMMAND and every rejoin
  has its answer.
\<close>

theorem requests_answered:
  assumes "reaches F c executed now"
  shows "let s = co_live c in
    (lv_phase s = Running \<longrightarrow> distinct (map snd (commands_in (outstanding c))) \<and> distinct (map snd (rejoins_in (outstanding c)))
      \<and> (\<forall>i < lv_next_cmd s. pc_answer (lv_cmds s i) = None \<longleftrightarrow> i \<in> snd ` set (commands_in (outstanding c)))
      \<and> (\<forall>a < lv_next_ask s. lv_asks s a = None \<longleftrightarrow> a \<in> snd ` set (rejoins_in (outstanding c))))
    \<and> (\<forall>i < lv_next_cmd s. (\<exists>r. pc_answer (lv_cmds s i) = Some (Command_executed, r)) \<longleftrightarrow> i \<in> snd ` set (commands_in executed))
    \<and> (lv_phase s = Ended \<longrightarrow> (\<forall>i < lv_next_cmd s. pc_answer (lv_cmds s i) \<noteq> None) \<and> (\<forall>a < lv_next_ask s. lv_asks s a \<noteq> None))"
proof -
  let ?s = "co_live c"
  have k: "call_inv executed c" by (rule reaches_calls[OF assms])
  then have c: "commands_ok ?s" "asks_ok ?s" "waiters_here ?s" "told_executed executed ?s"
    by (simp_all add: call_inv_def calls_ok_def pending_ok_def)
  have running: "distinct (map snd (commands_in (outstanding c))) \<and> distinct (map snd (rejoins_in (outstanding c)))
      \<and> (\<forall>i < lv_next_cmd ?s. pc_answer (lv_cmds ?s i) = None \<longleftrightarrow> i \<in> snd ` set (commands_in (outstanding c)))
      \<and> (\<forall>a < lv_next_ask ?s. lv_asks ?s a = None \<longleftrightarrow> a \<in> snd ` set (rejoins_in (outstanding c)))" if ph: "lv_phase ?s = Running"
  proof -
    have w: "distinct (commands_in (outstanding c))" "set (commands_in (outstanding c)) = {(p, i). i \<in> pends ?s p}"
      "distinct (rejoins_in (outstanding c))" "set (rejoins_in (outstanding c)) = set (lv_rejoins ?s)"
      using k ph by (simp_all add: call_inv_def waits_def)
    have "inj_on snd (set (commands_in (outstanding c)))" unfolding w(2) using commands_okD(5)[OF c(1)] by (auto simp: inj_on_def)
    moreover have "inj_on snd (set (rejoins_in (outstanding c)))" using c(2) unfolding w(4) asks_ok_def by (simp add: distinct_map)
    moreover have "snd ` set (commands_in (outstanding c)) = {i. \<exists>p. i \<in> pends ?s p}" unfolding w(2) by force
    moreover have "snd ` set (rejoins_in (outstanding c)) = asked ?s" unfolding w(4) asked_def by simp
    ultimately show ?thesis using w(1,3) commands_okD(1)[OF c(1)] c(2) by (simp add: distinct_map asks_ok_def)
  qed
  have ended: "(\<forall>i < lv_next_cmd ?s. pc_answer (lv_cmds ?s i) \<noteq> None) \<and> (\<forall>a < lv_next_ask ?s. lv_asks ?s a \<noteq> None)" if ph: "lv_phase ?s = Ended"
  proof -
    have "pends ?s p = {}" for p using c(3) ph by (auto simp: waiters_here_def in_game_def pends_def)
    moreover have "asked ?s = {}" using c(3) ph by (auto simp: waiters_here_def in_game_def asked_def)
    ultimately show ?thesis using commands_okD(1)[OF c(1)] c(2) by (simp add: asks_ok_def)
  qed
  show ?thesis unfolding Let_def using running ended c(4) unfolding told_executed_def by blast
qed

theorem requests_answered_witness:
  "lv_next_cmd (co_live sample_waiting) = 1 \<and> pc_answer (lv_cmds (co_live sample_waiting) 0) = None
    \<and> 0 \<in> snd ` set (commands_in (outstanding sample_waiting))"
proof -
  have "lv_next_cmd (co_live sample_waiting) = 1" "pc_answer (lv_cmds (co_live sample_waiting) 0) = None" by code_simp+
  then show ?thesis using requests_answered[OF reaches_sample_waiting] waiting_runs(1) by (simp add: Let_def)
qed

end
