(* ===== verification/GoText.thy ===== *)
theory GoText
  imports GoStrings
begin

section \<open>More of Go's string functions\<close>

text \<open>
  What the authored sources use of \<open>strings\<close>, \<open>path\<close>, \<open>unicode/utf8\<close>: counting and replacing a
  pattern, the extension of a path, valid UTF-8 and trimming white space. A string is its bytes.
\<close>

subsection \<open>Counting and replacing\<close>

text \<open>\<open>strings.Contains\<close> at one byte is membership. \<open>strings.Count\<close> for a pattern that is not empty: left to right, without overlaps.\<close>

function count_of :: "string \<Rightarrow> string \<Rightarrow> nat" where
  "count_of pat s =
     (if s = [] then 0
      else if pat \<noteq> [] \<and> has_prefix s pat then Suc (count_of pat (drop (length pat) s))
      else count_of pat (tl s))"
  by pat_completeness auto
termination
  by (relation "measure (\<lambda>(pat, s). length s)") auto

declare count_of.simps [simp del]

lemma count_of_Nil [simp]: "count_of pat [] = 0"
  by (simp add: count_of.simps)

text \<open>\<open>strings.Replace\<close> with a limit of one: the first occurrence.\<close>

fun replace_first :: "string \<Rightarrow> string \<Rightarrow> string \<Rightarrow> string" where
  "replace_first pat new [] = []"
| "replace_first pat new (c # s) =
     (if pat \<noteq> [] \<and> has_prefix (c # s) pat then new @ drop (length pat) (c # s)
      else c # replace_first pat new s)"

lemma has_prefix_append: "has_prefix s p \<longleftrightarrow> (\<exists>r. s = p @ r)"
  by (metis append_eq_conv_conj append_take_drop_id has_prefix_def)

lemma count_of_Cons:
  "count_of pat (c # s) =
     (if pat \<noteq> [] \<and> has_prefix (c # s) pat then Suc (count_of pat (drop (length pat) (c # s))) else count_of pat s)"
  by (subst count_of.simps) simp

lemma replace_all_Cons:
  "replace_all pat new (c # s) =
     (if pat \<noteq> [] \<and> has_prefix (c # s) pat then new @ replace_all pat new (drop (length pat) (c # s))
      else c # replace_all pat new s)"
  by (subst replace_all.simps) simp

lemma replace_all_none: "count_of pat s = 0 \<Longrightarrow> replace_all pat new s = s"
  by (induction s) (auto simp: count_of_Cons replace_all_Cons split: if_splits)

lemma replace_first_once: "count_of pat s = 1 \<Longrightarrow> replace_first pat new s = replace_all pat new s"
  by (induction s) (auto simp: count_of_Cons replace_all_Cons replace_all_none split: if_splits)

lemma length_replace_all:
  "pat \<noteq> [] \<Longrightarrow> int (length (replace_all pat new s)) = int (length s) + int (count_of pat s) * (int (length new) - int (length pat))"
proof (induction pat s rule: count_of.induct)
  case (1 pat s)
  show ?case
  proof (cases "s = []")
    case False
    show ?thesis
    proof (cases "has_prefix s pat")
      case True
      then have "length pat \<le> length s" by (metis has_prefix_def length_take min.absorb_iff2 min.commute)
      then show ?thesis using True False 1
        by (subst replace_all.simps, subst count_of.simps) (auto simp: algebra_simps)
    next
      case no: False
      then show ?thesis using False 1
        by (subst replace_all.simps, subst count_of.simps) (cases s; auto)
    qed
  qed simp
qed

subsection \<open>Paths\<close>

text \<open>\<open>path.Ext\<close>: from the last dot after the last slash, or nothing.\<close>

fun ext_back :: "string \<Rightarrow> string \<Rightarrow> string" where
  "ext_back [] acc = []"
| "ext_back (c # cs) acc = (if c = CHR ''/'' then [] else if c = CHR ''.'' then c # acc else ext_back cs (c # acc))"

definition path_ext :: "string \<Rightarrow> string" where
  "path_ext p = ext_back (rev p) []"

subsection \<open>UTF-8\<close>

definition byte :: "char \<Rightarrow> nat" where
  "byte c = of_char c"

definition continuation :: "char \<Rightarrow> bool" where
  "continuation c \<longleftrightarrow> 128 \<le> byte c \<and> byte c < 192"

definition between :: "nat \<Rightarrow> nat \<Rightarrow> char \<Rightarrow> bool" where
  "between lo hi c \<longleftrightarrow> lo \<le> byte c \<and> byte c \<le> hi"

text \<open>\<open>utf8.ValidString\<close>: no overlong form, no surrogate, nothing beyond U+10FFFF.\<close>

fun valid_utf8 :: "string \<Rightarrow> bool" where
  "valid_utf8 [] = True"
| "valid_utf8 (a # s) =
     (if byte a < 128 then valid_utf8 s
      else if between 0xC2 0xDF a then (case s of b # s' \<Rightarrow> continuation b \<and> valid_utf8 s' | _ \<Rightarrow> False)
      else if between 0xE0 0xEF a then (case s of b # c # s' \<Rightarrow>
          between (if byte a = 0xE0 then 0xA0 else 0x80) (if byte a = 0xED then 0x9F else 0xBF) b
          \<and> continuation c \<and> valid_utf8 s' | _ \<Rightarrow> False)
      else if between 0xF0 0xF4 a then (case s of b # c # d # s' \<Rightarrow>
          between (if byte a = 0xF0 then 0x90 else 0x80) (if byte a = 0xF4 then 0x8F else 0xBF) b
          \<and> continuation c \<and> continuation d \<and> valid_utf8 s' | _ \<Rightarrow> False)
      else False)"

text \<open>The number of runes of a valid string: the bytes that are not continuations.\<close>

definition rune_count :: "string \<Rightarrow> nat" where
  "rune_count s = length (filter (\<lambda>c. \<not> continuation c) s)"

subsection \<open>White space\<close>

text \<open>The encodings of the runes \<open>unicode.IsSpace\<close> accepts.\<close>

definition space_runes :: "string list" where
  "space_runes = map (\<lambda>n. [char_of n]) [9, 10, 11, 12, 13, 32 :: nat]
     @ [map char_of [0xC2, 0x85 :: nat], map char_of [0xC2, 0xA0 :: nat], map char_of [0xE1, 0x9A, 0x80 :: nat]]
     @ map (\<lambda>n. map char_of [0xE2, 0x80, n :: nat]) ([0x80..<0x8B] @ [0xA8, 0xA9, 0xAF])
     @ [map char_of [0xE2, 0x81, 0x9F :: nat], map char_of [0xE3, 0x80, 0x80 :: nat]]"

text \<open>A leading or trailing rune of the list is dropped until there is none.\<close>

function trim_front :: "string list \<Rightarrow> string \<Rightarrow> string" where
  "trim_front rs s = (case List.find (\<lambda>r. r \<noteq> [] \<and> has_prefix s r) rs of
      None \<Rightarrow> s | Some r \<Rightarrow> trim_front rs (drop (length r) s))"
  by pat_completeness auto
termination
proof (relation "measure (\<lambda>(rs, s). length s)")
  fix rs :: "string list" and s r assume "List.find (\<lambda>r. r \<noteq> [] \<and> has_prefix s r) rs = Some r"
  then have "r \<noteq> []" "has_prefix s r" by (auto simp: find_Some_iff)
  then have "length r > 0" "s \<noteq> []" by (auto simp: has_prefix_def)
  then show "((rs, drop (length r) s), rs, s) \<in> measure (\<lambda>(rs, s). length s)" by simp
qed simp

declare trim_front.simps [simp del]

definition trim_space :: "string \<Rightarrow> string" where
  "trim_space s = rev (trim_front (map rev space_runes) (rev (trim_front space_runes s)))"

end
