(* ===== verification/ScenarioDoc.thy ===== *)
theory ScenarioDoc
  imports Inputs GoText
begin

section \<open>Scenario documents\<close>

text \<open>
  The package \<open>play/internal/business/scenariodoc\<close>: reading a \<open>playhoot.scenario.v1\<close> document
  (\<open>decode\<close>), the paths into a JSON value (\<open>parse_path\<close>, \<open>resolve\<close>) and comparing an expectation with
  a value (\<open>check\<close>). A document is what the decoder makes of its bytes (\<^typ>\<open>raw\<close>). A number the code
  reads as \<open>any\<close> is a float: the operations it uses of floats are \<open>'f number_ops\<close>. A panic of \<open>Check\<close>
  (a failed type assertion) is \<open>None\<close>. The texts of the messages are left out: a problem is its kind
  and what it names.
\<close>

definition and_then :: "'e + 'a \<Rightarrow> ('a \<Rightarrow> 'e + 'b) \<Rightarrow> 'e + 'b" where
  "and_then r f = (case r of Inl e \<Rightarrow> Inl e | Inr x \<Rightarrow> f x)"

lemma and_then_simps [simp]: "and_then (Inl e) f = Inl e" "and_then (Inr x) f = f x"
  by (simp_all add: and_then_def)

lemma and_then_Inr: "and_then r f = Inr y \<longleftrightarrow> (\<exists>x. r = Inr x \<and> f x = Inr y)"
  by (cases r) simp_all

fun sum_list_map :: "('a \<Rightarrow> 'e + 'b) \<Rightarrow> 'a list \<Rightarrow> 'e + 'b list" where
  "sum_list_map f [] = Inr []"
| "sum_list_map f (x # xs) = and_then (f x) (\<lambda>y. and_then (sum_list_map f xs) (\<lambda>ys. Inr (y # ys)))"

subsection \<open>Paths\<close>

datatype segment = Key string | Index nat

datatype path_error = Path_too_long | Path_form | Path_unexpected string | Path_open | Not_an_index string

definition max_scenario_path :: nat where "max_scenario_path = 512"

text \<open>\<open>strings.Cut\<close> at one byte: what is before it and, when it is there, what is after it.\<close>

fun cut_at :: "char \<Rightarrow> string \<Rightarrow> string \<times> string option" where
  "cut_at sep [] = ([], None)"
| "cut_at sep (c # cs) = (if c = sep then ([], Some cs) else (let (a, b) = cut_at sep cs in (c # a, b)))"

lemma cut_at_length: "cut_at sep s = (a, Some b) \<Longrightarrow> length b < length s"
  by (induction s arbitrary: a) (auto split: if_splits prod.splits simp: less_Suc_eq)

text \<open>The array indexes after a key: \<open>[n][m]\<close> and nothing else.\<close>

function index_segments :: "string \<Rightarrow> path_error + segment list" where
  "index_segments rest =
     (case rest of [] \<Rightarrow> Inr []
      | c # r \<Rightarrow> if c \<noteq> CHR ''['' then Inl (Path_unexpected rest)
        else (case cut_at (CHR '']'') r of
            (d, None) \<Rightarrow> Inl Path_open
          | (d, Some rest') \<Rightarrow> (case atoi d of
              Some i \<Rightarrow> if 0 \<le> i \<and> i \<le> max_int64 then and_then (index_segments rest') (\<lambda>ss. Inr (Index (nat i) # ss))
                       else Inl (Not_an_index d)
            | None \<Rightarrow> Inl (Not_an_index d))))"
  by pat_completeness auto
termination
  by (relation "measure length") (auto dest!: cut_at_length[OF sym])

declare index_segments.simps [simp del]

definition path_part :: "string \<Rightarrow> path_error + segment list" where
  "path_part part =
     (let (key, rest) = cut_at (CHR ''['') part in
      if key = [] \<and> rest = None then Inl Path_form
      else and_then (case rest of None \<Rightarrow> Inr [] | Some r \<Rightarrow> index_segments (CHR ''['' # r))
             (\<lambda>ss. Inr ((if key = [] then [] else [Key key]) @ ss)))"

definition parse_path :: "string \<Rightarrow> path_error + segment list" where
  "parse_path p =
     (if length p > max_scenario_path then Inl Path_too_long
      else if p = [] then Inr []
      else and_then (sum_list_map path_part (split_at (CHR ''.'') p)) (\<lambda>sss. Inr (concat sss)))"

fun resolve_path :: "raw \<Rightarrow> segment list \<Rightarrow> raw option" where
  "resolve_path v [] = (if v = Raw_empty then None else Some v)"
| "resolve_path v (Index i # ss) = (case v of
      Raw (JList xs) \<Rightarrow> if i < length xs then resolve_path (Raw (xs ! i)) ss else None
    | _ \<Rightarrow> None)"
| "resolve_path v (Key k # ss) = (case v of
      Raw (JObj m) \<Rightarrow> (case map_of m k of Some j \<Rightarrow> resolve_path (Raw j) ss | None \<Rightarrow> None)
    | _ \<Rightarrow> None)"

subsection \<open>Values read as \<open>any\<close>\<close>

text \<open>\<open>float64(int64(x)) = x\<close>, and \<open>float64\<close> of a length.\<close>

record 'f number_ops = "'f float_ops" +
  no_whole :: "'f \<Rightarrow> bool"
  no_count :: "nat \<Rightarrow> 'f"

datatype 'f any_value = Any_nil | Any_bool bool | Any_number 'f | Any_string string | Any_list "'f any_value list"
  | Any_map "(string \<times> 'f any_value) list"

text \<open>A number beyond a float is an error, and is left \<open>nil\<close> in what is read.\<close>

fun any_of :: "'f number_ops \<Rightarrow> json \<Rightarrow> 'f any_value" where
  "any_of N JNull = Any_nil"
| "any_of N (JBool b) = Any_bool b"
| "any_of N (JNum s) = (case fo_parse N s of None \<Rightarrow> Any_nil | Some x \<Rightarrow> Any_number x)"
| "any_of N (JStr s) = Any_string s"
| "any_of N (JList xs) = Any_list (map (any_of N) xs)"
| "any_of N (JObj m) = Any_map (map (\<lambda>(k, v). (k, any_of N v)) m)"

fun any_readable :: "'f number_ops \<Rightarrow> json \<Rightarrow> bool" where
  "any_readable N (JNum s) = (fo_parse N s \<noteq> None)"
| "any_readable N (JList xs) = list_all (any_readable N) xs"
| "any_readable N (JObj m) = list_all (\<lambda>(k, v). any_readable N v) m"
| "any_readable N _ = True"

definition read_any :: "'f number_ops \<Rightarrow> raw \<Rightarrow> 'f any_value" where
  "read_any N r = (case r of Raw j \<Rightarrow> any_of N j | _ \<Rightarrow> Any_nil)"

text \<open>\<open>reflect.DeepEqual\<close>: numbers by \<open>==\<close>; there is no NaN in JSON.\<close>

fun deep_equal :: "'f number_ops \<Rightarrow> 'f any_value \<Rightarrow> 'f any_value \<Rightarrow> bool"
and deep_equals :: "'f number_ops \<Rightarrow> 'f any_value list \<Rightarrow> 'f any_value list \<Rightarrow> bool"
and deep_equal_maps :: "'f number_ops \<Rightarrow> (string \<times> 'f any_value) list \<Rightarrow> (string \<times> 'f any_value) list \<Rightarrow> bool" where
  "deep_equal N Any_nil Any_nil = True"
| "deep_equal N (Any_bool a) (Any_bool b) = (a = b)"
| "deep_equal N (Any_number x) (Any_number y) = (\<not> fo_less N x y \<and> \<not> fo_less N y x)"
| "deep_equal N (Any_string s) (Any_string t) = (s = t)"
| "deep_equal N (Any_list xs) (Any_list ys) = deep_equals N xs ys"
| "deep_equal N (Any_map m) (Any_map n) = deep_equal_maps N m n"
| "deep_equal N _ _ = False"
| "deep_equals N [] [] = True"
| "deep_equals N (x # xs) (y # ys) = (deep_equal N x y \<and> deep_equals N xs ys)"
| "deep_equals N _ _ = False"
| "deep_equal_maps N [] [] = True"
| "deep_equal_maps N ((k, x) # m) ((l, y) # n) = (k = l \<and> deep_equal N x y \<and> deep_equal_maps N m n)"
| "deep_equal_maps N _ _ = False"

subsection \<open>Operators of an expectation\<close>

definition op_eq :: string where "op_eq = ''eq''"
definition op_ne :: string where "op_ne = ''ne''"
definition op_exists :: string where "op_exists = ''exists''"
definition op_absent :: string where "op_absent = ''absent''"
definition op_lt :: string where "op_lt = ''lt''"
definition op_lte :: string where "op_lte = ''lte''"
definition op_gt :: string where "op_gt = ''gt''"
definition op_gte :: string where "op_gte = ''gte''"
definition op_in :: string where "op_in = ''in''"
definition op_len :: string where "op_len = ''len''"

lemmas scenario_ops = op_eq_def op_ne_def op_exists_def op_absent_def op_lt_def op_lte_def op_gt_def op_gte_def
  op_in_def op_len_def

datatype op_problem = Value_not_json | Takes_no_value | Needs_a_value | Needs_a_number | Needs_a_list
  | Needs_a_whole_number | Unknown_op

text \<open>Why \<open>op\<close> cannot compare with \<open>value\<close>, if it cannot.\<close>

definition check_op :: "'f number_ops \<Rightarrow> string \<Rightarrow> raw \<Rightarrow> op_problem option" where
  "check_op N op value =
     (let present = (value \<noteq> Raw_empty); decoded = read_any N value in
      if present \<and> (case value of Raw j \<Rightarrow> \<not> any_readable N j | _ \<Rightarrow> True) then Some Value_not_json
      else if op = op_exists \<or> op = op_absent then (if present then Some Takes_no_value else None)
      else if op = op_eq \<or> op = op_ne then (if \<not> present then Some Needs_a_value else None)
      else if op = op_lt \<or> op = op_lte \<or> op = op_gt \<or> op = op_gte then
        (case decoded of Any_number x \<Rightarrow> None | _ \<Rightarrow> Some Needs_a_number)
      else if op = op_in then (case decoded of Any_list xs \<Rightarrow> None | _ \<Rightarrow> Some Needs_a_list)
      else if op = op_len then
        (case decoded of Any_number x \<Rightarrow> if fo_less N x (fo_zero N) \<or> \<not> no_whole N x then Some Needs_a_whole_number else None
         | _ \<Rightarrow> Some Needs_a_whole_number)
      else Some Unknown_op)"

subsection \<open>Scenarios\<close>

record scenario_command =
  sc_name :: string
  sc_payload :: raw

record scenario_step =
  ss_at :: int
  ss_player :: string
  ss_command :: "scenario_command option"
  ss_inputs :: raw

record scenario_hold =
  sh_from :: int
  sh_to :: int
  sh_player :: string
  sh_inputs :: raw

record expectation =
  ex_at :: "int option"
  ex_of :: string
  ex_path :: string
  ex_op :: string
  ex_value :: raw

record scenario =
  sn_players :: int
  sn_seed :: int
  sn_duration :: int
  sn_steps :: "scenario_step list"
  sn_holds :: "scenario_hold list"
  sn_observe :: "int list"
  sn_expect :: "expectation list"

definition scenario_format :: string where "scenario_format = ''playhoot.scenario.v1''"
definition default_seed :: int where "default_seed = 1"
definition of_global :: string where "of_global = ''global''"

text \<open>The pattern \<open>^P[1-9][0-9]*$\<close>.\<close>

definition is_participant :: "string \<Rightarrow> bool" where
  "is_participant s = (case s of p # d # ds \<Rightarrow> p = CHR ''P'' \<and> digit_value d \<noteq> None \<and> d \<noteq> CHR ''0'' \<and> list_all (\<lambda>c. digit_value c \<noteq> None) ds
     | _ \<Rightarrow> False)"

datatype scenario_problem = Not_a_scenario | Wrong_format | Is_required | Command_or_inputs | Bad_hold | No_held_inputs
  | Unknown_of | Negative_instant | Bad_path path_error | Bad_op op_problem

record scenario_diagnostic =
  sd_field :: string
  sd_problem :: scenario_problem

text \<open>Reading the fields of the document: a value of another kind makes the whole document unreadable.\<close>

definition opt_int :: "int \<Rightarrow> int \<Rightarrow> string \<Rightarrow> fields \<Rightarrow> unit + int option" where
  "opt_int lo hi k m = (case map_of m k of None \<Rightarrow> Inr None | Some JNull \<Rightarrow> Inr None
     | Some _ \<Rightarrow> and_then (int_of_field () lo hi k m) (\<lambda>i. Inr (Some i)))"

definition opt_string :: "string \<Rightarrow> fields \<Rightarrow> unit + string option" where
  "opt_string k m = (case map_of m k of None \<Rightarrow> Inr None | Some JNull \<Rightarrow> Inr None
     | Some _ \<Rightarrow> and_then (str_of_field () k m) (\<lambda>s. Inr (Some s)))"

definition struct_list :: "(fields \<Rightarrow> unit + 'a) \<Rightarrow> string \<Rightarrow> fields \<Rightarrow> unit + 'a list" where
  "struct_list f k m = (case map_of m k of None \<Rightarrow> Inr [] | Some JNull \<Rightarrow> Inr []
     | Some (JList xs) \<Rightarrow> sum_list_map (\<lambda>j. case j of JObj d \<Rightarrow> f d | JNull \<Rightarrow> f [] | _ \<Rightarrow> Inl ()) xs
     | Some _ \<Rightarrow> Inl ())"

definition int_list :: "string \<Rightarrow> fields \<Rightarrow> unit + int list" where
  "int_list k m = (case map_of m k of None \<Rightarrow> Inr [] | Some JNull \<Rightarrow> Inr []
     | Some (JList xs) \<Rightarrow> sum_list_map (\<lambda>j. int64_of_field () k [(k, j)]) xs
     | Some _ \<Rightarrow> Inl ())"

definition command_document :: "fields \<Rightarrow> unit + scenario_command" where
  "command_document m = and_then (str_of_field () ''name'' m) (\<lambda>n.
     Inr \<lparr>sc_name = n, sc_payload = raw_of_field ''payload'' m\<rparr>)"

definition step_document :: "fields \<Rightarrow> unit + scenario_step" where
  "step_document m =
     and_then (int64_of_field () ''at_ms'' m) (\<lambda>t.
     and_then (str_of_field () ''player'' m) (\<lambda>p.
     and_then (case map_of m ''command'' of None \<Rightarrow> Inr None | Some JNull \<Rightarrow> Inr None
        | Some (JObj c) \<Rightarrow> and_then (command_document c) (\<lambda>x. Inr (Some x)) | Some _ \<Rightarrow> Inl ()) (\<lambda>c.
     Inr \<lparr>ss_at = t, ss_player = p, ss_command = c, ss_inputs = raw_of_field ''inputs'' m\<rparr>)))"

definition hold_document :: "fields \<Rightarrow> unit + scenario_hold" where
  "hold_document m =
     and_then (int64_of_field () ''from_ms'' m) (\<lambda>a.
     and_then (int64_of_field () ''to_ms'' m) (\<lambda>b.
     and_then (str_of_field () ''player'' m) (\<lambda>p.
     Inr \<lparr>sh_from = a, sh_to = b, sh_player = p, sh_inputs = raw_of_field ''inputs'' m\<rparr>)))"

definition expect_document :: "fields \<Rightarrow> unit + expectation" where
  "expect_document m =
     and_then (opt_int min_int64 max_int64 ''at_ms'' m) (\<lambda>t.
     and_then (str_of_field () ''of'' m) (\<lambda>w.
     and_then (str_of_field () ''path'' m) (\<lambda>p.
     and_then (str_of_field () ''op'' m) (\<lambda>op.
     Inr \<lparr>ex_at = t, ex_of = w, ex_path = p, ex_op = op, ex_value = raw_of_field ''value'' m\<rparr>))))"

record scenario_document =
  sx_format :: "string option"
  sx_players :: "int option"
  sx_seed :: "int option"
  sx_duration :: "int option"
  sx_steps :: "scenario_step list"
  sx_holds :: "scenario_hold list"
  sx_observe :: "int list"
  sx_expect :: "expectation list"

definition scenario_document :: "fields \<Rightarrow> unit + scenario_document" where
  "scenario_document m =
     and_then (opt_string ''format'' m) (\<lambda>f.
     and_then (opt_int min_int64 max_int64 ''players'' m) (\<lambda>p.
     and_then (opt_int 0 (2 ^ 64 - 1) ''seed'' m) (\<lambda>s.
     and_then (opt_int min_int64 max_int64 ''duration_ms'' m) (\<lambda>d.
     and_then (struct_list step_document ''steps'' m) (\<lambda>steps.
     and_then (struct_list hold_document ''holds'' m) (\<lambda>holds.
     and_then (int_list ''observe_at_ms'' m) (\<lambda>obs.
     and_then (struct_list expect_document ''expect'' m) (\<lambda>expect.
     Inr \<lparr>sx_format = f, sx_players = p, sx_seed = s, sx_duration = d, sx_steps = steps, sx_holds = holds,
         sx_observe = obs, sx_expect = expect\<rparr>))))))))"

subsection \<open>Decoding\<close>

definition says :: "bool \<Rightarrow> string \<Rightarrow> scenario_problem \<Rightarrow> scenario_diagnostic list" where
  "says b field problem = (if b then [\<lparr>sd_field = field, sd_problem = problem\<rparr>] else [])"

definition nothing_sent :: "raw \<Rightarrow> bool" where
  "nothing_sent r \<longleftrightarrow> r = Raw_empty \<or> r = Raw JNull"

definition entry_field :: "string \<Rightarrow> nat \<Rightarrow> string" where
  "entry_field name i = name @ ''['' @ itoa i @ '']''"

definition step_problems :: "nat \<Rightarrow> scenario_step \<Rightarrow> scenario_diagnostic list" where
  "step_problems i s =
     (let field = entry_field ''steps'' i; has_inputs = (\<not> nothing_sent (ss_inputs s)) in
      says ((ss_command s = None) = (\<not> has_inputs)) field Command_or_inputs @
      (case ss_command s of None \<Rightarrow> [] | Some c \<Rightarrow> says (sc_name c = []) (field @ ''.command.name'') Is_required))"

definition converted_step :: "scenario_step \<Rightarrow> scenario_step" where
  "converted_step s = (if nothing_sent (ss_inputs s) then s\<lparr>ss_inputs := Raw_empty\<rparr> else s)"

definition hold_problems :: "nat \<Rightarrow> scenario_hold \<Rightarrow> scenario_diagnostic list" where
  "hold_problems i h =
     (let field = entry_field ''holds'' i in
      says (sh_from h < 0 \<or> sh_to h \<le> sh_from h) field Bad_hold @
      says (nothing_sent (sh_inputs h)) (field @ ''.inputs'') No_held_inputs)"

definition whose :: "expectation \<Rightarrow> string" where
  "whose e = (if ex_of e = [] then of_global else ex_of e)"

definition expect_problems :: "'f number_ops \<Rightarrow> nat \<Rightarrow> expectation \<Rightarrow> scenario_diagnostic list" where
  "expect_problems N i e =
     (let field = entry_field ''expect'' i in
      says (whose e \<noteq> of_global \<and> \<not> is_participant (whose e)) (field @ ''.of'') Unknown_of @
      says (case ex_at e of None \<Rightarrow> False | Some t \<Rightarrow> t < 0) (field @ ''.at_ms'') Negative_instant @
      (case parse_path (ex_path e) of Inl err \<Rightarrow> [\<lparr>sd_field = field @ ''.path'', sd_problem = Bad_path err\<rparr>] | Inr _ \<Rightarrow> []) @
      (case check_op N (ex_op e) (ex_value e) of None \<Rightarrow> [] | Some p \<Rightarrow> [\<lparr>sd_field = field, sd_problem = Bad_op p\<rparr>]))"

fun numbered_problems :: "(nat \<Rightarrow> 'a \<Rightarrow> scenario_diagnostic list) \<Rightarrow> nat \<Rightarrow> 'a list \<Rightarrow> scenario_diagnostic list" where
  "numbered_problems f i [] = []"
| "numbered_problems f i (x # xs) = f i x @ numbered_problems f (Suc i) xs"

definition scenario_problems :: "'f number_ops \<Rightarrow> scenario_document \<Rightarrow> scenario_diagnostic list" where
  "scenario_problems N d =
     says (sx_format d \<noteq> Some scenario_format) ''format'' Wrong_format @
     says (sx_players d = None) ''players'' Is_required @
     says (sx_duration d = None) ''duration_ms'' Is_required @
     numbered_problems step_problems 0 (sx_steps d) @
     numbered_problems hold_problems 0 (sx_holds d) @
     numbered_problems (expect_problems N) 0 (sx_expect d)"

definition scenario_of :: "scenario_document \<Rightarrow> scenario" where
  "scenario_of d = \<lparr>sn_players = (case sx_players d of None \<Rightarrow> 0 | Some n \<Rightarrow> n),
     sn_seed = (case sx_seed d of None \<Rightarrow> default_seed | Some n \<Rightarrow> n),
     sn_duration = (case sx_duration d of None \<Rightarrow> 0 | Some n \<Rightarrow> n),
     sn_steps = map converted_step (sx_steps d), sn_holds = sx_holds d, sn_observe = sx_observe d,
     sn_expect = map (\<lambda>e. e\<lparr>ex_of := whose e\<rparr>) (sx_expect d)\<rparr>"

definition decode_scenario :: "'f number_ops \<Rightarrow> raw \<Rightarrow> scenario_diagnostic list + scenario" where
  "decode_scenario N r =
     (case (case r of Raw (JObj m) \<Rightarrow> scenario_document m | Raw JNull \<Rightarrow> scenario_document [] | _ \<Rightarrow> Inl ()) of
        Inl _ \<Rightarrow> Inl [\<lparr>sd_field = [], sd_problem = Not_a_scenario\<rparr>]
      | Inr d \<Rightarrow> (let problems = scenario_problems N d in if problems \<noteq> [] then Inl problems else Inr (scenario_of d)))"

subsection \<open>Checking an expectation\<close>

datatype check_problem = Path_problem path_error | Nothing_there | Not_countable | Not_a_number

record verdict =
  ve_passed :: bool
  ve_actual :: "raw option"
  ve_problem :: "check_problem option"

definition number_verdict :: "'f number_ops \<Rightarrow> string \<Rightarrow> 'f \<Rightarrow> 'f \<Rightarrow> bool" where
  "number_verdict N op x limit =
     (if op = op_lt then fo_less N x limit
      else if op = op_lte then \<not> fo_less N limit x
      else if op = op_gt then fo_less N limit x
      else \<not> fo_less N x limit)"

definition length_in :: "'f any_value \<Rightarrow> nat option" where
  "length_in v = (case v of Any_list xs \<Rightarrow> Some (length xs) | Any_map m \<Rightarrow> Some (length m)
     | Any_string s \<Rightarrow> Some (rune_count s) | _ \<Rightarrow> None)"

definition compare :: "'f number_ops \<Rightarrow> string \<Rightarrow> 'f any_value \<Rightarrow> 'f any_value \<Rightarrow> verdict \<Rightarrow> verdict option" where
  "compare N op got want v =
     (if op = op_eq then Some (v\<lparr>ve_passed := deep_equal N got want\<rparr>)
      else if op = op_ne then Some (v\<lparr>ve_passed := \<not> deep_equal N got want\<rparr>)
      else if op = op_in then
        (case want of Any_list xs \<Rightarrow> Some (v\<lparr>ve_passed := list_ex (deep_equal N got) xs\<rparr>) | _ \<Rightarrow> None)
      else if op = op_len then
        (case length_in got of None \<Rightarrow> Some (v\<lparr>ve_problem := Some Not_countable\<rparr>)
         | Some n \<Rightarrow> (case want of Any_number x \<Rightarrow>
              Some (v\<lparr>ve_passed := deep_equal N (Any_number (no_count N n)) (Any_number x)\<rparr>) | _ \<Rightarrow> None))
      else if op = op_lt \<or> op = op_lte \<or> op = op_gt \<or> op = op_gte then
        (case got of Any_number x \<Rightarrow> (case want of Any_number limit \<Rightarrow>
              Some (v\<lparr>ve_passed := number_verdict N op x limit\<rparr>) | _ \<Rightarrow> None)
         | _ \<Rightarrow> Some (v\<lparr>ve_problem := Some Not_a_number\<rparr>))
      else Some v)"

definition check_expectation :: "'f number_ops \<Rightarrow> expectation \<Rightarrow> raw \<Rightarrow> verdict option" where
  "check_expectation N e document =
     (case parse_path (ex_path e) of
        Inl err \<Rightarrow> Some \<lparr>ve_passed = False, ve_actual = None, ve_problem = Some (Path_problem err)\<rparr>
      | Inr segments \<Rightarrow>
          (let actual = resolve_path document segments;
               v = \<lparr>ve_passed = False, ve_actual = actual, ve_problem = None\<rparr> in
           if ex_op e = op_exists then Some (v\<lparr>ve_passed := (actual \<noteq> None)\<rparr>)
           else if ex_op e = op_absent then Some (v\<lparr>ve_passed := (actual = None)\<rparr>)
           else (case actual of None \<Rightarrow> Some (v\<lparr>ve_problem := Some Nothing_there\<rparr>)
             | Some a \<Rightarrow> compare N (ex_op e) (read_any N a) (read_any N (ex_value e)) v)))"

subsection \<open>What is accepted\<close>

text \<open>What a scenario promises whoever plays it.\<close>

definition step_ok :: "scenario_step \<Rightarrow> bool" where
  "step_ok s \<longleftrightarrow> (case ss_command s of None \<Rightarrow> \<not> nothing_sent (ss_inputs s)
     | Some c \<Rightarrow> sc_name c \<noteq> [] \<and> ss_inputs s = Raw_empty)"

definition hold_ok :: "scenario_hold \<Rightarrow> bool" where
  "hold_ok h \<longleftrightarrow> 0 \<le> sh_from h \<and> sh_from h < sh_to h \<and> \<not> nothing_sent (sh_inputs h)"

definition expectation_ok :: "'f number_ops \<Rightarrow> expectation \<Rightarrow> bool" where
  "expectation_ok N e \<longleftrightarrow> (ex_of e = of_global \<or> is_participant (ex_of e)) \<and> (\<forall>t. ex_at e = Some t \<longrightarrow> 0 \<le> t)
     \<and> (\<exists>segments. parse_path (ex_path e) = Inr segments) \<and> check_op N (ex_op e) (ex_value e) = None"

lemma says_Nil [simp]: "says b f p = [] \<longleftrightarrow> \<not> b"
  by (simp add: says_def)

lemma numbered_problems_Nil: "numbered_problems f i xs = [] \<Longrightarrow> x \<in> set xs \<Longrightarrow> \<exists>j. f j x = []"
  by (induction xs arbitrary: i) auto

lemma converted_step_ok: "step_problems i s = [] \<Longrightarrow> step_ok (converted_step s)"
  by (auto simp: step_problems_def step_ok_def converted_step_def Let_def split: option.splits)

lemma hold_problems_ok: "hold_problems i h = [] \<Longrightarrow> hold_ok h"
  by (auto simp: hold_problems_def hold_ok_def Let_def)

lemma expect_problems_ok: "expect_problems N i e = [] \<Longrightarrow> expectation_ok N (e\<lparr>ex_of := whose e\<rparr>)"
  by (auto simp: expect_problems_def expectation_ok_def Let_def split: sum.splits option.splits)

lemma decode_scenario_Inr:
  "decode_scenario N r = Inr sn \<Longrightarrow> \<exists>d. scenario_problems N d = [] \<and> sn = scenario_of d"
  by (auto simp: decode_scenario_def Let_def split: sum.splits if_splits)

text \<open>An operator accepted with its value never fails a type assertion.\<close>

definition is_ordering :: "string \<Rightarrow> bool" where
  "is_ordering op \<longleftrightarrow> op = op_lt \<or> op = op_lte \<or> op = op_gt \<or> op = op_gte"

lemma op_values_number:
  assumes "check_op N op value = None" and "is_ordering op \<or> op = op_len"
  shows "\<exists>x. read_any N value = Any_number x"
  using assms by (cases "read_any N value") (auto simp: check_op_def Let_def is_ordering_def scenario_ops split: if_splits)

lemma op_values_list:
  assumes "check_op N op_in value = None"
  shows "\<exists>xs. read_any N value = Any_list xs"
  using assms by (cases "read_any N value") (auto simp: check_op_def Let_def scenario_ops split: if_splits)

lemma compare_answers:
  assumes "check_op N op value = None"
  shows "\<exists>w. compare N op got (read_any N value) v = Some w \<and> (ve_problem v = None \<longrightarrow> ve_problem w \<in> {None, Some Not_countable, Some Not_a_number})"
proof -
  consider "is_ordering op" | "op = op_len" | "op = op_in" | "\<not> is_ordering op" "op \<noteq> op_len" "op \<noteq> op_in" by blast
  then show ?thesis
  proof cases
    case 1
    then obtain x where "read_any N value = Any_number x" using op_values_number[OF assms] by blast
    moreover have "op \<noteq> op_eq" "op \<noteq> op_ne" "op \<noteq> op_in" "op \<noteq> op_len" using 1 by (auto simp: is_ordering_def scenario_ops)
    ultimately show ?thesis using 1
      by (cases got) (simp_all add: compare_def is_ordering_def)
  next
    case 2
    then obtain x where "read_any N value = Any_number x" using op_values_number[OF assms] by blast
    moreover have "op \<noteq> op_eq" "op \<noteq> op_ne" "op \<noteq> op_in" using 2 by (auto simp: scenario_ops)
    ultimately show ?thesis using 2 by (cases "length_in got") (simp_all add: compare_def)
  next
    case 3
    then obtain xs where "read_any N value = Any_list xs" using op_values_list assms by blast
    moreover have "op \<noteq> op_eq" "op \<noteq> op_ne" using 3 by (auto simp: scenario_ops)
    ultimately show ?thesis using 3 by (simp add: compare_def)
  next
    case 4
    then show ?thesis by (simp add: compare_def is_ordering_def)
  qed
qed

lemma check_answers:
  assumes "expectation_ok N e"
  shows "\<exists>w. check_expectation N e document = Some w \<and> (\<forall>err. ve_problem w \<noteq> Some (Path_problem err))"
proof -
  from assms obtain segs where p: "parse_path (ex_path e) = Inr segs" and o: "check_op N (ex_op e) (ex_value e) = None"
    by (auto simp: expectation_ok_def)
  show ?thesis
  proof (cases "resolve_path document segs")
    case None
    then show ?thesis using p by (simp add: check_expectation_def Let_def)
  next
    case (Some a)
    let ?v = "\<lparr>ve_passed = False, ve_actual = Some a, ve_problem = None\<rparr>"
    obtain w where "compare N (ex_op e) (read_any N a) (read_any N (ex_value e)) ?v = Some w"
      "ve_problem w \<in> {None, Some Not_countable, Some Not_a_number}"
      using compare_answers[OF o, of "read_any N a" ?v] by auto
    then show ?thesis using p Some by (auto simp: check_expectation_def Let_def)
  qed
qed

lemma scenario_problems_ok:
  assumes "scenario_problems N d = []"
  shows "list_all step_ok (sn_steps (scenario_of d))" "list_all hold_ok (sn_holds (scenario_of d))"
    "list_all (expectation_ok N) (sn_expect (scenario_of d))"
proof -
  have "numbered_problems step_problems 0 (sx_steps d) = []" "numbered_problems hold_problems 0 (sx_holds d) = []"
    "numbered_problems (expect_problems N) 0 (sx_expect d) = []"
    using assms by (simp_all add: scenario_problems_def)
  then show "list_all step_ok (sn_steps (scenario_of d))" "list_all hold_ok (sn_holds (scenario_of d))"
    "list_all (expectation_ok N) (sn_expect (scenario_of d))"
    by (auto simp: scenario_of_def list_all_iff dest: numbered_problems_Nil
        intro: converted_step_ok hold_problems_ok expect_problems_ok dest!: numbered_problems_Nil)
qed

text \<open>A sample scenario, over whole numbers.\<close>

definition whole_number_ops :: "int number_ops" where
  "whole_number_ops = \<lparr>fo_parse = atoi, fo_print = int_text, fo_less = (<), fo_zero = 0,
     no_whole = (\<lambda>x. True), no_count = int\<rparr>"

definition sample_expectation :: expectation where
  "sample_expectation = \<lparr>ex_at = Some 900, ex_of = of_global, ex_path = ''players.P1.hand[0]'', ex_op = ''gte'', ex_value = Raw (JNum ''3'')\<rparr>"

definition sample_scenario :: raw where
  "sample_scenario = Raw (JObj [
     (''duration_ms'', JNum ''1000''),
     (''expect'', JList [JObj [(''at_ms'', JNum ''900''), (''op'', JStr ''gte''), (''path'', JStr ''players.P1.hand[0]''), (''value'', JNum ''3'')]]),
     (''format'', JStr ''playhoot.scenario.v1''),
     (''holds'', JList [JObj [(''from_ms'', JNum ''5''), (''inputs'', JObj []), (''player'', JStr ''P1''), (''to_ms'', JNum ''9'')]]),
     (''players'', JNum ''2''),
     (''steps'', JList [JObj [(''at_ms'', JNum ''7''), (''command'', JObj [(''name'', JStr ''roll'')]), (''player'', JStr ''P2'')]])])"

definition sample_document :: raw where
  "sample_document = Raw (JObj [(''players'', JObj [(''P1'', JObj [(''hand'', JList [JNum ''4''])])])])"



end
