(* ===== verification/GameVersion.thy ===== *)
theory GameVersion
  imports Inputs GoText
begin

section \<open>What a game version may be\<close>

text \<open>
  The package \<open>play/session/internal/business/gameversion\<close>: the status of a version, the languages and
  aspect ratios Playhoot offers, and the rules of a version's assets; and what a version asks of the
  device it is played on. A Go \<open>int64\<close> is an \<^typ>\<open>int\<close>,
  its sum wraps (\<open>wrap64\<close>).
\<close>

subsection \<open>Status, languages and ratios\<close>

datatype version_status = Draft | Executable | Other_status string

definition allows_sessions :: "version_status \<Rightarrow> bool" where
  "allows_sessions s \<longleftrightarrow> s = Executable"

definition languages :: "string list" where
  "languages = [''es'', ''en'', ''pt-BR'']"

definition valid_language :: "string \<Rightarrow> bool" where
  "valid_language l \<longleftrightarrow> l \<in> set languages"

definition resolution :: "string \<Rightarrow> (nat \<times> nat) option" where
  "resolution r = map_of [(''16:9'', 1920, 1080), (''9:16'', 1080, 1920), (''4:3'', 1440, 1080),
     (''3:4'', 1080, 1440), (''1:1'', 1080, 1080)] r"

subsection \<open>Assets\<close>

definition max_assets_bytes :: int where "max_assets_bytes = 100 * 2 ^ 20"

record asset_rule =
  ar_mimes :: "string list"
  ar_max :: int

definition asset_rules :: "(string \<times> asset_rule) list" where
  "asset_rules =
     [(''image'', \<lparr>ar_mimes = [''image/png'', ''image/webp'', ''image/jpeg'', ''image/svg+xml''], ar_max = 5 * 2 ^ 20\<rparr>),
      (''audio'', \<lparr>ar_mimes = [''audio/mpeg'', ''audio/ogg'', ''audio/wav''], ar_max = 10 * 2 ^ 20\<rparr>),
      (''video'', \<lparr>ar_mimes = [''video/mp4'', ''video/webm''], ar_max = 50 * 2 ^ 20\<rparr>)]"

text \<open>The pattern \<open>^[A-Za-z][A-Za-z0-9_]{0,63}$\<close>, which is also that of an input's name.\<close>

definition valid_asset_key :: "string \<Rightarrow> bool" where
  "valid_asset_key key \<longleftrightarrow> valid_name key"

definition is_hex :: "char \<Rightarrow> bool" where
  "is_hex c \<longleftrightarrow> digit_value c \<noteq> None \<or> c \<in> set ''abcdef''"

definition valid_sha256 :: "string \<Rightarrow> bool" where
  "valid_sha256 s \<longleftrightarrow> length s = 64 \<and> list_all is_hex s"

definition valid_asset_type :: "string \<Rightarrow> bool" where
  "valid_asset_type t \<longleftrightarrow> map_of asset_rules t \<noteq> None"

definition accepts_mime :: "string \<Rightarrow> string \<Rightarrow> bool" where
  "accepts_mime t mime \<longleftrightarrow> (case map_of asset_rules t of None \<Rightarrow> False | Some r \<Rightarrow> mime \<in> set (ar_mimes r))"

definition max_asset_bytes :: "string \<Rightarrow> int" where
  "max_asset_bytes t = (case map_of asset_rules t of None \<Rightarrow> 0 | Some r \<Rightarrow> ar_max r)"

record asset =
  as_key :: string
  as_type :: string
  as_mime :: string
  as_sha :: string
  as_size :: int

datatype asset_error = Asset_key string | Asset_type string | Asset_mime string | Asset_size string | Asset_sha string
  | Asset_repeated string | Assets_too_heavy int

definition validate_asset :: "asset \<Rightarrow> asset_error option" where
  "validate_asset a =
     (if \<not> valid_asset_key (as_key a) then Some (Asset_key (as_key a))
      else case map_of asset_rules (as_type a) of None \<Rightarrow> Some (Asset_type (as_key a))
      | Some r \<Rightarrow>
        if as_mime a \<notin> set (ar_mimes r) then Some (Asset_mime (as_key a))
        else if as_size a \<le> 0 \<or> as_size a > ar_max r then Some (Asset_size (as_key a))
        else if \<not> valid_sha256 (as_sha a) then Some (Asset_sha (as_key a))
        else None)"

fun validate_each :: "asset list \<Rightarrow> string list \<Rightarrow> int \<Rightarrow> asset_error + int" where
  "validate_each [] keys weight = Inr weight"
| "validate_each (a # as) keys weight =
     (case validate_asset a of Some e \<Rightarrow> Inl e
      | None \<Rightarrow> if as_key a \<in> set keys then Inl (Asset_repeated (as_key a))
                else validate_each as (as_key a # keys) (wrap64 (weight + as_size a)))"

definition validate_assets :: "asset list \<Rightarrow> asset_error option" where
  "validate_assets as = (case validate_each as [] 0 of Inl e \<Rightarrow> Some e
     | Inr weight \<Rightarrow> if weight > max_assets_bytes then Some (Assets_too_heavy weight) else None)"

subsection \<open>What an uploaded content is\<close>

text \<open>The rest of a text after the first occurrence of a pattern: \<open>bytes.Index\<close> and the slice after it.\<close>

fun after_first :: "string \<Rightarrow> string \<Rightarrow> string option" where
  "after_first pat [] = (if pat = [] then Some [] else None)"
| "after_first pat (c # s) = (if has_prefix (c # s) pat then Some (drop (length pat) (c # s)) else after_first pat s)"

lemma after_first_length: "after_first pat s = Some r \<Longrightarrow> length r \<le> length s"
  by (induction s) (auto split: if_splits)

lemma after_first_shorter: "pat \<noteq> [] \<Longrightarrow> after_first pat s = Some r \<Longrightarrow> length r < length s"
  by (induction s) (auto simp: has_prefix_def split: if_splits)

lemma trim_front_length: "length (trim_front rs s) \<le> length s"
proof (induction rs s rule: trim_front.induct)
  case (1 rs s)
  show ?case
  proof (cases "List.find (\<lambda>r. r \<noteq> [] \<and> has_prefix s r) rs")
    case None
    then show ?thesis by (subst trim_front.simps) simp
  next
    case (Some r)
    then show ?thesis using 1[OF Some] by (subst trim_front.simps) simp
  qed
qed

definition blanks :: "string list" where
  "blanks = map (\<lambda>n. [char_of n]) [32, 9, 13, 10 :: nat]"

definition byte_order_mark :: string where
  "byte_order_mark = map char_of [0xEF, 0xBB, 0xBF :: nat]"

text \<open>A declaration, a comment or a doctype: where it ends.\<close>

definition markup_end :: "string \<Rightarrow> string option" where
  "markup_end t = (if has_prefix t ''<?'' then Some ''?>'' else if has_prefix t ''<!--'' then Some ''-->''
     else if has_prefix t ''<!'' then Some ''>'' else None)"

function svg_from :: "string \<Rightarrow> bool" where
  "svg_from t =
     (case markup_end t of
        Some pat \<Rightarrow> (case after_first pat t of None \<Rightarrow> False | Some r \<Rightarrow> svg_from (trim_front blanks r))
      | None \<Rightarrow> has_prefix t ''<svg'' \<and> length t > 4 \<and> t ! 4 \<in> set (''> '' @ map char_of [10, 9, 13 :: nat]))"
  by pat_completeness auto
termination
proof (relation "measure length")
  fix t pat r assume "markup_end t = Some pat" "after_first pat t = Some r"
  then have "length r < length t" by (intro after_first_shorter) (auto simp: markup_end_def split: if_splits)
  then show "(trim_front blanks r, t) \<in> measure length" using trim_front_length[of blanks r] by simp
qed simp

declare svg_from.simps [simp del]

definition is_svg :: "string \<Rightarrow> bool" where
  "is_svg content = svg_from (trim_front (byte_order_mark # blanks) content)"

text \<open>An MPEG audio frame header: eleven set bits, and a layer.\<close>

definition is_mp3_frame :: "string \<Rightarrow> bool" where
  "is_mp3_frame content = (case content of
      a # b # _ \<Rightarrow> byte a = 0xFF \<and> byte b \<ge> 0xE0 \<and> byte b mod 8 div 2 \<noteq> 0
    | _ \<Rightarrow> False)"

text \<open>
  \<open>SniffMIMEType\<close>. The sniffer of \<open>net/http\<close> with its parameters cut off is the argument \<open>detect\<close>;
  \<open>None\<close> is a type that does not parse.
\<close>

definition sniff_mime :: "(string \<Rightarrow> string option) \<Rightarrow> string \<Rightarrow> string" where
  "sniff_mime detect content =
     (if content = [] then []
      else if is_svg content then ''image/svg+xml''
      else if is_mp3_frame content then ''audio/mpeg''
      else case detect content of None \<Rightarrow> []
      | Some t \<Rightarrow>
          if t \<in> set [''image/png'', ''image/jpeg'', ''image/webp'', ''audio/mpeg'', ''video/mp4'', ''video/webm''] then t
          else if t = ''audio/wave'' then ''audio/wav''
          else if t = ''application/ogg'' then ''audio/ogg''
          else [])"

subsection \<open>Input requirements\<close>

text \<open>The package \<open>play/internal/business/inputrequirements\<close>.\<close>

datatype device = Desktop | Mobile

datatype devices = Desktop_only | Mobile_only | Both_devices

definition parse_device :: "string \<Rightarrow> device option" where
  "parse_device s = (if s = ''desktop'' then Some Desktop else if s = ''mobile'' then Some Mobile else None)"

fun devices_allow :: "devices \<Rightarrow> device \<Rightarrow> bool" where
  "devices_allow Desktop_only d = (d = Desktop)"
| "devices_allow Mobile_only d = (d = Mobile)"
| "devices_allow Both_devices d = (d = Desktop \<or> d = Mobile)"

record requirements =
  re_keyboard :: bool
  re_hover :: bool
  re_press :: bool
  re_devices :: devices

definition devices_for :: "bool \<Rightarrow> bool \<Rightarrow> bool \<Rightarrow> devices" where
  "devices_for keyboard hover press = (if \<not> keyboard \<and> \<not> (hover \<and> press) then Both_devices else Desktop_only)"

definition requirements_ok :: "requirements \<Rightarrow> bool" where
  "requirements_ok r \<longleftrightarrow> re_devices r = devices_for (re_keyboard r) (re_hover r) (re_press r)"

end
