(* ===== verification/DraftSources.thy ===== *)
theory DraftSources
  imports ScenarioDoc GameVersion
begin

section \<open>The authored sources of a draft\<close>

text \<open>
  The package \<open>play/session/internal/business/draftsources\<close>: what the files of a DRAFT may be, how a
  change applies to them (\<open>apply_change\<close>), what its project file declares, and comparing revisions.

  A Go map from paths is its entries in strictly increasing key order (\<open>sorted_keys\<close>), so equal maps
  are equal lists; ranging over one visits them in an order the result does not depend on. The
  diagnostics keep the path, the code and the edit they name; their messages are left out.
  \<open>'f libraries\<close> are the functions of the standard library: the SHA-256 of a text as hexadecimal, the
  parser and the printer of \<open>encoding/json\<close>, and its floats. Every theorem holds whatever they are.
\<close>

record 'f libraries =
  go_sha :: "string \<Rightarrow> string"
  go_json :: "string \<Rightarrow> raw"
  go_text :: "json \<Rightarrow> string"
  go_numbers :: "'f number_ops"

subsection \<open>Limits and codes\<close>

definition max_files :: nat where "max_files = 100"
definition max_file_bytes :: int where "max_file_bytes = 256 * 1024"
definition max_total_bytes :: int where "max_total_bytes = 2 * 1024 * 1024"
definition max_source_path :: nat where "max_source_path = 200"

definition project_file :: string where "project_file = ''game.project.json''"

definition required_files :: "string list" where
  "required_files = [project_file, ''server/game.ts'', ''client/Game.tsx'']"

datatype change_code =
    Empty_change | Invalid_path | Path_not_allowed | Duplicate_path | Not_found | Required_file | Invalid_utf8
  | File_too_large | Too_many_files | Project_too_large | Invalid_scenario
  | Invalid_project_file | Invalid_asset | Invalid_languages
  | Invalid_edit | Edit_not_found | Edit_ambiguous
  | Revision_not_found | Asset_empty | Asset_too_large | Wrong_content_type | Assets_too_large

record source_file =
  sf_sha :: string
  sf_size :: int

record source_write =
  wr_path :: string
  wr_content :: string

record diagnostic =
  di_path :: string
  di_code :: change_code
  di_edit :: "nat option"

type_synonym source_files = "(string \<times> source_file) list"

definition problem :: "string \<Rightarrow> change_code \<Rightarrow> diagnostic" where
  "problem p code = \<lparr>di_path = p, di_code = code, di_edit = None\<rparr>"

definition same_files :: "source_files \<Rightarrow> source_files \<Rightarrow> bool" where
  "same_files a b \<longleftrightarrow> length a = length b
     \<and> list_all (\<lambda>(p, f). case map_of b p of None \<Rightarrow> False | Some g \<Rightarrow> sf_sha g = sf_sha f) a"

subsection \<open>Paths\<close>

definition is_segment_char :: "char \<Rightarrow> bool" where
  "is_segment_char c \<longleftrightarrow> is_letter c \<or> digit_value c \<noteq> None \<or> c \<in> set ''_.-''"

text \<open>The pattern \<open>^[A-Za-z0-9_][A-Za-z0-9_.-]*$\<close>.\<close>

definition valid_segment :: "string \<Rightarrow> bool" where
  "valid_segment s = (case s of [] \<Rightarrow> False
     | c # cs \<Rightarrow> (is_letter c \<or> digit_value c \<noteq> None \<or> c = CHR ''_'') \<and> list_all is_segment_char cs)"

definition allowed_path :: "string \<Rightarrow> bool" where
  "allowed_path p =
     (if p = project_file \<or> p = ''notes.md'' then True
      else if has_prefix p ''shared/'' \<or> has_prefix p ''server/'' \<or> has_prefix p ''client/'' then
        path_ext p = ''.ts'' \<or> path_ext p = ''.tsx''
      else if has_prefix p ''scenarios/'' then path_ext p = ''.json''
      else False)"

text \<open>\<open>checkPath\<close>: the code it refuses the path with, if it does.\<close>

definition check_path :: "string \<Rightarrow> change_code option" where
  "check_path p =
     (if p = [] \<or> length p > max_source_path \<or> has_prefix p ''/'' \<or> CHR 0x5C \<in> set p then Some Invalid_path
      else if list_ex (\<lambda>s. s = ''.'' \<or> s = ''..'' \<or> \<not> valid_segment s) (split_at (CHR ''/'') p) then Some Invalid_path
      else if \<not> allowed_path p then Some Path_not_allowed
      else None)"

definition is_required :: "string \<Rightarrow> bool" where
  "is_required p \<longleftrightarrow> p \<in> set required_files"

subsection \<open>What the project file declares\<close>

record asset_declaration =
  ad_type :: string
  ad_description :: string
  ad_optional :: bool

definition max_asset_description :: nat where "max_asset_description = 300"

text \<open>The struct a JSON text is read into: the fields of an object, none for null.\<close>

definition object_of :: "raw \<Rightarrow> fields option" where
  "object_of r = (case r of Raw (JObj m) \<Rightarrow> Some m | Raw JNull \<Rightarrow> Some [] | _ \<Rightarrow> None)"

definition declared_asset :: "fields \<Rightarrow> unit + asset_declaration" where
  "declared_asset m =
     and_then (str_of_field () ''type'' m) (\<lambda>t.
     and_then (str_of_field () ''description'' m) (\<lambda>d.
     and_then (bool_of_field () ''optional'' m) (\<lambda>opt.
     Inr \<lparr>ad_type = t, ad_description = d, ad_optional = opt\<rparr>)))"

definition declare_asset :: "string \<Rightarrow> json \<Rightarrow> asset_declaration option" where
  "declare_asset key j =
     (if \<not> valid_asset_key key then None
      else case object_of (Raw j) of None \<Rightarrow> None
      | Some m \<Rightarrow> (case declared_asset m of Inl _ \<Rightarrow> None
        | Inr a \<Rightarrow>
          if \<not> valid_asset_type (ad_type a) then None
          else let d = trim_space (ad_description a) in
            if d = [] \<or> length d > max_asset_description then None else Some (a\<lparr>ad_description := d\<rparr>)))"

fun declare_assets :: "fields \<Rightarrow> diagnostic list \<times> (string \<times> asset_declaration) list" where
  "declare_assets [] = ([], [])"
| "declare_assets ((key, j) # m) =
     (let (problems, declared) = declare_assets m in
      case declare_asset key j of None \<Rightarrow> (problem project_file Invalid_asset # problems, declared)
      | Some a \<Rightarrow> (problems, (key, a) # declared))"

definition declared_assets :: "'f libraries \<Rightarrow> string \<Rightarrow> diagnostic list + (string \<times> asset_declaration) list" where
  "declared_assets L text =
     (let refused = Inl [problem project_file Invalid_project_file] in
      case object_of (go_json L text) of None \<Rightarrow> refused
      | Some m \<Rightarrow> (case (case map_of m ''assets'' of None \<Rightarrow> Some [] | Some JNull \<Rightarrow> Some [] | Some (JObj a) \<Rightarrow> Some a | Some _ \<Rightarrow> None) of
          None \<Rightarrow> refused
        | Some entries \<Rightarrow> (let (problems, declared) = declare_assets entries in
            if problems \<noteq> [] then Inl problems else Inr declared)))"

fun new_languages :: "string list \<Rightarrow> string list \<Rightarrow> bool" where
  "new_languages seen [] = True"
| "new_languages seen (l # ls) = (valid_language l \<and> l \<notin> set seen \<and> new_languages (l # seen) ls)"

definition declared_languages :: "'f libraries \<Rightarrow> string \<Rightarrow> diagnostic list + string list" where
  "declared_languages L text =
     (case object_of (go_json L text) of None \<Rightarrow> Inl [problem project_file Invalid_project_file]
      | Some m \<Rightarrow> (let refused = Inl [problem project_file Invalid_languages] in
          case strings_of_field () ''languages'' m of
            Inr (Some ls) \<Rightarrow> if ls \<noteq> [] \<and> new_languages [] ls then Inr ls else refused
          | _ \<Rightarrow> refused))"

subsection \<open>Applying a change\<close>

record applied =
  ap_files :: source_files
  ap_contents :: "(string \<times> string) list"
  ap_diagnostics :: "diagnostic list"

text \<open>The variables of \<open>Apply\<close>: the diagnostics, the paths seen, the next files and the contents written.\<close>

record change_state =
  cs_diagnostics :: "diagnostic list"
  cs_seen :: "string list"
  cs_next :: source_files
  cs_contents :: "(string \<times> string) list"

definition refuse :: "diagnostic list \<Rightarrow> change_state \<Rightarrow> change_state" where
  "refuse ds s = s\<lparr>cs_diagnostics := cs_diagnostics s @ ds\<rparr>"

text \<open>\<open>checkPath\<close> and then \<open>claim\<close>: whether to go on, with the diagnostics of the refusal.\<close>

definition claim_path :: "string \<Rightarrow> change_state \<Rightarrow> bool \<times> change_state" where
  "claim_path p s =
     (case check_path p of Some code \<Rightarrow> (False, refuse [problem p code] s)
      | None \<Rightarrow> if p \<in> set (cs_seen s) then (False, refuse [problem p Duplicate_path] s)
                else (True, s\<lparr>cs_seen := p # cs_seen s\<rparr>))"

definition write_problems :: "'f libraries \<Rightarrow> source_write \<Rightarrow> diagnostic list" where
  "write_problems L w =
     (let p = wr_path w; content = wr_content w in
      if \<not> valid_utf8 content then [problem p Invalid_utf8]
      else if int (length content) > max_file_bytes then [problem p File_too_large]
      else
        let invalid = (if has_prefix p ''scenarios/'' then
              (case decode_scenario (go_numbers L) (go_json L content) of Inl problems \<Rightarrow> map (\<lambda>_. problem p Invalid_scenario) problems
               | Inr _ \<Rightarrow> []) else []) in
        if invalid \<noteq> [] then invalid
        else if p = project_file then
          (case declared_languages L content of Inl ds \<Rightarrow> ds | Inr _ \<Rightarrow> []) @ (case declared_assets L content of Inl ds \<Rightarrow> ds | Inr _ \<Rightarrow> [])
        else [])"

definition file_of :: "'f libraries \<Rightarrow> string \<Rightarrow> source_file" where
  "file_of L content = \<lparr>sf_sha = go_sha L content, sf_size = int (length content)\<rparr>"

definition apply_write :: "'f libraries \<Rightarrow> source_write \<Rightarrow> change_state \<Rightarrow> change_state" where
  "apply_write L w s =
     (case claim_path (wr_path w) s of (False, s') \<Rightarrow> s'
      | (True, s') \<Rightarrow>
          (let problems = write_problems L w in
           if problems \<noteq> [] then refuse problems s'
           else s'\<lparr>cs_next := put_key (wr_path w) (file_of L (wr_content w)) (cs_next s'),
                   cs_contents := put_key (go_sha L (wr_content w)) (wr_content w) (cs_contents s')\<rparr>))"

definition apply_delete :: "source_files \<Rightarrow> string \<Rightarrow> change_state \<Rightarrow> change_state" where
  "apply_delete current p s =
     (case claim_path p s of (False, s') \<Rightarrow> s'
      | (True, s') \<Rightarrow>
          if is_required p then refuse [problem p Required_file] s'
          else if map_of current p = None then refuse [problem p Not_found] s'
          else s'\<lparr>cs_next := del_key p (cs_next s')\<rparr>)"

definition total_size :: "source_files \<Rightarrow> int" where
  "total_size fs = foldl (\<lambda>total (p, f). wrap64 (total + sf_size f)) 0 fs"

definition project_problems :: "source_files \<Rightarrow> diagnostic list" where
  "project_problems next =
     (if length next > max_files then [problem [] Too_many_files] else []) @
     (if total_size next > max_total_bytes then [problem [] Project_too_large] else []) @
     map (\<lambda>p. problem p Required_file) (filter (\<lambda>p. map_of next p = None) required_files)"

definition apply_change :: "'f libraries \<Rightarrow> source_files \<Rightarrow> source_write list \<Rightarrow> string list \<Rightarrow> applied" where
  "apply_change L current writes deletes =
     (let s0 = \<lparr>cs_diagnostics = (if writes = [] \<and> deletes = [] then [problem [] Empty_change] else []),
                cs_seen = [], cs_next = current, cs_contents = []\<rparr>;
          s1 = fold (apply_write L) writes s0;
          s2 = fold (apply_delete current) deletes s1;
          ds = (if cs_diagnostics s2 = [] then project_problems (cs_next s2) else cs_diagnostics s2) in
      if ds \<noteq> [] then \<lparr>ap_files = [], ap_contents = [], ap_diagnostics = ds\<rparr>
      else \<lparr>ap_files = cs_next s2, ap_contents = cs_contents s2, ap_diagnostics = []\<rparr>)"

end
