(* ===== verification/DraftChange.thy ===== *)
theory DraftChange
  imports DraftSources
begin

section \<open>A change applies exactly when it is allowed\<close>

text \<open>
  The specification of \<open>Apply\<close>: which writes and deletes are allowed, what the next files are as a map,
  and which projects obey the rules. The proof follows the two loops: a state without diagnostics is
  the current files overridden by what was written and then rid of what was deleted.
\<close>

subsection \<open>Specification\<close>

definition allowed_write :: "'f libraries \<Rightarrow> source_write \<Rightarrow> bool" where
  "allowed_write L w \<longleftrightarrow> check_path (wr_path w) = None \<and> valid_utf8 (wr_content w)
     \<and> int (length (wr_content w)) \<le> max_file_bytes
     \<and> (has_prefix (wr_path w) ''scenarios/'' \<longrightarrow> (\<exists>sn. decode_scenario (go_numbers L) (go_json L (wr_content w)) = Inr sn))
     \<and> (wr_path w = project_file \<longrightarrow> (\<exists>ls. declared_languages L (wr_content w) = Inr ls) \<and> (\<exists>as. declared_assets L (wr_content w) = Inr as))"

definition allowed_delete :: "source_files \<Rightarrow> string \<Rightarrow> bool" where
  "allowed_delete current p \<longleftrightarrow> check_path p = None \<and> p \<notin> set required_files \<and> map_of current p \<noteq> None"

definition changed_files :: "'f libraries \<Rightarrow> source_files \<Rightarrow> source_write list \<Rightarrow> string list \<Rightarrow> string \<Rightarrow> source_file option" where
  "changed_files L current writes deletes p =
     (if p \<in> set deletes then None
      else case map_of (map (\<lambda>w. (wr_path w, file_of L (wr_content w))) writes) p of
        Some f \<Rightarrow> Some f | None \<Rightarrow> map_of current p)"

definition files_ok :: "source_files \<Rightarrow> bool" where
  "files_ok fs \<longleftrightarrow> sorted_keys fs \<and> list_all (\<lambda>(p, f). check_path p = None \<and> 0 \<le> sf_size f \<and> sf_size f \<le> max_file_bytes) fs"

definition project_ok :: "source_files \<Rightarrow> bool" where
  "project_ok fs \<longleftrightarrow> files_ok fs \<and> length fs \<le> max_files \<and> sum_list (map (\<lambda>(p, f). sf_size f) fs) \<le> max_total_bytes
     \<and> list_all (\<lambda>p. map_of fs p \<noteq> None) required_files"

definition allowed_change :: "'f libraries \<Rightarrow> source_files \<Rightarrow> source_write list \<Rightarrow> string list \<Rightarrow> source_files \<Rightarrow> bool" where
  "allowed_change L current writes deletes next \<longleftrightarrow>
     (writes \<noteq> [] \<or> deletes \<noteq> []) \<and> distinct (map wr_path writes @ deletes)
     \<and> list_all (allowed_write L) writes \<and> list_all (allowed_delete current) deletes
     \<and> map_of next = changed_files L current writes deletes \<and> project_ok next"

subsection \<open>One write, one delete\<close>

lemma declared_languages_Inl: "declared_languages L text = Inl ds \<Longrightarrow> ds \<noteq> []"
  by (auto simp: declared_languages_def Let_def split: option.splits sum.splits if_splits)

lemma declared_assets_Inl: "declared_assets L text = Inl ds \<Longrightarrow> ds \<noteq> []"
  by (auto simp: declared_assets_def Let_def split: option.splits json.splits prod.splits if_splits)

lemma decode_scenario_Inl: "decode_scenario N r = Inl ds \<Longrightarrow> ds \<noteq> []"
  by (auto simp: decode_scenario_def Let_def split: sum.splits if_splits)

lemma write_problems_Nil:
  "write_problems L w = [] \<and> check_path (wr_path w) = None \<longleftrightarrow> allowed_write L w"
  by (auto simp: write_problems_def allowed_write_def Let_def project_file_def has_prefix_def
      split: sum.splits dest!: declared_languages_Inl declared_assets_Inl decode_scenario_Inl)

lemma claim_path_cases:
  "claim_path p s = (if check_path p = None \<and> p \<notin> set (cs_seen s) then (True, s\<lparr>cs_seen := p # cs_seen s\<rparr>)
     else (False, refuse [problem p (case check_path p of None \<Rightarrow> Duplicate_path | Some code \<Rightarrow> code)] s))"
  by (simp add: claim_path_def split: option.split)

definition written :: "'f libraries \<Rightarrow> source_write \<Rightarrow> change_state \<Rightarrow> change_state" where
  "written L w s = s\<lparr>cs_seen := wr_path w # cs_seen s,
     cs_next := put_key (wr_path w) (file_of L (wr_content w)) (cs_next s),
     cs_contents := put_key (go_sha L (wr_content w)) (wr_content w) (cs_contents s)\<rparr>"

definition removed :: "string \<Rightarrow> change_state \<Rightarrow> change_state" where
  "removed p s = s\<lparr>cs_seen := p # cs_seen s, cs_next := del_key p (cs_next s)\<rparr>"

lemma written_fields [simp]:
  "cs_diagnostics (written L w s) = cs_diagnostics s" "cs_seen (written L w s) = wr_path w # cs_seen s"
  "cs_next (written L w s) = put_key (wr_path w) (file_of L (wr_content w)) (cs_next s)"
  "cs_contents (written L w s) = put_key (go_sha L (wr_content w)) (wr_content w) (cs_contents s)"
  by (simp_all add: written_def)

lemma removed_fields [simp]:
  "cs_diagnostics (removed p s) = cs_diagnostics s" "cs_seen (removed p s) = p # cs_seen s"
  "cs_next (removed p s) = del_key p (cs_next s)" "cs_contents (removed p s) = cs_contents s"
  by (simp_all add: removed_def)

lemma refuse_diagnostics [simp]: "cs_diagnostics (refuse ds s) = cs_diagnostics s @ ds"
  by (simp add: refuse_def)

lemma apply_write_done:
  "allowed_write L w \<Longrightarrow> wr_path w \<notin> set (cs_seen s) \<Longrightarrow> apply_write L w s = written L w s"
  using write_problems_Nil[of L w] by (simp add: apply_write_def claim_path_cases written_def Let_def)

lemma apply_write_refused:
  "\<not> (allowed_write L w \<and> wr_path w \<notin> set (cs_seen s)) \<Longrightarrow> cs_diagnostics (apply_write L w s) \<noteq> []"
  using write_problems_Nil[of L w] by (auto simp: apply_write_def claim_path_cases Let_def)

lemma apply_delete_done:
  "allowed_delete cur p \<Longrightarrow> p \<notin> set (cs_seen s) \<Longrightarrow> apply_delete cur p s = removed p s"
  by (auto simp: apply_delete_def allowed_delete_def is_required_def claim_path_cases removed_def)

lemma apply_delete_refused:
  "\<not> (allowed_delete cur p \<and> p \<notin> set (cs_seen s)) \<Longrightarrow> cs_diagnostics (apply_delete cur p s) \<noteq> []"
  by (auto simp: apply_delete_def allowed_delete_def is_required_def claim_path_cases)

lemma apply_write_keeps: "cs_diagnostics s \<noteq> [] \<Longrightarrow> cs_diagnostics (apply_write L w s) \<noteq> []"
  by (simp add: apply_write_def claim_path_cases Let_def)

lemma apply_delete_keeps: "cs_diagnostics s \<noteq> [] \<Longrightarrow> cs_diagnostics (apply_delete cur p s) \<noteq> []"
  by (simp add: apply_delete_def claim_path_cases)

subsection \<open>The loops\<close>

lemma fold_keeps: "(\<And>x s. cs_diagnostics s \<noteq> [] \<Longrightarrow> cs_diagnostics (f x s) \<noteq> []) \<Longrightarrow> cs_diagnostics s \<noteq> [] \<Longrightarrow> cs_diagnostics (fold f xs s) \<noteq> []"
  by (induction xs arbitrary: s) auto

lemma writes_done:
  "list_all (allowed_write L) ws \<Longrightarrow> distinct (map wr_path ws) \<Longrightarrow> set (map wr_path ws) \<inter> set (cs_seen s) = {} \<Longrightarrow>
   fold (apply_write L) ws s = fold (written L) ws s"
  by (induction ws arbitrary: s) (auto simp: apply_write_done)

lemma writes_refused:
  "\<not> (list_all (allowed_write L) ws \<and> distinct (map wr_path ws) \<and> set (map wr_path ws) \<inter> set (cs_seen s) = {}) \<Longrightarrow>
   cs_diagnostics (fold (apply_write L) ws s) \<noteq> []"
proof (induction ws arbitrary: s)
  case (Cons w ws)
  show ?case
  proof (cases "allowed_write L w \<and> wr_path w \<notin> set (cs_seen s)")
    case True
    then show ?thesis using Cons.IH[of "written L w s"] Cons.prems by (auto simp: apply_write_done)
  next
    case False
    then show ?thesis using fold_keeps[OF apply_write_keeps apply_write_refused[OF False]] by simp
  qed
qed simp

lemma deletes_done:
  "list_all (allowed_delete cur) ps \<Longrightarrow> distinct ps \<Longrightarrow> set ps \<inter> set (cs_seen s) = {} \<Longrightarrow>
   fold (apply_delete cur) ps s = fold removed ps s"
  by (induction ps arbitrary: s) (auto simp: apply_delete_done)

lemma deletes_refused:
  "\<not> (list_all (allowed_delete cur) ps \<and> distinct ps \<and> set ps \<inter> set (cs_seen s) = {}) \<Longrightarrow>
   cs_diagnostics (fold (apply_delete cur) ps s) \<noteq> []"
proof (induction ps arbitrary: s)
  case (Cons p ps)
  show ?case
  proof (cases "allowed_delete cur p \<and> p \<notin> set (cs_seen s)")
    case True
    then show ?thesis using Cons.IH[of "removed p s"] Cons.prems by (auto simp: apply_delete_done)
  next
    case False
    then show ?thesis using fold_keeps[OF apply_delete_keeps apply_delete_refused[OF False]] by simp
  qed
qed simp

lemma fold_written:
  "cs_diagnostics (fold (written L) ws s) = cs_diagnostics s"
  "cs_seen (fold (written L) ws s) = rev (map wr_path ws) @ cs_seen s"
  "cs_next (fold (written L) ws s) = fold (\<lambda>w. put_key (wr_path w) (file_of L (wr_content w))) ws (cs_next s)"
  "cs_contents (fold (written L) ws s) = fold (\<lambda>w. put_key (go_sha L (wr_content w)) (wr_content w)) ws (cs_contents s)"
  by (induction ws arbitrary: s) simp_all

lemma fold_removed:
  "cs_diagnostics (fold removed ps s) = cs_diagnostics s"
  "cs_next (fold removed ps s) = fold del_key ps (cs_next s)"
  "cs_contents (fold removed ps s) = cs_contents s"
  by (induction ps arbitrary: s) simp_all

subsection \<open>The maps\<close>

lemma map_of_del_key: "map_of (del_key k m) p = (if p = k then None else map_of m p)"
  by (induction m) (auto simp: del_key_def)

lemma map_of_dels: "map_of (fold del_key ps m) p = (if p \<in> set ps then None else map_of m p)"
  by (induction ps arbitrary: m) (auto simp: map_of_del_key)

lemma map_of_puts:
  "distinct (map f ws) \<Longrightarrow> map_of (fold (\<lambda>w. put_key (f w) (g w)) ws m) p =
     (case map_of (map (\<lambda>w. (f w, g w)) ws) p of Some v \<Rightarrow> Some v | None \<Rightarrow> map_of m p)"
proof (induction ws arbitrary: m)
  case (Cons w ws)
  have "f w \<notin> set (map f ws)" using Cons.prems by simp
  then have "map_of (map (\<lambda>w. (f w, g w)) ws) (f w) = None" by (auto simp: map_of_eq_None_iff)
  then show ?case using Cons by (auto split: option.split)
qed simp

lemma set_put_key: "set (put_key k v m) \<subseteq> insert (k, v) (set m)"
proof (induction m)
  case (Cons x m)
  then show ?case by (cases x) auto
qed simp

lemma files_ok_put:
  "files_ok m \<Longrightarrow> check_path p = None \<Longrightarrow> 0 \<le> sf_size f \<Longrightarrow> sf_size f \<le> max_file_bytes \<Longrightarrow> files_ok (put_key p f m)"
  using set_put_key[of p f m] by (auto simp: files_ok_def list_all_iff sorted_put_key)

lemma files_ok_del: "files_ok m \<Longrightarrow> files_ok (del_key p m)"
  unfolding files_ok_def del_key_def list_all_iff by (auto intro: sorted_filter_keys)

lemma files_ok_puts:
  "files_ok m \<Longrightarrow> list_all (allowed_write L) ws \<Longrightarrow>
   files_ok (fold (\<lambda>w. put_key (wr_path w) (file_of L (wr_content w))) ws m)"
proof (induction ws arbitrary: m)
  case (Cons w ws)
  have "files_ok (put_key (wr_path w) (file_of L (wr_content w)) m)"
    using Cons.prems by (intro files_ok_put) (simp_all add: allowed_write_def file_of_def)
  then show ?case using Cons by simp
qed simp

lemma files_ok_dels: "files_ok m \<Longrightarrow> files_ok (fold del_key ps m)"
  by (induction ps arbitrary: m) (simp_all add: files_ok_del)

subsection \<open>The totals\<close>

lemma total_from:
  assumes "\<forall>(p, f)\<in>set fs. 0 \<le> sf_size f \<and> sf_size f \<le> max_file_bytes"
    and "0 \<le> a" "a + int (length fs) * max_file_bytes \<le> max_int64"
  shows "foldl (\<lambda>total (p, f). wrap64 (total + sf_size f)) a fs = a + sum_list (map (\<lambda>(p, f). sf_size f) fs)"
  using assms
proof (induction fs arbitrary: a)
  case (Cons x fs)
  obtain p f where x: "x = (p, f)" by (cases x)
  have f: "0 \<le> sf_size f" "sf_size f \<le> max_file_bytes" using Cons.prems(1) x by auto
  have "0 \<le> int (length fs) * max_file_bytes" by (simp add: max_file_bytes_def)
  then have le: "a + sf_size f \<le> max_int64" using Cons.prems(3) f unfolding length_Cons of_nat_Suc distrib_right by linarith
  then have w: "wrap64 (a + sf_size f) = a + sf_size f"
    using Cons.prems(2) f by (intro wrap64_id) (simp_all add: min_int64_def)
  have "a + sf_size f + int (length fs) * max_file_bytes \<le> max_int64"
    using Cons.prems(3) f unfolding length_Cons of_nat_Suc distrib_right by linarith
  then show ?case using Cons.IH[of "a + sf_size f"] Cons.prems(1,2) f w x by simp
qed simp

lemma total_size_ok:
  assumes "files_ok fs" "length fs \<le> max_files"
  shows "total_size fs = sum_list (map (\<lambda>(p, f). sf_size f) fs)"
proof -
  have "int (length fs) * max_file_bytes \<le> 100 * max_file_bytes" using assms(2) by (simp add: max_files_def max_file_bytes_def)
  then have "0 + int (length fs) * max_file_bytes \<le> max_int64" by (simp add: max_file_bytes_def max_int64_def)
  then show ?thesis using assms(1) total_from[of fs 0] by (auto simp: total_size_def files_ok_def list_all_iff)
qed

lemma project_problems_Nil:
  assumes "files_ok fs"
  shows "project_problems fs = [] \<longleftrightarrow> project_ok fs"
  using assms total_size_ok[OF assms] by (auto simp: project_problems_def project_ok_def filter_empty_conv list_all_iff)

subsection \<open>The whole change\<close>

definition changes_allowed :: "'f libraries \<Rightarrow> source_files \<Rightarrow> source_write list \<Rightarrow> string list \<Rightarrow> bool" where
  "changes_allowed L current writes deletes \<longleftrightarrow> (writes \<noteq> [] \<or> deletes \<noteq> []) \<and> distinct (map wr_path writes @ deletes)
     \<and> list_all (allowed_write L) writes \<and> list_all (allowed_delete current) deletes"

definition next_files :: "'f libraries \<Rightarrow> source_files \<Rightarrow> source_write list \<Rightarrow> string list \<Rightarrow> source_files" where
  "next_files L current writes deletes =
     fold del_key deletes (fold (\<lambda>w. put_key (wr_path w) (file_of L (wr_content w))) writes current)"

definition written_contents :: "'f libraries \<Rightarrow> source_write list \<Rightarrow> (string \<times> string) list" where
  "written_contents L writes = fold (\<lambda>w. put_key (go_sha L (wr_content w)) (wr_content w)) writes []"

lemma map_of_next_files:
  "changes_allowed L current writes deletes \<Longrightarrow> map_of (next_files L current writes deletes) = changed_files L current writes deletes"
  by (intro ext) (simp add: next_files_def changed_files_def changes_allowed_def map_of_dels map_of_puts split: option.split)

lemma files_ok_next: "files_ok current \<Longrightarrow> changes_allowed L current writes deletes \<Longrightarrow> files_ok (next_files L current writes deletes)"
  by (simp add: next_files_def changes_allowed_def files_ok_puts files_ok_dels)

lemma allowed_change_next:
  assumes "files_ok current"
  shows "allowed_change L current writes deletes next \<longleftrightarrow>
     changes_allowed L current writes deletes \<and> next = next_files L current writes deletes \<and> project_ok next"
proof
  assume a: "allowed_change L current writes deletes next"
  then have c: "changes_allowed L current writes deletes" by (simp add: allowed_change_def changes_allowed_def)
  have "sorted_keys next" using a by (simp add: allowed_change_def project_ok_def files_ok_def)
  moreover have "sorted_keys (next_files L current writes deletes)" using files_ok_next[OF assms c] by (simp add: files_ok_def)
  moreover have "map_of next = map_of (next_files L current writes deletes)"
    using a map_of_next_files[OF c] by (simp add: allowed_change_def)
  ultimately have "next = next_files L current writes deletes" by (rule sorted_keys_ext)
  then show "changes_allowed L current writes deletes \<and> next = next_files L current writes deletes \<and> project_ok next"
    using a c by (simp add: allowed_change_def)
next
  assume "changes_allowed L current writes deletes \<and> next = next_files L current writes deletes \<and> project_ok next"
  then show "allowed_change L current writes deletes next"
    using map_of_next_files by (auto simp: allowed_change_def changes_allowed_def)
qed

lemma apply_change_allowed:
  assumes "files_ok current" "changes_allowed L current writes deletes"
  shows "apply_change L current writes deletes =
    (let next = next_files L current writes deletes in
     if project_ok next then \<lparr>ap_files = next, ap_contents = written_contents L writes, ap_diagnostics = []\<rparr>
     else \<lparr>ap_files = [], ap_contents = [], ap_diagnostics = project_problems next\<rparr>)"
proof -
  let ?s = "\<lparr>cs_diagnostics = [], cs_seen = [], cs_next = current, cs_contents = []\<rparr>"
  have w: "fold (apply_write L) writes ?s = fold (written L) writes ?s"
    using assms(2) by (intro writes_done) (auto simp: changes_allowed_def)
  have d: "fold (apply_delete current) deletes (fold (written L) writes ?s) = fold removed deletes (fold (written L) writes ?s)"
    using assms(2) by (intro deletes_done) (auto simp: changes_allowed_def fold_written)
  have ne: "\<not> (writes = [] \<and> deletes = [])" using assms(2) by (auto simp: changes_allowed_def)
  show ?thesis
    using project_problems_Nil[OF files_ok_next[OF assms]]
    by (simp add: apply_change_def ne w d Let_def fold_removed fold_written
        flip: next_files_def written_contents_def)
qed

lemma apply_change_refused:
  assumes "\<not> changes_allowed L current writes deletes"
  shows "ap_diagnostics (apply_change L current writes deletes) \<noteq> []"
proof -
  let ?s = "\<lparr>cs_diagnostics = (if writes = [] \<and> deletes = [] then [problem [] Empty_change] else []), cs_seen = [],
    cs_next = current, cs_contents = []\<rparr>"
  let ?s1 = "fold (apply_write L) writes ?s"
  have "cs_diagnostics (fold (apply_delete current) deletes ?s1) \<noteq> []"
  proof (cases "writes = [] \<and> deletes = []")
    case False
    then have s: "?s = \<lparr>cs_diagnostics = [], cs_seen = [], cs_next = current, cs_contents = []\<rparr>" by auto
    show ?thesis
    proof (cases "list_all (allowed_write L) writes \<and> distinct (map wr_path writes)")
      case True
      then have w: "?s1 = fold (written L) writes ?s" by (intro writes_done) auto
      have "\<not> (list_all (allowed_delete current) deletes \<and> distinct deletes \<and> set deletes \<inter> set (cs_seen ?s1) = {})"
        using assms True False by (auto simp: w fold_written changes_allowed_def)
      then show ?thesis by (rule deletes_refused)
    next
      case no: False
      then have "cs_diagnostics ?s1 \<noteq> []" using writes_refused[of L writes ?s] by auto
      then show ?thesis by (rule fold_keeps[OF apply_delete_keeps, rotated])
    qed
  qed simp
  then show ?thesis by (simp add: apply_change_def Let_def)
qed

lemma written_contents_have:
  "w \<in> set writes \<Longrightarrow> map_of (written_contents L writes) (go_sha L (wr_content w)) \<noteq> None"
proof -
  have "map_of (fold (\<lambda>w. put_key (go_sha L (wr_content w)) (wr_content w)) writes m) h \<noteq> None"
    if "map_of m h \<noteq> None \<or> h \<in> (\<lambda>w. go_sha L (wr_content w)) ` set writes" for h m
    using that by (induction writes arbitrary: m) auto
  then show "w \<in> set writes \<Longrightarrow> ?thesis" by (auto simp: written_contents_def)
qed

lemma written_contents_hash:
  "map_of (written_contents L writes) h = Some text \<Longrightarrow> go_sha L text = h \<and> text \<in> wr_content ` set writes"
proof -
  have "map_of (fold (\<lambda>w. put_key (go_sha L (wr_content w)) (wr_content w)) writes m) h = Some text \<Longrightarrow>
      map_of m h = Some text \<or> go_sha L text = h \<and> text \<in> wr_content ` set writes" for m
    by (induction writes arbitrary: m) (force split: if_splits)+
  then show "map_of (written_contents L writes) h = Some text \<Longrightarrow> ?thesis" by (force simp: written_contents_def)
qed

text \<open>
  C20: A change applies exactly when it is allowed, all or nothing. From files that obey the rules of
  paths and sizes, Apply has no diagnostics if and only if some project is what the change allows:
  the change is not empty, names each path once, writes only allowed files (path, UTF-8, size, a
  scenario that decodes, a project file whose languages and assets are valid), deletes only files
  that exist and are not required, and the result obeys the project's limits and keeps its required
  files. That project is then the answer, with each written content under its hash; a refused change
  answers nothing else.
\<close>

theorem change_applies_exactly:
  assumes "files_ok current"
  shows "(ap_diagnostics (apply_change L current writes deletes) = [] \<longleftrightarrow> (\<exists>next. allowed_change L current writes deletes next))
    \<and> (\<forall>next. allowed_change L current writes deletes next \<longrightarrow> ap_files (apply_change L current writes deletes) = next
        \<and> (\<forall>w\<in>set writes. map_of (ap_contents (apply_change L current writes deletes)) (go_sha L (wr_content w)) \<noteq> None)
        \<and> (\<forall>h text. map_of (ap_contents (apply_change L current writes deletes)) h = Some text
             \<longrightarrow> go_sha L text = h \<and> text \<in> wr_content ` set writes))
    \<and> (ap_diagnostics (apply_change L current writes deletes) \<noteq> []
        \<longrightarrow> ap_files (apply_change L current writes deletes) = [] \<and> ap_contents (apply_change L current writes deletes) = [])"
proof (cases "changes_allowed L current writes deletes")
  case True
  note apply_eq = apply_change_allowed[OF assms True]
  have "project_ok (next_files L current writes deletes) \<longleftrightarrow> project_problems (next_files L current writes deletes) = []"
    using project_problems_Nil[OF files_ok_next[OF assms True]] by simp
  then show ?thesis
    using True written_contents_have[of _ writes L] written_contents_hash[of L writes]
    by (auto simp: apply_eq allowed_change_next[OF assms] Let_def)
next
  case False
  then show ?thesis using apply_change_refused[OF False]
    by (auto simp: allowed_change_next[OF assms] apply_change_def Let_def)
qed

text \<open>A small project, over whole numbers: its project file parses to one language and one asset.\<close>

definition sample_json :: "string \<Rightarrow> raw" where
  "sample_json text =
     (if text = ''project'' then Raw (JObj [
        (''assets'', JObj [(''cardBack'', JObj [(''description'', JStr '' the back ''), (''type'', JStr ''image'')])]),
        (''languages'', JList [JStr ''es'', JStr ''en''])])
      else if text = ''scenario'' then sample_scenario
      else Raw_bad)"

definition sample_libraries :: "int libraries" where
  "sample_libraries = \<lparr>go_sha = (\<lambda>text. ''sha '' @ text), go_json = sample_json, go_text = (\<lambda>j. ''json''), go_numbers = whole_number_ops\<rparr>"

definition sample_template :: "source_write list" where
  "sample_template = [\<lparr>wr_path = ''client/Game.tsx'', wr_content = ''client''\<rparr>,
     \<lparr>wr_path = ''game.project.json'', wr_content = ''project''\<rparr>, \<lparr>wr_path = ''server/game.ts'', wr_content = ''server''\<rparr>]"

definition sample_files :: source_files where
  "sample_files = map (\<lambda>w. (wr_path w, file_of sample_libraries (wr_content w))) sample_template"

theorem change_applies_exactly_witness:
  "files_ok sample_files
   \<and> (\<exists>next. allowed_change sample_libraries sample_files
        [\<lparr>wr_path = ''notes.md'', wr_content = ''cards''\<rparr>] [] next \<and> length next = 4)
   \<and> \<not> (\<exists>next. allowed_change sample_libraries sample_files [] [''client/Game.tsx''] next)"
proof -
  let ?w = "[\<lparr>wr_path = ''notes.md'', wr_content = ''cards''\<rparr>]"
  have ok: "files_ok sample_files" by code_simp
  have a: "ap_diagnostics (apply_change sample_libraries sample_files ?w []) = [] \<and> length (ap_files (apply_change sample_libraries sample_files ?w [])) = 4"
    by code_simp
  have b: "ap_diagnostics (apply_change sample_libraries sample_files [] [''client/Game.tsx'']) \<noteq> []"
    by code_simp
  show ?thesis
    using ok a b change_applies_exactly[OF ok, of sample_libraries ?w "[]"]
      change_applies_exactly[OF ok, of sample_libraries "[]" "[''client/Game.tsx'']"]
    by metis
qed

end
