(* ===== verification/DraftEdits.thy ===== *)
theory DraftEdits
  imports DraftChange
begin

section \<open>Edits, assets and the changes between revisions\<close>

text \<open>
  The rest of the package \<open>draftsources\<close>: resolving find-and-replace edits into whole files
  (\<open>resolve_edits\<close>), the revisions that pin files and assets, the state of each asset
  (\<open>asset_states\<close>) and what tells two revisions apart (\<open>changes_between\<close>). The specification of the
  edits is the obvious one, \<open>edits_in_order\<close>: each edit rewrites one text of a map from paths to texts.
\<close>

subsection \<open>Edits\<close>

record file_edit =
  ed_path :: string
  ed_find :: string
  ed_replace :: string
  ed_all :: bool

fun edited_hashes_from :: "string list \<Rightarrow> source_files \<Rightarrow> file_edit list \<Rightarrow> string list" where
  "edited_hashes_from seen current [] = []"
| "edited_hashes_from seen current (e # es) =
     (case map_of current (ed_path e) of None \<Rightarrow> edited_hashes_from seen current es
      | Some f \<Rightarrow> if sf_sha f \<in> set seen then edited_hashes_from seen current es
                 else sf_sha f # edited_hashes_from (sf_sha f # seen) current es)"

definition edited_hashes :: "source_files \<Rightarrow> file_edit list \<Rightarrow> string list" where
  "edited_hashes current edits = edited_hashes_from [] current edits"

text \<open>The size cannot leave 64 bits: a content has at most \<open>max_file_bytes\<close>.\<close>

definition apply_edit :: "file_edit \<Rightarrow> string \<Rightarrow> change_code + string" where
  "apply_edit e content =
     (if ed_find e = [] then Inl Invalid_edit
      else let count = count_of (ed_find e) content in
        if count = 0 then Inl Edit_not_found
        else if count > 1 \<and> \<not> ed_all e then Inl Edit_ambiguous
        else if int (length content) + int count * (int (length (ed_replace e)) - int (length (ed_find e))) > max_file_bytes
          then Inl File_too_large
        else if ed_all e then Inr (replace_all (ed_find e) (ed_replace e) content)
        else Inr (replace_first (ed_find e) (ed_replace e) content))"

text \<open>The variables of \<open>ResolveEdits\<close>: the diagnostics, the edited contents, their order and the files given up.\<close>

record edit_state =
  es_diagnostics :: "diagnostic list"
  es_edited :: "(string \<times> string) list"
  es_order :: "string list"
  es_failed :: "string list"

definition refuse_edit :: "nat \<Rightarrow> string \<Rightarrow> change_code \<Rightarrow> edit_state \<Rightarrow> edit_state" where
  "refuse_edit i p code s = s\<lparr>es_diagnostics := es_diagnostics s @ [\<lparr>di_path = p, di_code = code, di_edit = Some i\<rparr>]\<rparr>"

definition edit_content :: "nat \<Rightarrow> file_edit \<Rightarrow> string \<Rightarrow> edit_state \<Rightarrow> edit_state" where
  "edit_content i e content s =
     (case apply_edit e content of
        Inl code \<Rightarrow> (refuse_edit i (ed_path e) code s)\<lparr>es_failed := ed_path e # es_failed s\<rparr>
      | Inr next \<Rightarrow> s\<lparr>es_edited := put_key (ed_path e) next (es_edited s)\<rparr>)"

text \<open>One iteration: the path whose content is not stored, or the next state.\<close>

definition resolve_edit :: "source_files \<Rightarrow> (string \<times> string) list \<Rightarrow> nat \<Rightarrow> file_edit \<Rightarrow> edit_state \<Rightarrow> string + edit_state" where
  "resolve_edit current contents i e s =
     (case check_path (ed_path e) of Some code \<Rightarrow> Inr (refuse_edit i (ed_path e) code s)
      | None \<Rightarrow>
        if ed_path e \<in> set (es_failed s) then Inr s
        else case map_of (es_edited s) (ed_path e) of Some content \<Rightarrow> Inr (edit_content i e content s)
        | None \<Rightarrow> (case map_of current (ed_path e) of
            None \<Rightarrow> Inr ((refuse_edit i (ed_path e) Not_found s)\<lparr>es_failed := ed_path e # es_failed s\<rparr>)
          | Some f \<Rightarrow> (case map_of contents (sf_sha f) of None \<Rightarrow> Inl (ed_path e)
              | Some content \<Rightarrow> Inr (edit_content i e content (s\<lparr>es_order := es_order s @ [ed_path e]\<rparr>)))))"

fun resolve_loop :: "source_files \<Rightarrow> (string \<times> string) list \<Rightarrow> nat \<Rightarrow> file_edit list \<Rightarrow> edit_state \<Rightarrow> string + edit_state" where
  "resolve_loop current contents i [] s = Inr s"
| "resolve_loop current contents i (e # es) s =
     and_then (resolve_edit current contents i e s) (resolve_loop current contents (Suc i) es)"

definition resolve_edits :: "source_files \<Rightarrow> (string \<times> string) list \<Rightarrow> file_edit list \<Rightarrow> string + (diagnostic list + source_write list)" where
  "resolve_edits current contents edits =
     and_then (resolve_loop current contents 0 edits \<lparr>es_diagnostics = [], es_edited = [], es_order = [], es_failed = []\<rparr>)
       (\<lambda>s. Inr (if es_diagnostics s \<noteq> [] then Inl (es_diagnostics s)
            else Inr (map (\<lambda>p. \<lparr>wr_path = p, wr_content = (case map_of (es_edited s) p of None \<Rightarrow> [] | Some c \<Rightarrow> c)\<rparr>) (es_order s))))"

subsection \<open>Revisions and assets\<close>

record asset_binding =
  ab_sha :: string
  ab_size :: int
  ab_mime :: string

type_synonym asset_bindings = "(string \<times> asset_binding) list"

record revision =
  rv_files :: source_files
  rv_assets :: asset_bindings

definition same_revision :: "revision \<Rightarrow> revision \<Rightarrow> bool" where
  "same_revision a b \<longleftrightarrow> same_files (rv_files a) (rv_files b) \<and> length (rv_assets a) = length (rv_assets b)
     \<and> list_all (\<lambda>(k, x). case map_of (rv_assets b) k of None \<Rightarrow> False | Some y \<Rightarrow> ab_sha y = ab_sha x) (rv_assets a)"

datatype asset_status = Asset_missing | Asset_ready | Asset_undeclared

record asset_state =
  at_key :: string
  at_status :: asset_status
  at_declaration :: "asset_declaration option"
  at_binding :: "asset_binding option"

definition asset_states :: "(string \<times> asset_declaration) list \<Rightarrow> asset_bindings \<Rightarrow> asset_state list" where
  "asset_states declared bindings =
     map (\<lambda>key. let d = map_of declared key; b = map_of bindings key in
         \<lparr>at_key = key, at_status = (if d = None then Asset_undeclared else if b = None then Asset_missing else Asset_ready),
          at_declaration = d, at_binding = b\<rparr>)
       (sort (map fst declared @ filter (\<lambda>key. map_of declared key = None) (map fst bindings)))"

subsection \<open>What changed between two revisions\<close>

record file_changes =
  fc_added :: "string list"
  fc_modified :: "string list"
  fc_deleted :: "string list"

definition changes_between :: "source_files \<Rightarrow> source_files \<Rightarrow> file_changes" where
  "changes_between old new =
     \<lparr>fc_added = sort (map fst (filter (\<lambda>(p, f). map_of old p = None) new)),
      fc_modified = sort (map fst (filter (\<lambda>(p, f). case map_of old p of None \<Rightarrow> False | Some g \<Rightarrow> sf_sha g \<noteq> sf_sha f) new)),
      fc_deleted = sort (map fst (filter (\<lambda>(p, f). map_of new p = None) old))\<rparr>"

subsection \<open>The specification of the edits\<close>

definition text_in :: "source_files \<Rightarrow> (string \<times> string) list \<Rightarrow> string \<Rightarrow> string option" where
  "text_in current contents p = (case map_of current p of None \<Rightarrow> None | Some f \<Rightarrow> map_of contents (sf_sha f))"

fun edits_in_order :: "(string \<Rightarrow> string option) \<Rightarrow> file_edit list \<Rightarrow> (string \<Rightarrow> string option) option" where
  "edits_in_order texts [] = Some texts"
| "edits_in_order texts (e # es) =
     (if check_path (ed_path e) \<noteq> None then None
      else case texts (ed_path e) of None \<Rightarrow> None
      | Some content \<Rightarrow> (case apply_edit e content of Inl _ \<Rightarrow> None
          | Inr next \<Rightarrow> edits_in_order (texts(ed_path e \<mapsto> next)) es))"

text \<open>The paths of a list, each at its first occurrence, after those of \<open>seen\<close>.\<close>

fun first_seen :: "string list \<Rightarrow> string list \<Rightarrow> string list" where
  "first_seen seen [] = seen"
| "first_seen seen (p # ps) = first_seen (if p \<in> set seen then seen else seen @ [p]) ps"

lemma set_first_seen: "set (first_seen seen ps) = set seen \<union> set ps"
  by (induction ps arbitrary: seen) auto

lemma distinct_first_seen: "distinct seen \<Longrightarrow> distinct (first_seen seen ps)"
  by (induction ps arbitrary: seen) auto

lemma apply_edit_length: "apply_edit e content = Inr next \<Longrightarrow> int (length next) \<le> max_file_bytes"
proof (cases "ed_all e \<or> count_of (ed_find e) content = 1")
  case True
  assume a: "apply_edit e content = Inr next"
  then have "next = replace_all (ed_find e) (ed_replace e) content" "ed_find e \<noteq> []"
    using True by (auto simp: apply_edit_def Let_def replace_first_once split: if_splits)
  then show ?thesis using a length_replace_all[of "ed_find e" "ed_replace e" content]
    by (auto simp: apply_edit_def Let_def split: if_splits)
next
  case False
  assume "apply_edit e content = Inr next"
  then show ?thesis using False by (auto simp: apply_edit_def Let_def split: if_splits)
qed

subsection \<open>The loop against the specification\<close>

text \<open>A state without diagnostics is the texts edited so far.\<close>

definition follows :: "source_files \<Rightarrow> (string \<times> string) list \<Rightarrow> (string \<Rightarrow> string option) \<Rightarrow> edit_state \<Rightarrow> bool" where
  "follows current contents texts s \<longleftrightarrow> es_diagnostics s = [] \<and> es_failed s = []
     \<and> set (es_order s) = dom (map_of (es_edited s))
     \<and> texts = text_in current contents ++ map_of (es_edited s)
     \<and> (\<forall>p c. map_of (es_edited s) p = Some c \<longrightarrow> int (length c) \<le> max_file_bytes)"

text \<open>The contents that the edits of files need are there.\<close>

definition provided :: "source_files \<Rightarrow> (string \<times> string) list \<Rightarrow> file_edit list \<Rightarrow> bool" where
  "provided current contents edits \<longleftrightarrow> list_all (\<lambda>h. map_of contents h \<noteq> None) (edited_hashes current edits)"

lemma set_edited_hashes:
  "set (edited_hashes_from seen current es) \<union> set seen =
    {sf_sha f |f e. e \<in> set es \<and> map_of current (ed_path e) = Some f} \<union> set seen"
proof (induction es arbitrary: seen)
  case (Cons e es)
  show ?case
  proof (cases "map_of current (ed_path e)")
    case None
    then show ?thesis using Cons[of seen] by (auto simp: set_eq_iff)
  next
    case (Some f)
    show ?thesis
    proof (cases "sf_sha f \<in> set seen")
      case True
      then show ?thesis using Some Cons[of seen] by (auto simp: set_eq_iff)
    next
      case False
      then show ?thesis using Some Cons[of "sf_sha f # seen"] by (auto simp: set_eq_iff)
    qed
  qed
qed simp

lemma provided_content:
  "provided current contents edits \<Longrightarrow> e \<in> set edits \<Longrightarrow> map_of current (ed_path e) = Some f \<Longrightarrow> map_of contents (sf_sha f) \<noteq> None"
  using set_edited_hashes[of "[]" current edits] by (force simp: provided_def edited_hashes_def list_all_iff)

lemma edit_content_refused: "es_diagnostics s \<noteq> [] \<Longrightarrow> es_diagnostics (edit_content i e content s) \<noteq> []"
  by (simp add: edit_content_def refuse_edit_def split: sum.split)

lemma resolve_edit_refused:
  "es_diagnostics s \<noteq> [] \<Longrightarrow> resolve_edit current contents i e s = Inr s' \<Longrightarrow> es_diagnostics s' \<noteq> []"
  by (auto simp: resolve_edit_def refuse_edit_def edit_content_refused split: option.splits if_splits)

lemma resolve_edit_answers:
  "(map_of current (ed_path e) \<noteq> None \<longrightarrow> text_in current contents (ed_path e) \<noteq> None) \<Longrightarrow>
   \<exists>s'. resolve_edit current contents i e s = Inr s'"
  by (auto simp: resolve_edit_def text_in_def split: option.splits)

lemma resolve_loop_answers:
  "provided current contents edits \<Longrightarrow> set es \<subseteq> set edits \<Longrightarrow> \<exists>s'. resolve_loop current contents i es s = Inr s'"
proof (induction es arbitrary: i s)
  case (Cons e es)
  obtain s1 where "resolve_edit current contents i e s = Inr s1"
    using resolve_edit_answers[of current e contents i s] provided_content[OF Cons.prems(1), of e] Cons.prems(2)
    by (fastforce simp: text_in_def)
  then show ?case using Cons by simp
qed simp

lemma resolve_loop_refused:
  "es_diagnostics s \<noteq> [] \<Longrightarrow> resolve_loop current contents i es s = Inr s' \<Longrightarrow> es_diagnostics s' \<noteq> []"
  by (induction es arbitrary: i s) (auto simp: and_then_Inr dest: resolve_edit_refused)

text \<open>One edit: it does what the specification does, or refuses.\<close>

lemma edit_content_follows:
  assumes "follows current contents texts (s\<lparr>es_order := order\<rparr>)" "texts (ed_path e) = Some content"
    and order: "set (es_order s) = insert (ed_path e) (set order)"
  shows "case apply_edit e content of
      Inl _ \<Rightarrow> es_diagnostics (edit_content i e content s) \<noteq> []
    | Inr next \<Rightarrow> follows current contents (texts(ed_path e \<mapsto> next)) (edit_content i e content s)
        \<and> es_order (edit_content i e content s) = es_order s"
proof (cases "apply_edit e content")
  case (Inl code)
  then show ?thesis by (simp add: edit_content_def refuse_edit_def)
next
  case (Inr new)
  then show ?thesis using assms apply_edit_length[OF Inr]
    by (auto simp: edit_content_def follows_def fun_eq_iff map_add_def dom_def split: option.splits)
qed

lemma resolve_edit_follows:
  assumes f: "follows current contents texts s" and r: "resolve_edit current contents i e s = Inr s'"
  shows "case edits_in_order texts [e] of
      None \<Rightarrow> es_diagnostics s' \<noteq> []
    | Some texts' \<Rightarrow> follows current contents texts' s' \<and> es_order s' = first_seen (es_order s) [ed_path e]"
proof -
  have texts: "texts (ed_path e) = (case map_of (es_edited s) (ed_path e) of Some c \<Rightarrow> Some c
      | None \<Rightarrow> text_in current contents (ed_path e))"
    using f by (auto simp: follows_def map_add_def)
  have failed: "es_failed s = []" using f by (simp add: follows_def)
  show ?thesis
  proof (cases "check_path (ed_path e)")
    case (Some code)
    then show ?thesis using r by (auto simp: resolve_edit_def refuse_edit_def)
  next
    case ok: None
    show ?thesis
    proof (cases "map_of (es_edited s) (ed_path e)")
      case (Some content)
      then have o: "ed_path e \<in> set (es_order s)" using f by (auto simp: follows_def)
      have s': "s' = edit_content i e content s" using r ok Some failed by (simp add: resolve_edit_def)
      show ?thesis using edit_content_follows[of current contents texts "es_order s" s e content i] f o texts Some ok s'
        by (auto split: sum.splits simp: insert_absorb)
    next
      case None
      then have o: "ed_path e \<notin> set (es_order s)" using f by (auto simp: follows_def)
      show ?thesis
      proof (cases "map_of current (ed_path e)")
        case no: None
        then have "texts (ed_path e) = None" using texts None by (simp add: text_in_def)
        then show ?thesis using r ok no None failed by (auto simp: resolve_edit_def refuse_edit_def)
      next
        case (Some g)
        then obtain content where c: "map_of contents (sf_sha g) = Some content"
          and s': "s' = edit_content i e content (s\<lparr>es_order := es_order s @ [ed_path e]\<rparr>)"
          using r ok None failed by (auto simp: resolve_edit_def split: option.splits)
        have "texts (ed_path e) = Some content" using texts None Some c by (simp add: text_in_def)
        then show ?thesis
          using edit_content_follows[of current contents texts "es_order s" "s\<lparr>es_order := es_order s @ [ed_path e]\<rparr>" e content i]
            f o ok s' by (auto split: sum.splits)
      qed
    qed
  qed
qed

lemma edits_in_order_Cons:
  "edits_in_order texts (e # es) = (case edits_in_order texts [e] of None \<Rightarrow> None | Some texts' \<Rightarrow> edits_in_order texts' es)"
  by (auto split: option.splits sum.splits)

lemma first_seen_Cons: "first_seen seen (p # ps) = first_seen (first_seen seen [p]) ps"
  by simp

lemma resolve_loop_follows:
  "follows current contents texts s \<Longrightarrow> resolve_loop current contents i es s = Inr s' \<Longrightarrow>
   (case edits_in_order texts es of
      None \<Rightarrow> es_diagnostics s' \<noteq> []
    | Some texts' \<Rightarrow> follows current contents texts' s' \<and> es_order s' = first_seen (es_order s) (map ed_path es))"
proof (induction es arbitrary: i s texts)
  case (Cons e es)
  then obtain s1 where s1: "resolve_edit current contents i e s = Inr s1" "resolve_loop current contents (Suc i) es s1 = Inr s'"
    by (auto simp: and_then_Inr)
  have one: "case edits_in_order texts [e] of None \<Rightarrow> es_diagnostics s1 \<noteq> []
    | Some texts' \<Rightarrow> follows current contents texts' s1 \<and> es_order s1 = first_seen (es_order s) [ed_path e]"
    by (rule resolve_edit_follows[OF Cons.prems(1) s1(1)])
  show ?case
  proof (cases "edits_in_order texts [e]")
    case None
    then have "es_diagnostics s' \<noteq> []" using one resolve_loop_refused[OF _ s1(2)] by simp
    moreover have "edits_in_order texts (e # es) = None"
      using edits_in_order_Cons[of texts e es] None by (simp only: option.case)
    ultimately show ?thesis by (simp only: option.case not_False_eq_True)
  next
    case (Some texts')
    then have "follows current contents texts' s1" "es_order s1 = first_seen (es_order s) [ed_path e]"
      using one by (simp_all del: edits_in_order.simps first_seen.simps)
    moreover have "edits_in_order texts (e # es) = edits_in_order texts' es"
      using edits_in_order_Cons[of texts e es] Some by (simp only: option.case)
    moreover have "first_seen (es_order s) (map ed_path (e # es)) = first_seen (first_seen (es_order s) [ed_path e]) (map ed_path es)"
      by simp
    ultimately show ?thesis using Cons.IH[OF _ s1(2), of texts'] by (simp only:)
  qed
qed simp


text \<open>Two edits of one file, the second over what the first left.\<close>

definition sample_edits :: "file_edit list" where
  "sample_edits = [\<lparr>ed_path = ''notes.md'', ed_find = ''ab'', ed_replace = ''b'', ed_all = True\<rparr>,
     \<lparr>ed_path = ''notes.md'', ed_find = ''bb'', ed_replace = ''x'', ed_all = False\<rparr>]"

definition noted_files :: source_files where
  "noted_files = [(''notes.md'', \<lparr>sf_sha = ''h'', sf_size = 5\<rparr>)]"


end
