(* ===== verification/DraftStore.thy ===== *)
theory DraftStore
  imports DraftEdits
begin

section \<open>What drafting stores\<close>

text \<open>
  The tables of a game's versions and the statements of
  \<open>play/session/workflows/versiondrafting/internal/repo\<close> and \<open>versionbuilding/internal/repo\<close> over them.

  A version is named by its UUID (its serial id is left out), a revision by its version and number, an
  attempt by its version and idempotency key: the unique keys of the tables. The builds are a list, in
  the order of their serial id, which is the position in it. A statement that breaks a unique key is an
  error, \<open>Refused_by_database\<close>; a failing connection is the rollback of the whole transaction and needs
  no branch here. Times of rows are left out.
\<close>

subsection \<open>Rows\<close>

datatype outcome = Applied | Conflict | Invalid | Not_editable | Unchanged
  | Attached | Unbound | Too_large | Not_declared

datatype attempt_kind = Change_attempt | Restore_attempt | Upload_attempt | Removal_attempt

datatype revision_kind = Template_revision | Edition_revision | Change_revision | Restore_revision | Asset_revision

datatype actor = Person | Ai | Platform

record provenance =
  pv_kind :: revision_kind
  pv_origin :: string
  pv_actor :: actor
  pv_parent :: "int option"
  pv_restored :: "int option"
  pv_from :: "(string \<times> string \<times> int option) option"
  pv_sdk :: string

record revision_row =
  rr_revision :: revision
  rr_provenance :: provenance

record attempt =
  am_kind :: attempt_kind
  am_request :: string
  am_base :: int
  am_origin :: string
  am_outcome :: "outcome option"
  am_revision :: "int option"
  am_diagnostics :: "diagnostic list"

datatype build_status = Queued | Running | Succeeded | Failed | Superseded

definition terminal :: "build_status \<Rightarrow> bool" where
  "terminal s \<longleftrightarrow> s = Succeeded \<or> s = Failed \<or> s = Superseded"

record locator =
  lc_key :: string
  lc_sha :: string
  lc_size :: int

text \<open>
  A diagnostic of a build: one of the toolchain's own, whose fields are left out; the place of a
  violation of the script's profile; a manifest or an aspect ratio the runtime would refuse; or a
  failure of the platform.
\<close>

datatype platform_code = Toolchain_unavailable | Build_timeout | Toolchain_failed | Storage_failed | Internal_error

datatype build_problem = Tool_problem string | Script_problem nat nat | Manifest_problem | Aspect_problem
  | Platform_problem platform_code

record artifacts =
  bf_problems :: "build_problem list"
  bf_inputs :: string
  bf_toolchain :: string
  bf_server :: "locator option"
  bf_client :: "locator option"
  bf_manifest :: string
  bf_aspect :: "string option"
  bf_languages :: "string list"
  bf_keyboard :: "bool option"
  bf_hover :: "bool option"
  bf_press :: "bool option"
  bf_reused :: "nat option"

definition no_artifacts :: artifacts where
  "no_artifacts = \<lparr>bf_problems = [], bf_inputs = [], bf_toolchain = [], bf_server = None, bf_client = None, bf_manifest = [],
     bf_aspect = None, bf_languages = [], bf_keyboard = None, bf_hover = None, bf_press = None, bf_reused = None\<rparr>"

record build_row =
  bu_version :: string
  bu_revision :: int
  bu_status :: build_status
  bu_artifacts :: artifacts
  bu_finished :: bool

text \<open>What an executable version keeps: the artifacts of its build, its assets and what it asks of the device.\<close>

record version_asset =
  va_key :: string
  va_type :: string
  va_binding :: asset_binding
  va_object :: string

record frozen =
  fz_server :: locator
  fz_client :: locator
  fz_manifest :: string
  fz_aspect :: string
  fz_languages :: "string list"
  fz_assets :: "version_asset list"
  fz_requirements :: "requirements option"

record version_row =
  vn_game :: string
  vn_status :: version_status
  vn_profile :: string
  vn_current :: "int option"
  vn_frozen :: "frozen option"

record database =
  db_games :: "string \<Rightarrow> string option option"
  db_versions :: "string \<Rightarrow> version_row option"
  db_revisions :: "string \<times> int \<Rightarrow> revision_row option"
  db_contents :: "string \<Rightarrow> string option"
  db_attempts :: "string \<times> string \<Rightarrow> attempt option"
  db_objects :: "string \<Rightarrow> string option"
  db_artifact_objects :: "string \<Rightarrow> string option"
  db_builds :: "build_row list"
  db_changes :: "(nat \<times> build_status option \<times> build_status) list"

datatype draft_error = Draft_not_found | Key_conflict | No_outcome | Missing_revision string int
  | Missing_content string | Version_conflict | Kept_changing | Not_executable | Broken_template
  | Without_revision | Missing_artifacts | Missing_requirements | Unregistered_asset string | Unknown_status
  | No_languages | Attempt_closed | Stopped_being_draft | Refused_by_database | Bad_request

subsection \<open>Versions\<close>

text \<open>The row of the game is inserted when it is absent; its lock is the ordering of the steps.\<close>

definition lock_game :: "string \<Rightarrow> database \<Rightarrow> database" where
  "lock_game g db = (case db_games db g of Some _ \<Rightarrow> db | None \<Rightarrow> db\<lparr>db_games := (db_games db)(g \<mapsto> None)\<rparr>)"

definition find_version :: "database \<Rightarrow> string \<Rightarrow> version_row option" where
  "find_version db v = db_versions db v"

text \<open>A game has at most one DRAFT, by a unique index; \<open>open_draft\<close> is one of its versions in that status.\<close>

definition is_draft_of :: "database \<Rightarrow> string \<Rightarrow> string \<Rightarrow> bool" where
  "is_draft_of db g v \<longleftrightarrow> (case db_versions db v of None \<Rightarrow> False | Some row \<Rightarrow> vn_game row = g \<and> vn_status row = Draft)"

definition create_version :: "string \<Rightarrow> string \<Rightarrow> version_status \<Rightarrow> string \<Rightarrow> int \<Rightarrow> database \<Rightarrow> draft_error + database" where
  "create_version g v status profile n db =
     (if db_versions db v \<noteq> None then Inl Refused_by_database
      else Inr (db\<lparr>db_versions := (db_versions db)(v \<mapsto>
        \<lparr>vn_game = g, vn_status = status, vn_profile = profile, vn_current = Some n, vn_frozen = None\<rparr>)\<rparr>))"

text \<open>Compare and swap: the version is still in the status, at the base.\<close>

definition advance_revision :: "string \<Rightarrow> version_status \<Rightarrow> int \<Rightarrow> database \<Rightarrow> bool \<times> database" where
  "advance_revision v status base db =
     (case db_versions db v of
        Some row \<Rightarrow> if vn_status row = status \<and> vn_current row = Some base
          then (True, db\<lparr>db_versions := (db_versions db)(v \<mapsto> row\<lparr>vn_current := Some (base + 1)\<rparr>)\<rparr>) else (False, db)
      | None \<Rightarrow> (False, db))"

definition freeze_row :: "string \<Rightarrow> version_status \<Rightarrow> version_status \<Rightarrow> frozen \<Rightarrow> database \<Rightarrow> bool \<times> database" where
  "freeze_row v old new fz db =
     (case db_versions db v of
        Some row \<Rightarrow> if vn_status row = old
          then (True, db\<lparr>db_versions := (db_versions db)(v \<mapsto> row\<lparr>vn_status := new, vn_frozen := Some fz\<rparr>)\<rparr>) else (False, db)
      | None \<Rightarrow> (False, db))"

text \<open>The rows a version is frozen with, of the tables of its assets and of its input requirements.\<close>

definition keep_frozen :: "string \<Rightarrow> (frozen \<Rightarrow> frozen) \<Rightarrow> database \<Rightarrow> database" where
  "keep_frozen v f db =
     (case db_versions db v of None \<Rightarrow> db
      | Some row \<Rightarrow> db\<lparr>db_versions := (db_versions db)(v \<mapsto> row\<lparr>vn_frozen := map_option f (vn_frozen row)\<rparr>)\<rparr>)"

definition create_version_assets :: "string \<Rightarrow> version_asset list \<Rightarrow> database \<Rightarrow> database" where
  "create_version_assets v assets = keep_frozen v (\<lambda>fz. fz\<lparr>fz_assets := assets\<rparr>)"

definition create_requirements :: "string \<Rightarrow> requirements \<Rightarrow> database \<Rightarrow> database" where
  "create_requirements v r = keep_frozen v (\<lambda>fz. fz\<lparr>fz_requirements := Some r\<rparr>)"

definition set_current_version :: "string \<Rightarrow> string \<Rightarrow> database \<Rightarrow> database" where
  "set_current_version g v db = db\<lparr>db_games := (db_games db)(g \<mapsto> Some v)\<rparr>"

subsection \<open>Revisions and contents\<close>

definition create_revision :: "string \<Rightarrow> int \<Rightarrow> revision \<Rightarrow> provenance \<Rightarrow> database \<Rightarrow> draft_error + database" where
  "create_revision v n r prov db =
     (if db_revisions db (v, n) \<noteq> None then Inl Refused_by_database
      else Inr (db\<lparr>db_revisions := (db_revisions db)((v, n) \<mapsto> \<lparr>rr_revision = r, rr_provenance = prov\<rparr>)\<rparr>))"

definition find_revision :: "database \<Rightarrow> string \<Rightarrow> int \<Rightarrow> revision option" where
  "find_revision db v n = map_option rr_revision (db_revisions db (v, n))"

text \<open>Each content is stored once: a hash that is there keeps its content.\<close>

definition store_contents :: "(string \<times> string) list \<Rightarrow> database \<Rightarrow> database" where
  "store_contents contents db = db\<lparr>db_contents := (\<lambda>h. case db_contents db h of Some c \<Rightarrow> Some c | None \<Rightarrow> map_of contents h)\<rparr>"

definition find_contents :: "database \<Rightarrow> string list \<Rightarrow> (string \<times> string) list" where
  "find_contents db hashes = concat (map (\<lambda>h. case db_contents db h of None \<Rightarrow> [] | Some c \<Rightarrow> [(h, c)]) hashes)"

subsection \<open>Attempts\<close>

text \<open>The attempt that already holds the key, or the table with it claimed.\<close>

definition claim_attempt :: "string \<Rightarrow> attempt_kind \<Rightarrow> string \<Rightarrow> string \<Rightarrow> int \<Rightarrow> string \<Rightarrow> database \<Rightarrow> attempt + database" where
  "claim_attempt v kind key request base origin db =
     (case db_attempts db (v, key) of Some existing \<Rightarrow> Inl existing
      | None \<Rightarrow> Inr (db\<lparr>db_attempts := (db_attempts db)((v, key) \<mapsto>
          \<lparr>am_kind = kind, am_request = request, am_base = base, am_origin = origin, am_outcome = None, am_revision = None,
           am_diagnostics = []\<rparr>)\<rparr>))"

definition complete_attempt :: "string \<Rightarrow> string \<Rightarrow> outcome \<Rightarrow> int \<Rightarrow> diagnostic list \<Rightarrow> database \<Rightarrow> draft_error + database" where
  "complete_attempt v key out n ds db =
     (case db_attempts db (v, key) of
        Some a \<Rightarrow> if am_outcome a = None
          then Inr (db\<lparr>db_attempts := (db_attempts db)((v, key) \<mapsto> a\<lparr>am_outcome := Some out, am_revision := Some n, am_diagnostics := ds\<rparr>)\<rparr>)
          else Inl Attempt_closed
      | None \<Rightarrow> Inl Attempt_closed)"

subsection \<open>Builds\<close>

text \<open>Moving the build at a position, when it is in the status, with its entry in the history.\<close>

definition change_status :: "nat \<Rightarrow> build_status \<Rightarrow> build_status \<Rightarrow> database \<Rightarrow> bool \<times> database" where
  "change_status i old new db =
     (if i < length (db_builds db) \<and> bu_status (db_builds db ! i) = old
      then (True, db\<lparr>db_builds := (db_builds db)[i := (db_builds db ! i)\<lparr>bu_status := new\<rparr>],
                    db_changes := db_changes db @ [(i, Some old, new)]\<rparr>)
      else (False, db))"

definition builds_where :: "(build_row \<Rightarrow> bool) \<Rightarrow> database \<Rightarrow> nat list" where
  "builds_where P db = filter (\<lambda>i. P (db_builds db ! i)) [0..<length (db_builds db)]"

definition queue_build :: "string \<Rightarrow> int \<Rightarrow> database \<Rightarrow> draft_error + database" where
  "queue_build v n db =
     (let waiting = builds_where (\<lambda>b. bu_version b = v \<and> bu_status b = Queued) db;
          db1 = fold (\<lambda>i d. snd (change_status i Queued Superseded d)) waiting db in
      if list_ex (\<lambda>b. bu_version b = v \<and> bu_revision b = n) (db_builds db1) then Inl Refused_by_database
      else Inr (db1\<lparr>db_builds := db_builds db1 @ [\<lparr>bu_version = v, bu_revision = n, bu_status = Queued,
                      bu_artifacts = no_artifacts, bu_finished = False\<rparr>],
                   db_changes := db_changes db1 @ [(length (db_builds db1), None, Queued)]\<rparr>))"

definition find_build :: "database \<Rightarrow> string \<Rightarrow> int \<Rightarrow> build_row option" where
  "find_build db v n = List.find (\<lambda>b. bu_version b = v \<and> bu_revision b = n) (db_builds db)"

definition requeue_all :: "build_status \<Rightarrow> build_status \<Rightarrow> database \<Rightarrow> database" where
  "requeue_all old new db = fold (\<lambda>i d. snd (change_status i old new d)) (builds_where (\<lambda>b. bu_status b = old) db) db"

text \<open>The oldest build in a status that no other transaction holds; \<open>held\<close> are those that are skipped.\<close>

definition claim_oldest :: "nat list \<Rightarrow> build_status \<Rightarrow> build_status \<Rightarrow> database \<Rightarrow> (nat \<times> database) option" where
  "claim_oldest held old new db =
     (case filter (\<lambda>i. i \<notin> set held) (builds_where (\<lambda>b. bu_status b = old) db) of
        [] \<Rightarrow> None
      | i # _ \<Rightarrow> (let (changed, db1) = change_status i old new db in if changed then Some (i, db1) else None))"

definition find_reusable :: "database \<Rightarrow> string \<Rightarrow> string \<Rightarrow> build_status \<Rightarrow> nat option" where
  "find_reusable db v inputs status =
     (case builds_where (\<lambda>b. bu_version b = v \<and> bf_inputs (bu_artifacts b) = inputs \<and> bu_status b = status
           \<and> bf_server (bu_artifacts b) \<noteq> None) db of [] \<Rightarrow> None | i # _ \<Rightarrow> Some i)"

text \<open>A build ends once: only while it is in the status and has no end.\<close>

definition finish_build :: "nat \<Rightarrow> build_status \<Rightarrow> build_status \<Rightarrow> artifacts \<Rightarrow> database \<Rightarrow> bool \<times> database" where
  "finish_build i old new a db =
     (if i < length (db_builds db) \<and> bu_status (db_builds db ! i) = old \<and> \<not> bu_finished (db_builds db ! i)
      then (True, db\<lparr>db_builds := (db_builds db)[i := (db_builds db ! i)\<lparr>bu_status := new, bu_artifacts := a, bu_finished := True\<rparr>],
                    db_changes := db_changes db @ [(i, Some old, new)]\<rparr>)
      else (False, db))"

subsection \<open>Objects\<close>

definition locator_for :: "'f libraries \<Rightarrow> string \<Rightarrow> string \<Rightarrow> locator" where
  "locator_for L prefix content = \<lparr>lc_key = prefix @ ''/'' @ go_sha L content, lc_sha = go_sha L content, lc_size = int (length content)\<rparr>"

definition register_asset :: "locator \<Rightarrow> database \<Rightarrow> database" where
  "register_asset l db = (case db_objects db (lc_sha l) of Some _ \<Rightarrow> db
     | None \<Rightarrow> db\<lparr>db_objects := (db_objects db)(lc_sha l \<mapsto> lc_key l)\<rparr>)"

definition register_artifact :: "locator \<Rightarrow> database \<Rightarrow> database" where
  "register_artifact l db = (case db_artifact_objects db (lc_sha l) of Some _ \<Rightarrow> db
     | None \<Rightarrow> db\<lparr>db_artifact_objects := (db_artifact_objects db)(lc_sha l \<mapsto> lc_key l)\<rparr>)"

definition find_object_keys :: "database \<Rightarrow> string list \<Rightarrow> (string \<times> string) list" where
  "find_object_keys db hashes = concat (map (\<lambda>h. case db_objects db h of None \<Rightarrow> [] | Some k \<Rightarrow> [(h, k)]) hashes)"

end
