(* ===== verification/DraftSteps.thy ===== *)
theory DraftSteps
  imports DraftStore
begin

section \<open>The steps that change a draft\<close>

text \<open>
  The workflow \<open>play/session/workflows/versiondrafting\<close>: applying a change, restoring a revision,
  attaching and removing an asset, creating a DRAFT. Each runs in one transaction: an error rolls it
  back, so it has no database in its result. The row of the version is an argument of the decision: the
  transaction read it in an earlier statement, and it may be stale by the time it decides. What is left
  out of an answer are views computed afterwards: the build, the diffs and the list of changed files.
\<close>

record change_result =
  cg_outcome :: outcome
  cg_revision :: int
  cg_diagnostics :: "diagnostic list"
  cg_replayed :: bool

definition decided :: "outcome \<Rightarrow> int \<Rightarrow> diagnostic list \<Rightarrow> change_result" where
  "decided out n ds = \<lparr>cg_outcome = out, cg_revision = n, cg_diagnostics = ds, cg_replayed = False\<rparr>"

text \<open>A decision, or a revision that another transaction committed first and the loop has to read again.\<close>

datatype decision = Decided change_result database | Raced

subsection \<open>Attempts and provenance\<close>

definition origin_web :: string where "origin_web = ''web''"
definition origin_api :: string where "origin_api = ''api''"
definition origin_mcp :: string where "origin_mcp = ''mcp''"

definition valid_origin :: "string \<Rightarrow> bool" where
  "valid_origin o' \<longleftrightarrow> o' = origin_web \<or> o' = origin_api \<or> o' = origin_mcp"

definition actor_of :: "string \<Rightarrow> actor" where
  "actor_of o' = (if o' = origin_web then Person else if o' = [] then Platform else Ai)"

definition fingerprint :: "'f libraries \<Rightarrow> json \<Rightarrow> string" where
  "fingerprint L request = go_sha L (go_text L request)"

definition replay :: "attempt \<Rightarrow> string \<Rightarrow> draft_error + change_result" where
  "replay existing request =
     (if am_request existing \<noteq> request then Inl Key_conflict
      else case (am_outcome existing, am_revision existing) of
        (Some out, Some n) \<Rightarrow> Inr \<lparr>cg_outcome = out, cg_revision = n, cg_diagnostics = am_diagnostics existing, cg_replayed = True\<rparr>
      | _ \<Rightarrow> Inl No_outcome)"

definition written_by :: "version_row \<Rightarrow> revision_kind \<Rightarrow> int \<Rightarrow> string \<Rightarrow> provenance" where
  "written_by row kind parent o' = \<lparr>pv_kind = kind, pv_origin = o', pv_actor = actor_of o', pv_parent = Some parent,
     pv_restored = None, pv_from = None, pv_sdk = vn_profile row\<rparr>"

definition restored_by :: "version_row \<Rightarrow> int \<Rightarrow> int \<Rightarrow> string \<Rightarrow> provenance" where
  "restored_by row parent r o' = (written_by row Restore_revision parent o')\<lparr>pv_restored := Some r\<rparr>"

definition current_of :: "version_row \<Rightarrow> int" where
  "current_of row = (case vn_current row of None \<Rightarrow> 0 | Some n \<Rightarrow> n)"

definition editable :: "version_row \<Rightarrow> bool" where
  "editable row \<longleftrightarrow> vn_status row = Draft \<and> vn_current row \<noteq> None"

text \<open>
  What the four steps do around their decision: claim the key or replay its attempt, decide, queue the
  build of a new revision and complete the attempt. \<open>None\<close> is a race lost: the loop goes on.
\<close>

definition makes_revision :: "outcome \<Rightarrow> bool" where
  "makes_revision out \<longleftrightarrow> out = Applied \<or> out = Attached \<or> out = Unbound"

definition settled :: "string \<Rightarrow> string \<Rightarrow> decision \<Rightarrow> draft_error + (change_result \<times> database) option" where
  "settled v key d =
     (case d of Raced \<Rightarrow> Inr None
      | Decided r db \<Rightarrow>
          and_then (if makes_revision (cg_outcome r) then queue_build v (cg_revision r) db else Inr db) (\<lambda>db1.
          and_then (complete_attempt v key (cg_outcome r) (cg_revision r) (cg_diagnostics r) db1) (\<lambda>db2. Inr (Some (r, db2)))))"

definition attempt_step :: "string \<Rightarrow> attempt_kind \<Rightarrow> string \<Rightarrow> string \<Rightarrow> int \<Rightarrow> string \<Rightarrow> (database \<Rightarrow> draft_error + decision)
    \<Rightarrow> database \<Rightarrow> draft_error + (change_result \<times> database) option" where
  "attempt_step v kind key request base o' decide db =
     (case claim_attempt v kind key request base o' db of
        Inl existing \<Rightarrow> and_then (replay existing request) (\<lambda>r. Inr (Some (r, db)))
      | Inr db1 \<Rightarrow> and_then (decide db1) (settled v key))"

text \<open>A decision that makes the next revision: compare and swap, contents, the row.\<close>

definition make_revision :: "string \<Rightarrow> int \<Rightarrow> (string \<times> string) list \<Rightarrow> revision \<Rightarrow> provenance \<Rightarrow> outcome \<Rightarrow> decision \<Rightarrow> database \<Rightarrow> draft_error + decision" where
  "make_revision v current contents r prov out lost db =
     (case advance_revision v Draft current db of
        (False, _) \<Rightarrow> Inr lost
      | (True, db1) \<Rightarrow> and_then (create_revision v (current + 1) r prov (store_contents contents db1))
            (\<lambda>db2. Inr (Decided (decided out (current + 1) []) db2)))"

subsection \<open>Applying a change\<close>

record draft_change =
  dc_base :: int
  dc_files :: "source_write list"
  dc_edits :: "file_edit list"
  dc_deletes :: "string list"
  dc_key :: string
  dc_origin :: string

definition edit_json :: "file_edit \<Rightarrow> json" where
  "edit_json e = JObj ([(''path'', JStr (ed_path e)), (''find'', JStr (ed_find e)), (''replace'', JStr (ed_replace e))]
     @ (if ed_all e then [(''all'', JBool True)] else []))"

definition change_json :: "draft_change \<Rightarrow> json" where
  "change_json c = JObj ([(''kind'', JStr ''change''), (''base_revision'', JNum (int_text (dc_base c))),
      (''files'', JList (map (\<lambda>w. JObj [(''Path'', JStr (wr_path w)), (''Content'', JStr (wr_content w))]) (dc_files c)))]
     @ (if dc_edits c = [] then [] else [(''edits'', JList (map edit_json (dc_edits c)))])
     @ [(''delete'', JList (map JStr (dc_deletes c)))])"

definition resolve_in :: "database \<Rightarrow> source_files \<Rightarrow> file_edit list \<Rightarrow> draft_error + (diagnostic list + source_write list)" where
  "resolve_in db files edits =
     (if edits = [] then Inr (Inr [])
      else case resolve_edits files (find_contents db (edited_hashes files edits)) edits of
        Inl p \<Rightarrow> Inl (Missing_content p) | Inr r \<Rightarrow> Inr r)"

definition decide_change :: "'f libraries \<Rightarrow> string \<Rightarrow> draft_change \<Rightarrow> version_row \<Rightarrow> database \<Rightarrow> draft_error + decision" where
  "decide_change L v c row db =
     (let current = current_of row; stays = (\<lambda>out ds. Inr (Decided (decided out current ds) db)) in
      if \<not> editable row then stays Not_editable []
      else if dc_base c \<noteq> current then stays Conflict []
      else case find_revision db v current of None \<Rightarrow> Inl (Missing_revision v current)
      | Some r \<Rightarrow> and_then (resolve_in db (rv_files r) (dc_edits c)) (\<lambda>resolved.
          case resolved of Inl ds \<Rightarrow> stays Invalid ds
          | Inr edited \<Rightarrow>
              (let a = apply_change L (rv_files r) (dc_files c @ edited) (dc_deletes c) in
               if ap_diagnostics a \<noteq> [] then stays Invalid (ap_diagnostics a)
               else if same_files (rv_files r) (ap_files a) then stays Unchanged []
               else make_revision v current (ap_contents a) \<lparr>rv_files = ap_files a, rv_assets = rv_assets r\<rparr>
                      (written_by row Change_revision current (dc_origin c)) Applied (Decided (decided Conflict current []) db) db)))"

definition apply_changes_in_tx :: "'f libraries \<Rightarrow> string \<Rightarrow> draft_change \<Rightarrow> version_row \<Rightarrow> database
    \<Rightarrow> draft_error + (change_result \<times> database) option" where
  "apply_changes_in_tx L v c row =
     attempt_step v Change_attempt (dc_key c) (fingerprint L (change_json c)) (dc_base c) (dc_origin c) (decide_change L v c row)"

definition change_request_ok :: "draft_change \<Rightarrow> bool" where
  "change_request_ok c \<longleftrightarrow> dc_key c \<noteq> [] \<and> valid_origin (dc_origin c) \<and> 1 \<le> dc_base c"

subsection \<open>Restoring a revision\<close>

record restore_request =
  rq_revision :: int
  rq_base :: int
  rq_key :: string
  rq_origin :: string

definition restore_json :: "restore_request \<Rightarrow> json" where
  "restore_json q = JObj [(''kind'', JStr ''restore''), (''revision'', JNum (int_text (rq_revision q))),
     (''base_revision'', JNum (int_text (rq_base q)))]"

definition decide_restore :: "string \<Rightarrow> restore_request \<Rightarrow> version_row \<Rightarrow> database \<Rightarrow> draft_error + decision" where
  "decide_restore v q row db =
     (let current = current_of row; stays = (\<lambda>out ds. Inr (Decided (decided out current ds) db)) in
      if \<not> editable row then stays Not_editable []
      else if rq_base q \<noteq> current then stays Conflict []
      else case find_revision db v (rq_revision q) of None \<Rightarrow> stays Invalid [problem [] Revision_not_found]
      | Some restored \<Rightarrow> (case find_revision db v current of None \<Rightarrow> Inl (Missing_revision v current)
        | Some now \<Rightarrow>
            if same_revision now restored then stays Unchanged []
            else make_revision v current [] restored (restored_by row current (rq_revision q) (rq_origin q)) Applied
                   (Decided (decided Conflict current []) db) db))"

definition restore_in_tx :: "'f libraries \<Rightarrow> string \<Rightarrow> restore_request \<Rightarrow> version_row \<Rightarrow> database
    \<Rightarrow> draft_error + (change_result \<times> database) option" where
  "restore_in_tx L v q row =
     attempt_step v Restore_attempt (rq_key q) (fingerprint L (restore_json q)) (rq_base q) (rq_origin q) (decide_restore v q row)"

definition restore_request_ok :: "restore_request \<Rightarrow> bool" where
  "restore_request_ok q \<longleftrightarrow> rq_key q \<noteq> [] \<and> valid_origin (rq_origin q) \<and> 1 \<le> rq_revision q \<and> 1 \<le> rq_base q"

subsection \<open>Attaching and removing an asset\<close>

text \<open>What reading an upload decided: the content and its binding, or the outcome refusing it.\<close>

record received =
  rd_key :: string
  rd_content :: string
  rd_refusal :: "outcome option"
  rd_diagnostics :: "diagnostic list"
  rd_binding :: asset_binding

definition asset_path :: "string \<Rightarrow> string" where
  "asset_path key = ''assets/'' @ key"

text \<open>\<open>receive\<close>: \<open>content\<close> is all the reader gives, of which at most \<open>limit + 1\<close> bytes are read.\<close>

definition receive :: "'f libraries \<Rightarrow> (string \<Rightarrow> string option) \<Rightarrow> string \<Rightarrow> asset_declaration option \<Rightarrow> string \<Rightarrow> int \<Rightarrow> received" where
  "receive L detect key declaration content limit =
     (let nothing = \<lparr>ab_sha = [], ab_size = 0, ab_mime = []\<rparr>;
          mime = sniff_mime detect content;
          binding = \<lparr>ab_sha = go_sha L content, ab_size = int (length content), ab_mime = mime\<rparr>;
          refused = (\<lambda>c b out code. \<lparr>rd_key = key, rd_content = c, rd_refusal = Some out,
                        rd_diagnostics = [problem (asset_path key) code], rd_binding = b\<rparr>) in
      if int (length content) > limit then refused [] nothing Too_large Asset_too_large
      else if content = [] then refused content binding Invalid Asset_empty
      else if (case declaration of None \<Rightarrow> False | Some d \<Rightarrow> \<not> accepts_mime (ad_type d) mime)
        then refused content binding Invalid Wrong_content_type
      else \<lparr>rd_key = key, rd_content = content, rd_refusal = None, rd_diagnostics = [], rd_binding = binding\<rparr>)"

text \<open>The assets a revision declares; an unreadable project file declares none.\<close>

definition declarations_of :: "'f libraries \<Rightarrow> database \<Rightarrow> revision \<Rightarrow> (string \<times> asset_declaration) list" where
  "declarations_of L db r =
     (case map_of (rv_files r) project_file of None \<Rightarrow> []
      | Some f \<Rightarrow> (case declared_assets L (case db_contents db (sf_sha f) of None \<Rightarrow> [] | Some c \<Rightarrow> c) of
          Inl _ \<Rightarrow> [] | Inr ds \<Rightarrow> ds))"

definition other_assets_size :: "string \<Rightarrow> asset_bindings \<Rightarrow> int \<Rightarrow> int" where
  "other_assets_size key assets own = foldl (\<lambda>sum (k, b). if k \<noteq> key then wrap64 (sum + ab_size b) else sum) own assets"

definition decide_attach :: "'f libraries \<Rightarrow> string \<Rightarrow> received \<Rightarrow> string \<Rightarrow> version_row \<Rightarrow> database \<Rightarrow> draft_error + decision" where
  "decide_attach L v x o' row db =
     (let current = current_of row; stays = (\<lambda>out ds. Inr (Decided (decided out current ds) db)); key = rd_key x in
      if \<not> editable row then stays Not_editable []
      else case rd_refusal x of Some out \<Rightarrow> stays out (rd_diagnostics x)
      | None \<Rightarrow> (case find_revision db v current of None \<Rightarrow> Inl (Missing_revision v current)
        | Some r \<Rightarrow> (case map_of (declarations_of L db r) key of None \<Rightarrow> stays Not_declared []
          | Some d \<Rightarrow>
              if \<not> accepts_mime (ad_type d) (ab_mime (rd_binding x)) then stays Not_declared []
              else if (case map_of (rv_assets r) key of None \<Rightarrow> False | Some b \<Rightarrow> ab_sha b = ab_sha (rd_binding x)) then stays Unchanged []
              else if other_assets_size key (rv_assets r) (ab_size (rd_binding x)) > max_assets_bytes
                then stays Invalid [problem (asset_path key) Assets_too_large]
              else make_revision v current [] \<lparr>rv_files = rv_files r, rv_assets = put_key key (rd_binding x) (rv_assets r)\<rparr>
                     (written_by row Asset_revision current o') Attached Raced db)))"

definition upload_json :: "string \<Rightarrow> string \<Rightarrow> json" where
  "upload_json key sha = JObj [(''kind'', JStr ''asset_upload''), (''key'', JStr key), (''sha256'', JStr sha)]"

definition attach_in_tx :: "'f libraries \<Rightarrow> string \<Rightarrow> received \<Rightarrow> string \<Rightarrow> string \<Rightarrow> int \<Rightarrow> version_row \<Rightarrow> database
    \<Rightarrow> draft_error + (change_result \<times> database) option" where
  "attach_in_tx L v x key o' base row =
     attempt_step v Upload_attempt key (fingerprint L (upload_json (rd_key x) (ab_sha (rd_binding x)))) base o' (decide_attach L v x o' row)"

definition decide_remove :: "string \<Rightarrow> string \<Rightarrow> string \<Rightarrow> version_row \<Rightarrow> database \<Rightarrow> draft_error + decision" where
  "decide_remove v key o' row db =
     (let current = current_of row; stays = (\<lambda>out ds. Inr (Decided (decided out current ds) db)) in
      if \<not> editable row then stays Not_editable []
      else case find_revision db v current of None \<Rightarrow> Inl (Missing_revision v current)
      | Some r \<Rightarrow>
          if map_of (rv_assets r) key = None then stays Unchanged []
          else make_revision v current [] \<lparr>rv_files = rv_files r, rv_assets = filter (\<lambda>(k, b). k \<noteq> key) (rv_assets r)\<rparr>
                 (written_by row Asset_revision current o') Unbound Raced db)"

definition removal_json :: "string \<Rightarrow> json" where
  "removal_json key = JObj [(''kind'', JStr ''asset_removal''), (''key'', JStr key)]"

definition remove_in_tx :: "'f libraries \<Rightarrow> string \<Rightarrow> string \<Rightarrow> string \<Rightarrow> string \<Rightarrow> int \<Rightarrow> version_row \<Rightarrow> database
    \<Rightarrow> draft_error + (change_result \<times> database) option" where
  "remove_in_tx L v asset key o' base row =
     attempt_step v Removal_attempt key (fingerprint L (removal_json asset)) base o' (decide_remove v asset o' row)"

text \<open>
  \<open>recordRefusal\<close>: an upload refused before its content was known is recorded under a key of its own,
  made from a fresh UUID, and the caller's key stays free. The attempt it would find under that key is
  ignored, and completing it again is an error.
\<close>

definition refused_key_prefix :: string where
  "refused_key_prefix = ''refused-before-content:''"

definition record_refusal :: "'f libraries \<Rightarrow> string \<Rightarrow> string \<Rightarrow> string \<Rightarrow> outcome \<Rightarrow> diagnostic list \<Rightarrow> string \<Rightarrow> version_row \<Rightarrow> database
    \<Rightarrow> draft_error + (change_result \<times> database) option" where
  "record_refusal L v asset uuid refusal ds o' row db =
     (let key = refused_key_prefix @ uuid; current = current_of row in
      case claim_attempt v Upload_attempt key (fingerprint L (upload_json asset [])) current o' db of
        Inl _ \<Rightarrow> Inl Attempt_closed
      | Inr db1 \<Rightarrow> and_then (complete_attempt v key refusal current ds db1) (\<lambda>db2. Inr (Some (decided refusal current ds, db2))))"

subsection \<open>Receiving an upload\<close>

text \<open>
  What an upload finds before it reads a byte (\<open>lookUpUpload\<close>), and what it does next (\<open>upload\<close>): it
  is refused without reading, too large, a retry of an attempt, or an attempt of its own, whose content
  is registered and stored first.
\<close>

record upload_lookup =
  ul_existing :: "attempt option"
  ul_declaration :: "asset_declaration option"
  ul_refusal :: "outcome option"

definition look_up_upload :: "'f libraries \<Rightarrow> string \<Rightarrow> string \<Rightarrow> string \<Rightarrow> database \<Rightarrow> draft_error + (version_row \<times> upload_lookup)" where
  "look_up_upload L v asset key db =
     (case find_version db v of None \<Rightarrow> Inl Draft_not_found
      | Some row \<Rightarrow>
          (let existing = db_attempts db (v, key) in
           if \<not> editable row then Inr (row, \<lparr>ul_existing = existing, ul_declaration = None, ul_refusal = Some Not_editable\<rparr>)
           else case find_revision db v (current_of row) of None \<Rightarrow> Inl (Missing_revision v (current_of row))
           | Some r \<Rightarrow> (case map_of (declarations_of L db r) asset of
                None \<Rightarrow> Inr (row, \<lparr>ul_existing = existing, ul_declaration = None, ul_refusal = Some Not_declared\<rparr>)
              | Some d \<Rightarrow> Inr (row, \<lparr>ul_existing = existing, ul_declaration = Some d, ul_refusal = None\<rparr>))))"

datatype upload_next = Refuse outcome "diagnostic list" | Replay attempt received | Attach received

definition max_draft_asset_bytes :: int where "max_draft_asset_bytes = 50 * 2 ^ 20"

definition upload_step :: "'f libraries \<Rightarrow> (string \<Rightarrow> string option) \<Rightarrow> string \<Rightarrow> string \<Rightarrow> upload_lookup \<Rightarrow> upload_next" where
  "upload_step L detect asset content found =
     (case (ul_existing found, ul_refusal found) of
        (None, Some out) \<Rightarrow> Refuse out []
      | _ \<Rightarrow>
          (let limit = (case ul_declaration found of None \<Rightarrow> max_draft_asset_bytes | Some d \<Rightarrow> max_asset_bytes (ad_type d));
               x = receive L detect asset (ul_declaration found) content limit in
           case ul_existing found of Some existing \<Rightarrow> Replay existing x
           | None \<Rightarrow> if rd_refusal x = Some Too_large then Refuse Too_large (rd_diagnostics x) else Attach x))"

definition replay_upload :: "'f libraries \<Rightarrow> attempt \<Rightarrow> received \<Rightarrow> draft_error + change_result" where
  "replay_upload L existing x =
     (if rd_refusal x = Some Too_large then Inl Key_conflict
      else replay existing (fingerprint L (upload_json (rd_key x) (ab_sha (rd_binding x)))))"

definition asset_prefix :: string where "asset_prefix = ''game-versions/assets''"

definition store_asset :: "'f libraries \<Rightarrow> received \<Rightarrow> database \<Rightarrow> database" where
  "store_asset L x db = (if rd_refusal x = None then register_asset (locator_for L asset_prefix (rd_content x)) db else db)"

subsection \<open>Creating a draft\<close>

datatype create_outcome = Draft_created | Already_created | Another_open

record created_draft =
  cd_outcome :: create_outcome
  cd_version :: string
  cd_revision :: int

definition sdk_profile :: string where "sdk_profile = ''sdk-v1''"

text \<open>Revision 1: the starter template, or the current revision of an executable version of the game.\<close>

definition first_revision :: "'f libraries \<Rightarrow> source_write list \<Rightarrow> string \<Rightarrow> string \<Rightarrow> database
    \<Rightarrow> draft_error + (revision \<times> provenance \<times> (string \<times> string) list)" where
  "first_revision L template g source db =
     (let prov = \<lparr>pv_kind = Template_revision, pv_origin = [], pv_actor = Platform, pv_parent = None, pv_restored = None,
                 pv_from = None, pv_sdk = sdk_profile\<rparr> in
      if source = [] then
        (let starter = apply_change L [] template [] in
         if ap_diagnostics starter \<noteq> [] then Inl Broken_template
         else Inr (\<lparr>rv_files = ap_files starter, rv_assets = []\<rparr>, prov, ap_contents starter))
      else case find_version db source of None \<Rightarrow> Inl Not_executable
      | Some row \<Rightarrow>
          (case vn_current row of None \<Rightarrow> Inl Not_executable
           | Some n \<Rightarrow>
               if vn_game row \<noteq> g \<or> vn_status row \<noteq> Executable then Inl Not_executable
               else case find_revision db source n of None \<Rightarrow> Inl (Missing_revision source n)
               | Some r \<Rightarrow> Inr (r, prov\<lparr>pv_kind := Edition_revision, pv_from := Some (g, source, Some n)\<rparr>, [])))"

text \<open>\<open>open\<close> is the game's version in DRAFT status, if it has one: there is at most one.\<close>

definition create_draft_in_tx :: "'f libraries \<Rightarrow> source_write list \<Rightarrow> string \<Rightarrow> string \<Rightarrow> string \<Rightarrow> string option \<Rightarrow> database
    \<Rightarrow> draft_error + (created_draft \<times> database)" where
  "create_draft_in_tx L template g v source open db0 =
     (let db = lock_game g db0 in
      case find_version db v of
        Some row \<Rightarrow>
          if vn_game row \<noteq> g \<or> vn_status row \<noteq> Draft then Inl Version_conflict
          else (case vn_current row of None \<Rightarrow> Inl Without_revision
            | Some n \<Rightarrow> Inr (\<lparr>cd_outcome = Already_created, cd_version = v, cd_revision = n\<rparr>, db))
      | None \<Rightarrow>
          (case open of Some w \<Rightarrow>
              Inr (\<lparr>cd_outcome = Another_open, cd_version = w,
                    cd_revision = (case find_version db w of None \<Rightarrow> 0 | Some row \<Rightarrow> current_of row)\<rparr>, db)
           | None \<Rightarrow>
              and_then (first_revision L template g source db) (\<lambda>(r, prov, contents).
              and_then (create_version g v Draft sdk_profile 1 db) (\<lambda>db1.
              and_then (create_revision v 1 r prov (store_contents contents db1)) (\<lambda>db2.
              and_then (queue_build v 1 db2) (\<lambda>db3.
              Inr (\<lparr>cd_outcome = Draft_created, cd_version = v, cd_revision = 1\<rparr>, db3)))))))"

end
