(* ===== verification/DraftBuilds.thy ===== *)
theory DraftBuilds
  imports DraftSteps ScriptAccepted GameManifest
begin

section \<open>Building a revision and freezing a version\<close>

text \<open>
  The workflow \<open>play/session/workflows/versionbuilding\<close>, which runs the queued builds, the package
  \<open>business/build\<close>, and the step of \<open>versiondrafting\<close> that turns a DRAFT into an executable version.

  What a build asks of the outside is an argument, \<open>build_world\<close>: the version of the game toolchain, what
  it makes of the sources, whether the object store takes the artifacts, and the JavaScript parser the
  script check uses. The script check and the manifest parser are those of this development.
\<close>

subsection \<open>A build's inputs\<close>

definition entries_json :: "(string \<times> string) list \<Rightarrow> json" where
  "entries_json es = JList (map (\<lambda>(p, h). JObj [(''p'', JStr p), (''h'', JStr h)]) es)"

definition inputs_sha :: "'f libraries \<Rightarrow> revision \<Rightarrow> string \<Rightarrow> string" where
  "inputs_sha L r toolchain = go_sha L (go_text L (JObj [(''t'', JStr toolchain),
     (''f'', entries_json (map (\<lambda>(p, f). (p, sf_sha f)) (rv_files r))),
     (''a'', entries_json (map (\<lambda>(k, b). (k, ab_sha b)) (rv_assets r)))]))"

definition revision_hashes :: "revision \<Rightarrow> string list" where
  "revision_hashes r = sort (map (\<lambda>(p, f). sf_sha f) (rv_files r))"

subsection \<open>What the toolchain answers\<close>

record build_output =
  bo_ok :: bool
  bo_problems :: "string list"
  bo_server :: string
  bo_client :: string
  bo_manifest :: string
  bo_aspect :: string
  bo_languages :: "string list"
  bo_keyboard :: bool
  bo_hover :: bool
  bo_press :: bool

datatype build_answer = Built build_output | Timed_out | Unavailable | Tool_failed

record build_world =
  bw_version :: "string option"
  bw_build :: "(string \<times> string) list \<Rightarrow> build_answer"
  bw_stores :: bool
  bw_parse :: "string \<Rightarrow> string + script"

text \<open>
  The folder a path names under the build's directory: \<open>depth\<close> counts the segments \<open>filepath.Join\<close>
  keeps. A path that climbs out of the directory, or names the directory itself, is broken data.
\<close>

fun stays_inside :: "nat \<Rightarrow> string list \<Rightarrow> bool" where
  "stays_inside depth [] = (0 < depth)"
| "stays_inside depth (s # ss) =
     (if s = [] \<or> s = ''.'' then stays_inside depth ss
      else if s = ''..'' then 0 < depth \<and> stays_inside (depth - 1) ss
      else stays_inside (Suc depth) ss)"

fun written_sources :: "source_files \<Rightarrow> (string \<times> string) list \<Rightarrow> (string \<times> string) list option" where
  "written_sources [] contents = Some []"
| "written_sources ((p, f) # fs) contents =
     (case map_of contents (sf_sha f) of None \<Rightarrow> None
      | Some c \<Rightarrow> if stays_inside 0 (split_at (CHR ''/'') p) then map_option (\<lambda>rest. (p, c) # rest) (written_sources fs contents) else None)"

definition build_sources :: "build_world \<Rightarrow> revision \<Rightarrow> (string \<times> string) list \<Rightarrow> build_answer" where
  "build_sources W r contents = (case written_sources (rv_files r) contents of None \<Rightarrow> Tool_failed | Some files \<Rightarrow> bw_build W files)"

text \<open>What the runtime would refuse of a built game. The script check always answers.\<close>

definition script_problems :: "build_world \<Rightarrow> string \<Rightarrow> build_problem list option" where
  "script_problems W server = map_option (map (\<lambda>x. Script_problem (pos_line (position x)) (pos_column (position x))))
     (validate (bw_parse W) profile_sdk_v1 server)"

definition check_output :: "'f libraries \<Rightarrow> build_world \<Rightarrow> build_output \<Rightarrow> build_problem list option" where
  "check_output L W out = map_option (\<lambda>problems. problems
       @ (case parse_manifest (float_ops.truncate (go_numbers L)) (go_json L (bo_manifest out)) of Inl _ \<Rightarrow> [Manifest_problem] | Inr _ \<Rightarrow> [])
       @ (if resolution (bo_aspect out) = None then [Aspect_problem] else []))
     (script_problems W (bo_server out))"

subsection \<open>Running a build\<close>

record build_end =
  be_status :: build_status
  be_artifacts :: artifacts

definition failed_end :: "build_problem list \<Rightarrow> artifacts \<Rightarrow> build_end" where
  "failed_end problems a = \<lparr>be_status = Failed, be_artifacts = a\<lparr>bf_problems := problems\<rparr>\<rparr>"

definition infrastructure_end :: "platform_code \<Rightarrow> artifacts \<Rightarrow> build_end" where
  "infrastructure_end code a = failed_end [Platform_problem code] a"

definition script_prefix :: string where "script_prefix = ''game-versions/backend-scripts''"
definition frontend_prefix :: string where "frontend_prefix = ''game-versions/frontend-packages''"

definition reused :: "nat \<Rightarrow> build_row \<Rightarrow> artifacts \<Rightarrow> artifacts" where
  "reused i b a = (bu_artifacts b)\<lparr>bf_problems := [], bf_inputs := bf_inputs a, bf_toolchain := bf_toolchain a, bf_reused := Some i\<rparr>"

text \<open>The artifacts are registered before they are stored; a store that fails is the platform's failure.\<close>

definition store_artifacts :: "'f libraries \<Rightarrow> build_world \<Rightarrow> build_output \<Rightarrow> artifacts \<Rightarrow> database \<Rightarrow> build_end \<times> database" where
  "store_artifacts L W out a db =
     (let server = locator_for L script_prefix (bo_server out); client = locator_for L frontend_prefix (bo_client out);
          db' = register_artifact client (register_artifact server db) in
      if \<not> bw_stores W then (infrastructure_end Storage_failed a, db')
      else (\<lparr>be_status = Succeeded, be_artifacts = a\<lparr>bf_server := Some server, bf_client := Some client,
               bf_manifest := bo_manifest out, bf_aspect := Some (bo_aspect out), bf_languages := bo_languages out,
               bf_keyboard := Some (bo_keyboard out), bf_hover := Some (bo_hover out), bf_press := Some (bo_press out)\<rparr>\<rparr>, db'))"

definition built_end :: "'f libraries \<Rightarrow> build_world \<Rightarrow> revision \<Rightarrow> artifacts \<Rightarrow> database \<Rightarrow> (build_end \<times> database) option" where
  "built_end L W r a db =
     (case build_sources W r (find_contents db (revision_hashes r)) of
        Timed_out \<Rightarrow> Some (infrastructure_end Build_timeout a, db)
      | Unavailable \<Rightarrow> Some (infrastructure_end Toolchain_unavailable a, db)
      | Tool_failed \<Rightarrow> Some (infrastructure_end Toolchain_failed a, db)
      | Built out \<Rightarrow>
          if \<not> bo_ok out then Some (failed_end (map Tool_problem (bo_problems out)) a, db)
          else (case check_output L W out of None \<Rightarrow> None
            | Some problems \<Rightarrow> if problems \<noteq> [] then Some (failed_end problems a, db) else Some (store_artifacts L W out a db)))"

text \<open>\<open>runBuild\<close>, whose error \<open>RunNextBuild\<close> records as the platform's own failure.\<close>

definition run_build :: "'f libraries \<Rightarrow> build_world \<Rightarrow> string \<Rightarrow> int \<Rightarrow> database \<Rightarrow> (build_end \<times> database) option" where
  "run_build L W v n db =
     (case find_revision db v n of None \<Rightarrow> Some (infrastructure_end Internal_error no_artifacts, db)
      | Some r \<Rightarrow> (case bw_version W of None \<Rightarrow> Some (infrastructure_end Toolchain_unavailable no_artifacts, db)
        | Some toolchain \<Rightarrow>
            (let a = no_artifacts\<lparr>bf_inputs := inputs_sha L r toolchain, bf_toolchain := toolchain\<rparr> in
             case find_reusable db v (bf_inputs a) Succeeded of
               Some i \<Rightarrow> Some (\<lparr>be_status = Succeeded, be_artifacts = reused i (db_builds db ! i) a\<rparr>, db)
             | None \<Rightarrow> built_end L W r a db)))"

definition run_next_build :: "'f libraries \<Rightarrow> build_world \<Rightarrow> database \<Rightarrow> (bool \<times> database) option" where
  "run_next_build L W db =
     (case claim_oldest [] Queued Running db of None \<Rightarrow> Some (False, db)
      | Some (i, db1) \<Rightarrow>
          map_option (\<lambda>(e, db2). (True, snd (finish_build i Running (be_status e) (be_artifacts e) db2)))
            (run_build L W (bu_version (db_builds db1 ! i)) (bu_revision (db_builds db1 ! i)) db1))"

text \<open>\<open>for m.runOne(ctx) {}\<close>: one build after another until none is queued. \<open>W n\<close> is the world of the n-th.\<close>

partial_function (option) run_all :: "'f libraries \<Rightarrow> (nat \<Rightarrow> build_world) \<Rightarrow> nat \<Rightarrow> database \<Rightarrow> database option" where
  "run_all L W n db =
     (case run_next_build L (W n) db of None \<Rightarrow> None
      | Some r \<Rightarrow> if fst r then run_all L W (Suc n) (snd r) else Some (snd r))"

subsection \<open>Freezing a version\<close>

datatype blocker = Build_missing | Build_not_succeeded build_status | Missing_assets "string list" | Revision_changed

datatype freeze_outcome = Frozen_now | Already_frozen | Not_ready

record freeze_result =
  fr_outcome :: freeze_outcome
  fr_revision :: int
  fr_blockers :: "blocker list"
  fr_languages :: "string list"

record checked_revision =
  ck_built :: "build_row option"
  ck_revision :: revision
  ck_declared :: "(string \<times> asset_declaration) list"
  ck_blockers :: "blocker list"

definition check_revision :: "'f libraries \<Rightarrow> string \<Rightarrow> int \<Rightarrow> database \<Rightarrow> draft_error + checked_revision" where
  "check_revision L v n db =
     (let (blocked, built) = (case find_build db v n of None \<Rightarrow> ([Build_missing], None)
            | Some b \<Rightarrow> if bu_status b \<noteq> Succeeded then ([Build_not_succeeded (bu_status b)], None) else ([], Some b)) in
      case find_revision db v n of None \<Rightarrow> Inl (Missing_revision v n)
      | Some r \<Rightarrow>
          (let declared = declarations_of L db r;
               missing = map fst (filter (\<lambda>(k, d). map_of (rv_assets r) k = None \<and> \<not> ad_optional d) declared) in
           Inr \<lparr>ck_built = built, ck_revision = r, ck_declared = declared,
                ck_blockers = blocked @ (if missing = [] then [] else [Missing_assets (sort missing)])\<rparr>))"

definition frozen_languages :: "string list \<Rightarrow> draft_error + string list" where
  "frozen_languages ls = (if ls = [] \<or> \<not> list_all valid_language ls then Inl No_languages else Inr ls)"

definition version_assets :: "checked_revision \<Rightarrow> database \<Rightarrow> draft_error + version_asset list" where
  "version_assets c db =
     sum_list_map (\<lambda>(k, b). case db_objects db (ab_sha b) of None \<Rightarrow> Inl (Unregistered_asset k)
        | Some object \<Rightarrow> Inr \<lparr>va_key = k, va_type = (case map_of (ck_declared c) k of None \<Rightarrow> [] | Some d \<Rightarrow> ad_type d),
                            va_binding = b, va_object = object\<rparr>)
       (filter (\<lambda>(k, b). map_of (ck_declared c) k \<noteq> None) (rv_assets (ck_revision c)))"

definition version_requirements :: "string \<Rightarrow> artifacts \<Rightarrow> draft_error + requirements" where
  "version_requirements prof a =
     (if prof \<noteq> sdk_profile then Inl Missing_requirements
      else case (bf_keyboard a, bf_hover a, bf_press a) of
        (Some k, Some h, Some p) \<Rightarrow>
          (let r = \<lparr>re_keyboard = k, re_hover = h, re_press = p, re_devices = devices_for k h p\<rparr> in
           if requirements_ok r then Inr r else Inl Missing_requirements)
      | _ \<Rightarrow> Inl Missing_requirements)"

text \<open>What the version keeps from its succeeded build; one without its artifacts is broken data.\<close>

definition frozen_artifacts :: "artifacts \<Rightarrow> draft_error + frozen" where
  "frozen_artifacts a =
     (case (bf_server a, bf_client a, bf_aspect a) of
        (Some server, Some client, Some aspect) \<Rightarrow>
          if bf_manifest a = [] \<or> bf_languages a = [] then Inl Missing_artifacts
          else Inr \<lparr>fz_server = server, fz_client = client, fz_manifest = bf_manifest a, fz_aspect = aspect,
                   fz_languages = bf_languages a, fz_assets = [], fz_requirements = None\<rparr>
      | _ \<Rightarrow> Inl Missing_artifacts)"

definition check_publication :: "'f libraries \<Rightarrow> string \<Rightarrow> version_row \<Rightarrow> database \<Rightarrow> draft_error + blocker list option" where
  "check_publication L v row db =
     (if \<not> editable row then Inr None
      else and_then (check_revision L v (current_of row) db) (\<lambda>c. Inr (Some (ck_blockers c))))"

text \<open>The row was read under the game's lock, in an earlier statement than the update.\<close>

definition freeze_in_tx :: "'f libraries \<Rightarrow> string \<Rightarrow> string \<Rightarrow> int \<Rightarrow> version_row \<Rightarrow> database \<Rightarrow> draft_error + (freeze_result \<times> database)" where
  "freeze_in_tx L g v n row db0 =
     (let current = current_of row; db = lock_game g db0 in
      if vn_game row \<noteq> g then Inl Version_conflict
      else case vn_status row of
        Executable \<Rightarrow> (case vn_frozen row of None \<Rightarrow> Inl No_languages
          | Some fz \<Rightarrow> and_then (frozen_languages (fz_languages fz)) (\<lambda>ls.
              Inr (\<lparr>fr_outcome = Already_frozen, fr_revision = current, fr_blockers = [], fr_languages = ls\<rparr>, db)))
      | Other_status s \<Rightarrow> Inl Unknown_status
      | Draft \<Rightarrow>
          if vn_current row = None then Inl Without_revision
          else if current \<noteq> n then
            Inr (\<lparr>fr_outcome = Not_ready, fr_revision = current, fr_blockers = [Revision_changed], fr_languages = []\<rparr>, db)
          else and_then (check_revision L v current db) (\<lambda>c.
            case (ck_blockers c, ck_built c) of
              ([], Some b) \<Rightarrow>
                and_then (frozen_artifacts (bu_artifacts b)) (\<lambda>fz.
                case freeze_row v Draft Executable fz db of
                  (False, _) \<Rightarrow> Inl Stopped_being_draft
                | (True, db1) \<Rightarrow>
                    and_then (version_assets c db1) (\<lambda>assets.
                    and_then (version_requirements (vn_profile row) (bu_artifacts b)) (\<lambda>r.
                    and_then (frozen_languages (fz_languages fz)) (\<lambda>ls.
                    Inr (\<lparr>fr_outcome = Frozen_now, fr_revision = current, fr_blockers = [], fr_languages = ls\<rparr>,
                         set_current_version g v (create_requirements v r (create_version_assets v assets db1)))))))
            | (blockers, _) \<Rightarrow> Inr (\<lparr>fr_outcome = Not_ready, fr_revision = current, fr_blockers = blockers, fr_languages = []\<rparr>, db)))"

end
