(* ===== verification/DraftSystem.thy ===== *)
theory DraftSystem
  imports DraftBuilds
begin

section \<open>Drafting as concurrent transactions\<close>

text \<open>
  The steps of every transaction and worker over one database, at Read Committed. A transaction that
  changes a version first reads its row (\<open>begin\<close>) and then, in one step, claims its key, decides,
  writes and commits (\<open>commit\<close>). The reduction to these two steps keeps every behaviour: what the
  decision reads besides the row (revisions, contents, completed attempts) is never rewritten, a key
  claimed earlier keeps other claims of it waiting until the commit, and the compare and swap of
  \<open>AdvanceRevision\<close> locks the row it changes until then. So the row is the only thing that can be stale.
  An asset's loop that lost its race reads the row again (\<open>race\<close>) and gives up at the third; any error,
  and any failure of the database, rolls back (\<open>rollback\<close>). Creating a draft and freezing hold the lock
  of the game; a freeze reads the version's row before its update, and other transactions may commit
  between.
\<close>

datatype draft_request = Change_req draft_change | Restore_req restore_request
  | Attach_req received string string | Remove_req string string string

fun request_key :: "draft_request \<Rightarrow> string" where
  "request_key (Change_req c) = dc_key c"
| "request_key (Restore_req q) = rq_key q"
| "request_key (Attach_req x key o') = key"
| "request_key (Remove_req asset key o') = key"

fun request_json :: "draft_request \<Rightarrow> json" where
  "request_json (Change_req c) = change_json c"
| "request_json (Restore_req q) = restore_json q"
| "request_json (Attach_req x key o') = upload_json (rd_key x) (ab_sha (rd_binding x))"
| "request_json (Remove_req asset key o') = removal_json asset"

definition request_ok :: "'f libraries \<Rightarrow> draft_request \<Rightarrow> bool" where
  "request_ok L req \<longleftrightarrow> (case req of
      Change_req c \<Rightarrow> change_request_ok c
    | Restore_req q \<Rightarrow> restore_request_ok q
    | Attach_req x key o' \<Rightarrow> key \<noteq> [] \<and> valid_origin o'
        \<and> (\<exists>detect asset d content limit. limit \<le> max_draft_asset_bytes \<and> x = receive L detect asset d content limit)
    | Remove_req asset key o' \<Rightarrow> key \<noteq> [] \<and> valid_origin o')"

definition run_request :: "'f libraries \<Rightarrow> string \<Rightarrow> int \<Rightarrow> version_row \<Rightarrow> draft_request \<Rightarrow> database
    \<Rightarrow> draft_error + (change_result \<times> database) option" where
  "run_request L v base row req = (case req of
      Change_req c \<Rightarrow> apply_changes_in_tx L v c row
    | Restore_req q \<Rightarrow> restore_in_tx L v q row
    | Attach_req x key o' \<Rightarrow> attach_in_tx L v x key o' base row
    | Remove_req asset key o' \<Rightarrow> remove_in_tx L v asset key o' base row)"

record running =
  rn_version :: string
  rn_request :: draft_request
  rn_row :: version_row
  rn_base :: int
  rn_races :: nat

record freezing =
  fg_game :: string
  fg_version :: string
  fg_revision :: int
  fg_row :: version_row

record system =
  sy_db :: database
  sy_running :: "nat \<Rightarrow> running option"
  sy_freezing :: "nat \<Rightarrow> freezing option"
  sy_workers :: "nat \<Rightarrow> build_end option option"

definition max_revision_races :: nat where "max_revision_races = 3"

text \<open>Before anything was drafted: versions without authored sources, and nothing of what drafting stores.\<close>

definition undrafted :: "database \<Rightarrow> bool" where
  "undrafted db \<longleftrightarrow> (\<forall>v row. db_versions db v = Some row \<longrightarrow> vn_current row = None)
     \<and> db_revisions db = Map.empty \<and> db_contents db = Map.empty \<and> db_attempts db = Map.empty \<and> db_builds db = [] \<and> db_changes db = []"

inductive draft_step :: "'f libraries \<Rightarrow> source_write list \<Rightarrow> system \<Rightarrow> system \<Rightarrow> bool" for L template where
  begin_tx: "\<lbrakk>sy_running s t = None; find_version (sy_db s) v = Some row; request_ok L req\<rbrakk> \<Longrightarrow>
     draft_step L template s (s\<lparr>sy_running := (sy_running s)(t \<mapsto>
       \<lparr>rn_version = v, rn_request = req, rn_row = row, rn_base = current_of row, rn_races = 0\<rparr>)\<rparr>)"
| commit_tx: "\<lbrakk>sy_running s t = Some r;
     run_request L (rn_version r) (rn_base r) (rn_row r) (rn_request r) (sy_db s) = Inr (Some (res, db))\<rbrakk> \<Longrightarrow>
     draft_step L template s (s\<lparr>sy_db := db, sy_running := (sy_running s)(t := None)\<rparr>)"
| race_tx: "\<lbrakk>sy_running s t = Some r;
     run_request L (rn_version r) (rn_base r) (rn_row r) (rn_request r) (sy_db s) = Inr None;
     rn_races r + 1 < max_revision_races; find_version (sy_db s) (rn_version r) = Some row\<rbrakk> \<Longrightarrow>
     draft_step L template s (s\<lparr>sy_running := (sy_running s)(t \<mapsto> r\<lparr>rn_row := row, rn_races := rn_races r + 1\<rparr>)\<rparr>)"
| rollback_tx: "draft_step L template s (s\<lparr>sy_running := (sy_running s)(t := None)\<rparr>)"
| refuse_upload: "record_refusal L v asset uuid refusal ds o' row (sy_db s) = Inr (Some (res, db)) \<Longrightarrow>
     \<not> makes_revision refusal \<Longrightarrow> draft_step L template s (s\<lparr>sy_db := db\<rparr>)"
| store_upload: "draft_step L template s (s\<lparr>sy_db := store_asset L x (sy_db s)\<rparr>)"
| create: "\<lbrakk>case opened of None \<Rightarrow> \<forall>w. \<not> is_draft_of (sy_db s) g w | Some w \<Rightarrow> is_draft_of (sy_db s) g w;
     create_draft_in_tx L template g v source opened (sy_db s) = Inr (res, db)\<rbrakk> \<Longrightarrow>
     draft_step L template s (s\<lparr>sy_db := db\<rparr>)"
| begin_freeze: "\<lbrakk>sy_freezing s t = None; find_version (sy_db s) v = Some row\<rbrakk> \<Longrightarrow>
     draft_step L template s (s\<lparr>sy_freezing := (sy_freezing s)(t \<mapsto> \<lparr>fg_game = g, fg_version = v, fg_revision = n, fg_row = row\<rparr>)\<rparr>)"
| commit_freeze: "\<lbrakk>sy_freezing s t = Some f;
     freeze_in_tx L (fg_game f) (fg_version f) (fg_revision f) (fg_row f) (sy_db s) = Inr (fres, db)\<rbrakk> \<Longrightarrow>
     draft_step L template s (s\<lparr>sy_db := db, sy_freezing := (sy_freezing s)(t := None)\<rparr>)"
| rollback_freeze: "draft_step L template s (s\<lparr>sy_freezing := (sy_freezing s)(t := None)\<rparr>)"
| requeue: "draft_step L template s (s\<lparr>sy_db := requeue_all Running Queued (sy_db s)\<rparr>)"
| claim_build: "claim_oldest held Queued Running (sy_db s) = Some (i, db) \<Longrightarrow>
     draft_step L template s (s\<lparr>sy_db := db, sy_workers := (sy_workers s)(i \<mapsto> None)\<rparr>)"
| run_claimed: "\<lbrakk>sy_workers s i = Some None;
     run_build L W (bu_version (db_builds (sy_db s) ! i)) (bu_revision (db_builds (sy_db s) ! i)) (sy_db s) = Some (e, db)\<rbrakk> \<Longrightarrow>
     draft_step L template s (s\<lparr>sy_db := db, sy_workers := (sy_workers s)(i \<mapsto> Some e)\<rparr>)"
| finish_claimed: "\<lbrakk>sy_workers s i = Some (Some e);
     finish_build i Running (be_status e) (be_artifacts e) (sy_db s) = (done, db)\<rbrakk> \<Longrightarrow>
     draft_step L template s (s\<lparr>sy_db := db, sy_workers := (sy_workers s)(i := None)\<rparr>)"

inductive draft_steps :: "'f libraries \<Rightarrow> source_write list \<Rightarrow> system \<Rightarrow> system \<Rightarrow> bool" for L template where
  no_step: "draft_steps L template s s"
| one_more: "draft_steps L template s s1 \<Longrightarrow> draft_step L template s1 s2 \<Longrightarrow> draft_steps L template s s2"

definition started :: "database \<Rightarrow> system" where
  "started db = \<lparr>sy_db = db, sy_running = Map.empty, sy_freezing = Map.empty, sy_workers = Map.empty\<rparr>"

definition draft_reachable :: "'f libraries \<Rightarrow> source_write list \<Rightarrow> system \<Rightarrow> bool" where
  "draft_reachable L template s \<longleftrightarrow> (\<exists>db. undrafted db \<and> draft_steps L template (started db) s)"

subsection \<open>What holds of the database\<close>

text \<open>The revisions of a version are numbered from 1 to its current one.\<close>

definition numbered_ok :: "database \<Rightarrow> bool" where
  "numbered_ok db \<longleftrightarrow> (\<forall>v k. db_revisions db (v, k) \<noteq> None \<longleftrightarrow>
     (\<exists>row n. db_versions db v = Some row \<and> vn_current row = Some n \<and> 1 \<le> k \<and> k \<le> n))
   \<and> (\<forall>v row n. db_versions db v = Some row \<longrightarrow> vn_current row = Some n \<longrightarrow> 1 \<le> n)"

text \<open>What a revision holds: a project that obeys the rules, whose contents are stored, and assets within the limit.\<close>

definition assets_ok :: "asset_bindings \<Rightarrow> bool" where
  "assets_ok as \<longleftrightarrow> sorted_keys as \<and> list_all (\<lambda>(k, b). 0 \<le> ab_size b) as \<and> sum_list (map (\<lambda>(k, b). ab_size b) as) \<le> max_assets_bytes"

definition content_ok :: "database \<Rightarrow> revision \<Rightarrow> bool" where
  "content_ok db r \<longleftrightarrow> project_ok (rv_files r) \<and> list_all (\<lambda>(p, f). db_contents db (sf_sha f) \<noteq> None) (rv_files r) \<and> assets_ok (rv_assets r)"

text \<open>Where it comes from: what it changed of the revision before it, or what it copied.\<close>

definition first_of :: "database \<Rightarrow> revision_row \<Rightarrow> bool" where
  "first_of db rr \<longleftrightarrow> pv_parent (rr_provenance rr) = None
     \<and> (pv_kind (rr_provenance rr) = Template_revision \<and> rv_assets (rr_revision rr) = []
        \<or> pv_kind (rr_provenance rr) = Edition_revision
          \<and> (\<exists>g source m. pv_from (rr_provenance rr) = Some (g, source, Some m) \<and> find_revision db source m = Some (rr_revision rr)))"

definition follows_from :: "'f libraries \<Rightarrow> database \<Rightarrow> string \<Rightarrow> int \<Rightarrow> revision_row \<Rightarrow> bool" where
  "follows_from L db v k rr \<longleftrightarrow> pv_parent (rr_provenance rr) = Some k
     \<and> (\<exists>prev. find_revision db v k = Some prev
        \<and> (pv_kind (rr_provenance rr) = Change_revision \<and> rv_assets (rr_revision rr) = rv_assets prev
             \<and> (\<exists>writes deletes. allowed_change L (rv_files prev) writes deletes (rv_files (rr_revision rr)))
           \<or> pv_kind (rr_provenance rr) = Asset_revision \<and> rv_files (rr_revision rr) = rv_files prev
           \<or> pv_kind (rr_provenance rr) = Restore_revision
             \<and> (\<exists>m. pv_restored (rr_provenance rr) = Some m \<and> m \<le> k \<and> find_revision db v m = Some (rr_revision rr))))"

definition revisions_ok :: "'f libraries \<Rightarrow> database \<Rightarrow> bool" where
  "revisions_ok L db \<longleftrightarrow> (\<forall>v k rr. db_revisions db (v, k) = Some rr \<longrightarrow>
     content_ok db (rr_revision rr) \<and> (if k = 1 then first_of db rr else follows_from L db v (k - 1) rr))"

definition contents_ok :: "'f libraries \<Rightarrow> database \<Rightarrow> bool" where
  "contents_ok L db \<longleftrightarrow> (\<forall>h c. db_contents db h = Some c \<longrightarrow> go_sha L c = h)"

text \<open>Every attempt is decided, and each revision after the first was made by one of them.\<close>

definition attempts_ok :: "database \<Rightarrow> bool" where
  "attempts_ok db \<longleftrightarrow>
     (\<forall>v key a. db_attempts db (v, key) = Some a \<longrightarrow> (\<exists>out n. am_outcome a = Some out \<and> am_revision a = Some n
        \<and> (makes_revision out \<longrightarrow> (\<exists>rr. db_revisions db (v, n) = Some rr \<and> pv_origin (rr_provenance rr) = am_origin a))))
   \<and> (\<forall>v k1 k2 a1 a2 o1 o2 n. db_attempts db (v, k1) = Some a1 \<longrightarrow> db_attempts db (v, k2) = Some a2 \<longrightarrow>
        am_outcome a1 = Some o1 \<longrightarrow> am_outcome a2 = Some o2 \<longrightarrow> makes_revision o1 \<longrightarrow> makes_revision o2 \<longrightarrow>
        am_revision a1 = Some n \<longrightarrow> am_revision a2 = Some n \<longrightarrow> k1 = k2)"

text \<open>Each revision has one build, which has its end exactly when it succeeded or failed.\<close>

definition build_key :: "build_row \<Rightarrow> string \<times> int" where
  "build_key b = (bu_version b, bu_revision b)"

definition builds_ok :: "database \<Rightarrow> bool" where
  "builds_ok db \<longleftrightarrow> distinct (map build_key (db_builds db))
     \<and> (\<forall>v k. db_revisions db (v, k) \<noteq> None \<longleftrightarrow> (v, k) \<in> build_key ` set (db_builds db))
     \<and> (\<forall>b\<in>set (db_builds db). bu_finished b \<longleftrightarrow> bu_status b = Succeeded \<or> bu_status b = Failed)"

definition store_ok :: "'f libraries \<Rightarrow> database \<Rightarrow> bool" where
  "store_ok L db \<longleftrightarrow> numbered_ok db \<and> revisions_ok L db \<and> contents_ok L db \<and> attempts_ok db \<and> builds_ok db"

text \<open>What never changes from one database to a later one.\<close>

definition grows :: "database \<Rightarrow> database \<Rightarrow> bool" where
  "grows db db' \<longleftrightarrow> db_revisions db \<subseteq>\<^sub>m db_revisions db' \<and> db_contents db \<subseteq>\<^sub>m db_contents db' \<and> db_attempts db \<subseteq>\<^sub>m db_attempts db'
     \<and> (\<forall>v row. db_versions db v = Some row \<longrightarrow> (\<exists>row'. db_versions db' v = Some row' \<and> vn_game row' = vn_game row
          \<and> current_of row \<le> current_of row' \<and> (vn_status row = Executable \<longrightarrow> row' = row)))
     \<and> length (db_builds db) \<le> length (db_builds db')
     \<and> (\<forall>i<length (db_builds db). build_key (db_builds db' ! i) = build_key (db_builds db ! i)
          \<and> (bu_finished (db_builds db ! i) \<longrightarrow> db_builds db' ! i = db_builds db ! i))"

end
