(* ===== verification/DraftKept.thy ===== *)
theory DraftKept
  imports DraftSystem
begin

section \<open>Every step keeps the database well formed\<close>

text \<open>
  One lemma per kind of statement or decision, over \<open>store_ok\<close> (what holds of a database) and \<open>grows\<close>
  (what a step leaves as it was), put together for the steps of the system at the end.
\<close>

subsection \<open>An accepted change\<close>

lemma apply_accepted:
  assumes "files_ok current" and "ap_diagnostics (apply_change L current writes deletes) = []"
  shows "allowed_change L current writes deletes (ap_files (apply_change L current writes deletes))"
    and "\<forall>h c. map_of (ap_contents (apply_change L current writes deletes)) h = Some c \<longrightarrow> go_sha L c = h"
    and "\<forall>(p, f)\<in>set (ap_files (apply_change L current writes deletes)).
      (p, f) \<in> set current \<or> map_of (ap_contents (apply_change L current writes deletes)) (sf_sha f) \<noteq> None"
proof -
  let ?a = "apply_change L current writes deletes" and ?n = "next_files L current writes deletes"
  have c: "changes_allowed L current writes deletes" using apply_change_refused assms(2) by blast
  have ok: "project_ok ?n" and a: "?a = \<lparr>ap_files = ?n, ap_contents = written_contents L writes, ap_diagnostics = []\<rparr>"
    using apply_change_allowed[OF assms(1) c] assms(2) project_problems_Nil[OF files_ok_next[OF assms(1) c]]
    by (auto simp: Let_def split: if_splits)
  show "allowed_change L current writes deletes (ap_files ?a)"
    using ok c by (simp add: a allowed_change_next[OF assms(1)])
  show "\<forall>h c. map_of (ap_contents ?a) h = Some c \<longrightarrow> go_sha L c = h"
    using written_contents_hash[of L writes] by (simp add: a)
  have "sorted_keys ?n" using ok by (simp add: project_ok_def files_ok_def)
  then have d: "distinct (map fst ?n)" by (rule sorted_keys_distinct)
  show "\<forall>(p, f)\<in>set (ap_files ?a). (p, f) \<in> set current \<or> map_of (ap_contents ?a) (sf_sha f) \<noteq> None"
  proof (clarsimp simp: a)
    fix p f assume pf: "(p, f) \<in> set ?n" "map_of (written_contents L writes) (sf_sha f) = None"
    have "changed_files L current writes deletes p = Some f"
      using map_of_next_files[OF c] d pf(1) by (metis map_of_is_SomeI)
    then consider "map_of (map (\<lambda>w. (wr_path w, file_of L (wr_content w))) writes) p = Some f" | "map_of current p = Some f"
      by (auto simp: changed_files_def split: if_splits option.splits)
    then show "(p, f) \<in> set current"
    proof cases
      case 1
      then obtain w where "w \<in> set writes" "f = file_of L (wr_content w)" by (auto dest!: map_of_SomeD)
      then show ?thesis using pf(2) written_contents_have[of w writes L] by (simp add: file_of_def)
    qed (rule map_of_SomeD)
  qed
qed

subsection \<open>Builds that move\<close>

text \<open>Builds of one status moved to another, and nothing else changed.\<close>

definition same_rest :: "database \<Rightarrow> database \<Rightarrow> bool" where
  "same_rest db db' \<longleftrightarrow> db_versions db' = db_versions db \<and> db_revisions db' = db_revisions db
     \<and> db_contents db' = db_contents db \<and> db_attempts db' = db_attempts db"

definition moved :: "build_status \<Rightarrow> build_status \<Rightarrow> database \<Rightarrow> database \<Rightarrow> bool" where
  "moved old new db db' \<longleftrightarrow> same_rest db db'
     \<and> length (db_builds db') = length (db_builds db)
     \<and> (\<forall>i<length (db_builds db). db_builds db' ! i = db_builds db ! i
          \<or> bu_status (db_builds db ! i) = old \<and> db_builds db' ! i = (db_builds db ! i)\<lparr>bu_status := new\<rparr>)"

lemma moved_refl: "moved old new db db"
  by (simp add: moved_def same_rest_def)

lemma moved_status: "old \<noteq> new \<Longrightarrow> moved old new db db1 \<Longrightarrow> moved old new db (snd (change_status i old new db1))"
  by (auto simp: moved_def same_rest_def change_status_def nth_list_update)

lemma moved_fold: "old \<noteq> new \<Longrightarrow> moved old new db db1 \<Longrightarrow> moved old new db (fold (\<lambda>i d. snd (change_status i old new d)) is db1)"
  by (induction "is" arbitrary: db1) (simp_all add: moved_status)

lemma moved_fields:
  assumes "moved old new db db'"
  shows "db_versions db' = db_versions db" "db_revisions db' = db_revisions db" "db_contents db' = db_contents db"
    "db_attempts db' = db_attempts db" "length (db_builds db') = length (db_builds db)"
  using assms by (simp_all add: moved_def same_rest_def)

lemma moved_keys: "moved old new db db' \<Longrightarrow> map build_key (db_builds db') = map build_key (db_builds db)"
  by (rule nth_equalityI) (auto simp: moved_def build_key_def)

lemma moved_key_set: "moved old new db db' \<Longrightarrow> build_key ` set (db_builds db') = build_key ` set (db_builds db)"
  using moved_keys[of old new db db'] by (metis list.set_map)

text \<open>What the parts of \<open>store_ok\<close> depend on.\<close>

lemma store_ok_cong:
  assumes "db_versions db' = db_versions db" "db_revisions db' = db_revisions db" "db_contents db' = db_contents db"
    "db_attempts db' = db_attempts db" and "builds_ok db \<Longrightarrow> builds_ok db'"
  shows "store_ok L db \<Longrightarrow> store_ok L db'"
proof -
  have "find_revision db' = find_revision db" using assms(2) by (simp add: fun_eq_iff find_revision_def)
  then have "first_of db' = first_of db" "follows_from L db' = follows_from L db"
    by (simp_all add: first_of_def follows_from_def fun_eq_iff)
  moreover have "content_ok db' = content_ok db" using assms(3) by (simp add: content_ok_def fun_eq_iff)
  ultimately have "revisions_ok L db' = revisions_ok L db" using assms(2) by (simp add: revisions_ok_def)
  moreover have "numbered_ok db' = numbered_ok db" "contents_ok L db' = contents_ok L db" "attempts_ok db' = attempts_ok db"
    using assms by (simp_all add: numbered_ok_def contents_ok_def attempts_ok_def)
  ultimately show "store_ok L db \<Longrightarrow> store_ok L db'" using assms(5) by (simp add: store_ok_def)
qed

lemma builds_ok_same:
  assumes "builds_ok db" "db_revisions db' = db_revisions db" "map build_key (db_builds db') = map build_key (db_builds db)"
    and "\<forall>b\<in>set (db_builds db'). bu_finished b \<longleftrightarrow> bu_status b = Succeeded \<or> bu_status b = Failed"
  shows "builds_ok db'"
proof -
  have "build_key ` set (db_builds db') = build_key ` set (db_builds db)"
    using assms(3) by (metis list.set_map)
  then show ?thesis using assms by (simp add: builds_ok_def)
qed

lemma db_grows_refl: "grows db db"
  by (simp add: grows_def)

lemma grows_version:
  "grows a b \<Longrightarrow> db_versions a v = Some row \<Longrightarrow> \<exists>row'. db_versions b v = Some row' \<and> vn_game row' = vn_game row
     \<and> current_of row \<le> current_of row' \<and> (vn_status row = Executable \<longrightarrow> row' = row)"
  by (simp add: grows_def)

lemma grows_build:
  "grows a b \<Longrightarrow> i < length (db_builds a) \<Longrightarrow> i < length (db_builds b) \<and> build_key (db_builds b ! i) = build_key (db_builds a ! i)
     \<and> (bu_finished (db_builds a ! i) \<longrightarrow> db_builds b ! i = db_builds a ! i)"
  by (simp add: grows_def)

lemma grows_maps:
  "grows a b \<Longrightarrow> db_revisions a \<subseteq>\<^sub>m db_revisions b" "grows a b \<Longrightarrow> db_contents a \<subseteq>\<^sub>m db_contents b"
  "grows a b \<Longrightarrow> db_attempts a \<subseteq>\<^sub>m db_attempts b" "grows a b \<Longrightarrow> length (db_builds a) \<le> length (db_builds b)"
  by (simp_all add: grows_def)

lemma growsI:
  assumes "db_revisions a \<subseteq>\<^sub>m db_revisions b" "db_contents a \<subseteq>\<^sub>m db_contents b" "db_attempts a \<subseteq>\<^sub>m db_attempts b"
    and "\<And>v row. db_versions a v = Some row \<Longrightarrow> \<exists>row'. db_versions b v = Some row' \<and> vn_game row' = vn_game row
       \<and> current_of row \<le> current_of row' \<and> (vn_status row = Executable \<longrightarrow> row' = row)"
    and "length (db_builds a) \<le> length (db_builds b)"
    and "\<And>i. i < length (db_builds a) \<Longrightarrow> build_key (db_builds b ! i) = build_key (db_builds a ! i)
       \<and> (bu_finished (db_builds a ! i) \<longrightarrow> db_builds b ! i = db_builds a ! i)"
  shows "grows a b"
  using assms by (simp add: grows_def)

lemma db_grows_trans:
  assumes "grows a b" "grows b c"
  shows "grows a c"
proof -
  have "\<exists>row''. db_versions c v = Some row'' \<and> vn_game row'' = vn_game row \<and> current_of row \<le> current_of row''
      \<and> (vn_status row = Executable \<longrightarrow> row'' = row)" if v: "db_versions a v = Some row" for v row
  proof -
    obtain row' where r: "db_versions b v = Some row'" "vn_game row' = vn_game row" "current_of row \<le> current_of row'"
      "vn_status row = Executable \<longrightarrow> row' = row" using grows_version[OF assms(1) v] by blast
    obtain row'' where "db_versions c v = Some row''" "vn_game row'' = vn_game row'" "current_of row' \<le> current_of row''"
      "vn_status row' = Executable \<longrightarrow> row'' = row'" using grows_version[OF assms(2) r(1)] by blast
    then show ?thesis using r by auto
  qed
  moreover have "build_key (db_builds c ! i) = build_key (db_builds a ! i) \<and> (bu_finished (db_builds a ! i) \<longrightarrow> db_builds c ! i = db_builds a ! i)"
    if "i < length (db_builds a)" for i
    using grows_build[OF assms(1) that] grows_build[OF assms(2), of i] by auto
  ultimately show ?thesis
    by (intro growsI map_le_trans[OF grows_maps(1)[OF assms(1)] grows_maps(1)[OF assms(2)]]
        map_le_trans[OF grows_maps(2)[OF assms(1)] grows_maps(2)[OF assms(2)]]
        map_le_trans[OF grows_maps(3)[OF assms(1)] grows_maps(3)[OF assms(2)]]
        le_trans[OF grows_maps(4)[OF assms(1)] grows_maps(4)[OF assms(2)]])
qed

lemma grows_builds:
  assumes "db_versions db' = db_versions db" "db_revisions db' = db_revisions db" "db_contents db' = db_contents db"
    "db_attempts db' = db_attempts db" "length (db_builds db) \<le> length (db_builds db')"
    "\<forall>i<length (db_builds db). build_key (db_builds db' ! i) = build_key (db_builds db ! i)
       \<and> (bu_finished (db_builds db ! i) \<longrightarrow> db_builds db' ! i = db_builds db ! i)"
  shows "grows db db'"
  using assms by (auto simp: grows_def)

definition unfinished_status :: "build_status \<Rightarrow> bool" where
  "unfinished_status s \<longleftrightarrow> s \<noteq> Succeeded \<and> s \<noteq> Failed"

lemma moved_finished:
  assumes "moved old new db db'" "unfinished_status old" "unfinished_status new" "builds_ok db"
  shows "\<forall>i<length (db_builds db). bu_finished (db_builds db ! i) \<longrightarrow> db_builds db' ! i = db_builds db ! i"
    and "\<forall>b\<in>set (db_builds db'). bu_finished b \<longleftrightarrow> bu_status b = Succeeded \<or> bu_status b = Failed"
proof -
  have f: "bu_finished (db_builds db ! i) \<longleftrightarrow> bu_status (db_builds db ! i) = Succeeded \<or> bu_status (db_builds db ! i) = Failed"
    if "i < length (db_builds db)" for i using assms(4) that by (simp add: builds_ok_def)
  show "\<forall>i<length (db_builds db). bu_finished (db_builds db ! i) \<longrightarrow> db_builds db' ! i = db_builds db ! i"
    using assms(1,2) f by (auto simp: moved_def unfinished_status_def)
  show "\<forall>b\<in>set (db_builds db'). bu_finished b \<longleftrightarrow> bu_status b = Succeeded \<or> bu_status b = Failed"
  proof
    fix b assume "b \<in> set (db_builds db')"
    then obtain i where i: "i < length (db_builds db)" "b = db_builds db' ! i"
      using moved_fields(5)[OF assms(1)] by (metis in_set_conv_nth)
    then have "b = db_builds db ! i \<or> bu_status (db_builds db ! i) = old \<and> b = (db_builds db ! i)\<lparr>bu_status := new\<rparr>"
      using assms(1) by (simp add: moved_def)
    then show "bu_finished b \<longleftrightarrow> bu_status b = Succeeded \<or> bu_status b = Failed"
      using f[OF i(1)] assms(2,3) by (auto simp: unfinished_status_def)
  qed
qed

lemma moved_kept:
  assumes "moved old new db db'" "unfinished_status old" "unfinished_status new" "store_ok L db"
  shows "store_ok L db'" "grows db db'"
proof -
  have b: "builds_ok db" using assms(4) by (simp add: store_ok_def)
  note fin = moved_finished[OF assms(1-3) b] and keys = moved_keys[OF assms(1)]
  have "builds_ok db'" by (rule builds_ok_same[OF b moved_fields(2)[OF assms(1)] keys fin(2)])
  then show "store_ok L db'" using store_ok_cong[OF moved_fields(1-4)[OF assms(1)]] assms(4) by blast
  have "build_key (db_builds db' ! i) = build_key (db_builds db ! i)" if "i < length (db_builds db)" for i
    using keys that moved_fields(5)[OF assms(1)] by (metis nth_map)
  then show "grows db db'" using moved_fields[OF assms(1)] fin(1) by (intro grows_builds) auto
qed

lemma queue_build_Inr:
  assumes "queue_build v n db = Inr db'"
  shows "\<exists>db1 b. moved Queued Superseded db db1 \<and> build_key b = (v, n) \<and> bu_status b = Queued \<and> \<not> bu_finished b
    \<and> same_rest db1 db' \<and> db_builds db' = db_builds db1 @ [b] \<and> (v, n) \<notin> build_key ` set (db_builds db)"
proof -
  let ?db1 = "fold (\<lambda>i d. snd (change_status i Queued Superseded d)) (builds_where (\<lambda>b. bu_version b = v \<and> bu_status b = Queued) db) db"
  have m: "moved Queued Superseded db ?db1" by (rule moved_fold) (simp_all add: moved_refl)
  have "(v, n) \<notin> build_key ` set (db_builds ?db1)"
    using assms by (auto simp: queue_build_def Let_def build_key_def list_ex_iff split: if_splits)
  moreover have "build_key ` set (db_builds ?db1) = build_key ` set (db_builds db)"
    by (rule moved_key_set[OF m])
  ultimately have "(v, n) \<notin> build_key ` set (db_builds db)" by simp
  then show ?thesis using assms m
    by (intro exI[of _ ?db1] exI[of _ "\<lparr>bu_version = v, bu_revision = n, bu_status = Queued, bu_artifacts = no_artifacts, bu_finished = False\<rparr>"])
      (auto simp: queue_build_def Let_def build_key_def same_rest_def split: if_splits)
qed

end
