(* ===== verification/DraftMade.thy ===== *)
theory DraftMade
  imports DraftKept
begin

section \<open>What a decision writes\<close>

text \<open>
  A decision leaves the database as it was or makes exactly the next revision (\<open>made\<close>): one lemma per
  step of the workflow, over the one lemma of \<open>make_revision\<close>.
\<close>

definition fits_next :: "'f libraries \<Rightarrow> database \<Rightarrow> (string \<times> string) list \<Rightarrow> revision \<Rightarrow> bool" where
  "fits_next L db contents r \<longleftrightarrow> project_ok (rv_files r) \<and> assets_ok (rv_assets r)
     \<and> (\<forall>(p, f)\<in>set (rv_files r). db_contents db (sf_sha f) \<noteq> None \<or> map_of contents (sf_sha f) \<noteq> None)
     \<and> (\<forall>h c. map_of contents h = Some c \<longrightarrow> go_sha L c = h)"

definition made :: "'f libraries \<Rightarrow> string \<Rightarrow> string \<Rightarrow> database \<Rightarrow> change_result \<Rightarrow> database \<Rightarrow> bool" where
  "made L v o' db r db' \<longleftrightarrow> makes_revision (cg_outcome r) \<and> (\<exists>row current rr contents.
     db_versions db v = Some row \<and> vn_status row = Draft \<and> vn_current row = Some current
     \<and> db_revisions db (v, current + 1) = None \<and> cg_revision r = current + 1
     \<and> db_versions db' = (db_versions db)(v \<mapsto> row\<lparr>vn_current := Some (current + 1)\<rparr>)
     \<and> db_contents db' = (\<lambda>h. case db_contents db h of Some c \<Rightarrow> Some c | None \<Rightarrow> map_of contents h)
     \<and> db_revisions db' = (db_revisions db)((v, current + 1) \<mapsto> rr)
     \<and> db_attempts db' = db_attempts db \<and> db_builds db' = db_builds db
     \<and> pv_origin (rr_provenance rr) = o' \<and> fits_next L db contents (rr_revision rr) \<and> follows_from L db v current rr)"

definition decision_ok :: "'f libraries \<Rightarrow> string \<Rightarrow> string \<Rightarrow> database \<Rightarrow> decision \<Rightarrow> bool" where
  "decision_ok L v o' db d \<longleftrightarrow> (case d of Raced \<Rightarrow> True
     | Decided r db' \<Rightarrow> db' = db \<and> \<not> makes_revision (cg_outcome r) \<or> made L v o' db r db')"

lemma decided_simps [simp]:
  "cg_outcome (decided out n ds) = out" "cg_revision (decided out n ds) = n" "cg_diagnostics (decided out n ds) = ds"
  by (simp_all add: decided_def)

lemma decision_stays: "\<not> makes_revision out \<Longrightarrow> decision_ok L v o' db (Decided (decided out n ds) db)"
  by (simp add: decision_ok_def)

lemma outcomes_keep [simp]:
  "\<not> makes_revision Conflict" "\<not> makes_revision Invalid" "\<not> makes_revision Not_editable" "\<not> makes_revision Unchanged"
  "\<not> makes_revision Too_large" "\<not> makes_revision Not_declared" "makes_revision Applied" "makes_revision Attached" "makes_revision Unbound"
  by (simp_all add: makes_revision_def)

lemma make_revision_ok:
  assumes "make_revision v current contents r prov out lost db = Inr d" and "decision_ok L v o' db lost" "makes_revision out"
    and "pv_origin prov = o'" "fits_next L db contents r" "follows_from L db v current \<lparr>rr_revision = r, rr_provenance = prov\<rparr>"
  shows "decision_ok L v o' db d"
proof (cases "fst (advance_revision v Draft current db)")
  case False
  then have "d = lost" using assms(1) by (auto simp: make_revision_def split: prod.splits bool.splits)
  then show ?thesis using assms(2) by simp
next
  case True
  then obtain row where row: "db_versions db v = Some row" "vn_status row = Draft" "vn_current row = Some current"
    by (auto simp: advance_revision_def split: option.splits if_splits)
  then have a: "advance_revision v Draft current db =
      (True, db\<lparr>db_versions := (db_versions db)(v \<mapsto> row\<lparr>vn_current := Some (current + 1)\<rparr>)\<rparr>)"
    by (simp add: advance_revision_def)
  have "db_revisions db (v, current + 1) = None" and "d = Decided (decided out (current + 1) [])
      (store_contents contents (db\<lparr>db_versions := (db_versions db)(v \<mapsto> row\<lparr>vn_current := Some (current + 1)\<rparr>)\<rparr>)
        \<lparr>db_revisions := (db_revisions db)((v, current + 1) \<mapsto> \<lparr>rr_revision = r, rr_provenance = prov\<rparr>)\<rparr>)"
    using assms(1) by (auto simp: make_revision_def a create_revision_def store_contents_def and_then_Inr split: if_splits)
  then show ?thesis using row assms(3-)
    by (auto simp: decision_ok_def made_def store_contents_def
        intro!: exI[of _ row] exI[of _ current] exI[of _ "\<lparr>rr_revision = r, rr_provenance = prov\<rparr>"] exI[of _ contents])
qed

lemma revision_facts:
  assumes "revisions_ok L db" "find_revision db v k = Some r"
  shows "content_ok db r"
  using assms by (auto simp: revisions_ok_def find_revision_def)

lemma content_ok_fits: "content_ok db r \<Longrightarrow> fits_next L db [] r"
  by (auto simp: content_ok_def fits_next_def list_all_iff)

lemma content_ok_files: "content_ok db r \<Longrightarrow> files_ok (rv_files r)"
  by (simp add: content_ok_def project_ok_def)

lemma decide_change_ok:
  assumes "revisions_ok L db" "decide_change L v c row db = Inr d"
  shows "decision_ok L v (dc_origin c) db d"
proof -
  let ?n = "current_of row"
  show ?thesis
  proof (cases "editable row \<and> dc_base c = ?n")
    case False
    then show ?thesis using assms(2) by (auto simp: decide_change_def Let_def intro!: decision_stays split: if_splits)
  next
    case True
    then obtain r resolved where r: "find_revision db v ?n = Some r" and e: "resolve_in db (rv_files r) (dc_edits c) = Inr resolved"
      using assms(2) by (auto simp: decide_change_def Let_def and_then_Inr split: option.splits)
    have ok: "content_ok db r" using revision_facts[OF assms(1) r] .
    show ?thesis
    proof (cases resolved)
      case (Inl ds)
      then show ?thesis using assms(2) True r e by (auto simp: decide_change_def Let_def intro!: decision_stays)
    next
      case (Inr edited)
      let ?w = "dc_files c @ edited"
      let ?a = "apply_change L (rv_files r) ?w (dc_deletes c)"
      show ?thesis
      proof (cases "ap_diagnostics ?a = [] \<and> \<not> same_files (rv_files r) (ap_files ?a)")
        case False
        then show ?thesis using assms(2) True r e Inr by (auto simp: decide_change_def Let_def intro!: decision_stays split: if_splits)
      next
        case applied: True
        note acc = apply_accepted[OF content_ok_files[OF ok] conjunct1[OF applied]]
        let ?r = "\<lparr>rv_files = ap_files ?a, rv_assets = rv_assets r\<rparr>" and ?p = "written_by row Change_revision ?n (dc_origin c)"
        have m: "make_revision v ?n (ap_contents ?a) ?r ?p Applied (Decided (decided Conflict ?n []) db) db = Inr d"
          using assms(2) True r e Inr applied by (simp add: decide_change_def Let_def)
        have "fits_next L db (ap_contents ?a) ?r"
          using acc ok by (auto simp: fits_next_def content_ok_def allowed_change_def list_all_iff)
        moreover have "follows_from L db v ?n \<lparr>rr_revision = ?r, rr_provenance = ?p\<rparr>"
          using acc(1) r by (auto simp: follows_from_def written_by_def)
        ultimately show ?thesis
          by (intro make_revision_ok[OF m decision_stays]) (simp_all add: written_by_def)
      qed
    qed
  qed
qed

lemma decide_restore_ok:
  assumes "revisions_ok L db" "numbered_ok db" "decide_restore v q row db = Inr d"
  shows "decision_ok L v (rq_origin q) db d"
proof -
  let ?n = "current_of row"
  show ?thesis
  proof (cases "editable row \<and> rq_base q = ?n \<and> find_revision db v (rq_revision q) \<noteq> None")
    case False
    then show ?thesis using assms(3) by (auto simp: decide_restore_def Let_def intro!: decision_stays split: if_splits option.splits)
  next
    case True
    then obtain old now where r: "find_revision db v (rq_revision q) = Some old" "find_revision db v ?n = Some now"
      using assms(3) by (auto simp: decide_restore_def Let_def split: option.splits)
    show ?thesis
    proof (cases "same_revision now old")
      case same: True
      then show ?thesis using assms(3) True r by (auto simp: decide_restore_def Let_def intro!: decision_stays)
    next
      case False
      let ?p = "restored_by row ?n (rq_revision q) (rq_origin q)"
      have m: "make_revision v ?n [] old ?p Applied (Decided (decided Conflict ?n []) db) db = Inr d"
        using assms(3) True r False by (simp add: decide_restore_def Let_def)
      show ?thesis
      proof (cases "rq_revision q \<le> ?n")
        case le: True
        have "follows_from L db v ?n \<lparr>rr_revision = old, rr_provenance = ?p\<rparr>"
          using r le by (auto simp: follows_from_def restored_by_def written_by_def)
        then show ?thesis
          using content_ok_fits[OF revision_facts[OF assms(1) r(1)]]
          by (intro make_revision_ok[OF m decision_stays]) (simp_all add: restored_by_def written_by_def)
      next
        case gt: False
        have "db_revisions db (v, rq_revision q) \<noteq> None" using r(1) by (auto simp: find_revision_def)
        then obtain row' n' where "db_versions db v = Some row'" "vn_current row' = Some n'" "rq_revision q \<le> n'"
          using assms(2) by (auto simp: numbered_ok_def)
        then have "fst (advance_revision v Draft ?n db) = False" using gt by (auto simp: advance_revision_def)
        then have "d = Decided (decided Conflict ?n []) db" using m by (auto simp: make_revision_def split: prod.splits)
        then show ?thesis by (simp add: decision_stays)
      qed
    qed
  qed
qed

subsection \<open>Assets\<close>

definition received_ok :: "received \<Rightarrow> bool" where
  "received_ok x \<longleftrightarrow> (case rd_refusal x of None \<Rightarrow> 0 \<le> ab_size (rd_binding x) \<and> ab_size (rd_binding x) \<le> max_draft_asset_bytes
     | Some out \<Rightarrow> \<not> makes_revision out)"

lemma receive_ok: "limit \<le> max_draft_asset_bytes \<Longrightarrow> received_ok (receive L detect key d content limit)"
  by (auto simp: received_ok_def receive_def Let_def makes_revision_def)

definition sizes :: "asset_bindings \<Rightarrow> int" where
  "sizes as = sum_list (map (\<lambda>(k, b). ab_size b) as)"

lemma sizes_nonneg: "list_all (\<lambda>(k, b). 0 \<le> ab_size b) as \<Longrightarrow> 0 \<le> sizes as"
  by (induction as) (auto simp: sizes_def)

lemma sizes_filter: "list_all (\<lambda>(k, b). 0 \<le> ab_size b) as \<Longrightarrow> sizes (filter P as) \<le> sizes as"
  by (induction as) (auto simp: sizes_def)

lemma other_assets_size_exact:
  "list_all (\<lambda>(k, b). 0 \<le> ab_size b) as \<Longrightarrow> 0 \<le> own \<Longrightarrow> own + sizes as \<le> max_int64 \<Longrightarrow>
   other_assets_size key as own = own + sizes (filter (\<lambda>(k, b). k \<noteq> key) as)"
proof (induction as arbitrary: own)
  case (Cons x as)
  obtain k b where x: "x = (k, b)" by (cases x)
  have b: "0 \<le> ab_size b" "list_all (\<lambda>(k, b). 0 \<le> ab_size b) as" using Cons.prems x by simp_all
  have t: "sizes (x # as) = ab_size b + sizes as" using x by (simp add: sizes_def)
  have n: "0 \<le> sizes as" by (rule sizes_nonneg[OF b(2)])
  show ?case
  proof (cases "k = key")
    case True
    then have "other_assets_size key (x # as) own = other_assets_size key as own" using x by (simp add: other_assets_size_def)
    then show ?thesis using Cons.IH[of own] Cons.prems b t True x n by simp
  next
    case False
    have "wrap64 (own + ab_size b) = own + ab_size b"
      using Cons.prems b t n by (intro wrap64_id) (simp_all add: min_int64_def)
    then have "other_assets_size key (x # as) own = other_assets_size key as (own + ab_size b)"
      using x False by (simp add: other_assets_size_def)
    then show ?thesis using Cons.IH[of "own + ab_size b"] Cons.prems b t False x by (simp add: sizes_def)
  qed
qed (simp add: other_assets_size_def sizes_def)

lemma put_key_sizes:
  "sorted_keys as \<Longrightarrow> sizes (put_key key b as) = ab_size b + sizes (filter (\<lambda>(k, b). k \<noteq> key) as)"
proof (induction as)
  case (Cons x as)
  obtain k c where x: "x = (k, c)" by (cases x)
  have s: "\<forall>k'\<in>fst ` set as. k < k'" "sorted_keys as" using Cons.prems x by (simp_all add: sorted_keys_Cons)
  have f: "filter (\<lambda>(k, b). k \<noteq> key) as = as" if "key \<le> k"
    using s(1) that by (auto intro!: filter_True)
  consider "key < k" | "key = k" | "k < key" by (metis linorder_less_linear)
  then show ?case
  proof cases
    case 1
    then have "k \<noteq> key" by auto
    then show ?thesis using 1 x f by (simp add: sizes_def)
  next
    case 2
    then show ?thesis using x f by (simp add: sizes_def)
  next
    case 3
    then show ?thesis using x Cons.IH[OF s(2)] by (simp add: sizes_def)
  qed
qed (simp add: sizes_def)

lemma assets_ok_put:
  assumes "assets_ok as" "0 \<le> ab_size b" "ab_size b \<le> max_draft_asset_bytes"
    and "other_assets_size key as (ab_size b) \<le> max_assets_bytes"
  shows "assets_ok (put_key key b as)"
proof -
  have a: "sorted_keys as" "list_all (\<lambda>(k, b). 0 \<le> ab_size b) as" "sizes as \<le> max_assets_bytes"
    using assms(1) by (simp_all add: assets_ok_def sizes_def)
  have "ab_size b + sizes as \<le> max_int64"
    using assms(3) a(3) by (simp add: max_draft_asset_bytes_def max_assets_bytes_def max_int64_def)
  then have "sizes (put_key key b as) \<le> max_assets_bytes"
    using other_assets_size_exact[OF a(2) assms(2), of key] put_key_sizes[OF a(1)] assms(4) by simp
  moreover have "list_all (\<lambda>(k, b). 0 \<le> ab_size b) (put_key key b as)"
    using set_put_key[of key b as] a(2) assms(2) by (auto simp: list_all_iff)
  ultimately show ?thesis using a(1) by (simp add: assets_ok_def sizes_def sorted_put_key)
qed

lemma assets_ok_filter: "assets_ok as \<Longrightarrow> assets_ok (filter P as)"
  using sizes_filter[of as P] by (auto simp: assets_ok_def sizes_def list_all_iff sorted_filter_keys)

lemma asset_follows:
  assumes "find_revision db v n = Some r"
  shows "follows_from L db v n \<lparr>rr_revision = \<lparr>rv_files = rv_files r, rv_assets = as\<rparr>, rr_provenance = written_by row Asset_revision n o'\<rparr>"
  using assms by (simp add: follows_from_def written_by_def)

lemma asset_fits: "content_ok db r \<Longrightarrow> assets_ok as \<Longrightarrow> fits_next L db [] \<lparr>rv_files = rv_files r, rv_assets = as\<rparr>"
  by (auto simp: content_ok_def fits_next_def list_all_iff)

lemma raced_ok: "decision_ok L v o' db Raced"
  by (simp add: decision_ok_def)

lemma decide_remove_ok:
  assumes "revisions_ok L db" "decide_remove v key o' row db = Inr d"
  shows "decision_ok L v o' db d"
proof -
  let ?n = "current_of row"
  show ?thesis
  proof (cases "editable row \<and> (\<exists>r. find_revision db v ?n = Some r \<and> map_of (rv_assets r) key \<noteq> None)")
    case False
    then show ?thesis using assms(2) by (auto simp: decide_remove_def Let_def intro!: decision_stays split: if_splits option.splits)
  next
    case True
    then obtain r where r: "find_revision db v ?n = Some r" "map_of (rv_assets r) key \<noteq> None" by blast
    have ok: "content_ok db r" by (rule revision_facts[OF assms(1) r(1)])
    have m: "make_revision v ?n [] \<lparr>rv_files = rv_files r, rv_assets = filter (\<lambda>(k, b). k \<noteq> key) (rv_assets r)\<rparr>
        (written_by row Asset_revision ?n o') Unbound Raced db = Inr d"
      using assms(2) True r by (auto simp: decide_remove_def Let_def)
    have "assets_ok (filter (\<lambda>(k, b). k \<noteq> key) (rv_assets r))" using ok by (simp add: content_ok_def assets_ok_filter)
    then show ?thesis
      by (intro make_revision_ok[OF m raced_ok] asset_fits[OF ok] asset_follows[OF r(1)]) (simp_all add: written_by_def)
  qed
qed

lemma decide_attach_ok:
  assumes "revisions_ok L db" "received_ok x" "decide_attach L v x o' row db = Inr d"
  shows "decision_ok L v o' db d"
proof -
  let ?n = "current_of row" and ?key = "rd_key x"
  show ?thesis
  proof (cases "editable row \<and> rd_refusal x = None")
    case False
    then show ?thesis using assms(2,3)
      by (auto simp: decide_attach_def Let_def received_ok_def intro!: decision_stays split: if_splits option.splits)
  next
    case True
    then obtain r where r: "find_revision db v ?n = Some r"
      using assms(3) by (auto simp: decide_attach_def Let_def split: option.splits)
    have ok: "content_ok db r" by (rule revision_facts[OF assms(1) r])
    let ?m = "make_revision v ?n [] \<lparr>rv_files = rv_files r, rv_assets = put_key ?key (rd_binding x) (rv_assets r)\<rparr>
        (written_by row Asset_revision ?n o') Attached Raced db"
    have "decision_ok L v o' db d
      \<or> ?m = Inr d \<and> other_assets_size ?key (rv_assets r) (ab_size (rd_binding x)) \<le> max_assets_bytes"
      using assms(3) True r by (auto simp: decide_attach_def Let_def decision_stays split: option.splits if_splits)
    then show ?thesis
    proof (elim disjE conjE)
      assume "decision_ok L v o' db d"
      then show ?thesis .
    next
      assume m: "?m = Inr d" and le: "other_assets_size ?key (rv_assets r) (ab_size (rd_binding x)) \<le> max_assets_bytes"
      have "assets_ok (put_key ?key (rd_binding x) (rv_assets r))"
        using ok assms(2) True le by (intro assets_ok_put) (simp_all add: content_ok_def received_ok_def)
      then show ?thesis
        by (intro make_revision_ok[OF m raced_ok] asset_fits[OF ok] asset_follows[OF r]) (simp_all add: written_by_def)
    qed
  qed
qed

end
