(* ===== verification/DraftCommit.thy ===== *)
theory DraftCommit
  imports DraftMade
begin

section \<open>What a commit keeps\<close>

text \<open>
  A revision added to the database, its build queued and its attempt completed: each keeps its part of
  \<open>store_ok\<close>, and the four requests of a draft, which do all three, keep the whole.
\<close>

subsection \<open>A revision more\<close>

lemma find_revision_mono: "db_revisions db \<subseteq>\<^sub>m db_revisions db' \<Longrightarrow> find_revision db v k = Some r \<Longrightarrow> find_revision db' v k = Some r"
  by (auto simp: find_revision_def map_le_def dom_def)

lemma first_of_mono: "db_revisions db \<subseteq>\<^sub>m db_revisions db' \<Longrightarrow> first_of db rr \<Longrightarrow> first_of db' rr"
  using find_revision_mono[of db db'] by (auto simp: first_of_def)

lemma follows_from_mono: "db_revisions db \<subseteq>\<^sub>m db_revisions db' \<Longrightarrow> follows_from L db v k rr \<Longrightarrow> follows_from L db' v k rr"
  using find_revision_mono[of db db'] unfolding follows_from_def by meson

lemma content_ok_mono: "db_contents db \<subseteq>\<^sub>m db_contents db' \<Longrightarrow> content_ok db r \<Longrightarrow> content_ok db' r"
  by (auto simp: content_ok_def list_all_iff map_le_def dom_def)

definition revision_added :: "'f libraries \<Rightarrow> database \<Rightarrow> string \<Rightarrow> int \<Rightarrow> version_row \<Rightarrow> revision_row \<Rightarrow> (string \<times> string) list \<Rightarrow> database \<Rightarrow> bool" where
  "revision_added L db v k row rr contents db' \<longleftrightarrow> 1 \<le> k \<and> vn_current row = Some k \<and> db_revisions db (v, k) = None
     \<and> (case db_versions db v of None \<Rightarrow> k = 1 | Some old \<Rightarrow> vn_status old = Draft \<and> vn_game row = vn_game old \<and> vn_current old = Some (k - 1))
     \<and> db_versions db' = (db_versions db)(v \<mapsto> row)
     \<and> db_contents db' = (\<lambda>h. case db_contents db h of Some c \<Rightarrow> Some c | None \<Rightarrow> map_of contents h)
     \<and> db_revisions db' = (db_revisions db)((v, k) \<mapsto> rr)
     \<and> db_attempts db' = db_attempts db \<and> db_builds db' = db_builds db
     \<and> fits_next L db contents (rr_revision rr) \<and> (if k = 1 then first_of db rr else follows_from L db v (k - 1) rr)"

lemma added_maps:
  assumes "revision_added L db v k row rr contents db'"
  shows "db_revisions db \<subseteq>\<^sub>m db_revisions db'" "db_contents db \<subseteq>\<^sub>m db_contents db'"
  using assms by (auto simp: revision_added_def map_le_def dom_def)

lemma fits_content_ok:
  assumes "fits_next L db contents r" "db_contents db' = (\<lambda>h. case db_contents db h of Some c \<Rightarrow> Some c | None \<Rightarrow> map_of contents h)"
  shows "content_ok db' r"
  using assms by (auto simp: fits_next_def content_ok_def list_all_iff split: option.splits)

lemma added_numbered:
  assumes "revision_added L db v k row rr contents db'" "numbered_ok db"
  shows "numbered_ok db'"
proof -
  have f: "1 \<le> k" "vn_current row = Some k" "db_versions db' = (db_versions db)(v \<mapsto> row)"
    "db_revisions db' = (db_revisions db)((v, k) \<mapsto> rr)"
    "case db_versions db v of None \<Rightarrow> k = 1 | Some old \<Rightarrow> vn_status old = Draft \<and> vn_game row = vn_game old \<and> vn_current old = Some (k - 1)"
    using assms(1) by (simp_all add: revision_added_def)
  have n: "db_revisions db (w, j) \<noteq> None \<longleftrightarrow> (\<exists>row n. db_versions db w = Some row \<and> vn_current row = Some n \<and> 1 \<le> j \<and> j \<le> n)" for w j
    using assms(2) by (simp add: numbered_ok_def)
  have "db_revisions db' (w, j) \<noteq> None \<longleftrightarrow> (\<exists>row n. db_versions db' w = Some row \<and> vn_current row = Some n \<and> 1 \<le> j \<and> j \<le> n)" for w j
  proof (cases "w = v")
    case True
    have "db_revisions db (v, j) \<noteq> None \<longleftrightarrow> 1 \<le> j \<and> j \<le> k - 1"
      using n[of v j] f(5) by (auto split: option.splits)
    then show ?thesis using True f(1-4) by auto
  qed (use n f in auto)
  moreover have "\<forall>w row n. db_versions db' w = Some row \<longrightarrow> vn_current row = Some n \<longrightarrow> 1 \<le> n"
    using assms(2) f by (auto simp: numbered_ok_def)
  ultimately show ?thesis unfolding numbered_ok_def by blast
qed

lemma added_revisions:
  assumes "revision_added L db v k row rr contents db'" "revisions_ok L db"
  shows "revisions_ok L db'"
  unfolding revisions_ok_def
proof (intro allI impI)
  fix w j x assume x: "db_revisions db' (w, j) = Some x"
  note m = added_maps[OF assms(1)]
  show "content_ok db' (rr_revision x) \<and> (if j = 1 then first_of db' x else follows_from L db' w (j - 1) x)"
  proof (cases "(w, j) = (v, k)")
    case True
    then have "x = rr" "w = v" "j = k" using x assms(1) by (auto simp: revision_added_def)
    moreover have "content_ok db' (rr_revision rr)"
      using assms(1) by (intro fits_content_ok) (auto simp: revision_added_def)
    moreover have "if k = 1 then first_of db rr else follows_from L db v (k - 1) rr"
      using assms(1) by (simp add: revision_added_def)
    ultimately show ?thesis using first_of_mono[OF m(1)] follows_from_mono[OF m(1)] by auto
  next
    case False
    then have "db_revisions db (w, j) = Some x" using x assms(1) by (auto simp: revision_added_def split: if_splits)
    then have "content_ok db (rr_revision x) \<and> (if j = 1 then first_of db x else follows_from L db w (j - 1) x)"
      using assms(2) by (simp add: revisions_ok_def)
    then show ?thesis using first_of_mono[OF m(1)] follows_from_mono[OF m(1)] content_ok_mono[OF m(2)] by auto
  qed
qed

lemma added_contents:
  assumes "revision_added L db v k row rr contents db'" "contents_ok L db"
  shows "contents_ok L db'"
  using assms by (auto simp: revision_added_def contents_ok_def fits_next_def split: option.splits)

lemma added_versions:
  assumes "revision_added L db v k row rr contents db'" "db_versions db w = Some old"
  shows "\<exists>row'. db_versions db' w = Some row' \<and> vn_game row' = vn_game old \<and> current_of old \<le> current_of row'
     \<and> (vn_status old = Executable \<longrightarrow> row' = old)"
  using assms by (auto simp: revision_added_def current_of_def split: option.splits)

lemma made_added:
  assumes "made L v o' db r db'" "numbered_ok db"
  shows "\<exists>row rr contents. revision_added L db v (cg_revision r) row rr contents db' \<and> pv_origin (rr_provenance rr) = o'"
proof -
  obtain row current rr contents where m: "db_versions db v = Some row" "vn_status row = Draft" "vn_current row = Some current"
     "db_revisions db (v, current + 1) = None" "cg_revision r = current + 1"
     "db_versions db' = (db_versions db)(v \<mapsto> row\<lparr>vn_current := Some (current + 1)\<rparr>)"
     "db_contents db' = (\<lambda>h. case db_contents db h of Some c \<Rightarrow> Some c | None \<Rightarrow> map_of contents h)"
     "db_revisions db' = (db_revisions db)((v, current + 1) \<mapsto> rr)" "db_attempts db' = db_attempts db" "db_builds db' = db_builds db"
     "pv_origin (rr_provenance rr) = o'" "fits_next L db contents (rr_revision rr)" "follows_from L db v current rr"
    using assms(1) unfolding made_def by blast
  have "1 \<le> current" using assms(2) m(1,3) by (simp add: numbered_ok_def)
  then have "revision_added L db v (cg_revision r) (row\<lparr>vn_current := Some (current + 1)\<rparr>) rr contents db'"
    using m by (simp add: revision_added_def)
  then show ?thesis using m(11) by blast
qed

subsection \<open>Its build\<close>

definition builds_grow :: "database \<Rightarrow> database \<Rightarrow> bool" where
  "builds_grow db db' \<longleftrightarrow> length (db_builds db) \<le> length (db_builds db')
     \<and> (\<forall>i<length (db_builds db). build_key (db_builds db' ! i) = build_key (db_builds db ! i)
          \<and> (bu_finished (db_builds db ! i) \<longrightarrow> db_builds db' ! i = db_builds db ! i))"

lemma queue_kept:
  assumes "builds_ok db" "db_builds db' = db_builds db" "db_revisions db' = (db_revisions db)((v, k) \<mapsto> rr)"
    and "queue_build v k db' = Inr db''"
  shows "builds_ok db''" "same_rest db' db''" "builds_grow db db''"
proof -
  obtain db1 b where q: "moved Queued Superseded db' db1" "build_key b = (v, k)" "bu_status b = Queued" "\<not> bu_finished b"
    "same_rest db1 db''" "db_builds db'' = db_builds db1 @ [b]" "(v, k) \<notin> build_key ` set (db_builds db')"
    using queue_build_Inr[OF assms(4)] by blast
  define old where "old = db'\<lparr>db_revisions := db_revisions db\<rparr>"
  have ok: "builds_ok old" using assms(1,2) by (simp add: builds_ok_def old_def)
  have m: "moved Queued Superseded old (db1\<lparr>db_revisions := db_revisions old\<rparr>)"
    using q(1) by (simp add: moved_def same_rest_def old_def)
  have f: "\<forall>i<length (db_builds db'). bu_finished (db_builds db' ! i) \<longrightarrow> db_builds db1 ! i = db_builds db' ! i"
    "\<forall>b\<in>set (db_builds db1). bu_finished b \<longleftrightarrow> bu_status b = Succeeded \<or> bu_status b = Failed"
    using moved_finished[OF m _ _ ok] by (simp_all add: old_def unfinished_status_def)
  have keys: "map build_key (db_builds db1) = map build_key (db_builds db)"
    using moved_keys[OF q(1)] assms(2) by simp
  have len: "length (db_builds db1) = length (db_builds db)" using moved_fields(5)[OF q(1)] assms(2) by simp
  show "same_rest db' db''" using q(1,5) by (simp add: moved_def same_rest_def)
  then have r: "db_revisions db'' = (db_revisions db)((v, k) \<mapsto> rr)" using assms(3) by (simp add: same_rest_def)
  have ks: "build_key ` set (db_builds db1) = build_key ` set (db_builds db)" using keys by (metis list.set_map)
  show "builds_ok db''"
    using assms(1,2) q(2-4,7) f(2) keys ks r by (auto simp: builds_ok_def q(6))
  have "build_key (db_builds db1 ! i) = build_key (db_builds db ! i)" if "i < length (db_builds db)" for i
    using keys that len by (metis nth_map)
  then show "builds_grow db db''"
    using f(1) assms(2) len by (auto simp: builds_grow_def q(6) nth_append)
qed

subsection \<open>Its attempt\<close>

lemma attempts_added:
  assumes "attempts_ok db" "db_revisions db \<subseteq>\<^sub>m db_revisions db'" "db_attempts db' = (db_attempts db)((v, key) \<mapsto> a)"
    and "am_outcome a = Some out" "am_revision a = Some n" "db_attempts db (v, key) = None"
    and "makes_revision out \<Longrightarrow> db_revisions db (v, n) = None \<and> (\<exists>rr. db_revisions db' (v, n) = Some rr \<and> pv_origin (rr_provenance rr) = am_origin a)"
  shows "attempts_ok db'"
proof -
  have old: "\<exists>out n. am_outcome b = Some out \<and> am_revision b = Some n
      \<and> (makes_revision out \<longrightarrow> (\<exists>rr. db_revisions db (w, n) = Some rr \<and> pv_origin (rr_provenance rr) = am_origin b))"
    if "db_attempts db (w, k) = Some b" for w k b using assms(1) that by (simp add: attempts_ok_def)
  have le: "db_revisions db' (w, j) = Some rr" if "db_revisions db (w, j) = Some rr" for w j rr
    using assms(2) that by (auto simp: map_le_def dom_def)
  have fresh: "am_revision b \<noteq> Some n" if "makes_revision out" "db_attempts db (v, k) = Some b" "am_outcome b = Some o1" "makes_revision o1" for k b o1
    using old[OF that(2)] that assms(7) by auto
  show ?thesis
    unfolding attempts_ok_def
  proof (intro conjI allI impI)
    fix w k b assume b: "db_attempts db' (w, k) = Some b"
    show "\<exists>out n. am_outcome b = Some out \<and> am_revision b = Some n
      \<and> (makes_revision out \<longrightarrow> (\<exists>rr. db_revisions db' (w, n) = Some rr \<and> pv_origin (rr_provenance rr) = am_origin b))"
    proof (cases "(w, k) = (v, key)")
      case True
      then show ?thesis using b assms(3,4,5,7) by auto
    next
      case False
      then have "db_attempts db (w, k) = Some b" using b assms(3) by auto
      from old[OF this] show ?thesis using le by blast
    qed
  next
    fix w k1 k2 a1 a2 o1 o2 m
    assume *: "db_attempts db' (w, k1) = Some a1" "db_attempts db' (w, k2) = Some a2" "am_outcome a1 = Some o1" "am_outcome a2 = Some o2"
      "makes_revision o1" "makes_revision o2" "am_revision a1 = Some m" "am_revision a2 = Some m"
    have same: "k1 = k2" if "db_attempts db (w, k1) = Some a1" "db_attempts db (w, k2) = Some a2"
      using assms(1) that *(3-) unfolding attempts_ok_def by blast
    show "k1 = k2"
      using * same fresh assms(3-6) by (auto split: if_splits)
  qed
qed

subsection \<open>A request\<close>

definition decides_ok :: "'f libraries \<Rightarrow> string \<Rightarrow> string \<Rightarrow> (database \<Rightarrow> draft_error + decision) \<Rightarrow> bool" where
  "decides_ok L v o' decide \<longleftrightarrow> (\<forall>db d. revisions_ok L db \<longrightarrow> numbered_ok db \<longrightarrow> decide db = Inr d \<longrightarrow> decision_ok L v o' db d)"

end
