(* ===== verification/DraftRequests.thy ===== *)
theory DraftRequests
  imports DraftCommit
begin

section \<open>A request of a draft keeps the database\<close>

lemma parts_cong:
  assumes "db_versions db' = db_versions db" "db_revisions db' = db_revisions db" "db_contents db' = db_contents db"
  shows "numbered_ok db' = numbered_ok db" "revisions_ok L db' = revisions_ok L db" "contents_ok L db' = contents_ok L db"
proof -
  have "find_revision db' = find_revision db" using assms(2) by (simp add: fun_eq_iff find_revision_def)
  then have "first_of db' = first_of db" "follows_from L db' = follows_from L db" "content_ok db' = content_ok db"
    using assms(3) by (simp_all add: first_of_def follows_from_def content_ok_def fun_eq_iff)
  then show "numbered_ok db' = numbered_ok db" "revisions_ok L db' = revisions_ok L db" "contents_ok L db' = contents_ok L db"
    using assms by (simp_all add: numbered_ok_def revisions_ok_def contents_ok_def)
qed

lemma builds_cong: "db_builds db' = db_builds db \<Longrightarrow> db_revisions db' = db_revisions db \<Longrightarrow> builds_ok db' = builds_ok db"
  by (simp add: builds_ok_def)

lemma attempts_cong: "db_attempts db' = db_attempts db \<Longrightarrow> db_revisions db' = db_revisions db \<Longrightarrow> attempts_ok db' = attempts_ok db"
  by (simp add: attempts_ok_def)

lemma store_okD:
  assumes "store_ok L db"
  shows "numbered_ok db" "revisions_ok L db" "contents_ok L db" "attempts_ok db" "builds_ok db"
  using assms by (simp_all add: store_ok_def)

lemma complete_attempt_Inr:
  "complete_attempt v key out n ds db = Inr db' \<Longrightarrow> \<exists>a. db_attempts db (v, key) = Some a
     \<and> db' = db\<lparr>db_attempts := (db_attempts db)((v, key) \<mapsto> a\<lparr>am_outcome := Some out, am_revision := Some n, am_diagnostics := ds\<rparr>)\<rparr>"
  by (auto simp: complete_attempt_def split: option.splits if_splits)

text \<open>An attempt completed, over what its decision wrote.\<close>

lemma stayed_kept:
  assumes "store_ok L db" "db_attempts db (v, key) = None" "am_outcome a = Some out" "am_revision a = Some n" "\<not> makes_revision out"
    and "db' = db\<lparr>db_attempts := (db_attempts db)((v, key) \<mapsto> a)\<rparr>"
  shows "store_ok L db'" "grows db db'"
proof -
  have eq: "db_versions db' = db_versions db" "db_revisions db' = db_revisions db" "db_contents db' = db_contents db" "db_builds db' = db_builds db"
    by (simp_all add: assms(6))
  have "attempts_ok db'"
    by (rule attempts_added[OF store_okD(4)[OF assms(1)], of db' v key a out n]) (use assms(2-5) in \<open>simp_all add: assms(6)\<close>)
  then show "store_ok L db'"
    using store_okD[OF assms(1)] by (simp add: store_ok_def parts_cong[OF eq(1-3)] builds_cong[OF eq(4,2)])
  show "grows db db'" using assms(2) by (auto simp: grows_def assms(6) map_le_def)
qed

lemma made_kept:
  assumes "store_ok L db" "db_attempts db (v, key) = None" "am_origin a = o'"
    and "made L v o' (db\<lparr>db_attempts := (db_attempts db)((v, key) \<mapsto> a)\<rparr>) r db2" "queue_build v (cg_revision r) db2 = Inr db3"
    and "complete_attempt v key (cg_outcome r) (cg_revision r) (cg_diagnostics r) db3 = Inr db'"
  shows "store_ok L db'" "grows db db'"
proof -
  let ?db = "db\<lparr>db_attempts := (db_attempts db)((v, key) \<mapsto> a)\<rparr>"
  have pre: "numbered_ok ?db" "revisions_ok L ?db" "contents_ok L ?db" "builds_ok ?db"
    using store_okD[OF assms(1)] by (simp_all add: parts_cong[of ?db db] builds_cong[of ?db db])
  obtain row rr contents where added: "revision_added L ?db v (cg_revision r) row rr contents db2" "pv_origin (rr_provenance rr) = o'"
    using made_added[OF assms(4) pre(1)] by blast
  have b2: "db_builds db2 = db_builds ?db" "db_revisions db2 = (db_revisions ?db)((v, cg_revision r) \<mapsto> rr)" "db_attempts db2 = db_attempts ?db"
    using added(1) by (simp_all add: revision_added_def)
  have new: "db_revisions db (v, cg_revision r) = None" using added(1) by (simp add: revision_added_def)
  note q = queue_kept[OF pre(4) b2(1,2) assms(5)]
  have r3: "db_versions db3 = db_versions db2" "db_revisions db3 = db_revisions db2" "db_contents db3 = db_contents db2" "db_attempts db3 = db_attempts db2"
    using q(2) by (simp_all add: same_rest_def)
  let ?a = "a\<lparr>am_outcome := Some (cg_outcome r), am_revision := Some (cg_revision r), am_diagnostics := cg_diagnostics r\<rparr>"
  have d: "db' = db3\<lparr>db_attempts := (db_attempts db)((v, key) \<mapsto> ?a)\<rparr>"
    using complete_attempt_Inr[OF assms(6)] r3(4) b2(3) by auto
  have eq: "db_versions db' = db_versions db2" "db_revisions db' = db_revisions db2" "db_contents db' = db_contents db2"
    "db_builds db' = db_builds db3" "db_attempts db' = (db_attempts db)((v, key) \<mapsto> ?a)"
    using r3 by (simp_all add: d)
  have le: "db_revisions db \<subseteq>\<^sub>m db_revisions db'" "db_contents db \<subseteq>\<^sub>m db_contents db'"
    using added_maps[OF added(1)] eq by simp_all
  have "attempts_ok db'"
    by (rule attempts_added[OF store_okD(4)[OF assms(1)] le(1) eq(5)])
      (use assms(2,3) new added(2) in \<open>auto simp: eq(2) b2(2)\<close>)
  moreover have "builds_ok db'" using q(1) builds_cong[OF eq(4)] eq(2) r3(2) by simp
  ultimately show "store_ok L db'"
    using added_numbered[OF added(1) pre(1)] added_revisions[OF added(1) pre(2)] added_contents[OF added(1) pre(3)]
    by (simp add: store_ok_def parts_cong[OF eq(1-3)])
  have "\<exists>row'. db_versions db' w = Some row' \<and> vn_game row' = vn_game old \<and> current_of old \<le> current_of row'
     \<and> (vn_status old = Executable \<longrightarrow> row' = old)" if "db_versions db w = Some old" for w old
    using added_versions[OF added(1), of w old] that eq(1) by simp
  moreover have "db_attempts db \<subseteq>\<^sub>m db_attempts db'" using assms(2) eq(5) by (auto simp: map_le_def)
  ultimately show "grows db db'"
    using q(3) le eq(4) by (intro growsI) (simp_all add: builds_grow_def)
qed

lemma attempt_step_kept:
  assumes "store_ok L db" "attempt_step v kind key request base o' decide db = Inr (Some (r, db'))" "decides_ok L v o' decide"
  shows "store_ok L db' \<and> grows db db'"
proof (cases "db_attempts db (v, key)")
  case (Some existing)
  then have "db' = db" using assms(2) by (auto simp: attempt_step_def claim_attempt_def and_then_Inr)
  then show ?thesis using assms(1) db_grows_refl by simp
next
  case None
  define a where "a = \<lparr>am_kind = kind, am_request = request, am_base = base, am_origin = o', am_outcome = None, am_revision = None, am_diagnostics = []\<rparr>"
  let ?db = "db\<lparr>db_attempts := (db_attempts db)((v, key) \<mapsto> a)\<rparr>"
  obtain d where d: "decide ?db = Inr d" "settled v key d = Inr (Some (r, db'))"
    using assms(2) None by (auto simp: attempt_step_def claim_attempt_def and_then_Inr a_def)
  obtain db2 db3 where s: "d = Decided r db2" "(if makes_revision (cg_outcome r) then queue_build v (cg_revision r) db2 else Inr db2) = Inr db3"
    "complete_attempt v key (cg_outcome r) (cg_revision r) (cg_diagnostics r) db3 = Inr db'"
    using d(2) by (auto simp: settled_def and_then_Inr split: decision.splits)
  have "decision_ok L v o' ?db d"
    using assms(3) d(1) store_okD[OF assms(1)] by (simp add: decides_ok_def parts_cong[of ?db db])
  then consider "db2 = ?db" "\<not> makes_revision (cg_outcome r)" | "made L v o' ?db r db2" "makes_revision (cg_outcome r)"
    by (auto simp: s(1) decision_ok_def made_def)
  then show ?thesis
  proof cases
    case 1
    let ?a = "a\<lparr>am_outcome := Some (cg_outcome r), am_revision := Some (cg_revision r), am_diagnostics := cg_diagnostics r\<rparr>"
    have "db' = db\<lparr>db_attempts := (db_attempts db)((v, key) \<mapsto> ?a)\<rparr>"
      using s(2) 1 complete_attempt_Inr[OF s(3)] by auto
    then show ?thesis using stayed_kept[OF assms(1) None, of ?a] 1(2) by simp
  next
    case 2
    then have "queue_build v (cg_revision r) db2 = Inr db3" using s(2) by simp
    then show ?thesis using made_kept[OF assms(1) None _ 2(1) _ s(3)] by (simp add: a_def)
  qed
qed

lemma run_request_kept:
  assumes "store_ok L db" "request_ok L req" "run_request L v base row req db = Inr (Some (r, db'))"
  shows "store_ok L db' \<and> grows db db'"
proof (cases req)
  case (Change_req c)
  then show ?thesis using assms(3) decide_change_ok[of L _ v c row]
    by (auto intro!: attempt_step_kept[OF assms(1)] simp: run_request_def apply_changes_in_tx_def decides_ok_def)
next
  case (Restore_req q)
  then show ?thesis using assms(3) decide_restore_ok[of L _ v q row]
    by (auto intro!: attempt_step_kept[OF assms(1)] simp: run_request_def restore_in_tx_def decides_ok_def)
next
  case (Attach_req x key o')
  then have "received_ok x" using assms(2) receive_ok[where L = L] by (auto simp: request_ok_def)
  then show ?thesis using assms(3) decide_attach_ok[of L _ x v o' row] Attach_req
    by (auto intro!: attempt_step_kept[OF assms(1)] simp: run_request_def attach_in_tx_def decides_ok_def)
next
  case (Remove_req asset key o')
  then show ?thesis using assms(3) decide_remove_ok[of L _ v asset o' row]
    by (auto intro!: attempt_step_kept[OF assms(1)] simp: run_request_def remove_in_tx_def decides_ok_def)
qed

end
