(* ===== verification/DraftHistory.thy ===== *)
theory DraftHistory
  imports DraftRequests
begin

section \<open>The history of a game's drafts\<close>

text \<open>The remaining steps, and what every reachable database satisfies.\<close>

lemma rest_kept:
  assumes "store_ok L db" "db_versions db' = db_versions db" "db_revisions db' = db_revisions db" "db_contents db' = db_contents db"
    "db_attempts db' = db_attempts db" "db_builds db' = db_builds db"
  shows "store_ok L db' \<and> grows db db'"
  using store_ok_cong[OF assms(2-5)] builds_cong[OF assms(6,3)] assms by (auto simp: grows_def)

lemma lock_game_fields [simp]:
  "db_versions (lock_game g db) = db_versions db" "db_revisions (lock_game g db) = db_revisions db"
  "db_contents (lock_game g db) = db_contents db" "db_attempts (lock_game g db) = db_attempts db" "db_builds (lock_game g db) = db_builds db"
  by (simp_all add: lock_game_def split: option.splits)

lemma lock_game_kept: "store_ok L db \<Longrightarrow> store_ok L (lock_game g db) \<and> grows db (lock_game g db)"
  by (rule rest_kept) simp_all

lemma register_fields [simp]:
  "db_versions (register_asset l db) = db_versions db" "db_revisions (register_asset l db) = db_revisions db"
  "db_contents (register_asset l db) = db_contents db" "db_attempts (register_asset l db) = db_attempts db" "db_builds (register_asset l db) = db_builds db"
  "db_versions (register_artifact l db) = db_versions db" "db_revisions (register_artifact l db) = db_revisions db"
  "db_contents (register_artifact l db) = db_contents db" "db_attempts (register_artifact l db) = db_attempts db" "db_builds (register_artifact l db) = db_builds db"
  by (simp_all add: register_asset_def register_artifact_def split: option.splits)

lemma store_asset_kept: "store_ok L db \<Longrightarrow> store_ok L (store_asset L x db) \<and> grows db (store_asset L x db)"
  by (rule rest_kept) (simp_all add: store_asset_def)

lemma record_refusal_kept:
  assumes "store_ok L db" "record_refusal L v asset uuid refusal ds o' row db = Inr (Some (res, db'))" "\<not> makes_revision refusal"
  shows "store_ok L db' \<and> grows db db'"
proof -
  let ?key = "refused_key_prefix @ uuid"
  obtain db1 where c: "claim_attempt v Upload_attempt ?key (fingerprint L (upload_json asset [])) (current_of row) o' db = Inr db1"
    "complete_attempt v ?key refusal (current_of row) ds db1 = Inr db'"
    using assms(2) by (auto simp: record_refusal_def Let_def and_then_Inr split: sum.splits)
  obtain a where a: "db_attempts db (v, ?key) = None" "db1 = db\<lparr>db_attempts := (db_attempts db)((v, ?key) \<mapsto> a)\<rparr>"
    using c(1) by (auto simp: claim_attempt_def split: option.splits)
  let ?a = "a\<lparr>am_outcome := Some refusal, am_revision := Some (current_of row), am_diagnostics := ds\<rparr>"
  have "db' = db\<lparr>db_attempts := (db_attempts db)((v, ?key) \<mapsto> ?a)\<rparr>"
    using complete_attempt_Inr[OF c(2)] by (auto simp: a(2))
  then show ?thesis using stayed_kept[OF assms(1) a(1), of ?a] assms(3) by simp
qed

lemma attempts_mono:
  assumes "attempts_ok db" "db_revisions db \<subseteq>\<^sub>m db_revisions db'" "db_attempts db' = db_attempts db"
  shows "attempts_ok db'"
proof -
  have "db_revisions db' (w, j) = Some rr" if "db_revisions db (w, j) = Some rr" for w j rr
    using assms(2) that by (auto simp: map_le_def dom_def)
  then show ?thesis using assms(1) unfolding attempts_ok_def assms(3) by meson
qed

subsection \<open>Creating a draft\<close>

lemma first_revision_ok:
  assumes "first_revision L template g source db = Inr (r, prov, contents)" "revisions_ok L db"
  shows "fits_next L db contents r \<and> first_of db \<lparr>rr_revision = r, rr_provenance = prov\<rparr>"
proof (cases "source = []")
  case True
  let ?a = "apply_change L [] template []"
  have d: "ap_diagnostics ?a = []" and r: "r = \<lparr>rv_files = ap_files ?a, rv_assets = []\<rparr>" "contents = ap_contents ?a"
    "pv_kind prov = Template_revision" "pv_parent prov = None"
    using assms(1) True by (auto simp: first_revision_def Let_def split: if_splits)
  note acc = apply_accepted[OF _ d]
  have "files_ok []" by (simp add: files_ok_def sorted_keys_def)
  note acc = apply_accepted[OF this d]
  show ?thesis
    using acc by (auto simp: fits_next_def first_of_def r allowed_change_def assets_ok_def sorted_keys_def max_assets_bytes_def)
next
  case False
  then obtain row n where f: "find_revision db source n = Some r" "contents = []" "pv_kind prov = Edition_revision"
    "pv_from prov = Some (g, source, Some n)" "pv_parent prov = None"
    using assms(1) by (auto simp: first_revision_def Let_def split: option.splits if_splits)
  show ?thesis
    using content_ok_fits[OF revision_facts[OF assms(2) f(1)]] f by (auto simp: first_of_def)
qed

lemma create_kept:
  assumes "store_ok L db0" "create_draft_in_tx L template g v source open db0 = Inr (res, db')"
  shows "store_ok L db' \<and> grows db0 db'"
proof -
  let ?db = "lock_game g db0"
  note lk = lock_game_kept[OF assms(1), of g]
  show ?thesis
  proof (cases "find_version ?db v = None \<and> open = None")
    case False
    then have "db' = ?db" using assms(2) by (auto simp: create_draft_in_tx_def Let_def split: option.splits if_splits)
    then show ?thesis using lk by simp
  next
    case True
    then obtain r prov contents db1 db2 where s: "first_revision L template g source ?db = Inr (r, prov, contents)"
      "create_version g v Draft sdk_profile 1 ?db = Inr db1"
      "create_revision v 1 r prov (store_contents contents db1) = Inr db2" "queue_build v 1 db2 = Inr db'"
      using assms(2) by (auto simp: create_draft_in_tx_def Let_def and_then_Inr)
    let ?row = "\<lparr>vn_game = g, vn_status = Draft, vn_profile = sdk_profile, vn_current = Some 1, vn_frozen = None\<rparr>"
      and ?rr = "\<lparr>rr_revision = r, rr_provenance = prov\<rparr>"
    have ok: "numbered_ok ?db" "revisions_ok L ?db" "contents_ok L ?db" "attempts_ok ?db" "builds_ok ?db"
      using lk by (simp_all add: store_ok_def)
    have added: "revision_added L ?db v 1 ?row ?rr contents db2"
      using s(1-3) True first_revision_ok[OF s(1) ok(2)]
      by (auto simp: revision_added_def create_version_def create_revision_def store_contents_def find_version_def split: if_splits)
    have b: "db_builds db2 = db_builds ?db" "db_revisions db2 = (db_revisions ?db)((v, 1) \<mapsto> ?rr)" "db_attempts db2 = db_attempts ?db"
      using added unfolding revision_added_def by blast+
    note q = queue_kept[OF ok(5) b(1,2) s(4)]
    have eq: "db_versions db' = db_versions db2" "db_revisions db' = db_revisions db2" "db_contents db' = db_contents db2"
      "db_attempts db' = db_attempts ?db" using q(2) b(3) by (simp_all add: same_rest_def)
    note le = added_maps[OF added]
    have "attempts_ok db'"
      using attempts_mono[OF ok(4), of db'] le(1) eq(2,4) by simp
    then have st: "store_ok L db'"
      using added_numbered[OF added ok(1)] added_revisions[OF added ok(2)] added_contents[OF added ok(3)] q(1)
      by (simp add: store_ok_def parts_cong[OF eq(1-3)])
    have "\<exists>row'. db_versions db' w = Some row' \<and> vn_game row' = vn_game old \<and> current_of old \<le> current_of row'
       \<and> (vn_status old = Executable \<longrightarrow> row' = old)" if "db_versions ?db w = Some old" for w old
      using added_versions[OF added that] eq(1) by simp
    then have "grows ?db db'" using q(3) le eq by (intro growsI) (simp_all add: builds_grow_def)
    then show ?thesis using st lk db_grows_trans by blast
  qed
qed

subsection \<open>Freezing\<close>

lemma numbered_ok_alt:
  "numbered_ok db \<longleftrightarrow> (\<forall>v k. db_revisions db (v, k) \<noteq> None \<longleftrightarrow> (\<exists>n. Option.bind (db_versions db v) vn_current = Some n \<and> 1 \<le> k \<and> k \<le> n))
     \<and> (\<forall>v n. Option.bind (db_versions db v) vn_current = Some n \<longrightarrow> 1 \<le> n)"
  by (simp add: numbered_ok_def bind_eq_Some_conv) blast

lemma freeze_row_kept:
  assumes "store_ok L db" "freeze_row v Draft Executable fz db = (True, db')"
  shows "store_ok L db' \<and> grows db db'"
proof -
  obtain row where r: "db_versions db v = Some row" "vn_status row = Draft"
    and d: "db' = db\<lparr>db_versions := (db_versions db)(v \<mapsto> row\<lparr>vn_status := Executable, vn_frozen := Some fz\<rparr>)\<rparr>"
    using assms(2) by (auto simp: freeze_row_def split: option.splits if_splits)
  have "Option.bind (db_versions db' w) vn_current = Option.bind (db_versions db w) vn_current" for w
    by (simp add: d r(1))
  then have "numbered_ok db' = numbered_ok db" by (simp add: numbered_ok_alt d)
  moreover have "revisions_ok L db' = revisions_ok L db"
    by (simp add: d revisions_ok_def content_ok_def first_of_def follows_from_def find_revision_def)
  moreover have "contents_ok L db' = contents_ok L db" "attempts_ok db' = attempts_ok db" "builds_ok db' = builds_ok db"
    by (simp_all add: d contents_ok_def attempts_ok_def builds_ok_def)
  ultimately have "store_ok L db'" using assms(1) by (simp add: store_ok_def)
  moreover have "grows db db'" using r by (auto simp: grows_def d current_of_def)
  ultimately show ?thesis by simp
qed

lemma keep_freeze_row:
  "freeze_row v Draft Executable fz db = (True, db1) \<Longrightarrow> freeze_row v Draft Executable (f fz) db = (True, keep_frozen v f db1)"
  by (auto simp: freeze_row_def keep_frozen_def split: option.splits if_splits)

text \<open>Freezing leaves the database, or freezes a DRAFT with all its rows and makes it the game's current version.\<close>

definition frozen_as :: "string \<Rightarrow> string \<Rightarrow> frozen \<Rightarrow> database \<Rightarrow> database \<Rightarrow> bool" where
  "frozen_as g v fz db db' \<longleftrightarrow> (\<exists>db1. freeze_row v Draft Executable fz db = (True, db1) \<and> db' = set_current_version g v db1)"

lemma frozen_as_rows:
  assumes "fst (freeze_row v Draft Executable fz db)"
  shows "frozen_as g v (fz\<lparr>fz_assets := assets, fz_requirements := Some r\<rparr>) db
     (set_current_version g v (create_requirements v r (create_version_assets v assets (snd (freeze_row v Draft Executable fz db)))))"
proof -
  have "freeze_row v Draft Executable fz db = (True, snd (freeze_row v Draft Executable fz db))" using assms by (simp add: prod_eq_iff)
  from keep_freeze_row[OF keep_freeze_row[OF this]] show ?thesis
    unfolding frozen_as_def create_requirements_def create_version_assets_def by (metis (no_types, lifting))
qed

lemma case_changed: "(case p of (True, d) \<Rightarrow> f d | (False, d) \<Rightarrow> g d) = (if fst p then f (snd p) else g (snd p))"
  by (auto split: prod.split bool.split)

lemma freeze_kept:
  assumes "store_ok L db0" "freeze_in_tx L g v n row db0 = Inr (res, db')"
  shows "store_ok L db' \<and> grows db0 db'"
proof -
  let ?db = "lock_game g db0"
  note lk = lock_game_kept[OF assms(1), of g]
  have "db' = ?db \<or> (\<exists>fz. frozen_as g v fz ?db db')"
    using assms(2)
    by (auto simp: freeze_in_tx_def Let_def and_then_Inr case_changed intro: frozen_as_rows
        split: version_status.splits option.splits if_splits list.splits)
  then show ?thesis
  proof (elim disjE exE)
    fix fz assume "frozen_as g v fz ?db db'"
    then obtain db1 where *: "freeze_row v Draft Executable fz ?db = (True, db1)" "db' = set_current_version g v db1"
      unfolding frozen_as_def by blast
    have a: "store_ok L db1 \<and> grows ?db db1" by (rule freeze_row_kept[OF _ *(1)]) (simp add: lk)
    moreover have "store_ok L db' \<and> grows db1 db'"
      by (rule rest_kept) (use a *(2) in \<open>simp_all add: set_current_version_def\<close>)
    ultimately show ?thesis using lk db_grows_trans by blast
  qed (use lk in simp)
qed

subsection \<open>Builds\<close>

lemma requeue_kept:
  assumes "store_ok L db"
  shows "store_ok L (requeue_all Running Queued db) \<and> grows db (requeue_all Running Queued db)"
proof -
  have "moved Running Queued db (requeue_all Running Queued db)"
    unfolding requeue_all_def by (rule moved_fold) (simp_all add: moved_refl)
  then show ?thesis using moved_kept[OF _ _ _ assms] by (simp add: unfinished_status_def)
qed

lemma claim_oldest_Some:
  assumes "claim_oldest held Queued Running db = Some (i, db')"
  shows "i < length (db_builds db)" "bu_status (db_builds db ! i) = Queued"
    "db_builds db' = (db_builds db)[i := (db_builds db ! i)\<lparr>bu_status := Running\<rparr>]" "moved Queued Running db db'" "same_rest db db'"
proof -
  have c: "change_status i Queued Running db = (True, db')"
    using assms by (auto simp: claim_oldest_def Let_def split: list.splits prod.splits if_splits)
  then show "i < length (db_builds db)" "bu_status (db_builds db ! i) = Queued"
    "db_builds db' = (db_builds db)[i := (db_builds db ! i)\<lparr>bu_status := Running\<rparr>]" "same_rest db db'"
    by (auto simp: change_status_def same_rest_def split: if_splits)
  have "moved Queued Running db (snd (change_status i Queued Running db))"
    by (rule moved_status[OF _ moved_refl]) simp
  then show "moved Queued Running db db'" by (simp add: c)
qed

lemma claim_kept:
  assumes "store_ok L db" "claim_oldest held Queued Running db = Some (i, db')"
  shows "store_ok L db' \<and> grows db db'"
  using moved_kept[OF claim_oldest_Some(4)[OF assms(2)] _ _ assms(1)] by (simp add: unfinished_status_def)

definition ended :: "build_end \<Rightarrow> bool" where
  "ended e \<longleftrightarrow> be_status e = Succeeded \<or> be_status e = Failed"

lemma ended_simps [simp]:
  "ended (failed_end ps a)" "ended (infrastructure_end code a)" "ended \<lparr>be_status = Succeeded, be_artifacts = a\<rparr>"
  by (simp_all add: ended_def failed_end_def infrastructure_end_def)

definition only_objects :: "database \<Rightarrow> database \<Rightarrow> bool" where
  "only_objects db db' \<longleftrightarrow> same_rest db db' \<and> db_builds db' = db_builds db"

lemma only_objects_refl [simp]: "only_objects db db"
  by (simp add: only_objects_def same_rest_def)

lemma store_artifacts_only: "store_artifacts L W out a db = (e, db') \<Longrightarrow> ended e \<and> only_objects db db'"
  by (auto simp: store_artifacts_def Let_def only_objects_def same_rest_def split: if_splits)

lemma run_build_only: "run_build L W v n db = Some (e, db') \<Longrightarrow> ended e \<and> only_objects db db'"
  by (auto simp: run_build_def built_end_def Let_def dest: store_artifacts_only split: option.splits build_answer.splits if_splits)

lemma only_objects_kept: "only_objects db db' \<Longrightarrow> store_ok L db \<Longrightarrow> store_ok L db' \<and> grows db db'"
  by (rule rest_kept) (simp_all add: only_objects_def same_rest_def)

lemma finish_kept:
  assumes "store_ok L db" "ended e" "finish_build i Running (be_status e) (be_artifacts e) db = (b, db')"
  shows "store_ok L db' \<and> grows db db'"
proof (cases b)
  case False
  then have "db' = db" using assms(3) by (auto simp: finish_build_def split: if_splits)
  then show ?thesis using assms(1) db_grows_refl by simp
next
  case True
  let ?b = "(db_builds db ! i)\<lparr>bu_status := be_status e, bu_artifacts := be_artifacts e, bu_finished := True\<rparr>"
  have f: "i < length (db_builds db)" "\<not> bu_finished (db_builds db ! i)" and bs: "db_builds db' = (db_builds db)[i := ?b]"
    and r: "same_rest db db'"
    using assms(3) True by (auto simp: finish_build_def same_rest_def split: if_splits)
  have k: "build_key ?b = build_key (db_builds db ! i)" by (simp add: build_key_def)
  have keys: "map build_key (db_builds db') = map build_key (db_builds db)"
    unfolding bs map_update k by (simp add: f(1) flip: map_update)
  have ok: "builds_ok db" using assms(1) by (simp add: store_ok_def)
  have "bu_finished x \<longleftrightarrow> bu_status x = Succeeded \<or> bu_status x = Failed" if "x \<in> set (db_builds db')" for x
  proof -
    have "x = ?b \<or> x \<in> set (db_builds db)" using that set_update_subset_insert unfolding bs by fastforce
    then show ?thesis using ok assms(2) by (auto simp: builds_ok_def ended_def)
  qed
  then have "builds_ok db'" using builds_ok_same[OF ok _ keys] r by (simp add: same_rest_def)
  then have "store_ok L db'" using store_ok_cong[OF _ _ _ _ _ assms(1), of db'] r by (simp add: same_rest_def)
  moreover have "grows db db'"
    using r f k by (intro grows_builds) (auto simp: same_rest_def bs nth_list_update)
  ultimately show ?thesis by simp
qed

subsection \<open>Every step\<close>

definition system_ok :: "'f libraries \<Rightarrow> system \<Rightarrow> bool" where
  "system_ok L s \<longleftrightarrow> store_ok L (sy_db s)
     \<and> (\<forall>t r. sy_running s t = Some r \<longrightarrow> request_ok L (rn_request r)) \<and> (\<forall>i e. sy_workers s i = Some (Some e) \<longrightarrow> ended e)"

lemma draft_step_kept:
  assumes "draft_step L template s s'" "system_ok L s"
  shows "system_ok L s' \<and> grows (sy_db s) (sy_db s')"
proof -
  have ok: "store_ok L (sy_db s)" using assms(2) by (simp add: system_ok_def)
  show ?thesis
    using assms(1)
  proof cases
    case (commit_tx t r res db)
    have "request_ok L (rn_request r)" using assms(2) commit_tx(2) by (simp add: system_ok_def)
    then show ?thesis using run_request_kept[OF ok _ commit_tx(3)] assms(2) commit_tx by (simp add: system_ok_def)
  next
    case (refuse_upload v asset uuid refusal ds o' row res db)
    then show ?thesis using record_refusal_kept[OF ok refuse_upload(2,3)] assms(2) by (simp add: system_ok_def)
  next
    case (store_upload x)
    then show ?thesis using store_asset_kept[OF ok] assms(2) by (simp add: system_ok_def)
  next
    case (create opened g v source res db)
    then show ?thesis using create_kept[OF ok create(3)] assms(2) by (simp add: system_ok_def)
  next
    case (commit_freeze t f fres db)
    then show ?thesis using freeze_kept[OF ok commit_freeze(3)] assms(2) by (simp add: system_ok_def)
  next
    case requeue
    then show ?thesis using requeue_kept[OF ok] assms(2) by (simp add: system_ok_def)
  next
    case (claim_build held i db)
    then show ?thesis using claim_kept[OF ok claim_build(2)] assms(2) by (simp add: system_ok_def)
  next
    case (run_claimed i W e db)
    then show ?thesis using only_objects_kept[OF _ ok] run_build_only[OF run_claimed(3)] assms(2) by (simp add: system_ok_def)
  next
    case (finish_claimed i e done' db)
    have "ended e" using assms(2) finish_claimed(2) by (simp add: system_ok_def)
    then show ?thesis using finish_kept[OF ok _ finish_claimed(3)] assms(2) finish_claimed(1) by (simp add: system_ok_def)
  qed (use assms(2) db_grows_refl in \<open>auto simp: system_ok_def\<close>)
qed

lemma draft_steps_kept: "draft_steps L template s s' \<Longrightarrow> system_ok L s \<Longrightarrow> system_ok L s' \<and> grows (sy_db s) (sy_db s')"
proof (induction rule: draft_steps.induct)
  case no_step
  then show ?case using db_grows_refl by simp
next
  case (one_more s1 s2)
  then show ?case using draft_step_kept[OF one_more(2)] db_grows_trans by blast
qed

lemma undrafted_ok: "undrafted db \<Longrightarrow> system_ok L (started db)"
  by (auto simp: undrafted_def system_ok_def started_def store_ok_def numbered_ok_def revisions_ok_def contents_ok_def attempts_ok_def builds_ok_def)

lemma reachable_ok: "draft_reachable L template s \<Longrightarrow> system_ok L s"
  using draft_steps_kept undrafted_ok unfolding draft_reachable_def by blast

end
