(* ===== verification/DraftRace.thy ===== *)
theory DraftRace
  imports DraftHistory
begin

section \<open>A draft from its creation to its freezing\<close>

text \<open>
  A run of the system on a small game: its draft is created and built, a change and a freeze both read
  the version's row, the change commits, and then the freeze does.
\<close>

definition race_json :: "string \<Rightarrow> raw" where
  "race_json t =
     (if t = ''project'' then Raw (JObj [(''languages'', JList [JStr ''es'', JStr ''en''])])
      else if t = ''manifest'' then sample_manifest else Raw_bad)"

definition race_text :: "json \<Rightarrow> string" where
  "race_text j = (case j of JObj ((k, JStr s) # _) \<Rightarrow> s | _ \<Rightarrow> ''inputs'')"

definition race_libraries :: "int libraries" where
  "race_libraries = sample_libraries\<lparr>go_json := race_json, go_text := race_text\<rparr>"

definition race_world :: build_world where
  "race_world = \<lparr>bw_version = Some ''1.0.0'', 
     bw_build = (\<lambda>files. Built \<lparr>bo_ok = True, bo_problems = [], bo_server = ''code'', bo_client = ''page'', bo_manifest = ''manifest'',
       bo_aspect = ''16:9'', bo_languages = [''es'', ''en''], bo_keyboard = False, bo_hover = False, bo_press = False\<rparr>),
     bw_stores = True, bw_parse = (\<lambda>_. Inr sdk_script)\<rparr>"

definition race_change :: draft_change where
  "race_change = \<lparr>dc_base = 1, dc_files = [\<lparr>wr_path = ''notes.md'', wr_content = ''cards''\<rparr>], dc_edits = [], dc_deletes = [],
     dc_key = ''key'', dc_origin = ''api''\<rparr>"

definition no_rows :: database where
  "no_rows = \<lparr>db_games = Map.empty, db_versions = Map.empty, db_revisions = Map.empty, db_contents = Map.empty, db_attempts = Map.empty,
     db_objects = Map.empty, db_artifact_objects = Map.empty, db_builds = [], db_changes = []\<rparr>"

text \<open>
  The databases up to the one when the build has ended; then those after the change and the freeze, and the one
  after a freeze with no change between.
\<close>

definition race_built :: "(build_end \<times> database \<times> database \<times> database \<times> database) option" where
  "race_built =
     (case create_draft_in_tx race_libraries sample_template ''game'' ''draft'' [] None no_rows of Inl _ \<Rightarrow> None
      | Inr (_, db1) \<Rightarrow> (case claim_oldest [] Queued Running db1 of None \<Rightarrow> None
        | Some (i, db2) \<Rightarrow> (case run_build race_libraries race_world (bu_version (db_builds db2 ! i)) (bu_revision (db_builds db2 ! i)) db2 of None \<Rightarrow> None
          | Some (e, db3) \<Rightarrow> (case finish_build i Running (be_status e) (be_artifacts e) db3 of (_, db4) \<Rightarrow>
              if i = 0 then Some (e, db1, db2, db3, db4) else None))))"

definition race_run :: "((version_row \<times> change_result \<times> database \<times> freeze_result \<times> database) \<times> database \<times> freeze_result \<times> database) option" where
  "race_run =
     (case race_built of None \<Rightarrow> None
      | Some (e, db1, db2, db3, db4) \<Rightarrow> (case find_version db4 ''draft'' of None \<Rightarrow> None
        | Some row \<Rightarrow> (case run_request race_libraries ''draft'' (current_of row) row (Change_req race_change) db4 of
            Inr (Some (res, db5)) \<Rightarrow> (case freeze_in_tx race_libraries ''game'' ''draft'' 1 row db5 of
                Inr (fres, db6) \<Rightarrow> (case freeze_in_tx race_libraries ''game'' ''draft'' 1 row db4 of
                    Inr (fair, db7) \<Rightarrow> Some ((row, res, db5, fres, db6), db4, fair, db7)
                  | _ \<Rightarrow> None)
              | _ \<Rightarrow> None)
          | _ \<Rightarrow> None)))"

lemma race_ends: "case race_run of None \<Rightarrow> False | Some ((row, res, db5, fres, db6), db4, fair, db7) \<Rightarrow>
   fr_outcome fres = Frozen_now \<and> fr_revision fres = 1 \<and> fr_outcome fair = Frozen_now
   \<and> (case db_attempts db5 (''draft'', ''key'') of None \<Rightarrow> False | Some a \<Rightarrow> am_outcome a = Some Applied \<and> am_revision a = Some 2)
   \<and> (case db_versions db6 ''draft'' of None \<Rightarrow> False | Some row' \<Rightarrow> vn_status row' = Executable \<and> vn_current row' = Some 2
        \<and> (case vn_frozen row' of None \<Rightarrow> False | Some fz \<Rightarrow>
            map_option (\<lambda>b. (bu_status b, bf_server (bu_artifacts b))) (find_build db6 ''draft'' 1) = Some (Succeeded, Some (fz_server fz))
          \<and> map_option (\<lambda>b. (bu_status b, bf_server (bu_artifacts b))) (find_build db6 ''draft'' 2) = Some (Queued, None)))
   \<and> map_option (\<lambda>r. length (rv_files r)) (find_revision db6 ''draft'' 1) = Some 3
   \<and> map_option (\<lambda>r. length (rv_files r)) (find_revision db6 ''draft'' 2) = Some 4"
  by code_simp

definition race_before :: "version_row \<Rightarrow> database \<Rightarrow> system" where
  "race_before row db = \<lparr>sy_db = db, sy_running = Map.empty,
     sy_freezing = [0 \<mapsto> \<lparr>fg_game = ''game'', fg_version = ''draft'', fg_revision = 1, fg_row = row\<rparr>], sy_workers = Map.empty\<rparr>"

lemma started_db: "sy_db (started db) = db"
  by (simp add: started_def)

lemma race_created:
  assumes "race_built = Some (e, db1, db2, db3, db4)"
  shows "draft_steps race_libraries sample_template (started no_rows) (started db4)"
proof -
  obtain cres done' where c: "create_draft_in_tx race_libraries sample_template ''game'' ''draft'' [] None no_rows = Inr (cres, db1)"
    "claim_oldest [] Queued Running db1 = Some (0, db2)"
    "run_build race_libraries race_world (bu_version (db_builds db2 ! 0)) (bu_revision (db_builds db2 ! 0)) db2 = Some (e, db3)"
    "finish_build 0 Running (be_status e) (be_artifacts e) db3 = (done', db4)"
    using assms by (auto simp: race_built_def split: sum.splits option.splits prod.splits if_splits)
  let ?s1 = "(started no_rows)\<lparr>sy_db := db1\<rparr>"
  let ?s2 = "?s1\<lparr>sy_db := db2, sy_workers := (sy_workers ?s1)(0 \<mapsto> None)\<rparr>"
  let ?s3 = "?s2\<lparr>sy_db := db3, sy_workers := (sy_workers ?s2)(0 \<mapsto> Some e)\<rparr>"
  let ?s4 = "?s3\<lparr>sy_db := db4, sy_workers := (sy_workers ?s3)(0 := None)\<rparr>"
  let ?step = "draft_step race_libraries sample_template"
  have "create_draft_in_tx race_libraries sample_template ''game'' ''draft'' [] None (sy_db (started no_rows)) = Inr (cres, db1)"
    by (simp add: started_db c(1))
  then have t1: "?step (started no_rows) ?s1"
    by (rule draft_step.create[rotated]) (simp add: is_draft_of_def started_def no_rows_def)
  have t2: "?step ?s1 ?s2" using c(2) by (intro draft_step.claim_build) simp
  have t3: "?step ?s2 ?s3" using c(3) by (intro draft_step.run_claimed) simp_all
  have t4: "?step ?s3 ?s4" using c(4) by (intro draft_step.finish_claimed) simp_all
  have "?s4 = started db4" by (simp add: started_def)
  then show ?thesis using one_more[OF one_more[OF one_more[OF one_more[OF no_step t1] t2] t3] t4] by simp
qed

lemma race_runs:
  assumes "race_run = Some ((row, res, db5, fres, db6), db4, fair, db7)"
  shows "draft_reachable race_libraries sample_template (race_before row db5)"
    and "draft_steps race_libraries sample_template (race_before row db5) (started db6)"
    and "db_versions db4 ''draft'' = Some row" "freeze_in_tx race_libraries ''game'' ''draft'' 1 row db4 = Inr (fair, db7)"
proof -
  obtain e db1 db2 db3 where b: "race_built = Some (e, db1, db2, db3, db4)" and r: "find_version db4 ''draft'' = Some row"
    "run_request race_libraries ''draft'' (current_of row) row (Change_req race_change) db4 = Inr (Some (res, db5))"
    "freeze_in_tx race_libraries ''game'' ''draft'' 1 row db5 = Inr (fres, db6)"
    "freeze_in_tx race_libraries ''game'' ''draft'' 1 row db4 = Inr (fair, db7)"
    using assms by (auto simp: race_run_def split: option.splits sum.splits prod.splits)
  show "db_versions db4 ''draft'' = Some row" using r(1) by (simp add: find_version_def)
  show "freeze_in_tx race_libraries ''game'' ''draft'' 1 row db4 = Inr (fair, db7)" by (rule r(4))
  let ?step = "draft_step race_libraries sample_template"
  let ?s5 = "(started db4)\<lparr>sy_running := (sy_running (started db4))(0 \<mapsto>
     \<lparr>rn_version = ''draft'', rn_request = Change_req race_change, rn_row = row, rn_base = current_of row, rn_races = 0\<rparr>)\<rparr>"
  let ?s6 = "?s5\<lparr>sy_freezing := (sy_freezing ?s5)(0 \<mapsto> \<lparr>fg_game = ''game'', fg_version = ''draft'', fg_revision = 1, fg_row = row\<rparr>)\<rparr>"
  let ?s7 = "?s6\<lparr>sy_db := db5, sy_running := (sy_running ?s6)(0 := None)\<rparr>"
  have ok: "request_ok race_libraries (Change_req race_change)"
    by (simp add: request_ok_def change_request_ok_def race_change_def valid_origin_def origin_api_def)
  have t5: "?step (started db4) ?s5" using r(1) ok by (intro draft_step.begin_tx) (simp_all add: started_def)
  have t6: "?step ?s5 ?s6" using r(1) by (intro draft_step.begin_freeze) (simp_all add: started_def)
  have t7: "?step ?s6 ?s7" by (intro draft_step.commit_tx[where res = res], simp add: started_def, simp add: started_def r(2))
  have "?s7 = race_before row db5" by (simp add: started_def race_before_def)
  then have "draft_steps race_libraries sample_template (started no_rows) (race_before row db5)"
    using one_more[OF one_more[OF one_more[OF race_created[OF b] t5] t6] t7] by simp
  moreover have "undrafted no_rows" by (simp add: undrafted_def no_rows_def)
  ultimately show "draft_reachable race_libraries sample_template (race_before row db5)"
    unfolding draft_reachable_def by blast
  have t8: "?step (race_before row db5) ((race_before row db5)\<lparr>sy_db := db6, sy_freezing := (sy_freezing (race_before row db5))(0 := None)\<rparr>)"
    by (intro draft_step.commit_freeze[where fres = fres], simp add: race_before_def, simp add: race_before_def r(3))
  moreover have "(race_before row db5)\<lparr>sy_db := db6, sy_freezing := (sy_freezing (race_before row db5))(0 := None)\<rparr> = started db6"
    by (simp add: started_def race_before_def)
  ultimately show "draft_steps race_libraries sample_template (race_before row db5) (started db6)"
    using one_more[OF no_step t8] by simp
qed

text \<open>The two moments the properties look at: the change committed and the freeze about to, and both committed.\<close>

lemma race_moments: "\<exists>row db5 db6 db4 fair db7. draft_reachable race_libraries sample_template (race_before row db5)
   \<and> draft_steps race_libraries sample_template (race_before row db5) (started db6)
   \<and> (case db_attempts db5 (''draft'', ''key'') of None \<Rightarrow> False | Some a \<Rightarrow> am_outcome a = Some Applied \<and> am_revision a = Some 2)
   \<and> (case db_versions db6 ''draft'' of None \<Rightarrow> False | Some row' \<Rightarrow> vn_status row' = Executable \<and> vn_current row' = Some 2
        \<and> (case vn_frozen row' of None \<Rightarrow> False | Some fz \<Rightarrow>
            map_option (\<lambda>b. (bu_status b, bf_server (bu_artifacts b))) (find_build db6 ''draft'' 1) = Some (Succeeded, Some (fz_server fz))
          \<and> map_option (\<lambda>b. (bu_status b, bf_server (bu_artifacts b))) (find_build db6 ''draft'' 2) = Some (Queued, None)))
   \<and> map_option (\<lambda>r. length (rv_files r)) (find_revision db6 ''draft'' 1) = Some 3
   \<and> map_option (\<lambda>r. length (rv_files r)) (find_revision db6 ''draft'' 2) = Some 4
   \<and> db_versions db4 ''draft'' = Some row \<and> freeze_in_tx race_libraries ''game'' ''draft'' 1 row db4 = Inr (fair, db7)
   \<and> fr_outcome fair = Frozen_now"
proof (cases race_run)
  case None
  then show ?thesis using race_ends by simp
next
  case (Some x)
  obtain row res db5 fres db6 db4 fair db7 where x: "x = ((row, res, db5, fres, db6), db4, fair, db7)" by (metis prod.exhaust)
  note run = Some[unfolded x]
  show ?thesis
    using race_ends race_runs[OF run] unfolding run option.case prod.case by blast
qed

end
