(* ===== verification/DraftProps.thy ===== *)
theory DraftProps
  imports DraftRace
begin

section \<open>The properties of drafting\<close>

text \<open>
  What holds of every reachable database and between any two, that the queue of builds empties, and what
  a freeze promises, with the run in which it does not.
\<close>

subsection \<open>The run, as facts\<close>

lemma race_facts: "\<exists>row db5 db6 a row' fz. draft_reachable race_libraries sample_template (race_before row db5)
   \<and> draft_steps race_libraries sample_template (race_before row db5) (started db6)
   \<and> db_attempts db5 (''draft'', ''key'') = Some a \<and> am_outcome a = Some Applied \<and> am_revision a = Some 2
   \<and> db_versions db6 ''draft'' = Some row' \<and> vn_status row' = Executable \<and> vn_current row' = Some 2 \<and> vn_frozen row' = Some fz
   \<and> map_option (\<lambda>b. (bu_status b, bf_server (bu_artifacts b))) (find_build db6 ''draft'' 1) = Some (Succeeded, Some (fz_server fz))
   \<and> map_option (\<lambda>b. (bu_status b, bf_server (bu_artifacts b))) (find_build db6 ''draft'' 2) = Some (Queued, None)
   \<and> map_option (\<lambda>r. length (rv_files r)) (find_revision db6 ''draft'' 1) = Some 3
   \<and> map_option (\<lambda>r. length (rv_files r)) (find_revision db6 ''draft'' 2) = Some 4"
proof -
  from race_moments obtain row db5 db6 db4 fair db7 where m: "draft_reachable race_libraries sample_template (race_before row db5)"
    "draft_steps race_libraries sample_template (race_before row db5) (started db6)"
    "(case db_attempts db5 (''draft'', ''key'') of None \<Rightarrow> False | Some a \<Rightarrow> am_outcome a = Some Applied \<and> am_revision a = Some 2)"
    "(case db_versions db6 ''draft'' of None \<Rightarrow> False | Some row' \<Rightarrow> vn_status row' = Executable \<and> vn_current row' = Some 2
        \<and> (case vn_frozen row' of None \<Rightarrow> False | Some fz \<Rightarrow>
            map_option (\<lambda>b. (bu_status b, bf_server (bu_artifacts b))) (find_build db6 ''draft'' 1) = Some (Succeeded, Some (fz_server fz))
          \<and> map_option (\<lambda>b. (bu_status b, bf_server (bu_artifacts b))) (find_build db6 ''draft'' 2) = Some (Queued, None)))"
    "map_option (\<lambda>r. length (rv_files r)) (find_revision db6 ''draft'' 1) = Some 3"
    "map_option (\<lambda>r. length (rv_files r)) (find_revision db6 ''draft'' 2) = Some 4"
    by (elim exE conjE)
  obtain a where a: "db_attempts db5 (''draft'', ''key'') = Some a" "am_outcome a = Some Applied" "am_revision a = Some 2"
    using m(3) by (cases "db_attempts db5 (''draft'', ''key'')") simp_all
  obtain row' where v: "db_versions db6 ''draft'' = Some row'" using m(4) by (cases "db_versions db6 ''draft''") simp_all
  obtain fz where f: "vn_frozen row' = Some fz" using m(4) v by (cases "vn_frozen row'") simp_all
  show ?thesis
    by (rule exI[of _ row], rule exI[of _ db5], rule exI[of _ db6], rule exI[of _ a], rule exI[of _ row'], rule exI[of _ fz])
      (use m(4)[unfolded v f option.case] in \<open>intro conjI m(1,2,5,6) a v f; simp add: f\<close>)
qed

lemma attempt_decided:
  "attempts_ok db \<Longrightarrow> db_attempts db (v, key) = Some a \<Longrightarrow> \<exists>out n. am_outcome a = Some out \<and> am_revision a = Some n"
  unfolding attempts_ok_def by blast

subsection \<open>The worker empties the queue\<close>

definition queued :: "database \<Rightarrow> nat set" where
  "queued db = {i. i < length (db_builds db) \<and> bu_status (db_builds db ! i) = Queued}"

lemma finite_queued [simp]: "finite (queued db)"
  by (simp add: queued_def)

lemma run_build_total: "\<exists>e db'. run_build L W v n db = Some (e, db')"
proof -
  have c: "check_output L W out \<noteq> None" for out
    using validate_total[of "bw_parse W" profile_sdk_v1 "bo_server out"] by (auto simp: check_output_def script_problems_def)
  then have "built_end L W r a db \<noteq> None" for r a
    by (simp add: built_end_def c split: build_answer.split option.split)
  then show ?thesis by (simp add: run_build_def Let_def split: option.split)
qed

lemma claim_none: "claim_oldest [] Queued Running db = None \<longleftrightarrow> queued db = {}"
proof -
  have "set (builds_where (\<lambda>b. bu_status b = Queued) db) = queued db"
    by (auto simp: builds_where_def queued_def)
  then show ?thesis
    by (cases "builds_where (\<lambda>b. bu_status b = Queued) db") (auto simp: claim_oldest_def change_status_def queued_def)
qed

text \<open>One turn of the worker: nothing is queued, or the oldest queued build ends and no other moves.\<close>

lemma run_next_build_turn:
  assumes "store_ok L db"
  shows "queued db = {} \<and> run_next_build L W db = Some (False, db) \<or>
    (\<exists>i\<in>queued db. \<exists>db'. run_next_build L W db = Some (True, db') \<and> store_ok L db' \<and> grows db db'
       \<and> (\<exists>b. (bu_status b = Succeeded \<or> bu_status b = Failed) \<and> db_builds db' = (db_builds db)[i := b]))"
proof (cases "claim_oldest [] Queued Running db")
  case None
  then show ?thesis using claim_none[of db] by (simp add: run_next_build_def)
next
  case (Some x)
  obtain i db1 where c: "claim_oldest [] Queued Running db = Some (i, db1)" using Some by (cases x) auto
  note cl = claim_oldest_Some[OF c] and k1 = claim_kept[OF assms c]
  obtain e db2 where r: "run_build L W (bu_version (db_builds db1 ! i)) (bu_revision (db_builds db1 ! i)) db1 = Some (e, db2)"
    using run_build_total by blast
  note ro = run_build_only[OF r]
  have k2: "store_ok L db2" "grows db1 db2" using only_objects_kept[OF conjunct2[OF ro]] k1 by auto
  obtain b db3 where f: "finish_build i Running (be_status e) (be_artifacts e) db2 = (b, db3)" by fastforce
  have k3: "store_ok L db3 \<and> grows db2 db3" by (rule finish_kept[OF k2(1) conjunct1[OF ro] f])
  have b2: "db_builds db2 = (db_builds db)[i := (db_builds db ! i)\<lparr>bu_status := Running\<rparr>]"
    using ro cl(3) by (simp add: only_objects_def)
  have "builds_ok db" using assms by (simp add: store_ok_def)
  then have "\<not> bu_finished (db_builds db ! i)" using cl(1,2) by (simp add: builds_ok_def)
  then have "db_builds db3 = (db_builds db)[i := (db_builds db2 ! i)\<lparr>bu_status := be_status e, bu_artifacts := be_artifacts e, bu_finished := True\<rparr>]"
    using f cl(1) by (auto simp: finish_build_def b2)
  moreover have "be_status e = Succeeded \<or> be_status e = Failed" using ro by (simp add: ended_def)
  ultimately have ends: "\<exists>b. (bu_status b = Succeeded \<or> bu_status b = Failed) \<and> db_builds db3 = (db_builds db)[i := b]"
    by (intro exI[of _ "(db_builds db2 ! i)\<lparr>bu_status := be_status e, bu_artifacts := be_artifacts e, bu_finished := True\<rparr>"]) simp
  have "run_next_build L W db = Some (True, db3)" using c r f by (simp add: run_next_build_def)
  moreover have "i \<in> queued db" using cl(1,2) by (simp add: queued_def)
  moreover have "grows db db3" using k1 k2(2) k3 db_grows_trans by blast
  ultimately show ?thesis using k3 ends by blast
qed

definition only_queued_ended :: "database \<Rightarrow> database \<Rightarrow> bool" where
  "only_queued_ended db db' \<longleftrightarrow> length (db_builds db') = length (db_builds db)
     \<and> (\<forall>i<length (db_builds db). if bu_status (db_builds db ! i) = Queued
          then bu_status (db_builds db' ! i) = Succeeded \<or> bu_status (db_builds db' ! i) = Failed
          else db_builds db' ! i = db_builds db ! i)"

lemma ended_step:
  assumes "i \<in> queued db" "bu_status b = Succeeded \<or> bu_status b = Failed" "db_builds db1 = (db_builds db)[i := b]"
  shows "queued db1 = queued db - {i}" and "only_queued_ended db1 db' \<Longrightarrow> only_queued_ended db db'"
proof -
  show "queued db1 = queued db - {i}" using assms by (auto simp: queued_def nth_list_update split: if_splits)
  assume e: "only_queued_ended db1 db'"
  show "only_queued_ended db db'"
    unfolding only_queued_ended_def
  proof (intro conjI allI impI)
    show "length (db_builds db') = length (db_builds db)" using e assms(3) by (simp add: only_queued_ended_def)
    fix j assume j: "j < length (db_builds db)"
    have "if bu_status (db_builds db1 ! j) = Queued
          then bu_status (db_builds db' ! j) = Succeeded \<or> bu_status (db_builds db' ! j) = Failed
          else db_builds db' ! j = db_builds db1 ! j"
      using e j assms(3) by (simp add: only_queued_ended_def)
    then show "if bu_status (db_builds db ! j) = Queued
          then bu_status (db_builds db' ! j) = Succeeded \<or> bu_status (db_builds db' ! j) = Failed
          else db_builds db' ! j = db_builds db ! j"
      using assms j by (cases "j = i") (auto simp: queued_def split: if_splits)
  qed
qed

text \<open>
  C14: the worker's loop \<open>for m.runOne(ctx) {}\<close> ends, whatever the toolchain, the parser and the object store
  answer to each build: from a well-formed database it returns, with every build that was queued succeeded or
  failed, the others as they were, none queued, and the history kept.
\<close>

theorem builds_end:
  assumes "store_ok L db"
  shows "\<exists>db'. run_all L W n db = Some db' \<and> store_ok L db' \<and> grows db db' \<and> queued db' = {} \<and> only_queued_ended db db'"
  using assms
proof (induction "card (queued db)" arbitrary: db n rule: less_induct)
  case less
  from run_next_build_turn[OF less.prems, of "W n"] consider
      (empty) "queued db = {}" "run_next_build L (W n) db = Some (False, db)"
    | (turn) i db1 b where "i \<in> queued db" "run_next_build L (W n) db = Some (True, db1)" "store_ok L db1" "grows db db1"
        "bu_status b = Succeeded \<or> bu_status b = Failed" "db_builds db1 = (db_builds db)[i := b]"
    by blast
  then show ?case
  proof cases
    case empty
    then have "run_all L W n db = Some db" by (simp add: run_all.simps)
    moreover have "only_queued_ended db db" using empty(1) by (auto simp: only_queued_ended_def queued_def)
    ultimately show ?thesis using less.prems db_grows_refl empty(1) by blast
  next
    case turn
    note e = ended_step[OF turn(1,5,6)]
    have "card (queued db1) < card (queued db)" unfolding e(1) by (rule card_Diff1_less) (simp_all add: turn(1))
    from less.hyps[OF this turn(3), of "Suc n"] obtain db' where d: "run_all L W (Suc n) db1 = Some db'" "store_ok L db'" "grows db1 db'"
      "queued db' = {}" "only_queued_ended db1 db'" by blast
    have "run_all L W n db = Some db'" using turn(2) d(1) by (subst run_all.simps) simp
    then show ?thesis using d e(2)[OF d(5)] db_grows_trans[OF turn(4) d(3)] by blast
  qed
qed

theorem builds_end_witness:
  "\<exists>db db'. queued db \<noteq> {} \<and> run_all race_libraries (\<lambda>_. race_world) 0 db = Some db' \<and> queued db' = {} \<and> only_queued_ended db db'"
proof -
  obtain row db5 db6 where m: "draft_reachable race_libraries sample_template (race_before row db5)"
    "draft_steps race_libraries sample_template (race_before row db5) (started db6)"
    "map_option (\<lambda>b. (bu_status b, bf_server (bu_artifacts b))) (find_build db6 ''draft'' 2) = Some (Queued, None)"
    using race_facts by blast
  have "system_ok race_libraries (started db6)" using draft_steps_kept[OF m(2) reachable_ok[OF m(1)]] by simp
  then have ok: "store_ok race_libraries db6" by (simp add: system_ok_def started_def)
  obtain b where "b \<in> set (db_builds db6)" "bu_status b = Queued"
    using m(3) by (auto simp: find_build_def find_Some_iff) (metis nth_mem)
  then have "queued db6 \<noteq> {}" by (auto simp: queued_def in_set_conv_nth)
  then show ?thesis using builds_end[OF ok, of "\<lambda>_. race_world" 0] by blast
qed

subsection \<open>History and answers\<close>

text \<open>
  C4: the history of a game's drafts is well formed at every moment, however its transactions, uploads, freezes
  and build workers interleave. Every reachable database has the revisions of each version numbered from 1 to its
  current one; each revision a project that obeys the limits, with all its contents stored under their hash and
  its assets within the limit; the first one from the template or copied from an executable version; every later
  one an allowed change of the revision before it, a change of its assets alone, or a copy of an earlier revision;
  every attempt decided, with the revision it made and no other's; and one build for every revision, ended exactly
  when it succeeded or failed.
\<close>

theorem draft_history:
  assumes "draft_reachable L template s"
  shows "store_ok L (sy_db s)"
  using reachable_ok[OF assms] by (simp add: system_ok_def)

theorem draft_history_witness: "\<exists>row db. store_ok race_libraries (sy_db (race_before row db))
   \<and> (\<exists>a. db_attempts db (''draft'', ''key'') = Some a \<and> am_outcome a = Some Applied \<and> am_revision a = Some 2)"
proof -
  obtain row db5 db6 where m: "draft_reachable race_libraries sample_template (race_before row db5)"
    "\<exists>a. db_attempts db5 (''draft'', ''key'') = Some a \<and> am_outcome a = Some Applied \<and> am_revision a = Some 2"
    using race_facts by blast
  show ?thesis using draft_history[OF m(1)] m(2) by blast
qed

lemma attempt_replayed:
  assumes "db_attempts db (v, key) = Some a" "am_outcome a = Some out" "am_revision a = Some n"
  shows "attempt_step v kind key request base o' decide db = (if am_request a = request
    then Inr (Some (\<lparr>cg_outcome = out, cg_revision = n, cg_diagnostics = am_diagnostics a, cg_replayed = True\<rparr>, db)) else Inl Key_conflict)"
  using assms by (simp add: attempt_step_def claim_attempt_def replay_def)

lemma request_replayed:
  assumes "db_attempts db (v, request_key req) = Some a" "am_outcome a = Some out" "am_revision a = Some n"
  shows "run_request L v base row req db = (if am_request a = fingerprint L (request_json req)
    then Inr (Some (\<lparr>cg_outcome = out, cg_revision = n, cg_diagnostics = am_diagnostics a, cg_replayed = True\<rparr>, db)) else Inl Key_conflict)"
  using assms attempt_replayed
  by (cases req) (simp_all add: run_request_def apply_changes_in_tx_def restore_in_tx_def attach_in_tx_def remove_in_tx_def)



subsection \<open>Freezing\<close>

text \<open>What a frozen version is delivered with, given the build and the revision it was frozen from.\<close>

definition delivers :: "'f libraries \<Rightarrow> database \<Rightarrow> build_row \<Rightarrow> revision \<Rightarrow> frozen \<Rightarrow> bool" where
  "delivers L db b r fz \<longleftrightarrow> bf_server (bu_artifacts b) = Some (fz_server fz) \<and> bf_client (bu_artifacts b) = Some (fz_client fz)
     \<and> bf_manifest (bu_artifacts b) = fz_manifest fz \<and> fz_manifest fz \<noteq> [] \<and> bf_aspect (bu_artifacts b) = Some (fz_aspect fz)
     \<and> bf_languages (bu_artifacts b) = fz_languages fz \<and> fz_languages fz \<noteq> [] \<and> list_all valid_language (fz_languages fz)
     \<and> (\<exists>rq. fz_requirements fz = Some rq \<and> requirements_ok rq \<and> bf_keyboard (bu_artifacts b) = Some (re_keyboard rq)
          \<and> bf_hover (bu_artifacts b) = Some (re_hover rq) \<and> bf_press (bu_artifacts b) = Some (re_press rq))
     \<and> map (\<lambda>a. (va_key a, va_binding a)) (fz_assets fz)
         = filter (\<lambda>(k, bd). map_of (declarations_of L db r) k \<noteq> None) (rv_assets r)
     \<and> list_all (\<lambda>(k, d). ad_optional d \<or> k \<in> va_key ` set (fz_assets fz)) (declarations_of L db r)
     \<and> list_all (\<lambda>a. db_objects db (ab_sha (va_binding a)) = Some (va_object a)) (fz_assets fz)"

lemma version_assets_rows:
  assumes "version_assets c db = Inr assets"
  shows "map (\<lambda>a. (va_key a, va_binding a)) assets = filter (\<lambda>(k, b). map_of (ck_declared c) k \<noteq> None) (rv_assets (ck_revision c))"
    and "list_all (\<lambda>a. db_objects db (ab_sha (va_binding a)) = Some (va_object a)) assets"
proof -
  have "sum_list_map (\<lambda>(k, b). case db_objects db (ab_sha b) of None \<Rightarrow> Inl (Unregistered_asset k)
        | Some object \<Rightarrow> Inr \<lparr>va_key = k, va_type = f k, va_binding = b, va_object = object\<rparr>) xs = Inr ys \<Longrightarrow>
      map (\<lambda>a. (va_key a, va_binding a)) ys = xs \<and> list_all (\<lambda>a. db_objects db (ab_sha (va_binding a)) = Some (va_object a)) ys"
    for f xs ys
    by (induction xs arbitrary: ys) (auto simp: and_then_Inr split: option.splits)
  from this[OF assms[unfolded version_assets_def]]
  show "map (\<lambda>a. (va_key a, va_binding a)) assets = filter (\<lambda>(k, b). map_of (ck_declared c) k \<noteq> None) (rv_assets (ck_revision c))"
    "list_all (\<lambda>a. db_objects db (ab_sha (va_binding a)) = Some (va_object a)) assets" by simp_all
qed

lemma check_revision_clear:
  assumes "check_revision L v n db = Inr c" "ck_blockers c = []" "ck_built c = Some b"
  shows "find_build db v n = Some b" "bu_status b = Succeeded" "find_revision db v n = Some (ck_revision c)"
    "ck_declared c = declarations_of L db (ck_revision c)"
    "list_all (\<lambda>(k, d). ad_optional d \<or> map_of (rv_assets (ck_revision c)) k \<noteq> None) (ck_declared c)"
  using assms by (auto simp: check_revision_def Let_def list_all_iff filter_empty_conv split: option.splits if_splits)

lemma requirements_from:
  "version_requirements prof a = Inr rq \<Longrightarrow> requirements_ok rq \<and> bf_keyboard a = Some (re_keyboard rq)
     \<and> bf_hover a = Some (re_hover rq) \<and> bf_press a = Some (re_press rq)"
  by (auto simp: version_requirements_def Let_def split: if_splits option.splits)

lemma artifacts_from:
  "frozen_artifacts a = Inr fz \<Longrightarrow> bf_server a = Some (fz_server fz) \<and> bf_client a = Some (fz_client fz) \<and> bf_manifest a = fz_manifest fz
     \<and> fz_manifest fz \<noteq> [] \<and> bf_aspect a = Some (fz_aspect fz) \<and> bf_languages a = fz_languages fz \<and> fz_languages fz \<noteq> []"
  by (auto simp: frozen_artifacts_def split: if_splits option.splits)

lemma declared_delivered:
  assumes "list_all (\<lambda>(k, d). ad_optional d \<or> map_of as k \<noteq> None) ds" "map (\<lambda>a. (va_key a, va_binding a)) xs = filter (\<lambda>(k, b). map_of ds k \<noteq> None) as"
  shows "list_all (\<lambda>(k, d). ad_optional d \<or> k \<in> va_key ` set xs) ds"
proof -
  have "k \<in> va_key ` set xs" if kd: "(k, d) \<in> set ds" and bound: "map_of as k \<noteq> None" for k d
  proof -
    obtain b where "(k, b) \<in> set as" using bound by (auto dest: map_of_SomeD)
    moreover have "map_of ds k \<noteq> None" using weak_map_of_SomeI[OF kd] by auto
    ultimately have "(k, b) \<in> set (map (\<lambda>a. (va_key a, va_binding a)) xs)" unfolding assms(2) by simp
    then show ?thesis by auto
  qed
  then show ?thesis using assms(1) by (fastforce simp: list_all_iff)
qed

text \<open>
  C25: a version is frozen only as it was built and checked. When freezing answers that it froze revision \<open>n\<close> and
  the row it read is still the version's, that row is a DRAFT at revision \<open>n\<close>, whose build succeeded; the version
  is then executable with exactly that build's script, client, manifest, aspect ratio and languages, all of them
  there, with the input requirements it measured and the devices that follow from them, and with one asset for
  each key the revision declares and binds, each registered object the binding's and no required key left out;
  and it is the game's current version. Any other answer changes nothing but the game's own row.
\<close>

theorem freeze_exact:
  assumes "freeze_in_tx L g v n row db = Inr (res, db')" "db_versions db v = Some row"
  shows "if fr_outcome res = Frozen_now
    then vn_game row = g \<and> vn_status row = Draft \<and> vn_current row = Some n
      \<and> (\<exists>b r fz. find_build db v n = Some b \<and> bu_status b = Succeeded \<and> find_revision db v n = Some r \<and> delivers L db b r fz
          \<and> db_versions db' = (db_versions db)(v \<mapsto> row\<lparr>vn_status := Executable, vn_frozen := Some fz\<rparr>) \<and> db_games db' g = Some (Some v))
    else db' = lock_game g db"
proof (cases "fr_outcome res = Frozen_now")
  case False
  then show ?thesis using assms(1)
    by (auto simp: freeze_in_tx_def Let_def and_then_Inr case_changed split: version_status.splits option.splits if_splits list.splits)
next
  case True
  let ?db = "lock_game g db"
  obtain c b fz assets rq where s: "vn_game row = g" "vn_status row = Draft" "vn_current row = Some n" "check_revision L v n ?db = Inr c"
    "ck_blockers c = []" "ck_built c = Some b" "frozen_artifacts (bu_artifacts b) = Inr fz" "fst (freeze_row v Draft Executable fz ?db)"
    "version_assets c (snd (freeze_row v Draft Executable fz ?db)) = Inr assets"
    "version_requirements (vn_profile row) (bu_artifacts b) = Inr rq" "list_all valid_language (fz_languages fz)"
    "db' = set_current_version g v (create_requirements v rq (create_version_assets v assets (snd (freeze_row v Draft Executable fz ?db))))"
    using assms(1) True
    by (auto simp: freeze_in_tx_def Let_def and_then_Inr case_changed frozen_languages_def current_of_def
        split: version_status.splits option.splits if_splits list.splits)
  let ?fz = "fz\<lparr>fz_assets := assets, fz_requirements := Some rq\<rparr>"
  obtain db1 where d: "freeze_row v Draft Executable ?fz ?db = (True, db1)" "db' = set_current_version g v db1"
    using frozen_as_rows[OF s(8), where g = g and assets = assets and r = rq] by (auto simp: frozen_as_def s(12))
  have v': "db_versions db' = (db_versions db)(v \<mapsto> row\<lparr>vn_status := Executable, vn_frozen := Some ?fz\<rparr>)" "db_games db' g = Some (Some v)"
    using d assms(2) s(2) by (auto simp: freeze_row_def set_current_version_def)
  have eq: "find_build ?db = find_build db" "find_revision ?db = find_revision db" "declarations_of L ?db = declarations_of L db"
    by (simp_all only: fun_eq_iff find_build_def find_revision_def declarations_of_def lock_game_fields simp_thms)
  note c = check_revision_clear[OF s(4-6), unfolded eq]
  have o': "db_objects (snd (freeze_row v Draft Executable fz ?db)) = db_objects db"
    by (simp add: freeze_row_def lock_game_def split: option.split)
  note rows = version_assets_rows[OF s(9), unfolded o' c(4)]
  have "delivers L db b (ck_revision c) ?fz"
    using artifacts_from[OF s(7)] requirements_from[OF s(10)] rows declared_delivered[OF c(5)[unfolded c(4)] rows(1)] s(11)
    by (simp add: delivers_def)
  then show ?thesis using True s(1-3) c(1-3) v' by auto
qed

theorem freeze_exact_witness:
  "\<exists>(L :: int libraries) db row (db' :: database) b r fz. db_versions db ''draft'' = Some row \<and> find_build db ''draft'' 1 = Some b \<and> bu_status b = Succeeded
     \<and> find_revision db ''draft'' 1 = Some r \<and> delivers L db b r fz
     \<and> db_versions db' = (db_versions db)(''draft'' \<mapsto> row\<lparr>vn_status := Executable, vn_frozen := Some fz\<rparr>)"
proof -
  obtain row db4 fair db7 where m: "db_versions db4 ''draft'' = Some row"
    "freeze_in_tx race_libraries ''game'' ''draft'' 1 row db4 = Inr (fair, db7)" "fr_outcome fair = Frozen_now"
    using race_moments by (elim exE conjE)
  show ?thesis using freeze_exact[OF m(2,1)] m(1,3) by auto blast
qed

lemma draft_steps_trans: "draft_steps L template s1 s2 \<Longrightarrow> draft_steps L template s s1 \<Longrightarrow> draft_steps L template s s2"
  by (induction rule: draft_steps.induct) (auto intro: one_more)

text \<open>
  C39: a freeze does not stop a change that commits between its read of the version's row and its update, which
  checks the status alone. Some reachable database has a version that is executable, at revision 2, whose build is
  still queued, delivered with the script of the build of revision 1: its current revision was never built nor
  checked. The two revisions differ, and an edition of the version starts from the second.
\<close>

theorem frozen_past_its_build:
  "\<exists>s row fz. draft_reachable race_libraries sample_template s \<and> db_versions (sy_db s) ''draft'' = Some row
     \<and> vn_status row = Executable \<and> vn_current row = Some 2 \<and> vn_frozen row = Some fz
     \<and> map_option (\<lambda>b. (bu_status b, bf_server (bu_artifacts b))) (find_build (sy_db s) ''draft'' 1) = Some (Succeeded, Some (fz_server fz))
     \<and> map_option (\<lambda>b. (bu_status b, bf_server (bu_artifacts b))) (find_build (sy_db s) ''draft'' 2) = Some (Queued, None)
     \<and> find_revision (sy_db s) ''draft'' 1 \<noteq> find_revision (sy_db s) ''draft'' 2
     \<and> map_option fst (case first_revision race_libraries sample_template (vn_game row) ''draft'' (sy_db s) of Inr x \<Rightarrow> Some x | Inl e \<Rightarrow> None)
         = find_revision (sy_db s) ''draft'' 2"
proof -
  obtain row5 db5 db6 a row fz where m: "draft_reachable race_libraries sample_template (race_before row5 db5)"
    "draft_steps race_libraries sample_template (race_before row5 db5) (started db6)"
    and v: "db_versions db6 ''draft'' = Some row" "vn_status row = Executable" "vn_current row = Some 2" "vn_frozen row = Some fz"
    and b: "map_option (\<lambda>b. (bu_status b, bf_server (bu_artifacts b))) (find_build db6 ''draft'' 1) = Some (Succeeded, Some (fz_server fz))"
    "map_option (\<lambda>b. (bu_status b, bf_server (bu_artifacts b))) (find_build db6 ''draft'' 2) = Some (Queued, None)"
    and n: "map_option (\<lambda>r. length (rv_files r)) (find_revision db6 ''draft'' 1) = Some 3"
    "map_option (\<lambda>r. length (rv_files r)) (find_revision db6 ''draft'' 2) = Some 4"
    using race_facts by (elim exE conjE)
  have "draft_reachable race_libraries sample_template (started db6)"
    using m draft_steps_trans unfolding draft_reachable_def by blast
  moreover have d: "find_revision db6 ''draft'' 1 \<noteq> find_revision db6 ''draft'' 2"
  proof
    assume eq: "find_revision db6 ''draft'' 1 = find_revision db6 ''draft'' 2"
    show False using n unfolding eq by simp
  qed
  moreover obtain r where "find_revision db6 ''draft'' 2 = Some r" using n(2) by auto
  then have "map_option fst (case first_revision race_libraries sample_template (vn_game row) ''draft'' db6 of Inr x \<Rightarrow> Some x | Inl e \<Rightarrow> None)
      = find_revision db6 ''draft'' 2"
    using v by (simp add: first_revision_def Let_def find_version_def)
  ultimately show ?thesis using v b by (intro exI[of _ "started db6"] exI[of _ row] exI[of _ fz]) (simp only: started_db simp_thms)
qed

end
