(* ===== verification/Spec2Isabelle.thy ===== *)
theory Spec2Isabelle
  imports RateLimit JsonPatch ViewPatch BoundaryPlan ReplayRecording GameManifest ScriptAccepted LiveLobby LiveAcks LiveCalls DraftProps
begin

text \<open>
  A verification development for playhoot, a service on which people author multiplayer games and play them
  live. The development models the parts with the rules of its own: playing a game live, recording its
  replay, the scripts and manifests of a game version, and authoring a version until it is frozen. All paths
  are under \<open>src/\<close>.

  \<^bold>\<open>How the parts interact.\<close> An owner changes a draft by revisions (\<open>DraftSteps\<close>); every revision is
  built by a worker (\<open>DraftBuilds\<close>), which asks the script checker (\<open>ScriptValidate\<close>) and the manifest
  parser (\<open>GameManifest\<close>) about what the toolchain produced; freezing makes the built revision an executable
  version. A Session of a version is played by a live controller (\<open>LiveState\<close> to \<open>LiveController\<close>): it
  queues what the players send, decides it with the inputs and commands of the manifest (\<open>Inputs\<close>,
  \<open>GameManifest\<close>), takes boundaries of it by \<open>BoundaryPlan\<close>, runs them in the sandbox, sends views as patches
  (\<open>ViewPatch\<close>) over connections (\<open>LiveConnection\<close>), and hands the ticks to a recording (\<open>ReplayRecording\<close>),
  which packs state deltas (\<open>JsonPatch\<close>) into chunks (\<open>ReplayChunk\<close>). \<open>RateLimit\<close> bounds what a connection
  may send.

  \<^bold>\<open>Conventions.\<close> \<open>Prelude\<close> says how Go values are written: strings and bytes are lists of 8-bit characters,
  times and durations integers of nanoseconds with the wrap-around of 64 bits written out where the code adds
  or multiplies durations, errors the left of a sum or \<open>None\<close>. A struct is a record with its fields, an
  enumeration a datatype whose last constructor, where the code can read any text, is the text it does not know.
  Methods that change a struct return it changed. \<open>GoStrings\<close>, \<open>GoText\<close> and \<open>GoJson\<close> hold what the code uses
  of \<open>strconv\<close>, \<open>strings\<close>, \<open>path\<close>, \<open>utf8\<close> and \<open>encoding/json\<close>, with their own lemmas.

  \<^bold>\<open>Theories, in the order of the components.\<close>

  \<^item> \<open>RateLimit\<close>: \<open>utils/ratelimit\<close>. A bucket keeps the time it is full again. Over any sequence of calls
    the events let through within a span are bounded (proved in the locale \<open>refilling\<close>, of a level that only
    rises), a refusal changes nothing and says when to call again, and a keyed limiter that sweeps its keys
    answers as one that never does.
  \<^item> \<open>JsonPatch\<close>: \<open>play/runtime/internal/business/jsonpatch\<close>. Documents are JSON values with sorted objects,
    a number is its text. The difference of two documents applied to the first gives the second, and the
    locale \<open>patch_codec\<close> states what the recorder of a history relies on.
  \<^item> \<open>ViewPatch\<close>: \<open>play/runtime/internal/business/viewpatch\<close>, against the merge a browser does.
  \<^item> \<open>BoundaryPlan\<close>: \<open>play/runtime/internal/business/boundaryplan\<close>. The bounds of a plan, and that the batch
    built from it calls each operation once, in order, with times that never go back.
  \<^item> \<open>ReplayChunk\<close>, \<open>ReplayRecording\<close>: \<open>play/runtime/replay\<close> and \<open>play/runtime/workflows/replayrecording\<close>.
    A chunk decodes to what was encoded; whatever attempts to store fail, what is stored followed by what waits
    is what was recorded, and the ending is stored once, in a final chunk.
  \<^item> \<open>Inputs\<close>, \<open>GameManifest\<close>: \<open>play/internal/business/inputs\<close> and \<open>commands\<close>,
    \<open>play/session/internal/business/manifest\<close>, \<open>play/runtime/internal/business/gamemanifest\<close>. Which samples are
    accepted, that normalizing one gives every declared input a value, and that a manifest the version stored
    compiles to the rules a live controller reads.
  \<^item> \<open>ScriptAst\<close>, \<open>ScriptScope\<close>, \<open>ScriptCheck\<close>, \<open>ScriptValidate\<close>: \<open>play/runtime/sandbox/scriptcheck\<close>. The
    bindings are a store of addresses, the walk over the tree ends by a measure of it, and the loop of passes is a
    \<open>partial_function (option)\<close>. \<open>ScriptWalk\<close> proves once, in the locale \<open>walk_invariant\<close>, what every walk
    keeps; \<open>ScriptNodes\<close>, \<open>ScriptFixpoint\<close> and \<open>ScriptStable\<close> prove that the passes end and that the last one is
    a fixed point; \<open>ScriptAccepted\<close> says what an accepted script is.
  \<^item> \<open>LiveConnection\<close>, \<open>LiveState\<close>, \<open>LivePlayers\<close>, \<open>LiveBoundary\<close>, \<open>LiveController\<close>:
    \<open>play/runtime/workflows/liveconnection\<close>. The controller is one record, a request a constructor, and a turn
    (\<open>turn\<close>) a request handled under the lock or an iteration of the boundary loop, with the answers of the
    sandbox, the recorder and the database as arguments: every reachable state is a state after a list of
    turns. \<open>LiveTimeline\<close>, \<open>LiveFrames\<close>, \<open>LiveTurns\<close>, \<open>LiveKept\<close> hold the lemmas about one operation or one turn;
    \<open>LiveQueue\<close> (what is accepted is executed once, in order, and its counters), \<open>LiveAcks\<close> (acknowledgements),
    \<open>LiveCalls\<close> (every request that waits is answered) and \<open>LiveLobby\<close> (lobby and roster) the invariants;
    \<open>LiveSamples\<close> a small game for the witnesses.
  \<^item> \<open>ScenarioDoc\<close>: \<open>play/internal/business/scenariodoc\<close>. What a scenario that decodes is.
  \<^item> \<open>GameVersion\<close>: \<open>play/session/internal/business/gameversion\<close> and
    \<open>play/internal/business/inputrequirements\<close>.
  \<^item> \<open>DraftSources\<close>, \<open>DraftChange\<close>, \<open>DraftEdits\<close>: \<open>play/session/internal/business/draftsources\<close>. A change applies
    exactly when declarative rules allow it, and edits amount to applying them one by one.
  \<^item> \<open>DraftStore\<close>, \<open>DraftSteps\<close>, \<open>DraftBuilds\<close>: the tables of versions, revisions, attempts, builds and
    objects, with the statements over them, and the operations of
    \<open>play/session/workflows/versiondrafting\<close> and \<open>versionbuilding\<close> over these.
  \<^item> \<open>DraftSystem\<close>: those operations as interleaved transactions at Read Committed, an inductive step
    relation. A transaction reads its version's row in one step and decides, writes and commits in another; the
    theory says why no behaviour is lost. Freezing reads without a lock and is two steps for that reason.
    \<open>DraftKept\<close>, \<open>DraftMade\<close>, \<open>DraftCommit\<close>, \<open>DraftRequests\<close> and \<open>DraftHistory\<close> prove the invariant of every
    reachable database, \<open>DraftRace\<close> runs the system on a small game, and \<open>DraftProps\<close> holds the properties.

  \<^bold>\<open>Bounds and fuel.\<close> The loops \<open>run_all\<close> (the build worker) and \<open>settle\<close> (the passes of the script checker) are
  partial functions, and both are proved to return. No definition takes fuel. An asset's upload tries three times (\<open>max_revision_races\<close>, the code's own
  constant). All other functions are total by their recursion.

  \<^bold>\<open>Parameters.\<close> What is not the repository's code is an argument, with the documented behaviour a property needs
  of it as a hypothesis of that property, and a witness in which it is a concrete function: the JavaScript
  parser, which gives a syntax tree or an error; floating point numbers (\<open>float_ops\<close>, \<open>number_ops\<close>) as
  \<open>strconv\<close> and \<open>encoding/json\<close> read, write and compare them; SHA-256; the zstd codec; the media type sniffer
  of \<open>net/http\<close>; parsing a UUID; the size of a JSON text; the game toolchain, the object store and the
  template of a new project; in the live controller the answers of the sandbox.

  \<^bold>\<open>What the development found.\<close> Some theorems state behaviour the code does not intend: a limiter lets through more
  than its comment says (\<open>RateLimit\<close>); a view field that appears with the value null is not sent, so patches
  merge only under a hypothesis (\<open>ViewPatch\<close>); the checker does not visit default values (\<open>ScriptAccepted\<close>); a
  change committed during a freeze leaves a version at a revision that was never built (\<open>DraftProps\<close>).

  \<^bold>\<open>Not modelled.\<close>
  \<^item> The sandbox host and its worker protocol, the JavaScript engine vendored under \<open>third_party\<close>, the toolchain's
    process and the clients of the object store: operating system processes and external services.
  \<^item> Goroutines, channels and tickers themselves. Where their interleaving matters it is a list of
    turns or a step relation over the state they share; what a select drops or a timer fires is a turn of its own.
  \<^item> In the live controller the orchestration of start, recovery and checkpointing around the modelled
    decisions, previews and the pausing of their clock.
  \<^item> The loop that simulates a scenario: its parts (scenario, inputs, plans, expectations) are modelled, and
    the loop calls the sandbox at every boundary.
  \<^item> Reads of drafts shaped for an answer (pages, unified diffs, signed addresses), cleaning unused objects.
  \<^item> The domains of Game Management and Identity, the HTTP, MCP and OAuth handlers, composition of the
    domains, migrations and seeds, logging, metrics, and the process: single statements, transport or wiring,
    or rules that rest on secrets and external providers. They are listed with their reasons in the manifest.
\<close>

end
